(* ===== verification/Go_Prelude.thy ===== *)
theory Go_Prelude
  imports Main "HOL-Library.Word" "HOL-Library.Multiset" "HOL-Library.List_Lexorder"
    "HOL-Library.Char_ord"
begin

text \<open>
  What the components share: the part of Go's standard library and semantics the sources rely on
  (time stamps and durations, the order in which a map is ranged over, slicing, \<open>sort\<close>,
  64-bit wrap-around) and the generic lemmas on lists, options and maps. Strings are byte
  strings, ordered lexicographically as Go's \<open><\<close> does
  (\<open>List_Lexorder\<close> over \<open>Char_ord\<close>).
\<close>

section \<open>Collections of facts\<close>

named_theorems go_simps \<open>unfolding of the small operations of Go's standard library\<close>
named_theorems store_simps \<open>what a lookup returns after an operation of a store\<close>
named_theorems inv_intros \<open>every operation keeps the invariant of its component\<close>

section \<open>Time\<close>

text \<open>
  A \<open>time.Time\<close> is a count of nanoseconds since the Unix epoch and a \<open>time.Duration\<close> a count
  of nanoseconds. \<open>Time.Sub\<close> (and \<open>time.Since\<close>) saturates at the bounds of a 64-bit duration.
  The zero value of \<open>time.Time\<close> is the first of January of the year 1.
\<close>

type_synonym time = int
type_synonym duration = int

definition millisecond :: duration where [go_simps]: "millisecond = 1000000"
definition second :: duration where [go_simps]: "second = 1000000000"
definition minute :: duration where [go_simps]: "minute = 60000000000"
definition hour :: duration where [go_simps]: "hour = 3600000000000"

definition zero_time :: time where "zero_time = - 62135596800000000000"

definition time_sub :: "time \<Rightarrow> time \<Rightarrow> duration" where
  "time_sub t u = max (- (2 ^ 63)) (min (2 ^ 63 - 1) (t - u))"

text \<open>The saturation is invisible to the comparisons the code makes.\<close>

lemma time_sub_greater [simp]:
  "- (2 ^ 63) \<le> d \<Longrightarrow> d < 2 ^ 63 - 1 \<Longrightarrow> d < time_sub t u \<longleftrightarrow> d < t - u"
  by (auto simp: time_sub_def)

text \<open>Two's complement wrap-around of a signed 64-bit result.\<close>

definition int64 :: "int \<Rightarrow> int" where
  "int64 x = (x + 2 ^ 63) mod 2 ^ 64 - 2 ^ 63"

lemma int64_bounds: "- (2 ^ 63) \<le> int64 x \<and> int64 x < 2 ^ 63"
proof -
  have "0 \<le> (x + 2 ^ 63) mod 2 ^ 64" and "(x + 2 ^ 63) mod 2 ^ 64 < 2 ^ 64"
    by simp_all
  then show ?thesis unfolding int64_def by simp
qed

lemma int64_id [simp]: "- (2 ^ 63) \<le> x \<Longrightarrow> x < 2 ^ 63 \<Longrightarrow> int64 x = x"
  by (simp add: int64_def)

text \<open>Go's integer division truncates towards zero.\<close>

definition go_div :: "int \<Rightarrow> int \<Rightarrow> int" where
  "go_div a b = sgn a * sgn b * (\<bar>a\<bar> div \<bar>b\<bar>)"

lemma go_div_nonneg [simp]: "0 \<le> a \<Longrightarrow> 0 < b \<Longrightarrow> go_div a b = a div b"
  by (cases "a = 0") (simp_all add: go_div_def)

section \<open>Maps and the order they are ranged over\<close>

text \<open>
  Ranging over a Go map visits every key once, in an order that the language leaves open. An
  operation that ranges over a map takes that order as an argument; the theorems hold for
  every admissible one.
\<close>

definition range_order :: "('k \<rightharpoonup> 'v) \<Rightarrow> 'k list \<Rightarrow> bool" where
  "range_order m ks \<longleftrightarrow> distinct ks \<and> set ks = dom m"

lemma range_order_distinct [dest]: "range_order m ks \<Longrightarrow> distinct ks"
  by (simp add: range_order_def)

lemma range_order_set: "range_order m ks \<Longrightarrow> set ks = dom m"
  by (simp add: range_order_def)

lemma range_order_mset: "range_order m ks \<Longrightarrow> range_order m ks' \<Longrightarrow> mset ks = mset ks'"
  by (metis range_order_def set_eq_iff_mset_eq_distinct)

lemma range_order_empty [simp]: "range_order Map.empty ks \<longleftrightarrow> ks = []"
  by (auto simp: range_order_def)

lemma range_order_upd_new:
  "range_order m ks \<Longrightarrow> m k = None \<Longrightarrow> range_order (m(k \<mapsto> v)) (ks @ [k])"
  by (auto simp: range_order_def)

lemma range_order_upd_old:
  "range_order m ks \<Longrightarrow> m k \<noteq> None \<Longrightarrow> range_order (m(k \<mapsto> v)) ks"
  by (auto simp: range_order_def)

lemma range_order_the: "range_order m ks \<Longrightarrow> k \<in> set ks \<Longrightarrow> m k = Some (the (m k))"
  by (auto simp: range_order_def)

section \<open>Slices and sorting\<close>

text \<open>\<open>if len(s) > n { s = s[:n] }\<close>\<close>

definition limit_to :: "nat \<Rightarrow> 'a list \<Rightarrow> 'a list" where
  "limit_to n xs = (if length xs > n then take n xs else xs)"

lemma limit_to_take: "limit_to n xs = take n xs"
  by (simp add: limit_to_def)

lemma take_append_exact: "length xs = n \<Longrightarrow> take n (xs @ ys) = xs"
  by simp

lemma length_limit_to: "length (limit_to n xs) \<le> n"
  by (simp add: limit_to_take)

lemma set_limit_to: "set (limit_to n xs) \<subseteq> set xs"
  by (simp add: limit_to_take set_take_subset)

lemma distinct_map_limit_to: "distinct (map f xs) \<Longrightarrow> distinct (map f (limit_to n xs))"
  by (simp add: limit_to_take flip: take_map)

text \<open>
  \<open>sort.Slice\<close> with the comparison of a key leaves some permutation of the slice whose keys
  ascend; it is not stable. Where the keys differ there is exactly one such permutation, the
  one \<^const>\<open>sort_key\<close> computes.
\<close>

lemma sort_slice_unique:
  "mset ys = mset xs \<Longrightarrow> sorted (map f ys) \<Longrightarrow> inj_on f (set xs) \<Longrightarrow> ys = sort_key f xs"
  by (metis sort_key_inj_key_eq)

lemma sort_key_mset_cong:
  "mset xs = mset ys \<Longrightarrow> inj_on f (set xs) \<Longrightarrow> sort_key f xs = sort_key f ys"
  by (rule sort_key_inj_key_eq) simp_all

lemma insort_key_agree:
  "f x = g x \<Longrightarrow> \<forall>y\<in>set ys. f y = g y \<Longrightarrow> insort_key f x ys = insort_key g x ys"
  by (induction ys) auto

lemma sort_key_agree: "\<forall>x\<in>set xs. f x = g x \<Longrightarrow> sort_key f xs = sort_key g xs"
  by (induction xs) (auto intro: insort_key_agree)

lemma inj_on_key: "distinct (map f xs) \<Longrightarrow> inj g \<Longrightarrow> inj_on (\<lambda>x. g (f x)) (set xs)"
  by (auto simp: distinct_map inj_on_def inj_def)

lemma distinct_map_sort_key: "distinct (map g (sort_key f xs)) = distinct (map g xs)"
proof -
  have "mset (map g (sort_key f xs)) = mset (map g xs)" by simp
  then show ?thesis by (metis mset_eq_imp_distinct_iff)
qed

lemma distinct_map_filter': "distinct (map f xs) \<Longrightarrow> distinct (map f (filter P xs))"
  by (simp add: distinct_map_filter)

section \<open>Loops that stop at the first failure or duplicate\<close>

text \<open>
  The shape of the validation loops: \<open>for _, x := range xs\<close>, return the error of the element's
  own check, return \<open>dup\<close> if its key was seen before, otherwise mark the key as seen.
  \<^const>\<open>None\<close> is Go's nil error.
\<close>

fun check_each :: "('a \<Rightarrow> 'e option) \<Rightarrow> ('a \<Rightarrow> 'k) \<Rightarrow> 'e \<Rightarrow> 'k set \<Rightarrow> 'a list \<Rightarrow> 'e option" where
  "check_each chk key dup seen [] = None"
| "check_each chk key dup seen (x # xs) =
     (case chk x of
        Some e \<Rightarrow> Some e
      | None \<Rightarrow> if key x \<in> seen then Some dup
                else check_each chk key dup (insert (key x) seen) xs)"

lemma check_each_None:
  "check_each chk key dup seen xs = None \<longleftrightarrow>
     (\<forall>x\<in>set xs. chk x = None) \<and> distinct (map key xs) \<and> key ` set xs \<inter> seen = {}"
  by (induction xs arbitrary: seen) (auto split: option.splits)

section \<open>Counting list elements\<close>

lemma count_list_distinct: "distinct xs \<Longrightarrow> count_list xs k = (if k \<in> set xs then 1 else 0)"
  by (induction xs) auto

lemma Max_insert_max:
  "finite A \<Longrightarrow> Max (insert (max a b) A) = max b (Max (insert (a :: 'a :: linorder) A))"
  by (cases "A = {}") (simp_all add: ac_simps)

lemma filter_pigeonhole:
  assumes "length (filter P xs) > length (filter Q xs)"
  shows "\<exists>x\<in>set xs. P x \<and> \<not> Q x"
proof (rule ccontr)
  assume "\<not> ?thesis"
  then have imp: "\<forall>x\<in>set xs. P x \<longrightarrow> Q x" by blast
  then have "length (filter P xs) \<le> length (filter Q xs)"
    by (induction xs) auto
  with assms show False by simp
qed

lemma length_filter_all: "length xs = length (filter P xs) \<longleftrightarrow> (\<forall>x\<in>set xs. P x)"
  by (metis filter_id_conv length_filter_less less_irrefl)

section \<open>Strings\<close>

text \<open>\<open>strings.Join\<close>\<close>

fun strings_Join :: "string \<Rightarrow> string list \<Rightarrow> string" where
  "strings_Join sep [] = []"
| "strings_Join sep [s] = s"
| "strings_Join sep (s # t # ts) = s @ sep @ strings_Join sep (t # ts)"

end
