(* ===== verification/Automation_Types.thy ===== *)
theory Automation_Types
  imports Go_Prelude
begin

text \<open>
  The data the nodes exchange and store. The structs are those of the \<open>automation\<close> package of
  chainlink-common with the fields the sources of this repository read or write; the functions
  of that package (\<open>UniqueID\<close>, \<open>UpkeepIdentifier.String\<close>, \<open>IsEmpty\<close>, the encoders) are
  parameters of the definitions that call them. A \<open>[32]byte\<close> is a 256-bit word read big-endian,
  so that Go's lexicographic comparison of the bytes is the comparison of the words. A pointer
  that may be nil is an option.
\<close>

type_synonym bytes = string
type_synonym WorkID = string
type_synonym BlockNumber = "64 word"
type_synonym BlockHash = "256 word"
type_synonym UpkeepIdentifier = "256 word"

text \<open>\<open>type UpkeepType uint8\<close>: any byte is a value; two of them are named.\<close>

type_synonym UpkeepType = "8 word"

definition ConditionTrigger :: UpkeepType where [simp]: "ConditionTrigger = 0"
definition LogTrigger :: UpkeepType where [simp]: "LogTrigger = 1"

record LogTriggerExtension =
  lte_TxHash :: BlockHash
  lte_Index :: "32 word"
  lte_BlockHash :: BlockHash
  lte_BlockNumber :: BlockNumber

record Trigger =
  tr_BlockNumber :: BlockNumber
  tr_BlockHash :: BlockHash
  tr_LogTriggerExtension :: "LogTriggerExtension option"

record CheckResult =
  cr_PipelineExecutionState :: "8 word"
  cr_Retryable :: bool
  cr_Eligible :: bool
  cr_IneligibilityReason :: "8 word"
  cr_UpkeepID :: UpkeepIdentifier
  cr_Trigger :: Trigger
  cr_WorkID :: WorkID
  cr_GasAllocated :: "64 word"
  cr_PerformData :: bytes
  cr_FastGasWei :: "int option"
  cr_LinkNative :: "int option"
  cr_RetryInterval :: duration

record UpkeepPayload =
  up_UpkeepID :: UpkeepIdentifier
  up_Trigger :: Trigger
  up_WorkID :: WorkID
  up_CheckData :: bytes

record CoordinatedBlockProposal =
  cbp_UpkeepID :: UpkeepIdentifier
  cbp_Trigger :: Trigger
  cbp_WorkID :: WorkID

record ReportedUpkeep =
  ru_UpkeepID :: UpkeepIdentifier
  ru_Trigger :: Trigger
  ru_WorkID :: WorkID

text \<open>
  The event types of a transmit event; the code only ever asks whether one is a
  \<open>PerformEvent\<close>. The zero value is an event type the code never reads.
\<close>

datatype TransmitEventType = PerformEvent | OtherEvent nat

record TransmitEvent =
  te_Type :: TransmitEventType
  te_TransmitBlock :: BlockNumber
  te_Confirmations :: int
  te_TransactionHash :: BlockHash
  te_UpkeepID :: UpkeepIdentifier
  te_WorkID :: WorkID
  te_CheckBlock :: BlockNumber

text \<open>
  A block key is comparable in Go and is used as a map key; \<open>getLatestQuorumBlock\<close> orders two
  keys by number and, at the same height, by hash. That order is the type's \<open>linorder\<close>.
\<close>

datatype BlockKey = BlockKey (bk_Number: BlockNumber) (bk_Hash: BlockHash)

instantiation BlockKey :: linorder
begin
definition less_eq_BlockKey :: "BlockKey \<Rightarrow> BlockKey \<Rightarrow> bool" where
  "less_eq_BlockKey a b \<longleftrightarrow>
     bk_Number a < bk_Number b \<or> bk_Number a = bk_Number b \<and> bk_Hash a \<le> bk_Hash b"
definition less_BlockKey :: "BlockKey \<Rightarrow> BlockKey \<Rightarrow> bool" where
  "less_BlockKey a b \<longleftrightarrow>
     bk_Number a < bk_Number b \<or> bk_Number a = bk_Number b \<and> bk_Hash a < bk_Hash b"
instance
  by standard (auto simp: less_eq_BlockKey_def less_BlockKey_def BlockKey.expand)
end

type_synonym BlockHistory = "BlockKey list"

type_synonym UpkeepTypeGetter = "UpkeepIdentifier \<Rightarrow> UpkeepType"
type_synonym WorkIDGenerator = "UpkeepIdentifier \<Rightarrow> Trigger \<Rightarrow> WorkID"

text \<open>\<open>RetryRecord\<close> of \<open>types/basetypes.go\<close>\<close>

record RetryRecord =
  rr_Payload :: UpkeepPayload
  rr_Interval :: duration

section \<open>Errors\<close>

text \<open>
  Every error value the sources build, one constructor per message; \<open>External\<close> is an error
  returned by code outside this repository, \<open>Wrapped\<close> one that \<open>fmt.Errorf\<close> wraps, \<open>Joined\<close>
  what \<open>errors.Join\<close> makes of two errors.
  \<open>Panic\<close> is a run-time panic, \<open>ImplementationSpecific\<close> a result the language leaves open.
  \<open>Blocked\<close> is not an error of the source: it stands for a call that does not return until
  another goroutine takes a pending signal.
\<close>

datatype go_error =
    External string
  | Wrapped string go_error
  | Joined go_error go_error
  | BlockHistoryTooLong
  | DuplicateBlockNumbers
  | PerformablesTooLong
  | DuplicatePerformables
  | UpkeepProposalsTooLong
  | DuplicateProposals
  | TooManyConditionalProposals
  | TooManyLogProposals
  | FailedExecutionState
  | IneligibleResult
  | InvalidTrigger go_error
  | IncorrectWorkIDInResult
  | IncorrectWorkIDInProposal
  | ZeroGasAllocated
  | FastGasWeiMissing
  | FastGasWeiOutOfRange
  | LinkNativeMissing
  | LinkNativeOutOfRange
  | LogExtensionPresent
  | LogExtensionMissing
  | AgreedPerformablesTooLong
  | DuplicateAgreedPerformables
  | SurfacedRoundsTooLong
  | SurfacedRoundTooLong
  | ServiceAlreadyRunning
  | ServiceNotRunning
  | ProcessAlreadyRunning
  | ProcessNotRunning
  | EncodingFailure string go_error
  | UnrecognizedEvent nat
  | UnrecognizedTriggerType string
  | SimpleValueUnsupported
  | ReportAlreadyTransmitted
  | NoConfigFound
  | NotFound
  | NetRateLimitExceeded
  | NetLoadLimitExceeded
  | ImplementationSpecific
  | Panic string
  | Blocked

type_synonym 'a result = "go_error + 'a"

text \<open>\<open>errors.Join\<close> of two errors that may be nil\<close>

fun errors_Join :: "go_error option \<Rightarrow> go_error option \<Rightarrow> go_error option" where
  "errors_Join None e = e"
| "errors_Join (Some e) None = Some e"
| "errors_Join (Some e) (Some f) = Some (Joined e f)"

lemma errors_Join_None [simp]: "errors_Join a b = None \<longleftrightarrow> a = None \<and> b = None"
  by (cases "(a, b)" rule: errors_Join.cases) auto

section \<open>The view of a work id\<close>

text \<open>
  What a work id may not depend on: a proposal is re-bound to the quorum block, and the block
  number of its log is zeroed, without changing its work id. The sources state this of the
  work-id generator (\<open>observation.go\<close>, \<open>validateUpkeepProposal\<close>;
  \<open>coordinated_block_proposals.go\<close>, \<open>set\<close>).
\<close>

definition rebind :: "BlockKey \<Rightarrow> Trigger \<Rightarrow> Trigger" where
  "rebind b t = t\<lparr>tr_BlockNumber := bk_Number b, tr_BlockHash := bk_Hash b,
     tr_LogTriggerExtension :=
       map_option (lte_BlockNumber_update (\<lambda>_. 0)) (tr_LogTriggerExtension t)\<rparr>"

definition workID_ignores_block :: "WorkIDGenerator \<Rightarrow> bool" where
  "workID_ignores_block wg \<longleftrightarrow> (\<forall>u t b. wg u (rebind b t) = wg u t)"

lemma rebind_extension_None [simp]:
  "tr_LogTriggerExtension (rebind b t) = None \<longleftrightarrow> tr_LogTriggerExtension t = None"
  by (simp add: rebind_def)

lemma rebind_number [simp]: "tr_BlockNumber (rebind b t) = bk_Number b"
  by (simp add: rebind_def)

lemma rebind_hash [simp]: "tr_BlockHash (rebind b t) = bk_Hash b"
  by (simp add: rebind_def)

end
