(* ===== verification/Interfaces.thy ===== *)
theory Interfaces
  imports Automation_Types
begin

text \<open>
  The contracts several components share, each as a locale whose lemmas are proved once:
  a store that keeps the entry with the highest check block per work id (\<open>newest_wins\<close>:
  result store, proposal queue, coordinator, runner cache, the blocked identifiers of version 2), a tally of votes (\<open>tally\<close>: the
  performables and the recent blocks of an outcome), and a guarded start/close life cycle
  (\<open>lifecycle\<close>: closer, metadata store, runner).
\<close>

section \<open>Newest wins\<close>

locale newest_wins =
  fixes put :: "'e \<Rightarrow> 's \<Rightarrow> 's"
    and look :: "'s \<Rightarrow> 'k \<Rightarrow> ('b :: linorder) option"
    and key :: "'e \<Rightarrow> 'k"
    and blk :: "'e \<Rightarrow> 'b"
  assumes look_put:
    "look (put e s) =
       (case look s (key e) of
          None \<Rightarrow> (look s)(key e \<mapsto> blk e)
        | Some b \<Rightarrow> if b < blk e then (look s)(key e \<mapsto> blk e) else look s)"
begin

lemma look_put_other: "k \<noteq> key e \<Longrightarrow> look (put e s) k = look s k"
  by (simp add: look_put split: option.split)

lemma look_put_same:
  "look (put e s) (key e) =
     Some (case look s (key e) of None \<Rightarrow> blk e | Some b \<Rightarrow> max b (blk e))"
  by (auto simp: look_put max_def split: option.split)

lemma look_put_mono: "look s k = Some b \<Longrightarrow> \<exists>b'. look (put e s) k = Some b' \<and> b \<le> b'"
  by (cases "k = key e") (auto simp: look_put_other look_put_same)

lemma look_fold_mono: "look s k = Some b \<Longrightarrow> \<exists>b'. look (fold put es s) k = Some b' \<and> b \<le> b'"
proof (induction es arbitrary: s b)
  case Nil
  then show ?case by simp
next
  case (Cons e es)
  from look_put_mono [OF Cons.prems] obtain b1 where b1: "look (put e s) k = Some b1" "b \<le> b1"
    by blast
  from Cons.IH [OF b1(1)] b1(2) show ?case by force
qed

lemma look_fold_None: "look (fold put es s) k = None \<longleftrightarrow> look s k = None \<and> k \<notin> key ` set es"
proof (induction es arbitrary: s)
  case (Cons e es)
  show ?case
    using Cons.IH [of "put e s"]
    by (cases "k = key e") (auto simp: look_put_other look_put_same)
qed simp

lemma look_fold:
  "look (fold put es s) k =
     (let bs = (case look s k of None \<Rightarrow> [] | Some b \<Rightarrow> [b]) @ map blk (filter (\<lambda>e. key e = k) es)
      in if bs = [] then None else Some (Max (set bs)))"
proof (induction es arbitrary: s)
  case Nil
  then show ?case by (simp split: option.split)
next
  case (Cons e es)
  show ?case
  proof (cases "key e = k")
    case True
    then show ?thesis
      using Cons.IH [of "put e s"]
      by (auto simp: look_put_same Let_def Max_insert_max split: option.split)
  next
    case False
    then show ?thesis
      using Cons.IH [of "put e s"] by (simp add: look_put_other)
  qed
qed

lemma look_fold_order:
  assumes "mset es = mset es'"
  shows "look (fold put es s) = look (fold put es' s)"
proof
  fix k
  from assms have "mset (map blk (filter (\<lambda>e. key e = k) es)) =
      mset (map blk (filter (\<lambda>e. key e = k) es'))"
    by (simp add: mset_map mset_filter)
  then have eq: "set (map blk (filter (\<lambda>e. key e = k) es)) =
      set (map blk (filter (\<lambda>e. key e = k) es'))"
    by (rule mset_eq_setD)
  let ?pre = "case look s k of None \<Rightarrow> [] | Some b \<Rightarrow> [b]"
  have sets: "set (?pre @ map blk (filter (\<lambda>e. key e = k) es)) =
      set (?pre @ map blk (filter (\<lambda>e. key e = k) es'))"
    unfolding set_append eq ..
  then have "?pre @ map blk (filter (\<lambda>e. key e = k) es) = [] \<longleftrightarrow>
      ?pre @ map blk (filter (\<lambda>e. key e = k) es') = []"
    by (metis set_empty)
  with sets show "look (fold put es s) k = look (fold put es' s) k"
    unfolding look_fold Let_def by presburger
qed

lemma look_fold_ge: "e \<in> set es \<Longrightarrow> \<exists>b. look (fold put es s) (key e) = Some b \<and> blk e \<le> b"
  by (auto simp: look_fold Let_def filter_empty_conv split: option.splits)

end

section \<open>Tally\<close>

locale tally =
  fixes bump :: "'e \<Rightarrow> 't \<Rightarrow> 't"
    and votes :: "'t \<Rightarrow> 'k \<Rightarrow> int"
    and key :: "'e \<Rightarrow> 'k"
  assumes votes_bump: "votes (bump e t) = (votes t)(key e := votes t (key e) + 1)"
begin

lemma votes_fold: "votes (fold bump es t) k = votes t k + int (count_list (map key es) k)"
  by (induction es arbitrary: t) (auto simp: votes_bump)

lemma votes_ballots:
  "votes (fold (fold bump) bs t) k = votes t k + (\<Sum>b\<leftarrow>bs. int (count_list (map key b) k))"
  by (induction bs arbitrary: t) (auto simp: votes_fold)

lemma votes_single_ballots:
  assumes "\<And>b. b \<in> set bs \<Longrightarrow> distinct (map key b)"
  shows "votes (fold (fold bump) bs t) k =
    votes t k + int (length (filter (\<lambda>b. k \<in> key ` set b) bs))"
proof -
  have one: "count_list (map key b) k = (if k \<in> key ` set b then 1 else 0)" if "b \<in> set bs" for b
    using assms [OF that] by (simp add: count_list_distinct)
  have "(\<Sum>b\<leftarrow>bs. int (count_list (map key b) k)) =
      int (length (filter (\<lambda>b. k \<in> key ` set b) bs))"
    using one by (induction bs) auto
  then show ?thesis by (simp add: votes_ballots)
qed

text \<open>A key with more votes than there are faulty voters was voted for by a correct one.\<close>

lemma quorum_has_correct_voter:
  assumes "\<And>b. b \<in> set (map snd bs) \<Longrightarrow> distinct (map key b)"
    and "votes t k = 0"
    and "int f < votes (fold (fold bump) (map snd bs) t) k"
    and "length (filter (\<lambda>b. faulty (fst b)) bs) \<le> f"
  shows "\<exists>b\<in>set bs. \<not> faulty (fst b) \<and> k \<in> key ` set (snd b)"
proof -
  have "int f < int (length (filter (\<lambda>b. k \<in> key ` set b) (map snd bs)))"
    using assms(2,3) votes_single_ballots [of "map snd bs" t k, OF assms(1)] by simp
  then have "length (filter (\<lambda>b. faulty (fst b)) bs) <
      length (filter (\<lambda>b. k \<in> key ` set (snd b)) bs)"
    using assms(4) by (simp add: filter_map o_def)
  from filter_pigeonhole [OF this] show ?thesis by blast
qed

end

section \<open>Life cycle\<close>

text \<open>
  A service that refuses to start twice and to close when it does not run; the error is the
  service's own.
\<close>

locale lifecycle =
  fixes start :: "'s \<Rightarrow> 'e + 's"
    and close :: "'s \<Rightarrow> 'e + 's"
    and running :: "'s \<Rightarrow> bool"
  assumes start_running: "running s \<Longrightarrow> \<exists>e. start s = Inl e"
    and start_stopped: "\<not> running s \<Longrightarrow> \<exists>s'. start s = Inr s' \<and> running s'"
    and close_stopped: "\<not> running s \<Longrightarrow> \<exists>e. close s = Inl e"
    and close_running: "close s = Inr s' \<Longrightarrow> running s \<and> \<not> running s'"
begin

lemma start_twice: "start s = Inr s' \<Longrightarrow> \<exists>e. start s' = Inl e"
  by (metis Inl_Inr_False Inr_inject start_running start_stopped)

lemma close_twice: "close s = Inr s' \<Longrightarrow> \<exists>e. close s' = Inl e"
  using close_running close_stopped by blast

lemma restart: "close s = Inr s' \<Longrightarrow> \<exists>s''. start s' = Inr s'' \<and> running s''"
  using close_running start_stopped by blast

end

end
