(* ===== verification/Recoverer.thy ===== *)
theory Recoverer
  imports Interfaces
begin

text \<open>
  \<open>pkg/v3/service/recoverable.go\<close>: the wrapper that restarts a service after a panic. Its
  goroutines are the watcher (\<open>serviceStart\<close>), the runs of the service (\<open>recoverableStart\<close>) and
  the callers of \<open>Close\<close>; they meet in a channel with room for one signal. Each atomic action is
  a labelled step. The record counts, for the statements, how often the service was started,
  panicked and returned.
\<close>

definition PanicRestartWait :: duration where "PanicRestartWait = 10 * second"

datatype stop_signal =
    errServiceStopped
  | errServiceContextCancelled
  | StartReturned "go_error option"

text \<open>The watcher: not entered, in its \<open>select\<close>, waiting before a restart, returned\<close>

datatype watcher = NotWatching | Watching | CoolingDown | WatcherReturned

record recoverer =
  rv_stopped :: "stop_signal option"
  rv_coolDown :: duration
  rv_running :: bool
  rv_ctxDone :: bool
  rv_watcher :: watcher
  rv_active :: nat
  rv_sending :: "stop_signal list"
  rv_starts :: nat
  rv_panics :: nat
  rv_returns :: nat

definition NewRecoverer :: recoverer where
  "NewRecoverer =
     \<lparr>rv_stopped = None, rv_coolDown = PanicRestartWait, rv_running = False, rv_ctxDone = False,
      rv_watcher = NotWatching, rv_active = 0, rv_sending = [], rv_starts = 0, rv_panics = 0,
      rv_returns = 0\<rparr>"

text \<open>\<open>go m.recoverableStart(ctx)\<close>: a goroutine enters the service's \<open>Start\<close>.\<close>

definition recoverableStart :: "recoverer \<Rightarrow> recoverer" where
  "recoverableStart m = m\<lparr>rv_active := rv_active m + 1, rv_starts := rv_starts m + 1\<rparr>"

text \<open>\<open>Start\<close> up to its \<open>select\<close>\<close>

definition recoverer_Start :: "recoverer \<Rightarrow> recoverer result" where
  "recoverer_Start m =
     (if rv_running m then Inl ServiceAlreadyRunning
      else Inr ((recoverableStart m)\<lparr>rv_running := True, rv_watcher := Watching\<rparr>))"

text \<open>The service's \<open>Start\<close> returns or panics; the goroutine then waits to send its signal.\<close>

definition service_returns :: "go_error option \<Rightarrow> recoverer \<Rightarrow> recoverer option" where
  "service_returns err m =
     (if rv_active m = 0 then None
      else Some (m\<lparr>rv_active := rv_active m - 1, rv_returns := rv_returns m + 1,
                   rv_sending := rv_sending m @ [StartReturned err]\<rparr>))"

definition service_panics :: "recoverer \<Rightarrow> recoverer option" where
  "service_panics m =
     (if rv_active m = 0 then None
      else Some (m\<lparr>rv_active := rv_active m - 1, rv_panics := rv_panics m + 1,
                   rv_sending := rv_sending m @ [errServiceStopped]\<rparr>))"

text \<open>A waiting goroutine sends when the channel has room.\<close>

definition send_signal :: "recoverer \<Rightarrow> recoverer option" where
  "send_signal m =
     (case rv_sending m of
        [] \<Rightarrow> None
      | s # ss \<Rightarrow> if rv_stopped m = None then Some (m\<lparr>rv_stopped := Some s, rv_sending := ss\<rparr>)
                  else None)"

text \<open>The watcher takes a signal; the end of the wait after a panic restarts the service.\<close>

definition watcher_receives :: "recoverer \<Rightarrow> recoverer option" where
  "watcher_receives m =
     (if rv_watcher m \<noteq> Watching then None
      else case rv_stopped m of
        None \<Rightarrow> None
      | Some sig \<Rightarrow>
          (let m' = m\<lparr>rv_stopped := None\<rparr>
           in Some (case sig of
                errServiceStopped \<Rightarrow> m'\<lparr>rv_watcher := CoolingDown\<rparr>
              | errServiceContextCancelled \<Rightarrow> m'\<lparr>rv_running := False, rv_watcher := WatcherReturned\<rparr>
              | StartReturned err \<Rightarrow> m')))"

definition cooled_down :: "recoverer \<Rightarrow> recoverer option" where
  "cooled_down m =
     (if rv_watcher m = CoolingDown then Some ((recoverableStart m)\<lparr>rv_watcher := Watching\<rparr>) else None)"

definition watcher_cancelled :: "recoverer \<Rightarrow> recoverer option" where
  "watcher_cancelled m =
     (if rv_watcher m = Watching \<and> rv_ctxDone m
      then Some (m\<lparr>rv_running := False, rv_watcher := WatcherReturned\<rparr>) else None)"

text \<open>\<open>closeErr\<close> is what the service's own \<open>Close\<close> returns; the signal is dropped when the channel is full.\<close>

definition recoverer_Close :: "go_error option \<Rightarrow> recoverer \<Rightarrow> (go_error option \<times> recoverer) result" where
  "recoverer_Close closeErr m =
     (if \<not> rv_running m then Inl ServiceNotRunning
      else Inr (closeErr, if rv_stopped m = None
                          then m\<lparr>rv_stopped := Some errServiceContextCancelled\<rparr> else m))"

section \<open>Steps\<close>

datatype rv_action =
    ServiceReturns "go_error option" | ServicePanics
  | SendSignal | WatcherReceives | CooledDown
  | CtxCancelled | WatcherCancelled | CloseCalled "go_error option"

fun rv_step :: "rv_action \<Rightarrow> recoverer \<Rightarrow> recoverer option" where
  "rv_step (ServiceReturns err) m = service_returns err m"
| "rv_step ServicePanics m = service_panics m"
| "rv_step SendSignal m = send_signal m"
| "rv_step WatcherReceives m = watcher_receives m"
| "rv_step CooledDown m = cooled_down m"
| "rv_step CtxCancelled m = Some (m\<lparr>rv_ctxDone := True\<rparr>)"
| "rv_step WatcherCancelled m = watcher_cancelled m"
| "rv_step (CloseCalled e) m = (case recoverer_Close e m of Inl _ \<Rightarrow> None | Inr (_, m') \<Rightarrow> Some m')"

fun rv_run :: "rv_action list \<Rightarrow> recoverer \<Rightarrow> recoverer option" where
  "rv_run [] m = Some m"
| "rv_run (a # as) m = (case rv_step a m of None \<Rightarrow> None | Some m' \<Rightarrow> rv_run as m')"

definition started :: recoverer where
  "started = projr (recoverer_Start NewRecoverer)"

lemma started_eq:
  "recoverer_Start NewRecoverer = Inr started"
  "started = NewRecoverer\<lparr>rv_active := 1, rv_starts := 1, rv_running := True, rv_watcher := Watching\<rparr>"
  by (simp_all add: started_def recoverer_Start_def recoverableStart_def NewRecoverer_def)

lemma rv_run_append:
  "rv_run (as @ bs) m = (case rv_run as m of None \<Rightarrow> None | Some m' \<Rightarrow> rv_run bs m')"
  by (induction as arbitrary: m) (auto split: option.split)

lemmas rv_defs = service_returns_def service_panics_def send_signal_def watcher_receives_def
  cooled_down_def watcher_cancelled_def recoverer_Close_def recoverableStart_def

section \<open>Invariant\<close>

text \<open>The signals of finished runs that the watcher has not taken yet, and the panics among them\<close>

definition pending :: "recoverer \<Rightarrow> stop_signal list" where
  "pending m = rv_sending m @
     (case rv_stopped m of None \<Rightarrow> [] | Some errServiceContextCancelled \<Rightarrow> [] | Some s \<Rightarrow> [s])"

definition pending_panics :: "recoverer \<Rightarrow> nat" where
  "pending_panics m = length (filter (\<lambda>s. s = errServiceStopped) (pending m))"

definition rv_inv :: "recoverer \<Rightarrow> bool" where
  "rv_inv m \<longleftrightarrow>
     rv_starts m = rv_active m + rv_panics m + rv_returns m \<and>
     rv_starts m + pending_panics m + (if rv_watcher m = CoolingDown then 1 else 0) = Suc (rv_panics m) \<and>
     errServiceContextCancelled \<notin> set (rv_sending m) \<and>
     (rv_running m \<longleftrightarrow> rv_watcher m = Watching \<or> rv_watcher m = CoolingDown) \<and>
     rv_watcher m \<noteq> NotWatching"

lemma rv_inv_started: "rv_inv started"
  by (simp add: started_eq rv_inv_def pending_panics_def pending_def NewRecoverer_def)

lemma rv_inv_service:
  "rv_inv m \<Longrightarrow> service_returns e m = Some m' \<Longrightarrow> rv_inv m'"
  "rv_inv m \<Longrightarrow> service_panics m = Some m' \<Longrightarrow> rv_inv m'"
  by (auto simp: rv_inv_def service_returns_def service_panics_def pending_panics_def pending_def
      split: if_splits)

lemma rv_inv_send: "rv_inv m \<Longrightarrow> send_signal m = Some m' \<Longrightarrow> rv_inv m'"
  by (cases "rv_sending m"; cases "hd (rv_sending m)")
    (auto simp: rv_inv_def send_signal_def pending_panics_def pending_def split: if_splits)

lemma rv_inv_receive: "rv_inv m \<Longrightarrow> watcher_receives m = Some m' \<Longrightarrow> rv_inv m'"
  by (cases "rv_stopped m"; cases "the (rv_stopped m)")
    (auto simp: rv_inv_def watcher_receives_def pending_panics_def pending_def Let_def
      split: if_splits)

lemma rv_inv_watcher:
  "rv_inv m \<Longrightarrow> cooled_down m = Some m' \<Longrightarrow> rv_inv m'"
  "rv_inv m \<Longrightarrow> watcher_cancelled m = Some m' \<Longrightarrow> rv_inv m'"
  by (auto simp: rv_inv_def cooled_down_def watcher_cancelled_def recoverableStart_def
      pending_panics_def pending_def split: if_splits)

lemma rv_inv_Close: "rv_inv m \<Longrightarrow> recoverer_Close e m = Inr (err, m') \<Longrightarrow> rv_inv m'"
  by (auto simp: rv_inv_def recoverer_Close_def pending_panics_def pending_def split: if_splits)

lemma rv_inv_step: "rv_inv m \<Longrightarrow> rv_step a m = Some m' \<Longrightarrow> rv_inv m'"
proof (cases a)
  case CtxCancelled
  then show "rv_inv m \<Longrightarrow> rv_step a m = Some m' \<Longrightarrow> rv_inv m'"
    by (auto simp: rv_inv_def pending_panics_def pending_def)
qed (auto split: sum.splits intro: rv_inv_service rv_inv_send rv_inv_receive rv_inv_watcher rv_inv_Close)

lemma rv_inv_run: "rv_run as m = Some m' \<Longrightarrow> rv_inv m \<Longrightarrow> rv_inv m'"
  by (induction as arbitrary: m) (auto split: option.splits dest: rv_inv_step)

lemma rv_inv_balance:
  "rv_inv m \<Longrightarrow>
     rv_active m + rv_returns m + pending_panics m + (if rv_watcher m = CoolingDown then 1 else 0) = 1"
  by (auto simp: rv_inv_def)

text \<open>Until it is closed or its context ends, the watcher watches, and no such signal is about.\<close>

definition undisturbed :: "rv_action list \<Rightarrow> bool" where
  "undisturbed as \<longleftrightarrow> CtxCancelled \<notin> set as \<and> (\<forall>e. CloseCalled e \<notin> set as)"

definition rv_open :: "recoverer \<Rightarrow> bool" where
  "rv_open m \<longleftrightarrow> rv_inv m \<and> rv_running m \<and> \<not> rv_ctxDone m \<and> rv_stopped m \<noteq> Some errServiceContextCancelled"

lemma rv_open_step:
  "rv_open m \<Longrightarrow> rv_step a m = Some m' \<Longrightarrow> a \<noteq> CtxCancelled \<Longrightarrow> (\<And>e. a \<noteq> CloseCalled e) \<Longrightarrow> rv_open m'"
  using rv_inv_step [of m a m']
  by (cases a)
    (auto simp: rv_open_def rv_inv_def [of m] rv_defs Let_def
      split: option.splits if_splits list.splits stop_signal.splits)

lemma rv_open_run: "rv_run as m = Some m' \<Longrightarrow> undisturbed as \<Longrightarrow> rv_open m \<Longrightarrow> rv_open m'"
proof (induction as arbitrary: m)
  case (Cons a as)
  then obtain m1 where "rv_step a m = Some m1" "rv_run as m1 = Some m'"
    by (auto split: option.splits)
  with Cons rv_open_step [of m a m1] show ?case by (auto simp: undisturbed_def)
qed simp

lemma rv_open_started: "rv_open started"
  using rv_inv_started by (simp add: rv_open_def started_eq NewRecoverer_def)

text \<open>At rest: neither the watcher nor a waiting goroutine can take a step.\<close>

definition at_rest :: "recoverer \<Rightarrow> bool" where
  "at_rest m \<longleftrightarrow> send_signal m = None \<and> watcher_receives m = None \<and> cooled_down m = None"

lemma at_rest_nothing_pending: "rv_open m \<Longrightarrow> at_rest m \<Longrightarrow> pending m = [] \<and> rv_watcher m = Watching"
  by (auto simp: at_rest_def rv_open_def rv_inv_def rv_defs pending_def Let_def
      split: option.splits if_splits list.splits)

section \<open>Properties\<close>

text \<open>
  However the service panics, returns, is closed or cancelled, the recoverer runs at most one
  instance of it at a time, and starts it at most once per panic beyond the first start.
\<close>

lemma recoverer_single_instance:
  assumes "rv_run as started = Some m"
  shows "rv_active m \<le> 1 \<and> rv_starts m \<le> rv_panics m + 1"
  using rv_inv_run [OF assms rv_inv_started] rv_inv_balance [of m] by (auto simp: rv_inv_def)

lemma recoverer_single_instance_witness:
  "\<exists>m. rv_run [ServicePanics, SendSignal, WatcherReceives, CooledDown] started = Some m \<and>
     rv_active m \<le> 1 \<and> rv_starts m \<le> rv_panics m + 1"
proof -
  obtain m where m: "rv_run [ServicePanics, SendSignal, WatcherReceives, CooledDown] started = Some m"
    by (simp add: started_eq NewRecoverer_def rv_defs)
  with recoverer_single_instance [OF m] show ?thesis by blast
qed

text \<open>
  C20: No panic is lost. Until the recoverer is closed or its context ends, it comes to rest only
  when the service was started again after every panic, and so runs, unless it returned by
  itself.
\<close>

theorem recoverer_restarts_after_panic:
  assumes "rv_run as started = Some m" "undisturbed as" "at_rest m"
  shows "rv_starts m = rv_panics m + 1 \<and> rv_active m + rv_returns m = 1"
proof -
  have "rv_open m" by (rule rv_open_run [OF assms(1,2) rv_open_started])
  with at_rest_nothing_pending [OF this assms(3)] rv_inv_balance [of m] show ?thesis
    by (auto simp: rv_open_def rv_inv_def pending_panics_def)
qed

theorem recoverer_restarts_after_panic_witness:
  "\<exists>m. rv_run [ServicePanics, SendSignal, WatcherReceives, CooledDown] started = Some m \<and>
     rv_starts m = rv_panics m + 1 \<and> rv_active m + rv_returns m = 1"
proof -
  obtain m where m: "rv_run [ServicePanics, SendSignal, WatcherReceives, CooledDown] started = Some m"
      "at_rest m"
    by (simp add: started_eq NewRecoverer_def rv_defs at_rest_def)
  with recoverer_restarts_after_panic [OF m(1) _ m(2)] show ?thesis by (simp add: undisturbed_def)
qed

text \<open>
  Closing while the recoverer waits to restart does not stop the service. The service is
  started after it was closed, the watcher then returns, the service runs on, and a further
  \<open>Close\<close> is refused.
\<close>

lemma close_during_cooldown_leaks_service:
  "\<exists>m. rv_run [ServicePanics, SendSignal, WatcherReceives, CloseCalled None, CooledDown,
       WatcherReceives] started = Some m \<and>
     rv_active m = 1 \<and> rv_watcher m = WatcherReturned \<and>
     recoverer_Close e m = Inl ServiceNotRunning"
  by (simp add: started_eq NewRecoverer_def rv_defs)

text \<open>
  When the service has just returned, the signal of \<open>Close\<close> finds the channel full and is
  dropped: the watcher goes on watching a service that will not come back.
\<close>

lemma close_signal_dropped:
  "\<exists>m. rv_run [ServiceReturns None, SendSignal, CloseCalled None, WatcherReceives] started = Some m \<and>
     rv_active m = 0 \<and> rv_running m \<and> at_rest m"
  by (simp add: started_eq NewRecoverer_def rv_defs at_rest_def)

end
