(* ===== verification/Observation.thy ===== *)
theory Observation
  imports Automation_Types
begin

text \<open>
  \<open>pkg/v3/observation.go\<close>: the local view a node sends to the network, its limits, its
  validation and its decoding. The main lemma says what the validation loops accept, as a
  declarative predicate.
\<close>

section \<open>Limits and data\<close>

definition ObservationPerformablesLimit :: nat where
  [simp]: "ObservationPerformablesLimit = 100"
definition ObservationLogRecoveryProposalsLimit :: nat where
  [simp]: "ObservationLogRecoveryProposalsLimit = 5"
definition ObservationConditionalsProposalsLimit :: nat where
  [simp]: "ObservationConditionalsProposalsLimit = 5"
definition ObservationBlockHistoryLimit :: nat where
  [simp]: "ObservationBlockHistoryLimit = 256"
definition MaxObservationLength :: int where
  "MaxObservationLength = 1000000"

definition uint256Max :: int where
  "uint256Max = 115792089237316195423570985008687907853269984665640564039457584007913129639935"

record AutomationObservation =
  ao_Performable :: "CheckResult list"
  ao_UpkeepProposals :: "CoordinatedBlockProposal list"
  ao_BlockHistory :: BlockHistory

definition empty_observation :: AutomationObservation where
  "empty_observation = \<lparr>ao_Performable = [], ao_UpkeepProposals = [], ao_BlockHistory = []\<rparr>"

section \<open>Validation\<close>

definition validateTriggerExtensionType :: "Trigger \<Rightarrow> UpkeepType \<Rightarrow> go_error option" where
  "validateTriggerExtensionType t ut =
     (if ut = ConditionTrigger then
        (if tr_LogTriggerExtension t \<noteq> None then Some LogExtensionPresent else None)
      else if ut = LogTrigger then
        (if tr_LogTriggerExtension t = None then Some LogExtensionMissing else None)
      else None)"

definition validateCheckResult ::
    "CheckResult \<Rightarrow> UpkeepTypeGetter \<Rightarrow> WorkIDGenerator \<Rightarrow> go_error option" where
  "validateCheckResult r utg wg =
     (if cr_PipelineExecutionState r \<noteq> 0 \<or> cr_Retryable r then Some FailedExecutionState
      else if \<not> cr_Eligible r \<or> cr_IneligibilityReason r \<noteq> 0 then Some IneligibleResult
      else case validateTriggerExtensionType (cr_Trigger r) (utg (cr_UpkeepID r)) of
        Some e \<Rightarrow> Some (InvalidTrigger e)
      | None \<Rightarrow>
          if wg (cr_UpkeepID r) (cr_Trigger r) \<noteq> cr_WorkID r then Some IncorrectWorkIDInResult
          else if cr_GasAllocated r = 0 then Some ZeroGasAllocated
          else (case cr_FastGasWei r of
              None \<Rightarrow> Some FastGasWeiMissing
            | Some fg \<Rightarrow>
                if fg < 0 \<or> fg > uint256Max then Some FastGasWeiOutOfRange
                else (case cr_LinkNative r of
                    None \<Rightarrow> Some LinkNativeMissing
                  | Some ln \<Rightarrow>
                      if ln < 0 \<or> ln > uint256Max then Some LinkNativeOutOfRange else None)))"

definition validateUpkeepProposal ::
    "CoordinatedBlockProposal \<Rightarrow> UpkeepTypeGetter \<Rightarrow> WorkIDGenerator \<Rightarrow> go_error option" where
  "validateUpkeepProposal p utg wg =
     (case validateTriggerExtensionType (cbp_Trigger p) (utg (cbp_UpkeepID p)) of
        Some e \<Rightarrow> Some e
      | None \<Rightarrow>
          if wg (cbp_UpkeepID p) (cbp_Trigger p) \<noteq> cbp_WorkID p
          then Some IncorrectWorkIDInProposal else None)"

definition validateAutomationObservation ::
    "AutomationObservation \<Rightarrow> UpkeepTypeGetter \<Rightarrow> WorkIDGenerator \<Rightarrow> go_error option" where
  "validateAutomationObservation ob utg wg =
     (if length (ao_BlockHistory ob) > ObservationBlockHistoryLimit then Some BlockHistoryTooLong
      else case check_each (\<lambda>_. None) bk_Number DuplicateBlockNumbers {} (ao_BlockHistory ob) of
        Some e \<Rightarrow> Some e
      | None \<Rightarrow>
      if length (ao_Performable ob) > ObservationPerformablesLimit then Some PerformablesTooLong
      else case check_each (\<lambda>r. validateCheckResult r utg wg) cr_WorkID DuplicatePerformables {}
             (ao_Performable ob) of
        Some e \<Rightarrow> Some e
      | None \<Rightarrow>
      if length (ao_UpkeepProposals ob) >
           ObservationConditionalsProposalsLimit + ObservationLogRecoveryProposalsLimit
      then Some UpkeepProposalsTooLong
      else case check_each (\<lambda>p. validateUpkeepProposal p utg wg) cbp_WorkID DuplicateProposals {}
             (ao_UpkeepProposals ob) of
        Some e \<Rightarrow> Some e
      | None \<Rightarrow>
      if length (filter (\<lambda>p. utg (cbp_UpkeepID p) = ConditionTrigger) (ao_UpkeepProposals ob))
           > ObservationConditionalsProposalsLimit
      then Some TooManyConditionalProposals
      else if length (filter (\<lambda>p. utg (cbp_UpkeepID p) = LogTrigger) (ao_UpkeepProposals ob))
           > ObservationLogRecoveryProposalsLimit
      then Some TooManyLogProposals
      else None)"

text \<open>
  \<open>DecodeAutomationObservation\<close>; \<open>unmarshal\<close> is \<open>json.Unmarshal\<close> of the third-party JSON
  package into an observation.
\<close>

definition DecodeAutomationObservation ::
    "(bytes \<Rightarrow> AutomationObservation result) \<Rightarrow> bytes \<Rightarrow> UpkeepTypeGetter \<Rightarrow> WorkIDGenerator \<Rightarrow>
     AutomationObservation result" where
  "DecodeAutomationObservation unmarshal data utg wg =
     (case unmarshal data of
        Inl e \<Rightarrow> Inl e
      | Inr ob \<Rightarrow>
          (case validateAutomationObservation ob utg wg of Some e \<Rightarrow> Inl e | None \<Rightarrow> Inr ob))"

section \<open>What validation accepts\<close>

text \<open>A check result that may be performed, and a proposal that may be surfaced.\<close>

definition trigger_fits :: "UpkeepTypeGetter \<Rightarrow> UpkeepIdentifier \<Rightarrow> Trigger \<Rightarrow> bool" where
  "trigger_fits utg u t \<longleftrightarrow>
     (utg u = ConditionTrigger \<longrightarrow> tr_LogTriggerExtension t = None) \<and>
     (utg u = LogTrigger \<longrightarrow> tr_LogTriggerExtension t \<noteq> None)"

definition in_uint256 :: "int option \<Rightarrow> bool" where
  "in_uint256 v \<longleftrightarrow> (\<exists>n. v = Some n \<and> 0 \<le> n \<and> n < 2 ^ 256)"

definition performable_ok :: "UpkeepTypeGetter \<Rightarrow> WorkIDGenerator \<Rightarrow> CheckResult \<Rightarrow> bool" where
  "performable_ok utg wg r \<longleftrightarrow>
     cr_PipelineExecutionState r = 0 \<and> \<not> cr_Retryable r \<and> cr_Eligible r \<and>
     cr_IneligibilityReason r = 0 \<and> trigger_fits utg (cr_UpkeepID r) (cr_Trigger r) \<and>
     wg (cr_UpkeepID r) (cr_Trigger r) = cr_WorkID r \<and> cr_GasAllocated r \<noteq> 0 \<and>
     in_uint256 (cr_FastGasWei r) \<and> in_uint256 (cr_LinkNative r)"

definition proposal_ok ::
    "UpkeepTypeGetter \<Rightarrow> WorkIDGenerator \<Rightarrow> CoordinatedBlockProposal \<Rightarrow> bool" where
  "proposal_ok utg wg p \<longleftrightarrow>
     trigger_fits utg (cbp_UpkeepID p) (cbp_Trigger p) \<and>
     wg (cbp_UpkeepID p) (cbp_Trigger p) = cbp_WorkID p"

definition observation_ok ::
    "UpkeepTypeGetter \<Rightarrow> WorkIDGenerator \<Rightarrow> AutomationObservation \<Rightarrow> bool" where
  "observation_ok utg wg ob \<longleftrightarrow>
     length (ao_BlockHistory ob) \<le> 256 \<and> distinct (map bk_Number (ao_BlockHistory ob)) \<and>
     length (ao_Performable ob) \<le> 100 \<and> distinct (map cr_WorkID (ao_Performable ob)) \<and>
     (\<forall>r\<in>set (ao_Performable ob). performable_ok utg wg r) \<and>
     length (ao_UpkeepProposals ob) \<le> 10 \<and> distinct (map cbp_WorkID (ao_UpkeepProposals ob)) \<and>
     (\<forall>p\<in>set (ao_UpkeepProposals ob). proposal_ok utg wg p) \<and>
     length (filter (\<lambda>p. utg (cbp_UpkeepID p) = ConditionTrigger) (ao_UpkeepProposals ob)) \<le> 5 \<and>
     length (filter (\<lambda>p. utg (cbp_UpkeepID p) = LogTrigger) (ao_UpkeepProposals ob)) \<le> 5"

lemma validateTriggerExtensionType_None:
  "validateTriggerExtensionType t (utg u) = None \<longleftrightarrow> trigger_fits utg u t"
  by (simp add: validateTriggerExtensionType_def trigger_fits_def)

lemma uint256Max_less: "uint256Max < n \<longleftrightarrow> \<not> n < 2 ^ 256"
  unfolding uint256Max_def by auto

lemma validateCheckResult_None:
  "validateCheckResult r utg wg = None \<longleftrightarrow> performable_ok utg wg r"
  by (auto simp: validateCheckResult_def performable_ok_def in_uint256_def not_less
        uint256Max_less simp flip: validateTriggerExtensionType_None split: option.splits if_splits)

lemma validateUpkeepProposal_None:
  "validateUpkeepProposal p utg wg = None \<longleftrightarrow> proposal_ok utg wg p"
  by (auto simp: validateUpkeepProposal_def proposal_ok_def
        simp flip: validateTriggerExtensionType_None split: option.splits)

lemmas validate_None = validateCheckResult_None validateUpkeepProposal_None check_each_None

lemma validateAutomationObservation_None:
  "validateAutomationObservation ob utg wg = None \<longleftrightarrow> observation_ok utg wg ob"
proof -
  have "validateAutomationObservation ob utg wg = None \<longleftrightarrow>
      length (ao_BlockHistory ob) \<le> 256 \<and>
      check_each (\<lambda>_. None) bk_Number DuplicateBlockNumbers {} (ao_BlockHistory ob) = None \<and>
      length (ao_Performable ob) \<le> 100 \<and>
      check_each (\<lambda>r. validateCheckResult r utg wg) cr_WorkID DuplicatePerformables {}
        (ao_Performable ob) = None \<and>
      length (ao_UpkeepProposals ob) \<le> 10 \<and>
      check_each (\<lambda>p. validateUpkeepProposal p utg wg) cbp_WorkID DuplicateProposals {}
        (ao_UpkeepProposals ob) = None \<and>
      length (filter (\<lambda>p. utg (cbp_UpkeepID p) = ConditionTrigger) (ao_UpkeepProposals ob)) \<le> 5 \<and>
      length (filter (\<lambda>p. utg (cbp_UpkeepID p) = LogTrigger) (ao_UpkeepProposals ob)) \<le> 5"
    unfolding validateAutomationObservation_def
    by (simp add: not_less split: option.split)
  also have "\<dots> \<longleftrightarrow> observation_ok utg wg ob"
    unfolding validate_None observation_ok_def by auto
  finally show ?thesis .
qed

lemma DecodeAutomationObservation_Inr:
  "DecodeAutomationObservation unmarshal data utg wg = Inr ob \<longleftrightarrow>
     unmarshal data = Inr ob \<and> observation_ok utg wg ob"
  by (auto simp: DecodeAutomationObservation_def validateAutomationObservation_None [symmetric]
        split: sum.splits option.splits)

end
