(* ===== verification/Outcome.thy ===== *)
theory Outcome
  imports Observation
begin

text \<open>
  \<open>pkg/v3/outcome.go\<close>: the state the network agrees on, its limits, validation and decoding.
\<close>

definition OutcomeAgreedPerformablesLimit :: nat where
  [simp]: "OutcomeAgreedPerformablesLimit = 100"
definition OutcomeSurfacedProposalsLimit :: nat where
  [simp]: "OutcomeSurfacedProposalsLimit = 50"
definition OutcomeSurfacedProposalsRoundHistoryLimit :: nat where
  [simp]: "OutcomeSurfacedProposalsRoundHistoryLimit = 20"
definition MaxReportCount :: nat where
  "MaxReportCount = OutcomeAgreedPerformablesLimit"

record AutomationOutcome =
  ac_AgreedPerformables :: "CheckResult list"
  ac_SurfacedProposals :: "CoordinatedBlockProposal list list"

definition empty_outcome :: AutomationOutcome where
  "empty_outcome = \<lparr>ac_AgreedPerformables = [], ac_SurfacedProposals = []\<rparr>"

text \<open>The loop over the rounds; the set of seen work ids is carried from round to round.\<close>

fun validate_rounds ::
    "UpkeepTypeGetter \<Rightarrow> WorkIDGenerator \<Rightarrow> WorkID set \<Rightarrow> CoordinatedBlockProposal list list \<Rightarrow>
     go_error option" where
  "validate_rounds utg wg seen [] = None"
| "validate_rounds utg wg seen (round # rounds) =
     (if length round > OutcomeSurfacedProposalsLimit then Some SurfacedRoundTooLong
      else case check_each (\<lambda>p. validateUpkeepProposal p utg wg) cbp_WorkID DuplicateProposals
             seen round of
        Some e \<Rightarrow> Some e
      | None \<Rightarrow> validate_rounds utg wg (seen \<union> cbp_WorkID ` set round) rounds)"

definition validateAutomationOutcome ::
    "AutomationOutcome \<Rightarrow> UpkeepTypeGetter \<Rightarrow> WorkIDGenerator \<Rightarrow> go_error option" where
  "validateAutomationOutcome oc utg wg =
     (if length (ac_AgreedPerformables oc) > OutcomeAgreedPerformablesLimit
      then Some AgreedPerformablesTooLong
      else case check_each (\<lambda>r. validateCheckResult r utg wg) cr_WorkID
             DuplicateAgreedPerformables {} (ac_AgreedPerformables oc) of
        Some e \<Rightarrow> Some e
      | None \<Rightarrow>
      if length (ac_SurfacedProposals oc) > OutcomeSurfacedProposalsRoundHistoryLimit
      then Some SurfacedRoundsTooLong
      else validate_rounds utg wg {} (ac_SurfacedProposals oc))"

definition DecodeAutomationOutcome ::
    "(bytes \<Rightarrow> AutomationOutcome result) \<Rightarrow> bytes \<Rightarrow> UpkeepTypeGetter \<Rightarrow> WorkIDGenerator \<Rightarrow>
     AutomationOutcome result" where
  "DecodeAutomationOutcome unmarshal data utg wg =
     (case unmarshal data of
        Inl e \<Rightarrow> Inl e
      | Inr oc \<Rightarrow>
          (case validateAutomationOutcome oc utg wg of Some e \<Rightarrow> Inl e | None \<Rightarrow> Inr oc))"

section \<open>What validation accepts\<close>

definition outcome_ok :: "UpkeepTypeGetter \<Rightarrow> WorkIDGenerator \<Rightarrow> AutomationOutcome \<Rightarrow> bool" where
  "outcome_ok utg wg oc \<longleftrightarrow>
     length (ac_AgreedPerformables oc) \<le> 100 \<and>
     distinct (map cr_WorkID (ac_AgreedPerformables oc)) \<and>
     (\<forall>r\<in>set (ac_AgreedPerformables oc). performable_ok utg wg r) \<and>
     length (ac_SurfacedProposals oc) \<le> 20 \<and>
     (\<forall>round\<in>set (ac_SurfacedProposals oc). length round \<le> 50) \<and>
     distinct (map cbp_WorkID (concat (ac_SurfacedProposals oc))) \<and>
     (\<forall>p\<in>set (concat (ac_SurfacedProposals oc)). proposal_ok utg wg p)"

lemma validate_rounds_None:
  "validate_rounds utg wg seen rounds = None \<longleftrightarrow>
     (\<forall>round\<in>set rounds. length round \<le> 50) \<and>
     distinct (map cbp_WorkID (concat rounds)) \<and>
     cbp_WorkID ` set (concat rounds) \<inter> seen = {} \<and>
     (\<forall>p\<in>set (concat rounds). proposal_ok utg wg p)"
proof (induction rounds arbitrary: seen)
  case (Cons round rounds)
  have "validate_rounds utg wg seen (round # rounds) = None \<longleftrightarrow>
      length round \<le> 50 \<and>
      check_each (\<lambda>p. validateUpkeepProposal p utg wg) cbp_WorkID DuplicateProposals seen round
        = None \<and>
      validate_rounds utg wg (seen \<union> cbp_WorkID ` set round) rounds = None"
    by (simp add: not_less split: option.split)
  then show ?case
    unfolding Cons.IH validate_None
    by (simp only: list.set concat.simps map_append distinct_append set_append image_Un set_map
          Int_Un_distrib Int_Un_distrib2 ball_Un ball_simps(7) Un_empty Int_commute) auto
qed simp

lemma validateAutomationOutcome_None:
  "validateAutomationOutcome oc utg wg = None \<longleftrightarrow> outcome_ok utg wg oc"
proof -
  have "validateAutomationOutcome oc utg wg = None \<longleftrightarrow>
      length (ac_AgreedPerformables oc) \<le> 100 \<and>
      check_each (\<lambda>r. validateCheckResult r utg wg) cr_WorkID DuplicateAgreedPerformables {}
        (ac_AgreedPerformables oc) = None \<and>
      length (ac_SurfacedProposals oc) \<le> 20 \<and>
      validate_rounds utg wg {} (ac_SurfacedProposals oc) = None"
    unfolding validateAutomationOutcome_def by (simp add: not_less split: option.split)
  also have "\<dots> \<longleftrightarrow> outcome_ok utg wg oc"
    unfolding validate_None validate_rounds_None outcome_ok_def by auto
  finally show ?thesis .
qed

lemma outcome_ok_empty [simp]: "outcome_ok utg wg empty_outcome"
  by (simp add: outcome_ok_def empty_outcome_def)

lemma DecodeAutomationOutcome_Inr:
  "DecodeAutomationOutcome unmarshal data utg wg = Inr oc \<longleftrightarrow>
     unmarshal data = Inr oc \<and> outcome_ok utg wg oc"
  by (auto simp: DecodeAutomationOutcome_def validateAutomationOutcome_None [symmetric]
        split: sum.splits option.splits)

end
