(* ===== verification/Go_Random.thy ===== *)
theory Go_Random
  imports Automation_Types
begin

text \<open>
  \<open>pkg/v3/random\<close>: the randomness source all nodes derive for a round, the keyed generator
  and the shuffles built on it. Keccak and AES-CTR are third-party or cryptographic code and are
  arguments: \<open>keccak256\<close> and the key stream. \<open>rand.Shuffle\<close> is the Fisher-Yates loop
  of \<open>math/rand\<close>; the index it draws for position \<open>i\<close> when shuffling \<open>n\<close> elements from
  the generator keyed by \<open>key\<close> is the argument \<open>draw key n i\<close>, for which the library
  promises \<open>draw key n i \<le> i\<close>.
  The main lemma: shuffling is injective, so ordering by shuffled work id is a total order on
  work ids, the same on every node.
\<close>

type_synonym key16 = bytes
type_synonym rand_draw = "key16 \<Rightarrow> nat \<Rightarrow> nat \<Rightarrow> nat"

section \<open>Little-endian integers and the key of a round\<close>

definition PutUint64 :: "64 word \<Rightarrow> bytes" where
  "PutUint64 v = map (\<lambda>i. char_of (unat v div 256 ^ i)) [0..<8]"

definition Uint64 :: "bytes \<Rightarrow> 64 word" where
  "Uint64 b = word_of_nat (\<Sum>i<8. of_char (b ! i) * 256 ^ i)"

definition GetRandomKeySource :: "(bytes \<Rightarrow> bytes) \<Rightarrow> bytes \<Rightarrow> 64 word \<Rightarrow> key16" where
  "GetRandomKeySource keccak256 prefix seq =
     (let h = keccak256 (prefix @ PutUint64 seq)
      in take 16 h @ replicate (16 - length h) (char_of (0 :: nat)))"

text \<open>
  The keyed source: \<open>XORKeyStream\<close> of a zero buffer yields the next eight bytes of the key
  stream; the sign bit is masked off. State: how much of the stream was consumed.
\<close>

definition int63Mask :: "64 word" where "int63Mask = 2 ^ 63 - 1"

definition Int63 :: "(nat \<Rightarrow> char) \<Rightarrow> nat \<Rightarrow> int \<times> nat" where
  "Int63 stream pos = (sint (and (Uint64 (map (\<lambda>i. stream (pos + i)) [0..<8])) int63Mask), pos + 8)"

section \<open>Shuffling\<close>

definition swap_at :: "nat \<Rightarrow> nat \<Rightarrow> 'a list \<Rightarrow> 'a list" where
  "swap_at i j xs = (if i < length xs \<and> j < length xs then xs[i := xs ! j, j := xs ! i] else xs)"

primrec fisher_yates :: "(nat \<Rightarrow> nat) \<Rightarrow> nat \<Rightarrow> 'a list \<Rightarrow> 'a list" where
  "fisher_yates d 0 xs = xs"
| "fisher_yates d (Suc i) xs = fisher_yates d i (swap_at (Suc i) (d (Suc i)) xs)"

text \<open>\<open>Shuffler.Shuffle\<close>; \<open>d\<close> is the sequence of indices its source yields.\<close>

definition Shuffle :: "(nat \<Rightarrow> nat) \<Rightarrow> 'a list \<Rightarrow> 'a list" where
  "Shuffle d xs = fisher_yates d (length xs - 1) xs"

text \<open>
  Work ids are hexadecimal digests, so a rune of the string is one byte of it.
\<close>

definition ShuffleString :: "rand_draw \<Rightarrow> string \<Rightarrow> key16 \<Rightarrow> string" where
  "ShuffleString draw s rSrc = Shuffle (draw rSrc (length s)) s"

section \<open>Lemmas\<close>

lemma length_swap_at [simp]: "length (swap_at i j xs) = length xs"
  by (simp add: swap_at_def)

lemma mset_swap_at [simp]: "mset (swap_at i j xs) = mset xs"
  by (simp add: swap_at_def mset_swap)

lemma length_fisher_yates [simp]: "length (fisher_yates d n xs) = length xs"
  by (induction n arbitrary: xs) simp_all

lemma mset_fisher_yates [simp]: "mset (fisher_yates d n xs) = mset xs"
  by (induction n arbitrary: xs) simp_all

lemma length_Shuffle [simp]: "length (Shuffle d xs) = length xs"
  by (simp add: Shuffle_def)

lemma mset_Shuffle [simp]: "mset (Shuffle d xs) = mset xs"
  by (simp add: Shuffle_def)

lemma set_Shuffle [simp]: "set (Shuffle d xs) = set xs"
  by (rule mset_eq_setD) simp

lemma distinct_map_Shuffle [simp]: "distinct (map f (Shuffle d xs)) = distinct (map f xs)"
proof -
  have "mset (map f (Shuffle d xs)) = mset (map f xs)" by simp
  then show ?thesis by (metis mset_eq_imp_distinct_iff)
qed

lemma swap_at_swap_at: "swap_at i j (swap_at i j xs) = xs"
  by (auto simp: swap_at_def list_eq_iff_nth_eq nth_list_update)

lemma fisher_yates_inj:
  "length xs = length ys \<Longrightarrow> fisher_yates d n xs = fisher_yates d n ys \<Longrightarrow> xs = ys"
proof (induction n arbitrary: xs ys)
  case (Suc n)
  from Suc.IH [of "swap_at (Suc n) (d (Suc n)) xs" "swap_at (Suc n) (d (Suc n)) ys"] Suc.prems
  have "swap_at (Suc n) (d (Suc n)) xs = swap_at (Suc n) (d (Suc n)) ys" by simp
  then show ?case by (metis swap_at_swap_at)
qed simp

lemma ShuffleString_inj: "inj (\<lambda>s. ShuffleString draw s rSrc)"
proof (rule injI)
  fix s t assume eq: "ShuffleString draw s rSrc = ShuffleString draw t rSrc"
  then have len: "length s = length t"
    by (metis ShuffleString_def length_Shuffle)
  with eq show "s = t"
    by (auto simp: ShuffleString_def Shuffle_def intro: fisher_yates_inj)
qed

lemma byte_sum: "(\<Sum>i<n. (v div 256 ^ i mod 256) * 256 ^ i) = v mod (256 ^ n :: nat)"
proof (induction n)
  case (Suc n)
  have "v mod 256 ^ Suc n = 256 ^ n * (v div 256 ^ n mod 256) + v mod 256 ^ n"
    by (metis mod_mult2_eq power_Suc2)
  with Suc show ?case by (simp add: algebra_simps)
qed simp

lemma length_PutUint64 [simp]: "length (PutUint64 v) = 8"
  by (simp add: PutUint64_def)

lemma Uint64_PutUint64: "Uint64 (PutUint64 v) = v"
proof -
  have "(\<Sum>i<8. of_char (PutUint64 v ! i) * 256 ^ i) =
      (\<Sum>i<8. (unat v div 256 ^ i mod 256) * (256 :: nat) ^ i)"
    by (rule sum.cong) (simp_all add: PutUint64_def)
  also have "\<dots> = unat v mod 256 ^ 8" by (rule byte_sum)
  also have "\<dots> = unat v"
    using unsigned_less [of v, where ?'a = nat] by simp
  finally show ?thesis by (simp add: Uint64_def)
qed

lemma PutUint64_inj: "PutUint64 v = PutUint64 w \<Longrightarrow> v = w"
  by (metis Uint64_PutUint64)

end
