(* ===== verification/Samples.thy ===== *)
theory Samples
  imports Automation_Types
begin

text \<open>Small concrete values of the shared types, on which the theorems are applied.\<close>

definition sample_trigger :: "BlockNumber \<Rightarrow> Trigger" where
  "sample_trigger n = \<lparr>tr_BlockNumber = n, tr_BlockHash = 7, tr_LogTriggerExtension = None\<rparr>"

definition sample_report :: "WorkID \<Rightarrow> BlockNumber \<Rightarrow> ReportedUpkeep" where
  "sample_report w n = \<lparr>ru_UpkeepID = 5, ru_Trigger = sample_trigger n, ru_WorkID = w\<rparr>"

definition sample_proposal :: "WorkID \<Rightarrow> BlockNumber \<Rightarrow> CoordinatedBlockProposal" where
  "sample_proposal w n = \<lparr>cbp_UpkeepID = 5, cbp_Trigger = sample_trigger n, cbp_WorkID = w\<rparr>"

definition sample_payload :: "WorkID \<Rightarrow> BlockNumber \<Rightarrow> UpkeepPayload" where
  "sample_payload w n = \<lparr>up_UpkeepID = 5, up_Trigger = sample_trigger n, up_WorkID = w,
     up_CheckData = []\<rparr>"

definition sample_result :: "UpkeepIdentifier \<Rightarrow> WorkID \<Rightarrow> BlockNumber \<Rightarrow> CheckResult" where
  "sample_result u w n =
     \<lparr>cr_PipelineExecutionState = 0, cr_Retryable = False, cr_Eligible = True,
      cr_IneligibilityReason = 0, cr_UpkeepID = u, cr_Trigger = sample_trigger n,
      cr_WorkID = w, cr_GasAllocated = 100000, cr_PerformData = [], cr_FastGasWei = Some 10,
      cr_LinkNative = Some 10, cr_RetryInterval = 0\<rparr>"

definition sample_event :: "TransmitEventType \<Rightarrow> WorkID \<Rightarrow> BlockNumber \<Rightarrow> TransmitEvent" where
  "sample_event ty w n =
     \<lparr>te_Type = ty, te_TransmitBlock = n + 2, te_Confirmations = 3, te_TransactionHash = 9,
      te_UpkeepID = 5, te_WorkID = w, te_CheckBlock = n\<rparr>"

lemmas sample_defs = sample_trigger_def sample_report_def sample_proposal_def sample_payload_def
  sample_result_def sample_event_def

end
