(* ===== verification/Performables.thy ===== *)
theory Performables
  imports Outcome Interfaces Go_Random Samples
begin

text \<open>
  \<open>pkg/v3/plugin/performable.go\<close>: the vote on check results. Every observation adds one vote
  per performable under the result's \<open>UniqueID\<close> (third-party code, an argument); the results
  with a quorum of votes become the agreed performables of the outcome, one per work id, in the
  order of the shuffled work id, cut to a limit. Loggers are left out.
\<close>

record resultAndCount =
  rac_result :: CheckResult
  rac_count :: int

record performables =
  pf_limit :: nat
  pf_keyRandSource :: key16
  pf_quorumThreshold :: int
  pf_resultCount :: "string \<rightharpoonup> resultAndCount"

definition newPerformables :: "int \<Rightarrow> nat \<Rightarrow> key16 \<Rightarrow> performables" where
  "newPerformables quorumThreshold limit rSrc =
     \<lparr>pf_limit = limit, pf_keyRandSource = rSrc, pf_quorumThreshold = quorumThreshold,
      pf_resultCount = Map.empty\<rparr>"

text \<open>The body of the loop of \<open>add\<close>\<close>

definition performables_add1 ::
    "(CheckResult \<Rightarrow> string) \<Rightarrow> CheckResult \<Rightarrow> performables \<Rightarrow> performables" where
  "performables_add1 UniqueID result p =
     (let uid = UniqueID result;
          payloadCount =
            (case pf_resultCount p uid of
               None \<Rightarrow> \<lparr>rac_result = result, rac_count = 1\<rparr>
             | Some pc \<Rightarrow> pc\<lparr>rac_count := rac_count pc + 1\<rparr>)
      in p\<lparr>pf_resultCount := (pf_resultCount p)(uid \<mapsto> payloadCount)\<rparr>)"

definition performables_add ::
    "(CheckResult \<Rightarrow> string) \<Rightarrow> AutomationObservation \<Rightarrow> performables \<Rightarrow> performables" where
  "performables_add UniqueID observation p =
     fold (performables_add1 UniqueID) (ao_Performable observation) p"

text \<open>The traversal of the sorted unique ids in \<open>set\<close>\<close>

fun agreed_loop :: "performables \<Rightarrow> WorkID set \<Rightarrow> string list \<Rightarrow> CheckResult list" where
  "agreed_loop p addedWid [] = []"
| "agreed_loop p addedWid (uid # uids) =
     (case pf_resultCount p uid of
        None \<Rightarrow> agreed_loop p addedWid uids
      | Some payload \<Rightarrow>
          if rac_count payload \<ge> pf_quorumThreshold p \<and>
             cr_WorkID (rac_result payload) \<notin> addedWid
          then rac_result payload #
            agreed_loop p (insert (cr_WorkID (rac_result payload)) addedWid) uids
          else agreed_loop p addedWid uids)"

text \<open>\<open>ks\<close> is the order in which the map of counts is ranged over.\<close>

definition performables_set ::
    "rand_draw \<Rightarrow> string list \<Rightarrow> performables \<Rightarrow> AutomationOutcome \<Rightarrow> AutomationOutcome" where
  "performables_set draw ks p outcome =
     (let uids = sort ks;
          performable = agreed_loop p {} uids;
          performable = sort_key (\<lambda>r. ShuffleString draw (cr_WorkID r) (pf_keyRandSource p)) performable;
          performable = limit_to (pf_limit p) performable
      in outcome\<lparr>ac_AgreedPerformables := performable\<rparr>)"

section \<open>The votes\<close>

definition uid_votes :: "performables \<Rightarrow> string \<Rightarrow> int" where
  "uid_votes p uid = (case pf_resultCount p uid of None \<Rightarrow> 0 | Some pc \<Rightarrow> rac_count pc)"

interpretation performable_votes: tally "performables_add1 UniqueID" uid_votes UniqueID
  by unfold_locales
    (auto simp: uid_votes_def performables_add1_def Let_def fun_eq_iff split: option.splits)

lemma performables_add_fold:
  "fold (performables_add UniqueID) obs p =
     fold (fold (performables_add1 UniqueID)) (map ao_Performable obs) p"
  by (induction obs arbitrary: p) (simp_all add: performables_add_def)

text \<open>
  What is stored under a unique id is a result that was observed and has that id. The settings
  do not change.
\<close>

definition pf_inv :: "(CheckResult \<Rightarrow> string) \<Rightarrow> CheckResult set \<Rightarrow> performables \<Rightarrow> bool" where
  "pf_inv UniqueID R p \<longleftrightarrow>
     (\<forall>uid pc. pf_resultCount p uid = Some pc \<longrightarrow>
        UniqueID (rac_result pc) = uid \<and> rac_result pc \<in> R)"

lemma pf_inv_Some:
  "pf_inv UniqueID R p \<Longrightarrow> pf_resultCount p uid = Some pc \<Longrightarrow>
     UniqueID (rac_result pc) = uid \<and> rac_result pc \<in> R"
  by (simp add: pf_inv_def)

lemma pf_inv_new [inv_intros]: "pf_inv UniqueID {} (newPerformables q l k)"
  by (simp add: pf_inv_def newPerformables_def)

lemma pf_inv_add1:
  "pf_inv UniqueID R p \<Longrightarrow> pf_inv UniqueID (insert r R) (performables_add1 UniqueID r p)"
  by (auto simp: pf_inv_def performables_add1_def Let_def split: option.splits)

lemma pf_inv_add [inv_intros]:
  "pf_inv UniqueID R p \<Longrightarrow>
     pf_inv UniqueID (R \<union> set (ao_Performable ob)) (performables_add UniqueID ob p)"
proof -
  have "pf_inv UniqueID (R \<union> set rs) (fold (performables_add1 UniqueID) rs p)"
    if "pf_inv UniqueID R p" for rs
    using that
  proof (induction rs arbitrary: R p)
    case (Cons r rs)
    from Cons.IH [OF pf_inv_add1 [OF Cons.prems], of r] show ?case by simp
  qed simp
  then show "pf_inv UniqueID R p \<Longrightarrow> ?thesis" by (simp add: performables_add_def)
qed

lemma pf_inv_adds:
  "pf_inv UniqueID R p \<Longrightarrow>
     pf_inv UniqueID (R \<union> (\<Union>ob\<in>set obs. set (ao_Performable ob)))
       (fold (performables_add UniqueID) obs p)"
proof (induction obs arbitrary: R p)
  case (Cons ob obs)
  from Cons.IH [OF pf_inv_add [OF Cons.prems], of ob] show ?case by (simp add: Un_assoc)
qed simp

lemma pf_settings_add1 [simp]:
  "pf_limit (performables_add1 u r p) = pf_limit p"
  "pf_keyRandSource (performables_add1 u r p) = pf_keyRandSource p"
  "pf_quorumThreshold (performables_add1 u r p) = pf_quorumThreshold p"
  by (simp_all add: performables_add1_def Let_def)

lemma pf_settings_add [simp]:
  "pf_limit (performables_add u ob p) = pf_limit p"
  "pf_keyRandSource (performables_add u ob p) = pf_keyRandSource p"
  "pf_quorumThreshold (performables_add u ob p) = pf_quorumThreshold p"
proof -
  have "pf_limit (fold (performables_add1 u) rs p) = pf_limit p \<and>
      pf_keyRandSource (fold (performables_add1 u) rs p) = pf_keyRandSource p \<and>
      pf_quorumThreshold (fold (performables_add1 u) rs p) = pf_quorumThreshold p" for rs
    by (induction rs arbitrary: p) simp_all
  then show "pf_limit (performables_add u ob p) = pf_limit p"
    "pf_keyRandSource (performables_add u ob p) = pf_keyRandSource p"
    "pf_quorumThreshold (performables_add u ob p) = pf_quorumThreshold p"
    by (simp_all add: performables_add_def)
qed

lemma pf_settings_adds [simp]:
  "pf_limit (fold (performables_add u) obs p) = pf_limit p"
  "pf_keyRandSource (fold (performables_add u) obs p) = pf_keyRandSource p"
  "pf_quorumThreshold (fold (performables_add u) obs p) = pf_quorumThreshold p"
  by (induction obs arbitrary: p) simp_all

section \<open>What set puts into the outcome\<close>

lemma agreed_loop_votes:
  "r \<in> set (agreed_loop p W uids) \<Longrightarrow>
     cr_WorkID r \<notin> W \<and>
     (\<exists>uid\<in>set uids. \<exists>pc. pf_resultCount p uid = Some pc \<and> rac_result pc = r \<and>
        pf_quorumThreshold p \<le> rac_count pc)"
  by (induction uids arbitrary: W) (auto split: option.splits if_splits)

lemma agreed_loop_distinct: "distinct (map cr_WorkID (agreed_loop p W uids))"
  by (induction uids arbitrary: W) (auto split: option.splits dest: agreed_loop_votes)

lemma agreed_loop_complete:
  "uid \<in> set uids \<Longrightarrow> pf_resultCount p uid = Some pc \<Longrightarrow>
   pf_quorumThreshold p \<le> rac_count pc \<Longrightarrow>
     cr_WorkID (rac_result pc) \<in> W \<union> cr_WorkID ` set (agreed_loop p W uids)"
proof (induction uids arbitrary: W)
  case (Cons u uids)
  show ?case
  proof (cases "u = uid")
    case True
    with Cons.prems show ?thesis by auto
  next
    case False
    with Cons.prems have "uid \<in> set uids" by simp
    from Cons.IH [OF this Cons.prems(2,3)] show ?thesis
      by (auto split: option.splits)
  qed
qed simp

lemma set_agreed_subset:
  "set (ac_AgreedPerformables (performables_set draw ks p oc)) \<subseteq> set (agreed_loop p {} (sort ks))"
  using set_limit_to by (fastforce simp: performables_set_def Let_def)

lemma performables_set_length:
  "length (ac_AgreedPerformables (performables_set draw ks p oc)) \<le> pf_limit p"
  by (simp add: performables_set_def Let_def length_limit_to)

lemma performables_set_distinct:
  "distinct (map cr_WorkID (ac_AgreedPerformables (performables_set draw ks p oc)))"
  by (simp add: performables_set_def Let_def distinct_map_limit_to distinct_map_sort_key
      agreed_loop_distinct)

lemma performables_set_surfaced [simp]:
  "ac_SurfacedProposals (performables_set draw ks p oc) = ac_SurfacedProposals oc"
  by (simp add: performables_set_def Let_def)

text \<open>Distinct work ids within an observation give distinct unique ids, if those tell results apart.\<close>

lemma distinct_uids:
  "distinct (map cr_WorkID rs) \<Longrightarrow> inj_on UniqueID R \<Longrightarrow> set rs \<subseteq> R \<Longrightarrow> distinct (map UniqueID rs)"
  by (simp add: distinct_map inj_on_subset)

text \<open>
  The tally after all observations, from an empty one: the votes of a result are the number of
  observations that contain it.
\<close>

lemma uid_votes_count:
  assumes "\<forall>ob\<in>set obs. distinct (map cr_WorkID (ao_Performable ob))"
    and inj: "inj_on UniqueID R" and R: "\<forall>ob\<in>set obs. set (ao_Performable ob) \<subseteq> R" and "r \<in> R"
  shows "uid_votes (fold (performables_add UniqueID) obs (newPerformables q l k)) (UniqueID r) =
    int (length (filter (\<lambda>ob. r \<in> set (ao_Performable ob)) obs))"
proof -
  have dist: "distinct (map UniqueID b)" if "b \<in> set (map ao_Performable obs)" for b
    using that assms(1) R by (auto intro: distinct_uids [OF _ inj])
  have "length (filter (\<lambda>b. UniqueID r \<in> UniqueID ` set b) (map ao_Performable obs)) =
      length (filter (\<lambda>ob. r \<in> set (ao_Performable ob)) obs)"
    using R \<open>r \<in> R\<close> inj
    by (simp add: filter_map o_def)
      (intro arg_cong [of _ _ length] filter_cong refl inj_on_image_mem_iff [of _ R]; blast)
  then show ?thesis
    using performable_votes.votes_single_ballots [of "map ao_Performable obs" UniqueID
        "newPerformables q l k" "UniqueID r", OF dist]
    by (simp add: performables_add_fold uid_votes_def newPerformables_def)
qed

lemma agreed_observed_by_quorum:
  assumes "\<forall>ob\<in>set obs. distinct (map cr_WorkID (ao_Performable ob))"
    and "inj_on UniqueID (\<Union>ob\<in>set obs. set (ao_Performable ob))"
    and "p = fold (performables_add UniqueID) obs (newPerformables q l k)"
    and "r \<in> set (ac_AgreedPerformables (performables_set draw ks p oc))"
  shows "q \<le> int (length (filter (\<lambda>ob. r \<in> set (ao_Performable ob)) obs)) \<and>
    r \<in> (\<Union>ob\<in>set obs. set (ao_Performable ob))"
proof -
  let ?R = "\<Union>ob\<in>set obs. set (ao_Performable ob)"
  have inv: "pf_inv UniqueID ?R p"
    using pf_inv_adds [OF pf_inv_new, of UniqueID obs q l k] assms(3) by simp
  from assms(4) set_agreed_subset have "r \<in> set (agreed_loop p {} (sort ks))" by blast
  then obtain uid pc where pc: "pf_resultCount p uid = Some pc" "rac_result pc = r"
      "pf_quorumThreshold p \<le> rac_count pc"
    by (blast dest: agreed_loop_votes)
  with inv have r: "UniqueID r = uid" "r \<in> ?R" by (auto simp: pf_inv_def)
  have "rac_count pc = uid_votes p (UniqueID r)" using pc r by (simp add: uid_votes_def)
  also have "\<dots> = int (length (filter (\<lambda>ob. r \<in> set (ao_Performable ob)) obs))"
    unfolding assms(3) by (rule uid_votes_count [OF assms(1,2) _ r(2)]) blast
  finally show ?thesis
    using pc(3) r(2) assms(3) by (simp add: newPerformables_def)
qed

section \<open>Independence of the order of the observations\<close>

lemma uid_votes_perm:
  assumes "mset obs = mset obs'"
  shows "uid_votes (fold (performables_add UniqueID) obs p) =
    uid_votes (fold (performables_add UniqueID) obs' p)"
proof
  fix k
  have "(\<Sum>b\<leftarrow>map ao_Performable obs. int (count_list (map UniqueID b) k)) =
      (\<Sum>b\<leftarrow>map ao_Performable obs'. int (count_list (map UniqueID b) k))"
  proof -
    let ?f = "\<lambda>ob. int (count_list (map UniqueID (ao_Performable ob)) k)"
    have "sum_mset (mset (map ?f obs)) = sum_mset (mset (map ?f obs'))"
      using assms by simp
    then show ?thesis by (simp only: sum_mset_sum_list map_map o_def)
  qed
  then show "uid_votes (fold (performables_add UniqueID) obs p) k =
      uid_votes (fold (performables_add UniqueID) obs' p) k"
    by (simp add: performables_add_fold performable_votes.votes_ballots)
qed

lemma positive_add1:
  "(\<And>uid pc. pf_resultCount p uid = Some pc \<Longrightarrow> 0 < rac_count pc) \<Longrightarrow>
     pf_resultCount (performables_add1 u r p) uid = Some pc \<Longrightarrow> 0 < rac_count pc"
  by (fastforce simp: performables_add1_def Let_def split: option.splits if_splits)

lemma positive_adds:
  "pf_resultCount (fold (performables_add u) obs (newPerformables q l k)) uid = Some pc \<Longrightarrow>
     0 < rac_count pc"
proof -
  have one: "0 < rac_count pc" if "pf_resultCount (fold (performables_add1 u) rs p) uid = Some pc"
    "\<And>uid pc. pf_resultCount p uid = Some pc \<Longrightarrow> 0 < rac_count pc" for rs p uid pc
    using that
  proof (induction rs arbitrary: p)
    case (Cons r rs)
    from Cons.IH [of "performables_add1 u r p"] Cons.prems positive_add1 [of p u r]
    show ?case by fastforce
  qed simp
  have "0 < rac_count pc" if "pf_resultCount (fold (performables_add u) obs p) uid = Some pc"
    "\<And>uid pc. pf_resultCount p uid = Some pc \<Longrightarrow> 0 < rac_count pc" for p uid pc
    using that
  proof (induction obs arbitrary: p)
    case (Cons ob obs)
    from Cons.IH [of "performables_add u ob p"] Cons.prems one [of "ao_Performable ob" p]
    show ?case by (simp add: performables_add_def)
  qed simp
  from this [of "newPerformables q l k" uid pc]
  show "pf_resultCount (fold (performables_add u) obs (newPerformables q l k)) uid = Some pc \<Longrightarrow>
     0 < rac_count pc"
    by (simp add: newPerformables_def)
qed

lemma resultCount_perm:
  assumes "mset obs = mset obs'" and inj: "inj_on UniqueID (\<Union>ob\<in>set obs. set (ao_Performable ob))"
  shows "pf_resultCount (fold (performables_add UniqueID) obs (newPerformables q l k)) =
    pf_resultCount (fold (performables_add UniqueID) obs' (newPerformables q l k))"
    (is "pf_resultCount ?p = pf_resultCount ?p'")
proof
  fix uid
  let ?R = "\<Union>ob\<in>set obs. set (ao_Performable ob)"
  have "set obs' = set obs" using assms(1) by (metis mset_eq_setD)
  then have inv: "pf_inv UniqueID ?R ?p" "pf_inv UniqueID ?R ?p'"
    using pf_inv_adds [OF pf_inv_new, of UniqueID obs q l k]
      pf_inv_adds [OF pf_inv_new, of UniqueID obs' q l k] by simp_all
  have votes: "uid_votes ?p uid = uid_votes ?p' uid"
    using uid_votes_perm [OF assms(1)] by metis
  have zero: "pf_resultCount (fold (performables_add UniqueID) os (newPerformables q l k)) uid = None
      \<longleftrightarrow> uid_votes (fold (performables_add UniqueID) os (newPerformables q l k)) uid = 0" for os
    using positive_adds [of UniqueID os q l k uid] by (auto simp: uid_votes_def split: option.split)
  show "pf_resultCount ?p uid = pf_resultCount ?p' uid"
  proof (cases "pf_resultCount ?p uid")
    case None
    then show ?thesis using zero [of obs] zero [of obs'] votes by simp
  next
    case (Some a)
    then obtain b where b: "pf_resultCount ?p' uid = Some b"
      using zero [of obs] zero [of obs'] votes by fastforce
    then have "rac_result a = rac_result b"
      using pf_inv_Some [OF inv(1) Some] pf_inv_Some [OF inv(2) b] inj by (metis inj_onD)
    moreover have "rac_count a = rac_count b" using votes Some b by (simp add: uid_votes_def)
    ultimately show ?thesis using Some b by simp
  qed
qed

lemma performables_set_cong:
  assumes "pf_resultCount p = pf_resultCount p'" "pf_limit p = pf_limit p'"
    and "pf_keyRandSource p = pf_keyRandSource p'" "pf_quorumThreshold p = pf_quorumThreshold p'"
    and "range_order (pf_resultCount p) ks" "range_order (pf_resultCount p') ks'"
  shows "performables_set draw ks p oc = performables_set draw ks' p' oc"
proof -
  have "p = p'" using assms(1-4) by simp
  moreover have "sort ks = sort ks'"
    using assms(1,5,6) by (metis properties_for_sort range_order_mset mset_sort sorted_sort)
  ultimately show ?thesis by (simp add: performables_set_def)
qed

section \<open>Properties\<close>

text \<open>
  C7: the agreed performables of an outcome do not depend on the order in which the observations
  arrive nor on the order in which a node ranges over its map, so all nodes compute the same ones.
\<close>

theorem performables_order_independent:
  assumes "mset obs = mset obs'"
    and "inj_on UniqueID (\<Union>ob\<in>set obs. set (ao_Performable ob))"
    and "p = fold (performables_add UniqueID) obs (newPerformables q l k)"
    and "p' = fold (performables_add UniqueID) obs' (newPerformables q l k)"
    and "range_order (pf_resultCount p) ks" and "range_order (pf_resultCount p') ks'"
  shows "performables_set draw ks p oc = performables_set draw ks' p' oc"
  using resultCount_perm [OF assms(1,2), of q l k] assms(3-6)
  by (intro performables_set_cong) simp_all

definition sample_ob :: AutomationObservation where
  "sample_ob = empty_observation\<lparr>ao_Performable := [sample_result 5 ''a'' 10]\<rparr>"

lemma sample_obs_count:
  "pf_resultCount (fold (performables_add cr_WorkID) [sample_ob, empty_observation]
     (newPerformables q l k)) = [''a'' \<mapsto> \<lparr>rac_result = sample_result 5 ''a'' 10, rac_count = 1\<rparr>]"
  "pf_resultCount (fold (performables_add cr_WorkID) [empty_observation, sample_ob]
     (newPerformables q l k)) = [''a'' \<mapsto> \<lparr>rac_result = sample_result 5 ''a'' 10, rac_count = 1\<rparr>]"
  by (simp_all add: performables_add_def performables_add1_def newPerformables_def sample_ob_def
      empty_observation_def sample_result_def)

theorem performables_order_independent_witness:
  "performables_set (\<lambda>_ _ i. i) [''a''] (fold (performables_add cr_WorkID)
     [sample_ob, empty_observation] (newPerformables 1 100 [])) empty_outcome =
   performables_set (\<lambda>_ _ i. i) [''a''] (fold (performables_add cr_WorkID)
     [empty_observation, sample_ob] (newPerformables 1 100 [])) empty_outcome"
  by (rule performables_order_independent [OF _ _ refl refl])
    (simp_all only: sample_obs_count, simp_all add: range_order_def sample_ob_def
      empty_observation_def)

text \<open>
  With at most \<open>f\<close> faulty nodes and a quorum of \<open>f + 1\<close>, every agreed performable was
  observed, field for field, by a node that is not faulty.
\<close>

lemma agreed_performable_from_honest_node:
  assumes "\<forall>(i, ob)\<in>set obs. distinct (map cr_WorkID (ao_Performable ob))"
    and "inj_on UniqueID (\<Union>(i, ob)\<in>set obs. set (ao_Performable ob))"
    and "length (filter (\<lambda>(i, ob). faulty i) obs) \<le> f"
    and "p = fold (performables_add UniqueID) (map snd obs) (newPerformables (int f + 1) l k)"
    and "r \<in> set (ac_AgreedPerformables (performables_set draw ks p oc))"
  shows "\<exists>(i, ob)\<in>set obs. \<not> faulty i \<and> r \<in> set (ao_Performable ob)"
proof -
  have "int f + 1 \<le> int (length (filter (\<lambda>ob. r \<in> set (ao_Performable ob)) (map snd obs)))"
    using agreed_observed_by_quorum [of "map snd obs" UniqueID p "int f + 1" l k r draw ks oc]
      assms by (auto simp: case_prod_unfold)
  then have "length (filter (\<lambda>x. faulty (fst x)) obs) <
      length (filter (\<lambda>x. r \<in> set (ao_Performable (snd x))) obs)"
    using assms(3) by (simp add: filter_map o_def case_prod_unfold)
  from filter_pigeonhole [OF this] show ?thesis by (auto simp: case_prod_unfold)
qed

lemma sample_agreed_state:
  "fold (performables_add cr_WorkID) [sample_ob, sample_ob, empty_observation]
     (newPerformables q l k) =
   \<lparr>pf_limit = l, pf_keyRandSource = k, pf_quorumThreshold = q,
    pf_resultCount = [''a'' \<mapsto> \<lparr>rac_result = sample_result 5 ''a'' 10, rac_count = 2\<rparr>]\<rparr>"
  by (simp add: performables_add_def performables_add1_def newPerformables_def sample_ob_def
      empty_observation_def sample_result_def Let_def)

lemma sample_agreed:
  "ac_AgreedPerformables (performables_set (\<lambda>_ _ i. i) [''a''] (fold (performables_add cr_WorkID)
     [sample_ob, sample_ob, empty_observation] (newPerformables 2 100 k)) oc) =
   [sample_result 5 ''a'' 10]"
  unfolding sample_agreed_state by (simp add: performables_set_def Let_def limit_to_def)

lemma agreed_performable_from_honest_node_witness:
  "\<exists>(i, ob)\<in>set [(0::nat, sample_ob), (1, sample_ob), (2, empty_observation)]. \<not> i = 2 \<and>
     sample_result 5 ''a'' 10 \<in> set (ao_Performable ob)"
proof (rule agreed_performable_from_honest_node [of _ cr_WorkID "\<lambda>i. i = 2" 1 _ 100 "[]"
      _ "\<lambda>_ _ i. i" "[''a'']" empty_outcome, OF _ _ _ refl])
  have snds: "map snd [(0::nat, sample_ob), (1, sample_ob), (2, empty_observation)] =
      [sample_ob, sample_ob, empty_observation]" by simp
  show "sample_result 5 ''a'' 10 \<in> set (ac_AgreedPerformables (performables_set (\<lambda>_ _ i. i) [''a'']
      (fold (performables_add cr_WorkID)
        (map snd [(0::nat, sample_ob), (1, sample_ob), (2, empty_observation)])
        (newPerformables (int 1 + 1) 100 [])) empty_outcome))"
    unfolding snds using sample_agreed by simp
qed (simp_all add: sample_ob_def empty_observation_def)

text \<open>
  A result with a quorum of votes is agreed on, unless a result of the same work id is, or
  the outcome is full: if the outcome holds fewer results than its limit, it holds one of every
  work id that reached the quorum.
\<close>

lemma quorum_is_agreed:
  assumes "\<forall>ob\<in>set obs. distinct (map cr_WorkID (ao_Performable ob))"
    and "inj_on UniqueID (\<Union>ob\<in>set obs. set (ao_Performable ob))"
    and "p = fold (performables_add UniqueID) obs (newPerformables q l k)"
    and "range_order (pf_resultCount p) ks" and "0 < q"
    and "q \<le> int (length (filter (\<lambda>ob. r \<in> set (ao_Performable ob)) obs))"
    and "length (ac_AgreedPerformables (performables_set draw ks p oc)) < l"
  shows "cr_WorkID r \<in> cr_WorkID ` set (ac_AgreedPerformables (performables_set draw ks p oc))"
proof -
  let ?R = "\<Union>ob\<in>set obs. set (ao_Performable ob)"
  have "filter (\<lambda>ob. r \<in> set (ao_Performable ob)) obs \<noteq> []" using assms(5,6) by auto
  then have r: "r \<in> ?R" by (auto simp: filter_empty_conv)
  have votes: "q \<le> uid_votes p (UniqueID r)"
    using uid_votes_count [OF assms(1,2) _ r, of q l k] assms(6) unfolding assms(3) by fastforce
  then obtain pc where pc: "pf_resultCount p (UniqueID r) = Some pc" "q \<le> rac_count pc"
    using assms(5) by (auto simp: uid_votes_def split: option.splits)
  have inv: "pf_inv UniqueID ?R p"
    using pf_inv_adds [OF pf_inv_new, of UniqueID obs q l k] assms(3) by simp
  have "rac_result pc = r"
    using pf_inv_Some [OF inv pc(1)] r assms(2) by (blast dest: inj_onD)
  moreover have "UniqueID r \<in> set (sort ks)"
    using assms(4) pc(1) by (auto simp: range_order_def)
  moreover have "pf_quorumThreshold p = q" "pf_limit p = l"
    using assms(3) by (simp_all add: newPerformables_def)
  ultimately show ?thesis
    using agreed_loop_complete [of "UniqueID r" "sort ks" p pc "{}"] pc assms(7)
    by (auto simp: performables_set_def Let_def limit_to_def split: if_splits)
qed

lemma quorum_is_agreed_witness:
  "cr_WorkID (sample_result 5 ''a'' 10) \<in> cr_WorkID ` set (ac_AgreedPerformables
     (performables_set (\<lambda>_ _ i. i) [''a''] (fold (performables_add cr_WorkID)
        [sample_ob, sample_ob, empty_observation] (newPerformables 2 100 [])) empty_outcome))"
  by (rule quorum_is_agreed [of _ cr_WorkID, OF _ _ refl])
    (simp_all only: sample_agreed, simp_all only: sample_agreed_state, simp_all add: range_order_def sample_ob_def
      empty_observation_def)

end
