(* ===== verification/Coordinated_Proposals.thy ===== *)
theory Coordinated_Proposals
  imports Performables
begin

text \<open>
  \<open>pkg/v3/plugin/coordinated_block_proposals.go\<close>: the proposals of an outcome. Observations add
  their proposals and one vote per recent block; \<open>set\<close> carries the surfaced rounds of the
  previous outcome over, drops what is being performed, and opens a new round whose proposals
  are bound to the latest block with a quorum. In the source the extension of a trigger is
  reached through a pointer, so zeroing its block number also changes the collected proposal;
  nothing reads that field of a collected proposal again.
\<close>

record coordinatedBlockProposals =
  cb_quorumBlockthreshold :: int
  cb_roundHistoryLimit :: nat
  cb_perRoundLimit :: nat
  cb_keyRandSource :: key16
  cb_recentBlocks :: "BlockKey \<rightharpoonup> int"
  cb_allNewProposals :: "CoordinatedBlockProposal list"

definition newCoordinatedBlockProposals ::
    "int \<Rightarrow> nat \<Rightarrow> nat \<Rightarrow> key16 \<Rightarrow> coordinatedBlockProposals" where
  "newCoordinatedBlockProposals threshold roundHistoryLimit perRoundLimit rSrc =
     \<lparr>cb_quorumBlockthreshold = threshold, cb_roundHistoryLimit = roundHistoryLimit,
      cb_perRoundLimit = perRoundLimit, cb_keyRandSource = rSrc,
      cb_recentBlocks = Map.empty, cb_allNewProposals = []\<rparr>"

definition add_block :: "BlockKey \<Rightarrow> coordinatedBlockProposals \<Rightarrow> coordinatedBlockProposals" where
  "add_block val c =
     (case cb_recentBlocks c val of
        Some n \<Rightarrow> c\<lparr>cb_recentBlocks := (cb_recentBlocks c)(val \<mapsto> n + 1)\<rparr>
      | None \<Rightarrow> c\<lparr>cb_recentBlocks := (cb_recentBlocks c)(val \<mapsto> 1)\<rparr>)"

definition proposals_add ::
    "AutomationObservation \<Rightarrow> coordinatedBlockProposals \<Rightarrow> coordinatedBlockProposals" where
  "proposals_add ao c =
     fold add_block (ao_BlockHistory ao)
       (c\<lparr>cb_allNewProposals := cb_allNewProposals c @ ao_UpkeepProposals ao\<rparr>)"

definition zero_block :: BlockKey where "zero_block = BlockKey 0 0"

fun quorum_block_loop :: "coordinatedBlockProposals \<Rightarrow> BlockKey \<Rightarrow> BlockKey list \<Rightarrow> BlockKey" where
  "quorum_block_loop c mostRecent [] = mostRecent"
| "quorum_block_loop c mostRecent (block # blocks) =
     (case cb_recentBlocks c block of
        None \<Rightarrow> quorum_block_loop c mostRecent blocks
      | Some cnt \<Rightarrow>
          if cnt \<ge> cb_quorumBlockthreshold c \<and>
             (bk_Hash mostRecent = 0 \<or> bk_Number block > bk_Number mostRecent \<or>
              bk_Number block = bk_Number mostRecent \<and> bk_Hash block > bk_Hash mostRecent)
          then quorum_block_loop c block blocks
          else quorum_block_loop c mostRecent blocks)"

text \<open>\<open>ks\<close> is the order in which the map of blocks is ranged over.\<close>

definition getLatestQuorumBlock ::
    "BlockKey list \<Rightarrow> coordinatedBlockProposals \<Rightarrow> BlockKey \<times> bool" where
  "getLatestQuorumBlock ks c =
     (let mostRecent = quorum_block_loop c zero_block ks in (mostRecent, bk_Hash mostRecent \<noteq> 0))"

definition proposalExists ::
    "CoordinatedBlockProposal list list \<Rightarrow> CoordinatedBlockProposal \<Rightarrow> bool" where
  "proposalExists existing new =
     list_ex (list_ex (\<lambda>proposal. cbp_WorkID proposal = cbp_WorkID new)) existing"

definition performableExists :: "CheckResult list \<Rightarrow> CoordinatedBlockProposal \<Rightarrow> bool" where
  "performableExists performables proposal =
     list_ex (\<lambda>performable. cbp_WorkID proposal = cr_WorkID performable) performables"

text \<open>The loop of \<open>set\<close> over the new proposals\<close>

fun new_proposals ::
    "CoordinatedBlockProposal list list \<Rightarrow> CheckResult list \<Rightarrow> BlockKey \<Rightarrow> WorkID set \<Rightarrow>
     CoordinatedBlockProposal list \<Rightarrow> CoordinatedBlockProposal list" where
  "new_proposals surfaced agreed block added [] = []"
| "new_proposals surfaced agreed block added (proposal # ps) =
     (if proposalExists surfaced proposal then new_proposals surfaced agreed block added ps
      else if performableExists agreed proposal then new_proposals surfaced agreed block added ps
      else if cbp_WorkID proposal \<in> added then new_proposals surfaced agreed block added ps
      else proposal\<lparr>cbp_Trigger := rebind block (cbp_Trigger proposal)\<rparr> #
        new_proposals surfaced agreed block (insert (cbp_WorkID proposal) added) ps)"

text \<open>\<open>outcome.SurfacedProposals[:c.roundHistoryLimit-1]\<close>; the limit is a positive constant.\<close>

definition proposals_set ::
    "rand_draw \<Rightarrow> BlockKey list \<Rightarrow> coordinatedBlockProposals \<Rightarrow> AutomationOutcome \<Rightarrow>
     AutomationOutcome \<Rightarrow> AutomationOutcome" where
  "proposals_set draw ks c prevOutcome outcome =
     (let agreed = ac_AgreedPerformables outcome;
          carried = map (filter (\<lambda>p. \<not> performableExists agreed p))
                      (ac_SurfacedProposals prevOutcome);
          latest = getLatestQuorumBlock ks c
      in if \<not> snd latest then outcome\<lparr>ac_SurfacedProposals := carried\<rparr>
         else let surfaced = (if length carried \<ge> cb_roundHistoryLimit c
                              then take (cb_roundHistoryLimit c - 1) carried else carried);
                  proposals = new_proposals surfaced agreed (fst latest) {} (cb_allNewProposals c);
                  sorted = sort_key (\<lambda>p. ShuffleString draw (cbp_WorkID p) (cb_keyRandSource c))
                             proposals;
                  limited = limit_to (cb_perRoundLimit c) sorted
              in outcome\<lparr>ac_SurfacedProposals := limited # surfaced\<rparr>)"

section \<open>The vote on blocks\<close>

definition block_votes :: "coordinatedBlockProposals \<Rightarrow> BlockKey \<Rightarrow> int" where
  "block_votes c b = (case cb_recentBlocks c b of None \<Rightarrow> 0 | Some n \<Rightarrow> n)"

interpretation block_tally: tally add_block block_votes "\<lambda>b. b"
  by unfold_locales (auto simp: block_votes_def add_block_def fun_eq_iff split: option.splits)

lemma block_votes_new_proposals [simp]:
  "block_votes (c\<lparr>cb_allNewProposals := ps\<rparr>) = block_votes c"
  by (simp add: block_votes_def fun_eq_iff)

lemma cb_add_block [simp]:
  "cb_quorumBlockthreshold (fold add_block bs c) = cb_quorumBlockthreshold c"
  "cb_roundHistoryLimit (fold add_block bs c) = cb_roundHistoryLimit c"
  "cb_perRoundLimit (fold add_block bs c) = cb_perRoundLimit c"
  "cb_keyRandSource (fold add_block bs c) = cb_keyRandSource c"
  "cb_allNewProposals (fold add_block bs c) = cb_allNewProposals c"
  by (induction bs arbitrary: c) (auto simp: add_block_def split: option.split)

lemma cb_adds [simp]:
  "cb_quorumBlockthreshold (fold proposals_add obs c) = cb_quorumBlockthreshold c"
  "cb_roundHistoryLimit (fold proposals_add obs c) = cb_roundHistoryLimit c"
  "cb_perRoundLimit (fold proposals_add obs c) = cb_perRoundLimit c"
  "cb_keyRandSource (fold proposals_add obs c) = cb_keyRandSource c"
  "cb_allNewProposals (fold proposals_add obs c) =
     cb_allNewProposals c @ concat (map ao_UpkeepProposals obs)"
  by (induction obs arbitrary: c) (simp_all add: proposals_add_def)

lemma block_votes_adds:
  assumes "\<forall>ob\<in>set obs. distinct (ao_BlockHistory ob)"
  shows "block_votes (fold proposals_add obs c) b =
    block_votes c b + int (length (filter (\<lambda>ob. b \<in> set (ao_BlockHistory ob)) obs))"
  using assms
proof (induction obs arbitrary: c)
  case (Cons ob obs)
  then show ?case
    by (simp add: proposals_add_def block_tally.votes_fold count_list_distinct)
qed simp

text \<open>The blocks with a quorum, and what the loop makes of them\<close>

definition quorum_blocks :: "coordinatedBlockProposals \<Rightarrow> BlockKey set" where
  "quorum_blocks c = {b. \<exists>n. cb_recentBlocks c b = Some n \<and> cb_quorumBlockthreshold c \<le> n}"

lemma BlockKey_less: "a < b \<longleftrightarrow> bk_Number a < bk_Number b \<or>
    bk_Number a = bk_Number b \<and> bk_Hash a < bk_Hash b"
  by (simp add: less_BlockKey_def)

text \<open>From a block with a hash on, the loop computes a maximum.\<close>

lemma quorum_block_loop_max:
  assumes "\<forall>b\<in>set ks \<inter> quorum_blocks c. bk_Hash b \<noteq> 0" and "bk_Hash m \<noteq> 0"
  shows "quorum_block_loop c m ks = Max (insert m (set ks \<inter> quorum_blocks c))"
  using assms
proof (induction ks arbitrary: m)
  case (Cons k ks)
  show ?case
  proof (cases "k \<in> quorum_blocks c")
    case True
    then obtain n where n: "cb_recentBlocks c k = Some n" "cb_quorumBlockthreshold c \<le> n"
      by (auto simp: quorum_blocks_def)
    let ?m = "max m k"
    have "?m = (if m < k then k else m)" by (auto simp: max_def)
    then have "quorum_block_loop c m (k # ks) = quorum_block_loop c ?m ks"
      using n Cons.prems(2) by (simp add: BlockKey_less)
    also have "\<dots> = Max (insert ?m (set ks \<inter> quorum_blocks c))"
      using Cons.prems True by (intro Cons.IH) (auto simp: max_def)
    also have "\<dots> = Max (insert m (set (k # ks) \<inter> quorum_blocks c))"
      using True Max_insert [of "insert m (set ks \<inter> quorum_blocks c)" k]
      by (simp add: Max_insert_max insert_commute [of m k])
    finally show ?thesis .
  next
    case False
    then have "quorum_block_loop c m (k # ks) = quorum_block_loop c m ks"
      by (auto simp: quorum_blocks_def split: option.split)
    with Cons False show ?thesis by simp
  qed
qed simp

lemma quorum_block_loop_first:
  assumes "\<forall>b\<in>set ks \<inter> quorum_blocks c. bk_Hash b \<noteq> 0" and "bk_Hash m = 0"
  shows "quorum_block_loop c m ks =
    (if set ks \<inter> quorum_blocks c = {} then m else Max (set ks \<inter> quorum_blocks c))"
  using assms
proof (induction ks)
  case (Cons k ks)
  show ?case
  proof (cases "k \<in> quorum_blocks c")
    case True
    then have "quorum_block_loop c m (k # ks) = quorum_block_loop c k ks"
      using Cons.prems(2) by (auto simp: quorum_blocks_def)
    also have "\<dots> = Max (insert k (set ks \<inter> quorum_blocks c))"
      using Cons.prems True by (intro quorum_block_loop_max) auto
    finally show ?thesis using True by simp
  next
    case False
    then have "quorum_block_loop c m (k # ks) = quorum_block_loop c m ks"
      by (auto simp: quorum_blocks_def split: option.split)
    with Cons False show ?thesis by simp
  qed
qed simp

text \<open>
  The specification: the latest block among those with a quorum, if there is one. It holds
  where no block with a quorum has the zero hash.
\<close>

lemma getLatestQuorumBlock_Max:
  assumes "range_order (cb_recentBlocks c) ks" and "\<forall>b\<in>quorum_blocks c. bk_Hash b \<noteq> 0"
  shows "getLatestQuorumBlock ks c =
    (if quorum_blocks c = {} then (zero_block, False) else (Max (quorum_blocks c), True))"
proof -
  have sub: "quorum_blocks c \<subseteq> set ks"
    using assms(1) by (auto simp: quorum_blocks_def range_order_def)
  then have q: "set ks \<inter> quorum_blocks c = quorum_blocks c" by blast
  have "bk_Hash (Max (quorum_blocks c)) \<noteq> 0" if "quorum_blocks c \<noteq> {}"
    using Max_in [OF finite_subset [OF sub finite_set] that] assms(2) by blast
  then show ?thesis
    using quorum_block_loop_first [of ks c zero_block] assms(2)
    by (simp add: getLatestQuorumBlock_def Let_def q zero_block_def)
qed

text \<open>The chosen block has a quorum whatever the hashes are.\<close>

lemma quorum_block_loop_votes:
  "quorum_block_loop c m ks = m \<or> quorum_block_loop c m ks \<in> quorum_blocks c"
proof (induction ks arbitrary: m)
  case (Cons k ks)
  from Cons.IH [of m] Cons.IH [of k] show ?case
    by (auto simp: quorum_blocks_def split: option.split)
qed simp

lemma getLatestQuorumBlock_votes:
  "snd (getLatestQuorumBlock ks c) \<Longrightarrow> fst (getLatestQuorumBlock ks c) \<in> quorum_blocks c"
  using quorum_block_loop_votes [of c zero_block ks]
  by (auto simp: getLatestQuorumBlock_def Let_def zero_block_def)

section \<open>The new round\<close>

lemma proposalExists_iff:
  "proposalExists rounds p \<longleftrightarrow> cbp_WorkID p \<in> cbp_WorkID ` set (concat rounds)"
  by (simp add: proposalExists_def list_ex_iff image_iff eq_commute [of "cbp_WorkID p"])

lemma performableExists_iff: "performableExists rs p \<longleftrightarrow> cbp_WorkID p \<in> cr_WorkID ` set rs"
  by (auto simp: performableExists_def list_ex_iff)

lemma new_proposals_sound:
  "p \<in> set (new_proposals surfaced agreed block added ps) \<Longrightarrow>
     cbp_WorkID p \<notin> added \<and> cbp_WorkID p \<notin> cbp_WorkID ` set (concat surfaced) \<and>
     cbp_WorkID p \<notin> cr_WorkID ` set agreed \<and>
     (\<exists>p0\<in>set ps. p = p0\<lparr>cbp_Trigger := rebind block (cbp_Trigger p0)\<rparr>)"
  by (induction ps arbitrary: added)
    (auto simp: proposalExists_iff performableExists_iff simp del: set_concat split: if_splits)

lemma new_proposals_distinct:
  "distinct (map cbp_WorkID (new_proposals surfaced agreed block added ps))"
  by (induction ps arbitrary: added) (auto dest: new_proposals_sound)

lemma new_proposals_complete:
  "p \<in> set ps \<Longrightarrow> cbp_WorkID p \<in> added \<union> cbp_WorkID ` set (concat surfaced) \<union>
     cr_WorkID ` set agreed \<union> cbp_WorkID ` set (new_proposals surfaced agreed block added ps)"
proof (induction ps arbitrary: added)
  case (Cons q ps)
  then show ?case
    by (cases "p = q")
      (auto simp: proposalExists_iff performableExists_iff simp del: set_concat split: if_splits)
qed simp

section \<open>The surfaced rounds\<close>

lemma concat_take_prefix: "concat xs = concat (take n xs) @ concat (drop n xs)"
  by (metis append_take_drop_id concat_append)

lemma distinct_map_concat_take:
  "distinct (map f (concat xs)) \<Longrightarrow> distinct (map f (concat (take n xs)))"
  by (subst (asm) concat_take_prefix [of xs n]) simp

definition carried_rounds ::
    "CheckResult list \<Rightarrow> AutomationOutcome \<Rightarrow> CoordinatedBlockProposal list list" where
  "carried_rounds agreed prev = map (filter (\<lambda>p. \<not> performableExists agreed p)) (ac_SurfacedProposals prev)"

lemma concat_carried:
  "concat (carried_rounds agreed prev) =
     filter (\<lambda>p. \<not> performableExists agreed p) (concat (ac_SurfacedProposals prev))"
  by (simp add: carried_rounds_def filter_concat)

text \<open>The two results of \<open>set\<close>: the carried rounds alone, or a new round before them.\<close>

lemma proposals_set_cases:
  obtains "ac_SurfacedProposals (proposals_set draw ks c prev oc) =
      carried_rounds (ac_AgreedPerformables oc) prev" "\<not> snd (getLatestQuorumBlock ks c)"
  | rounds new where "ac_SurfacedProposals (proposals_set draw ks c prev oc) =
      limit_to (cb_perRoundLimit c)
        (sort_key (\<lambda>p. ShuffleString draw (cbp_WorkID p) (cb_keyRandSource c)) new) # rounds"
    "snd (getLatestQuorumBlock ks c)"
    "new = new_proposals rounds (ac_AgreedPerformables oc) (fst (getLatestQuorumBlock ks c)) {}
       (cb_allNewProposals c)"
    "rounds = carried_rounds (ac_AgreedPerformables oc) prev \<and>
       length rounds < cb_roundHistoryLimit c \<or>
     rounds = take (cb_roundHistoryLimit c - 1) (carried_rounds (ac_AgreedPerformables oc) prev)"
  by (cases "snd (getLatestQuorumBlock ks c)")
    (simp_all add: proposals_set_def carried_rounds_def Let_def)

lemma set_sorted_limited: "p \<in> set (limit_to n (sort_key f xs)) \<Longrightarrow> p \<in> set xs"
  using set_limit_to by fastforce

lemma distinct_sorted_limited:
  "distinct (map g xs) \<Longrightarrow> distinct (map g (limit_to n (sort_key f xs)))"
  by (simp add: distinct_map_limit_to distinct_map_sort_key)

text \<open>Carried rounds keep what the validation of an outcome asks of the surfaced proposals.\<close>

definition rounds_ok ::
    "UpkeepTypeGetter \<Rightarrow> WorkIDGenerator \<Rightarrow> nat \<Rightarrow> CoordinatedBlockProposal list list \<Rightarrow> bool" where
  "rounds_ok utg wg limit rounds \<longleftrightarrow>
     (\<forall>round\<in>set rounds. length round \<le> limit) \<and> distinct (map cbp_WorkID (concat rounds)) \<and>
     (\<forall>p\<in>set (concat rounds). proposal_ok utg wg p)"

lemma rounds_ok_carried:
  assumes "rounds_ok utg wg n (ac_SurfacedProposals prev)"
  shows "rounds_ok utg wg n (carried_rounds agreed prev)"
proof -
  have "length r \<le> n" if "r \<in> set (carried_rounds agreed prev)" for r
    using that assms
    by (auto simp: carried_rounds_def rounds_ok_def intro: le_trans [OF length_filter_le])
  then show ?thesis
    using assms unfolding rounds_ok_def concat_carried by (auto simp: distinct_map_filter')
qed

lemma rounds_ok_take: "rounds_ok utg wg n rounds \<Longrightarrow> rounds_ok utg wg n (take k rounds)"
  unfolding rounds_ok_def
  by (auto simp: distinct_map_concat_take dest: in_set_takeD)

lemma proposal_ok_rebind:
  "proposal_ok utg wg p \<Longrightarrow> workID_ignores_block wg \<Longrightarrow>
     proposal_ok utg wg (p\<lparr>cbp_Trigger := rebind b (cbp_Trigger p)\<rparr>)"
  by (simp add: proposal_ok_def trigger_fits_def workID_ignores_block_def)

lemma rounds_ok_Cons:
  assumes "rounds_ok utg wg n rounds" and "\<forall>p\<in>set ps. proposal_ok utg wg p"
    and "workID_ignores_block wg"
  shows "rounds_ok utg wg n (limit_to n (sort_key f (new_proposals rounds agreed b {} ps)) # rounds)"
proof -
  let ?new = "new_proposals rounds agreed b {} ps"
  let ?round = "limit_to n (sort_key f ?new)"
  have ok: "proposal_ok utg wg p" if "p \<in> set ?round" for p
  proof -
    from new_proposals_sound [OF set_sorted_limited [OF that]] obtain p0
      where "p0 \<in> set ps" "p = p0\<lparr>cbp_Trigger := rebind b (cbp_Trigger p0)\<rparr>" by blast
    with assms(2,3) show ?thesis by (simp add: proposal_ok_rebind)
  qed
  have "cbp_WorkID ` set ?round \<inter> cbp_WorkID ` set (concat rounds) = {}"
    by (auto simp del: set_concat dest!: set_sorted_limited new_proposals_sound)
  then have "distinct (map cbp_WorkID (concat (?round # rounds)))"
    using assms(1) distinct_sorted_limited [OF new_proposals_distinct]
    by (simp add: rounds_ok_def del: set_concat)
  then show ?thesis
    using assms(1) ok length_limit_to by (auto simp: rounds_ok_def)
qed

lemma proposals_set_agreed [simp]:
  "ac_AgreedPerformables (proposals_set draw ks c prev oc) = ac_AgreedPerformables oc"
  by (simp add: proposals_set_def Let_def)

lemma proposals_set_ok:
  assumes "rounds_ok utg wg (cb_perRoundLimit c) (ac_SurfacedProposals prev)"
    and "length (ac_SurfacedProposals prev) \<le> cb_roundHistoryLimit c" and "0 < cb_roundHistoryLimit c"
    and "\<forall>p\<in>set (cb_allNewProposals c). proposal_ok utg wg p" and "workID_ignores_block wg"
  shows "rounds_ok utg wg (cb_perRoundLimit c) (ac_SurfacedProposals (proposals_set draw ks c prev oc))"
    and "length (ac_SurfacedProposals (proposals_set draw ks c prev oc)) \<le> cb_roundHistoryLimit c"
proof -
  let ?carried = "carried_rounds (ac_AgreedPerformables oc) prev"
  have carried: "rounds_ok utg wg (cb_perRoundLimit c) ?carried"
    by (rule rounds_ok_carried [OF assms(1)])
  have len: "length ?carried \<le> cb_roundHistoryLimit c"
    using assms(2) by (simp add: carried_rounds_def)
  show "rounds_ok utg wg (cb_perRoundLimit c) (ac_SurfacedProposals (proposals_set draw ks c prev oc))"
  proof (cases rule: proposals_set_cases [of draw ks c prev oc])
    case 1
    with carried show ?thesis by simp
  next
    case (2 rounds new)
    have "rounds_ok utg wg (cb_perRoundLimit c) rounds"
      using 2(4) carried rounds_ok_take by blast
    from rounds_ok_Cons [OF this assms(4,5)] 2(1,3) show ?thesis by simp
  qed
  show "length (ac_SurfacedProposals (proposals_set draw ks c prev oc)) \<le> cb_roundHistoryLimit c"
  proof (cases rule: proposals_set_cases [of draw ks c prev oc])
    case 1
    with len show ?thesis by simp
  next
    case (2 rounds new)
    with assms(3) len show ?thesis by auto
  qed
qed

section \<open>Properties\<close>

text \<open>
  The block new proposals are coordinated on is the latest among the blocks with a quorum of
  votes (by height, then by hash), whatever order the map of votes is ranged over, and there is
  none exactly when no block has a quorum.
\<close>

lemma quorum_block_is_latest:
  assumes "range_order (cb_recentBlocks c) ks" and "\<forall>b\<in>quorum_blocks c. bk_Hash b \<noteq> 0"
  shows "(snd (getLatestQuorumBlock ks c) \<longleftrightarrow> quorum_blocks c \<noteq> {}) \<and>
    (quorum_blocks c \<noteq> {} \<longrightarrow> fst (getLatestQuorumBlock ks c) \<in> quorum_blocks c \<and>
      (\<forall>b\<in>quorum_blocks c. b \<le> fst (getLatestQuorumBlock ks c)))"
proof -
  have "finite (quorum_blocks c)"
    using assms(1)
    by (auto simp: quorum_blocks_def range_order_def intro: finite_subset [of _ "set ks"])
  then show ?thesis using getLatestQuorumBlock_Max [OF assms] by simp
qed

definition sample_votes :: "coordinatedBlockProposals" where
  "sample_votes = (newCoordinatedBlockProposals 2 20 50 [])\<lparr>cb_recentBlocks :=
     [BlockKey 9 4 \<mapsto> 2, BlockKey 8 3 \<mapsto> 3, BlockKey 10 5 \<mapsto> 1]\<rparr>"

lemma sample_votes_quorum: "quorum_blocks sample_votes = {BlockKey 9 4, BlockKey 8 3}"
  by (auto simp: quorum_blocks_def sample_votes_def newCoordinatedBlockProposals_def
      split: if_splits)

lemma quorum_block_is_latest_witness:
  "snd (getLatestQuorumBlock [BlockKey 10 5, BlockKey 9 4, BlockKey 8 3] sample_votes) \<and>
   BlockKey 8 3 \<le> fst (getLatestQuorumBlock [BlockKey 10 5, BlockKey 9 4, BlockKey 8 3] sample_votes)"
proof -
  have "range_order (cb_recentBlocks sample_votes) [BlockKey 10 5, BlockKey 9 4, BlockKey 8 3]"
    by (auto simp: range_order_def sample_votes_def newCoordinatedBlockProposals_def
        split: if_splits)
  from quorum_block_is_latest [OF this] show ?thesis by (simp add: sample_votes_quorum)
qed

text \<open>
  C29: with at most \<open>f\<close> faulty nodes and a threshold of \<open>f + 1\<close>, a block that proposals are
  coordinated on was in the block history of a node that is not faulty.
\<close>

theorem coordinated_block_from_honest_node:
  assumes "\<forall>(i, ob)\<in>set obs. distinct (ao_BlockHistory ob)"
    and "length (filter (\<lambda>(i, ob). faulty i) obs) \<le> f"
    and "c = fold proposals_add (map snd obs) (newCoordinatedBlockProposals (int f + 1) h l k)"
    and "getLatestQuorumBlock ks c = (b, True)"
  shows "\<exists>(i, ob)\<in>set obs. \<not> faulty i \<and> b \<in> set (ao_BlockHistory ob)"
proof -
  let ?new = "newCoordinatedBlockProposals (int f + 1) h l k"
  have "b \<in> quorum_blocks c" using getLatestQuorumBlock_votes [of ks c] assms(4) by simp
  then have "int f + 1 \<le> block_votes c b"
    using assms(3)
    by (auto simp: quorum_blocks_def block_votes_def newCoordinatedBlockProposals_def)
  also have "\<dots> = int (length (filter (\<lambda>ob. b \<in> set (ao_BlockHistory ob)) (map snd obs)))"
  proof -
    have "\<forall>ob\<in>set (map snd obs). distinct (ao_BlockHistory ob)" using assms(1) by auto
    moreover have "block_votes ?new b = 0"
      by (simp add: block_votes_def newCoordinatedBlockProposals_def)
    ultimately show ?thesis
      using block_votes_adds [of "map snd obs" ?new b] assms(3) by simp
  qed
  finally have "length (filter (\<lambda>x. faulty (fst x)) obs) <
      length (filter (\<lambda>x. b \<in> set (ao_BlockHistory (snd x))) obs)"
    using assms(2) by (simp add: filter_map o_def case_prod_unfold)
  from filter_pigeonhole [OF this] show ?thesis by (auto simp: case_prod_unfold)
qed

theorem coordinated_block_from_honest_node_witness:
  "\<exists>(i, ob)\<in>set [(0::nat, empty_observation\<lparr>ao_BlockHistory := [BlockKey 9 4]\<rparr>),
       (1, empty_observation\<lparr>ao_BlockHistory := [BlockKey 9 4]\<rparr>)].
     \<not> i = 1 \<and> BlockKey 9 4 \<in> set (ao_BlockHistory ob)"
  by (rule coordinated_block_from_honest_node [of _ "\<lambda>i. i = 1" 1 _ 20 50 "[]" "[BlockKey 9 4]",
        OF _ _ refl])
    (simp_all add: empty_observation_def proposals_add_def add_block_def zero_block_def
      newCoordinatedBlockProposals_def getLatestQuorumBlock_def Let_def)

text \<open>
  C18: after \<open>set\<close>, no surfaced proposal, carried over or new, has the work id of an agreed
  performable, so nothing is both performed and proposed in one round.
\<close>

theorem surfaced_not_performed:
  "cbp_WorkID ` set (concat (ac_SurfacedProposals (proposals_set draw ks c prev oc))) \<inter>
     cr_WorkID ` set (ac_AgreedPerformables oc) = {}"
proof -
  have carried: "cbp_WorkID p \<notin> cr_WorkID ` set (ac_AgreedPerformables oc)"
    if "p \<in> set (concat (carried_rounds (ac_AgreedPerformables oc) prev))" for p
    using that unfolding concat_carried by (simp add: performableExists_iff)
  show ?thesis
  proof (cases rule: proposals_set_cases [of draw ks c prev oc])
    case 1
    show ?thesis unfolding 1(1) using carried by blast
  next
    case (2 rounds new)
    have sub: "set (concat rounds) \<subseteq>
        set (concat (carried_rounds (ac_AgreedPerformables oc) prev))"
      using 2(4) by (auto dest: in_set_takeD)
    have "cbp_WorkID p \<notin> cr_WorkID ` set (ac_AgreedPerformables oc)"
      if "p \<in> set (limit_to n (sort_key f new))" for n f p
      using new_proposals_sound [of p rounds] set_sorted_limited [OF that] 2(3) by blast
    then show ?thesis
      unfolding 2(1) concat.simps set_append using carried sub by blast
  qed
qed

text \<open>
  C17: when a block has a quorum and the new round is not full, every proposal of the
  observations has its work id in the outcome: among the agreed performables or surfaced, and
  those surfaced now carry the coordinated block.
\<close>

theorem no_proposal_lost:
  assumes "getLatestQuorumBlock ks c = (b, True)" and "p \<in> set (cb_allNewProposals c)"
    and "ac_SurfacedProposals (proposals_set draw ks c prev oc) = round # rounds"
    and "length round < cb_perRoundLimit c"
  shows "cbp_WorkID p \<in> cr_WorkID ` set (ac_AgreedPerformables oc) \<union>
      cbp_WorkID ` set (concat (round # rounds)) \<and>
    (\<forall>q\<in>set round. tr_BlockNumber (cbp_Trigger q) = bk_Number b \<and>
       tr_BlockHash (cbp_Trigger q) = bk_Hash b)"
proof (cases rule: proposals_set_cases [of draw ks c prev oc])
  case 1
  with assms(1) show ?thesis by simp
next
  case (2 rounds' new)
  then have round: "rounds' = rounds" "set round = set new"
    using assms(3,4) by (auto simp: limit_to_def split: if_splits)
  have "cbp_WorkID p \<in> cbp_WorkID ` set (concat rounds) \<union> cr_WorkID ` set (ac_AgreedPerformables oc)
      \<union> cbp_WorkID ` set new"
    using new_proposals_complete [OF assms(2), of "{}" rounds "ac_AgreedPerformables oc"
        "fst (getLatestQuorumBlock ks c)"]
    unfolding 2(3) round(1) by blast
  moreover have "tr_BlockNumber (cbp_Trigger q) = bk_Number b \<and>
      tr_BlockHash (cbp_Trigger q) = bk_Hash b" if "q \<in> set new" for q
    using new_proposals_sound [OF that [unfolded 2(3)]] assms(1) by auto
  ultimately show ?thesis using round by (auto simp del: set_concat)
qed

definition sample_new :: coordinatedBlockProposals where
  "sample_new = sample_votes\<lparr>cb_allNewProposals := [sample_proposal ''p'' 3]\<rparr>"

theorem no_proposal_lost_witness:
  "cbp_WorkID (sample_proposal ''p'' 3) \<in> cbp_WorkID ` set (concat (ac_SurfacedProposals
     (proposals_set (\<lambda>_ _ i. i) [BlockKey 9 4] sample_new empty_outcome empty_outcome)))"
proof -
  have q: "getLatestQuorumBlock [BlockKey 9 4] sample_new = (BlockKey 9 4, True)"
    by (simp add: getLatestQuorumBlock_def sample_new_def sample_votes_def zero_block_def
        newCoordinatedBlockProposals_def Let_def)
  have "ac_SurfacedProposals
      (proposals_set (\<lambda>_ _ i. i) [BlockKey 9 4] sample_new empty_outcome empty_outcome) =
      [[(sample_proposal ''p'' 3)\<lparr>cbp_Trigger := rebind (BlockKey 9 4) (sample_trigger 3)\<rparr>]]"
    by (simp add: proposals_set_def q Let_def limit_to_def proposalExists_def performableExists_def)
      (simp add: sample_new_def sample_votes_def newCoordinatedBlockProposals_def sample_proposal_def
        empty_outcome_def proposalExists_def performableExists_def)
  from no_proposal_lost [OF q _ this, of "sample_proposal ''p'' 3"] show ?thesis
    unfolding \<open>ac_SurfacedProposals _ = _\<close>
    by (simp add: sample_new_def sample_votes_def newCoordinatedBlockProposals_def
        empty_outcome_def sample_proposal_def)
qed

end
