(* ===== verification/Util_Cache.thy ===== *)
theory Util_Cache
  imports Automation_Types
begin

text \<open>
  \<open>pkg/util/cache.go\<close> and \<open>cleaner.go\<close>: the expiring cache behind the coordinator and the runner. The locale
  \<open>ttl_cache\<close> is what its clients rely on; the cache of the source interprets it. The clock
  is read once per operation and is an argument. \<open>UnixNano\<close> is exact up to the year 2262.
\<close>

record 'v CacheItem =
  ci_Item :: 'v
  ci_Expires :: int

record 'v Cache =
  c_defaultExpiration :: duration
  c_data :: "string \<rightharpoonup> 'v CacheItem"
  c_stop :: bool

definition DefaultCacheExpiration :: duration where "DefaultCacheExpiration = 0"

definition NewCache :: "duration \<Rightarrow> 'v Cache" where
  "NewCache expiration = \<lparr>c_defaultExpiration = expiration, c_data = Map.empty, c_stop = False\<rparr>"

definition Cache_Set :: "time \<Rightarrow> string \<Rightarrow> 'v \<Rightarrow> duration \<Rightarrow> 'v Cache \<Rightarrow> 'v Cache" where
  "Cache_Set now key value expire c =
     (let expire' = (if expire = DefaultCacheExpiration then c_defaultExpiration c else expire);
          exp = (if expire' > 0 then now + expire' else 0)
      in c\<lparr>c_data := (c_data c)(key \<mapsto> \<lparr>ci_Item = value, ci_Expires = exp\<rparr>)\<rparr>)"

text \<open>The pair of a value and a found flag of the source is an option.\<close>

definition Cache_Get :: "time \<Rightarrow> string \<Rightarrow> 'v Cache \<Rightarrow> 'v option" where
  "Cache_Get now key c =
     (case c_data c key of
        None \<Rightarrow> None
      | Some value \<Rightarrow>
          if ci_Expires value > 0 \<and> now > ci_Expires value then None else Some (ci_Item value))"

definition Cache_Keys :: "string list \<Rightarrow> 'v Cache \<Rightarrow> string list" where
  "Cache_Keys ks c = ks"

definition Cache_Delete :: "string \<Rightarrow> 'v Cache \<Rightarrow> 'v Cache" where
  "Cache_Delete key c = c\<lparr>c_data := (c_data c)(key := None)\<rparr>"

text \<open>
  \<open>ClearExpired\<close> first collects the expired keys, in the order \<open>ks\<close> the map is ranged over,
  and then deletes them one by one.
\<close>

definition expired_keys :: "time \<Rightarrow> string list \<Rightarrow> 'v Cache \<Rightarrow> string list" where
  "expired_keys now ks c =
     filter (\<lambda>k. case c_data c k of
               None \<Rightarrow> False
             | Some item \<Rightarrow> ci_Expires item > 0 \<and> now > ci_Expires item) ks"

definition ClearExpired :: "time \<Rightarrow> string list \<Rightarrow> 'v Cache \<Rightarrow> 'v Cache" where
  "ClearExpired now ks c = fold Cache_Delete (expired_keys now ks c) c"

definition ClearAll :: "'v Cache \<Rightarrow> 'v Cache" where
  "ClearAll c = c\<lparr>c_data := Map.empty\<rparr>"

text \<open>
  \<open>Stop\<close> closes the stop channel; closing it a second time panics. \<open>Start\<close> serves the signals
  its \<open>select\<close> receives: ticks, each with the clock and the order the map is ranged over, until
  it sees the closed channel.
\<close>

definition Cache_Stop :: "'v Cache \<Rightarrow> 'v Cache result" where
  "Cache_Stop c = (if c_stop c then Inl (Panic ''close of closed channel'')
                   else Inr (c\<lparr>c_stop := True\<rparr>))"

datatype cache_signal = CacheTick time "string list" | CacheStopped

fun Cache_Start :: "cache_signal list \<Rightarrow> 'v Cache \<Rightarrow> 'v Cache" where
  "Cache_Start [] c = c"
| "Cache_Start (CacheTick now ks # sigs) c = Cache_Start sigs (ClearExpired now ks c)"
| "Cache_Start (CacheStopped # sigs) c = c"

text \<open>
  \<open>pkg/util/cleaner.go\<close>: a collector of its own beside the cache, which \<open>Stop\<close> ends at most
  once (\<open>sync.Once\<close>). \<open>Run\<close> takes the signals of its \<open>select\<close> and the ones of a closed stop
  channel: a stopped cleaner that is run again returns at once.
\<close>

record IntervalCacheCleaner =
  ic_interval :: duration
  ic_stop :: bool

definition NewIntervalCacheCleaner :: "duration \<Rightarrow> IntervalCacheCleaner" where
  "NewIntervalCacheCleaner interval = \<lparr>ic_interval = interval, ic_stop = False\<rparr>"

fun cleaner_Run :: "cache_signal list \<Rightarrow> 'v Cache \<Rightarrow> 'v Cache" where
  "cleaner_Run [] c = c"
| "cleaner_Run (CacheTick now ks # sigs) c = cleaner_Run sigs (ClearExpired now ks c)"
| "cleaner_Run (CacheStopped # sigs) c = c"

definition cleaner_Stop :: "IntervalCacheCleaner \<Rightarrow> IntervalCacheCleaner" where
  "cleaner_Stop ic = ic\<lparr>ic_stop := True\<rparr>"

section \<open>The interface\<close>

text \<open>
  \<open>set t k v c\<close> stores with the cache's own time to live. A value is visible for exactly that
  long; a value once gone does not come back; the garbage collector is invisible to readers.
\<close>

locale ttl_cache =
  fixes get :: "time \<Rightarrow> 'k \<Rightarrow> 'c \<Rightarrow> 'v option"
    and set :: "time \<Rightarrow> 'k \<Rightarrow> 'v \<Rightarrow> 'c \<Rightarrow> 'c"
    and gc :: "time \<Rightarrow> 'k list \<Rightarrow> 'c \<Rightarrow> 'c"
    and ttl :: "'c \<Rightarrow> duration"
  assumes get_set:
      "0 < t \<Longrightarrow> get t' k (set t k v c) = (if 0 < ttl c \<and> t + ttl c < t' then None else Some v)"
    and get_set_now: "get t k (set t k v c) = Some v"
    and get_set_other: "k' \<noteq> k \<Longrightarrow> get t' k' (set t k v c) = get t' k' c"
    and ttl_set: "ttl (set t k v c) = ttl c"
    and ttl_gc: "ttl (gc t ks c) = ttl c"
    and get_earlier: "get t' k c = Some v \<Longrightarrow> t \<le> t' \<Longrightarrow> get t k c = Some v"
    and get_gc: "t \<le> t' \<Longrightarrow> get t' k (gc t ks c) = get t' k c"
begin

lemma expired_stays: "get t k c = None \<Longrightarrow> t \<le> t' \<Longrightarrow> get t' k c = None"
  using get_earlier by (metis not_None_eq)

lemma overwrite:
  "0 < t \<Longrightarrow> get t' k (set t k v (set t0 k w c)) = get t' k (set t k v c)"
  by (simp add: get_set ttl_set)

text \<open>Any number of collector runs before a read leaves the read as it was.\<close>

lemma get_gcs:
  "\<forall>r\<in>List.set runs. fst r \<le> t' \<Longrightarrow>
     get t' k (fold (\<lambda>r. gc (fst r) (snd r)) runs c) = get t' k c"
  by (induction runs arbitrary: c) (simp_all add: get_gc)

end

lemma c_data_Delete_fold:
  "c_data (fold Cache_Delete ks c) k = (if k \<in> set ks then None else c_data c k)"
  by (induction ks arbitrary: c) (auto simp: Cache_Delete_def)

lemma defaultExpiration_Delete_fold [simp]:
  "c_defaultExpiration (fold Cache_Delete ks c) = c_defaultExpiration c"
  by (induction ks arbitrary: c) (auto simp: Cache_Delete_def)

lemma c_data_ClearExpired:
  "range_order (c_data c) ks \<Longrightarrow>
   c_data (ClearExpired now ks c) k =
     (case c_data c k of
        None \<Rightarrow> None
      | Some item \<Rightarrow> if ci_Expires item > 0 \<and> now > ci_Expires item then None else Some item)"
  by (auto simp: ClearExpired_def c_data_Delete_fold expired_keys_def range_order_def
        split: option.split)

lemma Cache_Get_ClearExpired:
  "t \<le> t' \<Longrightarrow> Cache_Get t' k (ClearExpired t ks c) = Cache_Get t' k c"
  by (auto simp: ClearExpired_def Cache_Get_def c_data_Delete_fold expired_keys_def
        split: option.split)

interpretation util_cache: ttl_cache Cache_Get
  "\<lambda>t k v. Cache_Set t k v DefaultCacheExpiration" ClearExpired c_defaultExpiration
proof unfold_locales
  show "Cache_Get t k c = Some v" if "Cache_Get t' k c = Some v" "t \<le> t'" for t t' k v
    and c :: "'v Cache"
    using that by (auto simp: Cache_Get_def split: option.splits if_splits)
  show "Cache_Get t' k (ClearExpired t ks c) = Cache_Get t' k c" if "t \<le> t'" for t t' k ks
    and c :: "'v Cache"
    using that by (rule Cache_Get_ClearExpired)
qed (auto simp: Cache_Get_def Cache_Set_def ClearExpired_def Let_def DefaultCacheExpiration_def)

lemmas cache_simps [store_simps] = util_cache.get_set util_cache.get_set_other util_cache.ttl_set
  util_cache.get_set_now

text \<open>The collector of time \<open>t\<close> deletes nothing that is visible at \<open>t\<close>.\<close>

lemma Cache_Get_ClearExpired_visible:
  "Cache_Get t k c = Some v \<Longrightarrow> Cache_Get t' k (ClearExpired t ks c) = Cache_Get t' k c"
  by (auto simp: ClearExpired_def Cache_Get_def c_data_Delete_fold expired_keys_def
        split: option.splits if_splits)

lemma Cache_Get_gc_None: "Cache_Get t' k c = None \<Longrightarrow> Cache_Get t' k (ClearExpired t ks c) = None"
  by (auto simp: ClearExpired_def Cache_Get_def c_data_Delete_fold split: option.splits if_splits)

lemma Cache_Get_New [simp]: "Cache_Get t k (NewCache d) = None"
  by (simp add: Cache_Get_def NewCache_def)

lemma ttl_New [simp]: "c_defaultExpiration (NewCache d) = d"
  by (simp add: NewCache_def)

text \<open>
  The collector takes the lock twice: it collects the expired keys under a read lock and deletes
  them under a write lock taken later. A value stored in between is deleted although it is fresh.
\<close>

lemma ClearExpired_race:
  "k \<in> set (expired_keys now ks c) \<Longrightarrow>
     Cache_Get t k (fold Cache_Delete (expired_keys now ks c) (Cache_Set now k v d c)) = None"
  by (simp add: Cache_Get_def c_data_Delete_fold)

text \<open>A served cache reads the same as one whose collector never ran, whichever collector it is.\<close>

lemma cleaner_Run_is_Start: "cleaner_Run sigs c = Cache_Start sigs c"
  by (induction sigs c rule: cleaner_Run.induct) simp_all

lemma Cache_Get_Start:
  "\<forall>t ks. CacheTick t ks \<in> set sigs \<longrightarrow> t \<le> t' \<Longrightarrow>
     Cache_Get t' k (Cache_Start sigs c) = Cache_Get t' k c"
proof (induction sigs c rule: Cache_Start.induct)
  case (2 now ks sigs c)
  then have "now \<le> t'" by auto
  with 2 show ?case by (simp add: Cache_Get_ClearExpired)
qed simp_all

end
