(* ===== verification/Util_Closer.thy ===== *)
theory Util_Closer
  imports Interfaces
begin

text \<open>
  \<open>internal/util/closer.go\<close>: the guard that lets a service be started once and closed once per
  start. A cancel function is identified by a number; closing returns the one it called.
\<close>

record Closer =
  cl_cancel :: "nat option"

definition Closer_new :: Closer where "Closer_new = \<lparr>cl_cancel = None\<rparr>"

definition Closer_Store :: "nat \<Rightarrow> Closer \<Rightarrow> bool \<times> Closer" where
  "Closer_Store cancel c =
     (if cl_cancel c \<noteq> None then (False, c) else (True, c\<lparr>cl_cancel := Some cancel\<rparr>))"

definition Closer_Close :: "Closer \<Rightarrow> bool \<times> nat option \<times> Closer" where
  "Closer_Close c =
     (case cl_cancel c of
        Some f \<Rightarrow> (True, Some f, c\<lparr>cl_cancel := None\<rparr>)
      | None \<Rightarrow> (False, None, c))"

text \<open>The use every service makes of it: the flag turned into the service's error.\<close>

definition guarded_start :: "nat \<Rightarrow> Closer \<Rightarrow> Closer result" where
  "guarded_start cancel c =
     (let r = Closer_Store cancel c in if fst r then Inr (snd r) else Inl ProcessAlreadyRunning)"

definition guarded_close :: "Closer \<Rightarrow> Closer result" where
  "guarded_close c =
     (let r = Closer_Close c in if fst r then Inr (snd (snd r)) else Inl ProcessNotRunning)"

interpretation closer: lifecycle "guarded_start f" guarded_close "\<lambda>c. cl_cancel c \<noteq> None"
  by unfold_locales
    (auto simp: guarded_start_def guarded_close_def Closer_Store_def Closer_Close_def Let_def
      split: option.splits)

lemma Closer_Close_cancels: "fst (Closer_Store f c) \<Longrightarrow> fst (snd (Closer_Close (snd (Closer_Store f c)))) = Some f"
  by (auto simp: Closer_Store_def Closer_Close_def split: if_splits)

end
