(* ===== verification/Go_Format.thy ===== *)
theory Go_Format
  imports Go_Prelude
begin

text \<open>
  The verbs of \<open>fmt.Sprintf\<close> the sources build keys with: \<open>%d\<close> of an unsigned integer and
  \<open>%x\<close> of a byte array of fixed length, with the lemmas that make such keys unambiguous.
\<close>

definition dec_digit :: "nat \<Rightarrow> char" where "dec_digit d = char_of (48 + d)"

fun format_d :: "nat \<Rightarrow> string" where
  "format_d n = (if n < 10 then [dec_digit n] else format_d (n div 10) @ [dec_digit (n mod 10)])"

declare format_d.simps [simp del]

definition hex_digit :: "nat \<Rightarrow> char" where
  "hex_digit d = (if d < 10 then char_of (48 + d) else char_of (87 + d))"

text \<open>The \<open>k\<close> hexadecimal digits of the big-endian number \<open>n\<close>.\<close>

fun format_x :: "nat \<Rightarrow> nat \<Rightarrow> string" where
  "format_x 0 n = []"
| "format_x (Suc k) n = format_x k (n div 16) @ [hex_digit (n mod 16)]"

lemma dec_digit_inj: "d < 10 \<Longrightarrow> e < 10 \<Longrightarrow> dec_digit d = dec_digit e \<Longrightarrow> d = e"
proof -
  assume "d < 10" "e < 10" "dec_digit d = dec_digit e"
  then have "of_char (char_of (48 + d) :: char) = (of_char (char_of (48 + e)) :: nat)"
    by (simp add: dec_digit_def)
  with \<open>d < 10\<close> \<open>e < 10\<close> show "d = e" by simp
qed

lemma hex_digit_inj:
  assumes "d < 16" "e < 16" "hex_digit d = hex_digit e"
  shows "d = e"
proof -
  from assms(3) have "(of_char (hex_digit d) :: nat) = of_char (hex_digit e)" by simp
  with assms(1,2) show ?thesis by (auto simp: hex_digit_def split: if_splits)
qed

lemma dec_digit_not_sep: "d < 10 \<Longrightarrow> dec_digit d \<noteq> CHR ''_''"
proof
  assume "d < 10" and "dec_digit d = CHR ''_''"
  then have "(of_char (char_of (48 + d) :: char) :: nat) = of_char (CHR ''_'')"
    by (simp add: dec_digit_def)
  with \<open>d < 10\<close> show False by simp
qed

lemma format_d_no_sep: "CHR ''_'' \<notin> set (format_d n)"
proof (induction n rule: format_d.induct)
  case (1 n)
  then show ?case
    using dec_digit_not_sep [of n] dec_digit_not_sep [of "n mod 10"]
    by (subst format_d.simps) auto
qed

lemma format_d_not_Nil [simp]: "format_d n \<noteq> []"
  by (subst format_d.simps) simp

lemma format_d_inj: "format_d n = format_d m \<Longrightarrow> n = m"
proof (induction n arbitrary: m rule: format_d.induct)
  case (1 n)
  show ?case
  proof (cases "n < 10"; cases "m < 10")
    assume "n < 10" "m < 10"
    then show ?thesis
      using 1(2) dec_digit_inj by (simp add: format_d.simps [of n] format_d.simps [of m])
  next
    assume big: "\<not> n < 10" "\<not> m < 10"
    then have "format_d (n div 10) = format_d (m div 10)"
        and "dec_digit (n mod 10) = dec_digit (m mod 10)"
      using 1(2) by (simp_all add: format_d.simps [of n] format_d.simps [of m])
    then have "n div 10 = m div 10" "n mod 10 = m mod 10"
      using 1(1) [OF big(1)] dec_digit_inj [of "n mod 10" "m mod 10"] by simp_all
    then show ?thesis by (metis div_mult_mod_eq)
  qed (use 1(2) in \<open>auto simp: format_d.simps [of n] format_d.simps [of m] dest: sym [of "[]"]\<close>)
qed

lemma length_format_x [simp]: "length (format_x k n) = k"
  by (induction k arbitrary: n) simp_all

lemma format_x_inj: "format_x k n = format_x k m \<Longrightarrow> n < 16 ^ k \<Longrightarrow> m < 16 ^ k \<Longrightarrow> n = m"
proof (induction k arbitrary: n m)
  case (Suc k)
  then have "n div 16 = m div 16" "n mod 16 = m mod 16"
    using hex_digit_inj [of "n mod 16" "m mod 16"] Suc.IH [of "n div 16" "m div 16"]
    by (auto simp: less_mult_imp_div_less)
  then show ?case by (metis div_mult_mod_eq)
qed simp

text \<open>Two keys whose last parts are separator-free split at the same place.\<close>

lemma split_first_sep:
  "b @ c # a = b' @ c # a' \<Longrightarrow> c \<notin> set b \<Longrightarrow> c \<notin> set b' \<Longrightarrow> b = b' \<and> a = a'"
proof (induction b arbitrary: b')
  case Nil
  then show ?case by (cases b') auto
next
  case (Cons x b)
  then show ?case by (cases b') auto
qed

lemma split_last_sep:
  assumes "a @ c # b = a' @ c # b'" and "c \<notin> set b" and "c \<notin> set b'"
  shows "a = a' \<and> b = b'"
proof -
  have "rev b @ c # rev a = rev b' @ c # rev a'"
    using arg_cong [OF assms(1), of rev] by simp
  from split_first_sep [OF this] assms(2,3) show ?thesis by simp
qed

section \<open>Decimal integers\<close>

text \<open>\<open>SetString\<close> and \<open>String\<close> of \<open>math/big\<close> in base ten\<close>

definition digit_val :: "char \<Rightarrow> nat option" where
  "digit_val c = (let d = of_char c in if 48 \<le> d \<and> d \<le> (57 :: nat) then Some (d - 48) else None)"

fun parse_digits :: "nat \<Rightarrow> string \<Rightarrow> nat option" where
  "parse_digits acc [] = Some acc"
| "parse_digits acc (c # cs) =
     (case digit_val c of None \<Rightarrow> None | Some d \<Rightarrow> parse_digits (acc * 10 + d) cs)"

definition big_SetString :: "string \<Rightarrow> int option" where
  "big_SetString s =
     (case s of
        [] \<Rightarrow> None
      | c # cs \<Rightarrow>
          if c = CHR ''-'' then if cs = [] then None else map_option (\<lambda>n. - int n) (parse_digits 0 cs)
          else if c = CHR ''+'' then if cs = [] then None else map_option int (parse_digits 0 cs)
          else map_option int (parse_digits 0 s))"

definition big_String :: "int \<Rightarrow> string" where
  "big_String n = (if n < 0 then CHR ''-'' # format_d (nat (- n)) else format_d (nat n))"

lemma digit_val_dec_digit [simp]: "d < 10 \<Longrightarrow> digit_val (dec_digit d) = Some d"
  by (simp add: digit_val_def dec_digit_def)

lemma parse_digits_append:
  "parse_digits acc (xs @ ys) =
     (case parse_digits acc xs of None \<Rightarrow> None | Some a \<Rightarrow> parse_digits a ys)"
  by (induction xs arbitrary: acc) (auto split: option.split)

lemma parse_format_d [simp]: "parse_digits 0 (format_d n) = Some n"
proof (induction n rule: format_d.induct)
  case (1 n)
  then show ?case
    by (cases "n < 10") (simp_all add: format_d.simps [of n] parse_digits_append)
qed

lemma digit_of_format_d: "c \<in> set (format_d n) \<Longrightarrow> digit_val c \<noteq> None"
proof (induction n rule: format_d.induct)
  case (1 n)
  then show ?case by (cases "n < 10") (auto simp: format_d.simps [of n])
qed

lemma format_d_no_sign:
  "CHR ''-'' \<notin> set (format_d n)" "CHR ''+'' \<notin> set (format_d n)" "CHR ''|'' \<notin> set (format_d n)"
  using digit_of_format_d [of "CHR ''-''" n] digit_of_format_d [of "CHR ''+''" n]
    digit_of_format_d [of "CHR ''|''" n]
  by (auto simp: digit_val_def)

lemma big_SetString_format_d [simp]: "big_SetString (format_d n) = Some (int n)"
proof -
  obtain c cs where eq: "format_d n = c # cs" using format_d_not_Nil by (meson list.exhaust)
  with format_d_no_sign [of n] have "c \<noteq> CHR ''-''" "c \<noteq> CHR ''+''" by auto
  with eq parse_format_d [of n] show ?thesis by (simp add: big_SetString_def del: parse_digits.simps)
qed

lemma big_SetString_String [simp]: "big_SetString (big_String n) = Some n"
proof (cases "n < 0")
  case True
  then show ?thesis by (simp add: big_String_def) (simp add: big_SetString_def del: parse_digits.simps)
qed (simp add: big_String_def)

end
