(* ===== verification/Coordinator.thy ===== *)
theory Coordinator
  imports Util_Cache Util_Closer Go_Format Samples
begin

text \<open>
  \<open>pkg/v3/coordinator/coordinator.go\<close>: the reports in flight. A record per work id says up to
  which check block a report was accepted, whether its transmission is pending and, once an
  event was seen, how it ended. The records live in an expiring cache for the lockout window.
  The events provider's answer and the clock are arguments; the logger is left out.
\<close>

definition cadence :: duration where "cadence = second"
definition defaultCacheClean :: duration where "defaultCacheClean = 30 * second"

text \<open>The zero value of a record's \<open>transmitType\<close> is an event type that is not a perform.\<close>

record coord_record =
  crd_checkBlockNumber :: BlockNumber
  crd_isTransmissionPending :: bool
  crd_transmitType :: TransmitEventType
  crd_transmitBlockNumber :: BlockNumber

definition zero_TransmitEventType :: TransmitEventType where
  "zero_TransmitEventType = OtherEvent 0"

record coordinator =
  co_closer :: Closer
  co_upkeepTypeGetter :: UpkeepTypeGetter
  co_cache :: "coord_record Cache"
  co_visited :: "bool Cache"
  co_minimumConfirmations :: int
  co_performLockoutWindow :: duration

text \<open>\<open>time.Duration(conf.PerformLockoutWindow) * time.Millisecond\<close> is a 64-bit product.\<close>

definition NewCoordinator :: "UpkeepTypeGetter \<Rightarrow> int \<Rightarrow> int \<Rightarrow> coordinator" where
  "NewCoordinator utg conf_PerformLockoutWindow conf_MinConfirmations =
     (let performLockoutWindow = int64 (conf_PerformLockoutWindow * millisecond)
      in \<lparr>co_closer = Closer_new, co_upkeepTypeGetter = utg,
          co_cache = NewCache performLockoutWindow, co_visited = NewCache performLockoutWindow,
          co_minimumConfirmations = conf_MinConfirmations,
          co_performLockoutWindow = performLockoutWindow\<rparr>)"

definition accepted_record :: "ReportedUpkeep \<Rightarrow> coord_record" where
  "accepted_record ru =
     \<lparr>crd_checkBlockNumber = tr_BlockNumber (ru_Trigger ru), crd_isTransmissionPending = True,
      crd_transmitType = zero_TransmitEventType, crd_transmitBlockNumber = 0\<rparr>"

lemma accepted_record_simps [simp]:
  "crd_checkBlockNumber (accepted_record ru) = tr_BlockNumber (ru_Trigger ru)"
  "crd_isTransmissionPending (accepted_record ru)"
  by (simp_all add: accepted_record_def)

definition Accept :: "time \<Rightarrow> ReportedUpkeep \<Rightarrow> coordinator \<Rightarrow> bool \<times> coordinator" where
  "Accept now ru c =
     (case Cache_Get now (ru_WorkID ru) (co_cache c) of
        None \<Rightarrow>
          (True, c\<lparr>co_cache := Cache_Set now (ru_WorkID ru) (accepted_record ru)
                               DefaultCacheExpiration (co_cache c)\<rparr>)
      | Some v \<Rightarrow>
          if crd_checkBlockNumber v < tr_BlockNumber (ru_Trigger ru)
          then (True, c\<lparr>co_cache := Cache_Set now (ru_WorkID ru) (accepted_record ru)
                                    DefaultCacheExpiration (co_cache c)\<rparr>)
          else (False, c))"

definition coord_ShouldTransmit :: "time \<Rightarrow> ReportedUpkeep \<Rightarrow> coordinator \<Rightarrow> bool" where
  "coord_ShouldTransmit now ru c =
     (case Cache_Get now (ru_WorkID ru) (co_cache c) of
        None \<Rightarrow> False
      | Some v \<Rightarrow>
          if tr_BlockNumber (ru_Trigger ru) < crd_checkBlockNumber v then False
          else if tr_BlockNumber (ru_Trigger ru) = crd_checkBlockNumber v
               then crd_isTransmissionPending v
               else False)"

definition ShouldProcess ::
    "time \<Rightarrow> WorkID \<Rightarrow> UpkeepIdentifier \<Rightarrow> Trigger \<Rightarrow> coordinator \<Rightarrow> bool" where
  "ShouldProcess now workID upkeepID trigger c =
     (case Cache_Get now workID (co_cache c) of
        None \<Rightarrow> True
      | Some v \<Rightarrow>
          if crd_isTransmissionPending v then False
          else if co_upkeepTypeGetter c upkeepID = LogTrigger
               then (case crd_transmitType v of PerformEvent \<Rightarrow> False | _ \<Rightarrow> True)
          else if co_upkeepTypeGetter c upkeepID = ConditionTrigger
               then (case crd_transmitType v of
                       PerformEvent \<Rightarrow> tr_BlockNumber trigger \<ge> crd_transmitBlockNumber v
                     | _ \<Rightarrow> True)
          else True)"

fun coord_PreProcess ::
    "time \<Rightarrow> UpkeepPayload list \<Rightarrow> coordinator \<Rightarrow> UpkeepPayload list" where
  "coord_PreProcess now [] c = []"
| "coord_PreProcess now (payload # ps) c =
     (if ShouldProcess now (up_WorkID payload) (up_UpkeepID payload) (up_Trigger payload) c
      then payload # coord_PreProcess now ps c else coord_PreProcess now ps c)"

fun FilterResults :: "time \<Rightarrow> CheckResult list \<Rightarrow> coordinator \<Rightarrow> CheckResult list" where
  "FilterResults now [] c = []"
| "FilterResults now (r # rs) c =
     (if ShouldProcess now (cr_WorkID r) (cr_UpkeepID r) (cr_Trigger r) c
      then r # FilterResults now rs c else FilterResults now rs c)"

fun FilterProposals ::
    "time \<Rightarrow> CoordinatedBlockProposal list \<Rightarrow> coordinator \<Rightarrow> CoordinatedBlockProposal list" where
  "FilterProposals now [] c = []"
| "FilterProposals now (p # ps) c =
     (case Cache_Get now (cbp_WorkID p) (co_cache c) of
        None \<Rightarrow> p # FilterProposals now ps c
      | Some v \<Rightarrow>
          if crd_isTransmissionPending v then FilterProposals now ps c
          else if co_upkeepTypeGetter c (cbp_UpkeepID p) = LogTrigger \<and>
                  crd_transmitType v = PerformEvent
               then FilterProposals now ps c
          else p # FilterProposals now ps c)"

text \<open>\<open>fmt.Sprintf("%s_%x_%d", e.WorkID, e.TransactionHash, e.TransmitBlock)\<close>\<close>

definition visitedID :: "TransmitEvent \<Rightarrow> string" where
  "visitedID e = te_WorkID e @ CHR ''_'' # format_x 64 (unat (te_TransactionHash e)) @
     CHR ''_'' # format_d (unat (te_TransmitBlock e))"

text \<open>The body of the loop of \<open>checkEvents\<close>\<close>

definition check_event :: "time \<Rightarrow> TransmitEvent \<Rightarrow> coordinator \<Rightarrow> coordinator" where
  "check_event now event c =
     (if te_Confirmations event < co_minimumConfirmations c then c
      else if Cache_Get now (visitedID event) (co_visited c) \<noteq> None then c
      else case Cache_Get now (te_WorkID event) (co_cache c) of
        None \<Rightarrow> c
      | Some v \<Rightarrow>
          (let c1 = c\<lparr>co_visited := Cache_Set now (visitedID event) True
                                     (co_performLockoutWindow c) (co_visited c)\<rparr>;
               r = \<lparr>crd_checkBlockNumber = 0, crd_isTransmissionPending = False,
                    crd_transmitType = te_Type event,
                    crd_transmitBlockNumber = te_TransmitBlock event\<rparr>
           in if te_CheckBlock event = crd_checkBlockNumber v
              then c1\<lparr>co_cache := Cache_Set now (te_WorkID event)
                        (r\<lparr>crd_checkBlockNumber := crd_checkBlockNumber v\<rparr>)
                        DefaultCacheExpiration (co_cache c1)\<rparr>
              else if te_CheckBlock event > crd_checkBlockNumber v
              then c1\<lparr>co_cache := Cache_Set now (te_WorkID event)
                        (r\<lparr>crd_checkBlockNumber := te_CheckBlock event\<rparr>)
                        DefaultCacheExpiration (co_cache c1)\<rparr>
              else c1))"

definition checkEvents ::
    "time \<Rightarrow> TransmitEvent list result \<Rightarrow> coordinator \<Rightarrow> go_error option \<times> coordinator" where
  "checkEvents now latest c =
     (case latest of
        Inl err \<Rightarrow> (Some err, c)
      | Inr events \<Rightarrow> (None, fold (check_event now) events c))"

text \<open>
  \<open>run\<close>: each firing of the timer reads the provider, and the timer is reset so that the checks
  keep to the cadence. A firing carries the clock, the provider's answer and the time the check
  took; the resets are returned with the state.
\<close>

definition next_delay :: "duration \<Rightarrow> duration" where
  "next_delay diff = (if diff > cadence then 1000 else cadence - diff)"

datatype run_signal = TimerFired time "TransmitEvent list result" duration | RunCancelled

fun coord_run :: "run_signal list \<Rightarrow> coordinator \<Rightarrow> duration list \<times> coordinator" where
  "coord_run [] c = ([], c)"
| "coord_run (TimerFired now latest diff # sigs) c =
     (let res = coord_run sigs (snd (checkEvents now latest c))
      in (next_delay diff # fst res, snd res))"
| "coord_run (RunCancelled # sigs) c = ([], c)"

text \<open>\<open>Start\<close> up to its call of \<open>run\<close>; the caches' collectors run beside it.\<close>

definition coord_Start :: "nat \<Rightarrow> coordinator \<Rightarrow> coordinator result" where
  "coord_Start cancel c =
     (let st = Closer_Store cancel (co_closer c)
      in if \<not> fst st then Inl ProcessAlreadyRunning else Inr (c\<lparr>co_closer := snd st\<rparr>))"

definition coord_Close :: "coordinator \<Rightarrow> coordinator result" where
  "coord_Close c =
     (let st = Closer_Close (co_closer c)
      in if \<not> fst st then Inl ProcessNotRunning
         else case Cache_Stop (co_cache c) of
           Inl e \<Rightarrow> Inl e
         | Inr cache \<Rightarrow>
             (case Cache_Stop (co_visited c) of
                Inl e \<Rightarrow> Inl e
              | Inr visited \<Rightarrow> Inr (c\<lparr>co_closer := snd (snd st), co_cache := cache,
                                     co_visited := visited\<rparr>)))"

section \<open>The filters\<close>

lemma coord_PreProcess_filter:
  "coord_PreProcess now ps c =
     filter (\<lambda>p. ShouldProcess now (up_WorkID p) (up_UpkeepID p) (up_Trigger p) c) ps"
  by (induction ps) auto

lemma FilterResults_filter:
  "FilterResults now rs c =
     filter (\<lambda>r. ShouldProcess now (cr_WorkID r) (cr_UpkeepID r) (cr_Trigger r) c) rs"
  by (induction rs) auto

definition proposal_wanted :: "time \<Rightarrow> coordinator \<Rightarrow> CoordinatedBlockProposal \<Rightarrow> bool" where
  "proposal_wanted now c p \<longleftrightarrow>
     (case Cache_Get now (cbp_WorkID p) (co_cache c) of
        None \<Rightarrow> True
      | Some v \<Rightarrow> \<not> crd_isTransmissionPending v \<and>
          \<not> (co_upkeepTypeGetter c (cbp_UpkeepID p) = LogTrigger \<and>
             crd_transmitType v = PerformEvent))"

lemma FilterProposals_filter: "FilterProposals now ps c = filter (proposal_wanted now c) ps"
  by (induction ps) (auto simp: proposal_wanted_def split: option.splits)

text \<open>A result that may be processed would also be wanted as a proposal.\<close>

lemma ShouldProcess_wanted:
  "ShouldProcess now (cbp_WorkID p) (cbp_UpkeepID p) tr c \<Longrightarrow> proposal_wanted now c p"
  by (auto simp: ShouldProcess_def proposal_wanted_def split: option.splits if_splits)

section \<open>Visited events\<close>

lemma visitedID_inj:
  assumes "visitedID e = visitedID f"
  shows "te_WorkID e = te_WorkID f" and "te_TransactionHash e = te_TransactionHash f"
    and "te_TransmitBlock e = te_TransmitBlock f"
proof -
  let ?x = "\<lambda>e. format_x 64 (unat (te_TransactionHash e))"
  let ?d = "\<lambda>e. format_d (unat (te_TransmitBlock e))"
  have "(te_WorkID e @ CHR ''_'' # ?x e) @ CHR ''_'' # ?d e =
      (te_WorkID f @ CHR ''_'' # ?x f) @ CHR ''_'' # ?d f"
    using assms by (simp add: visitedID_def)
  from split_last_sep [OF this format_d_no_sep format_d_no_sep]
  have pre: "te_WorkID e @ CHR ''_'' # ?x e = te_WorkID f @ CHR ''_'' # ?x f" and d: "?d e = ?d f"
    by simp_all
  from pre have eq: "te_WorkID e = te_WorkID f" "?x e = ?x f"
    by (simp_all add: append_eq_append_conv)
  show "te_WorkID e = te_WorkID f" by (rule eq(1))
  have "unat (te_TransactionHash g) < 16 ^ 64" for g :: TransmitEvent
    using unsigned_less [of "te_TransactionHash g", where 'a = nat] by simp
  from format_x_inj [OF eq(2) this this]
  show "te_TransactionHash e = te_TransactionHash f" by (simp add: word_unat_eq_iff)
  from format_d_inj [OF d] show "te_TransmitBlock e = te_TransmitBlock f"
    by (simp add: word_unat_eq_iff)
qed

section \<open>Operations on the cache of records\<close>

definition coord_wf :: "coordinator \<Rightarrow> bool" where
  "coord_wf c \<longleftrightarrow> c_defaultExpiration (co_cache c) = co_performLockoutWindow c \<and>
     c_defaultExpiration (co_visited c) = co_performLockoutWindow c"

lemma coord_wf_New [inv_intros]: "coord_wf (NewCoordinator utg w m)"
  by (simp add: coord_wf_def NewCoordinator_def Let_def)

lemma ttl_Cache_Set [simp]: "c_defaultExpiration (Cache_Set t k v d c) = c_defaultExpiration c"
  by (simp add: Cache_Set_def Let_def)

lemma coord_wf_Accept [inv_intros]: "coord_wf c \<Longrightarrow> coord_wf (snd (Accept now ru c))"
  by (auto simp: coord_wf_def Accept_def split: option.split)

lemma coord_wf_check_event: "coord_wf c \<Longrightarrow> coord_wf (check_event now e c)"
  by (auto simp: coord_wf_def check_event_def Let_def split: option.split)

lemma lockout_Accept [simp]:
  "co_performLockoutWindow (snd (Accept now ru c)) = co_performLockoutWindow c"
  by (auto simp: Accept_def split: option.split)

lemma lockout_check_event [simp]:
  "co_performLockoutWindow (check_event now e c) = co_performLockoutWindow c"
  by (auto simp: check_event_def Let_def split: option.split)

definition coord_block :: "time \<Rightarrow> coordinator \<Rightarrow> WorkID \<rightharpoonup> BlockNumber" where
  "coord_block now c k = map_option crd_checkBlockNumber (Cache_Get now k (co_cache c))"

interpretation coord_accept: newest_wins "\<lambda>ru c. snd (Accept now ru c)" "coord_block now"
  ru_WorkID "\<lambda>ru. tr_BlockNumber (ru_Trigger ru)"
proof unfold_locales
  fix ru and c :: coordinator
  have look: "Cache_Get now k (Cache_Set now (ru_WorkID ru) (accepted_record ru)
        DefaultCacheExpiration (co_cache c)) =
      (if k = ru_WorkID ru then Some (accepted_record ru) else Cache_Get now k (co_cache c))" for k
    by (simp add: util_cache.get_set_now util_cache.get_set_other)
  show "coord_block now (snd (Accept now ru c)) =
       (case coord_block now c (ru_WorkID ru) of
          None \<Rightarrow> (coord_block now c)(ru_WorkID ru \<mapsto> tr_BlockNumber (ru_Trigger ru))
        | Some b \<Rightarrow> if b < tr_BlockNumber (ru_Trigger ru)
                    then (coord_block now c)(ru_WorkID ru \<mapsto> tr_BlockNumber (ru_Trigger ru))
                    else coord_block now c)"
    by (auto simp: Accept_def coord_block_def look fun_eq_iff
          split: option.splits)
qed

text \<open>Accepting is exactly being newer than what is already locked.\<close>

lemma Accept_iff:
  "fst (Accept now ru c) \<longleftrightarrow>
     (case coord_block now c (ru_WorkID ru) of
        None \<Rightarrow> True | Some b \<Rightarrow> b < tr_BlockNumber (ru_Trigger ru))"
  by (simp add: Accept_def coord_block_def split: option.split)

section \<open>The coordinator over time\<close>

text \<open>
  The calls that change the coordinator, at a time: a report is accepted, the provider's events
  are read, a collector of one of the caches runs. A run is a sequence of calls with a clock
  that does not go back.
\<close>

inductive coord_step :: "time \<Rightarrow> coordinator \<Rightarrow> coordinator \<Rightarrow> bool" where
  step_accept: "coord_step now c (snd (Accept now ru c))"
| step_events: "coord_step now c (snd (checkEvents now latest c))"
| step_gc: "coord_step now c (c\<lparr>co_cache := ClearExpired now ks (co_cache c)\<rparr>)"
| step_gc_visited: "coord_step now c (c\<lparr>co_visited := ClearExpired now ks (co_visited c)\<rparr>)"

inductive coord_steps :: "time \<Rightarrow> coordinator \<Rightarrow> time \<Rightarrow> coordinator \<Rightarrow> bool" where
  steps_refl: "coord_steps t c t c"
| steps_step: "coord_steps t c t' c' \<Longrightarrow> t' \<le> now \<Longrightarrow> coord_step now c' c'' \<Longrightarrow>
    coord_steps t c now c''"

lemma coord_steps_time: "coord_steps t c t' c' \<Longrightarrow> t \<le> t'"
  by (induction rule: coord_steps.induct) auto

text \<open>Up to time \<open>until\<close> the work id has a record with the property \<open>Q\<close>.\<close>

definition holding :: "(coord_record \<Rightarrow> bool) \<Rightarrow> coordinator \<Rightarrow> WorkID \<Rightarrow> time \<Rightarrow> bool" where
  "holding Q c wid until \<longleftrightarrow> (\<forall>t\<le>until. \<exists>r. Cache_Get t wid (co_cache c) = Some r \<and> Q r)"

lemma holding_set:
  assumes "holding Q c wid until" "coord_wf c" "0 < now" "until \<le> now + co_performLockoutWindow c"
    and "k = wid \<Longrightarrow> Q r"
  shows "holding Q (c\<lparr>co_visited := vs,
      co_cache := Cache_Set now k r DefaultCacheExpiration (co_cache c)\<rparr>) wid until"
  using assms by (cases "k = wid") (auto simp: holding_def coord_wf_def store_simps)

lemma holding_cong: "co_cache c' = co_cache c \<Longrightarrow> holding Q c' wid until = holding Q c wid until"
  by (simp add: holding_def)

lemma holding_Accept:
  assumes "holding Q c wid until" "coord_wf c" "0 < now" "now \<le> until"
    and "until \<le> now + co_performLockoutWindow c"
    and "\<And>v. Q v \<Longrightarrow> ru_WorkID ru = wid \<Longrightarrow> crd_checkBlockNumber v < tr_BlockNumber (ru_Trigger ru) \<Longrightarrow>
      Q (accepted_record ru)"
  shows "holding Q (snd (Accept now ru c)) wid until"
proof -
  from assms(1,4) obtain r where r: "Cache_Get now wid (co_cache c) = Some r" "Q r"
    by (auto simp: holding_def)
  have "holding Q (c\<lparr>co_visited := co_visited c, co_cache := Cache_Set now (ru_WorkID ru)
      (accepted_record ru) DefaultCacheExpiration (co_cache c)\<rparr>) wid until"
    if "fst (Accept now ru c)"
    using that r by (intro holding_set assms(1-5)) (auto simp: Accept_iff coord_block_def intro: assms(6))
  then show ?thesis
    using assms(1) by (auto simp: Accept_def split: option.splits)
qed

definition event_record :: "TransmitEvent \<Rightarrow> coord_record" where
  "event_record e = \<lparr>crd_checkBlockNumber = te_CheckBlock e, crd_isTransmissionPending = False,
     crd_transmitType = te_Type e, crd_transmitBlockNumber = te_TransmitBlock e\<rparr>"

text \<open>An event either leaves the records alone or replaces the one of its work id by its own.\<close>

lemma check_event_cases:
  obtains "co_cache (check_event now e c) = co_cache c"
  | v vs where "Cache_Get now (te_WorkID e) (co_cache c) = Some v"
    "crd_checkBlockNumber v \<le> te_CheckBlock e" "co_minimumConfirmations c \<le> te_Confirmations e"
    "check_event now e c = c\<lparr>co_visited := vs, co_cache :=
       Cache_Set now (te_WorkID e) (event_record e) DefaultCacheExpiration (co_cache c)\<rparr>"
proof (cases "Cache_Get now (te_WorkID e) (co_cache c)")
  case None
  then show thesis using that(1) by (simp add: check_event_def)
next
  case (Some v)
  show thesis
  proof (cases "te_Confirmations e < co_minimumConfirmations c \<or>
      Cache_Get now (visitedID e) (co_visited c) \<noteq> None \<or> te_CheckBlock e < crd_checkBlockNumber v")
    case True
    then show thesis using that(1) Some by (auto simp: check_event_def Let_def)
  next
    case False
    then have "check_event now e c = c\<lparr>co_visited := Cache_Set now (visitedID e) True
          (co_performLockoutWindow c) (co_visited c), co_cache :=
        Cache_Set now (te_WorkID e) (event_record e) DefaultCacheExpiration (co_cache c)\<rparr>"
      using Some
      by (cases "te_CheckBlock e" "crd_checkBlockNumber v" rule: linorder_cases)
        (simp_all add: check_event_def Let_def event_record_def)
    from that(2) [OF Some _ _ this] False show thesis by (simp add: not_less)
  qed
qed

lemma holding_check_event:
  assumes "holding Q c wid until" "coord_wf c" "0 < now" "now \<le> until"
    and "until \<le> now + co_performLockoutWindow c"
    and "\<And>v. Q v \<Longrightarrow> te_WorkID e = wid \<Longrightarrow> co_minimumConfirmations c \<le> te_Confirmations e \<Longrightarrow>
      crd_checkBlockNumber v \<le> te_CheckBlock e \<Longrightarrow> Q (event_record e)"
  shows "holding Q (check_event now e c) wid until"
proof (cases rule: check_event_cases [of now e c])
  case 1
  then show ?thesis using assms(1) by (simp add: holding_def)
next
  case (2 v vs)
  show ?thesis unfolding 2(4)
  proof (rule holding_set [OF assms(1-3,5)])
    assume wid: "te_WorkID e = wid"
    with assms(1,4) 2(1) have "Q v" by (auto simp: holding_def)
    from assms(6) [OF this wid 2(3,2)] show "Q (event_record e)" .
  qed
qed

lemma conf_check_event [simp]:
  "co_minimumConfirmations (check_event now e c) = co_minimumConfirmations c"
  by (auto simp: check_event_def Let_def split: option.split)

lemma holding_check_events:
  assumes "coord_wf c" "holding Q c wid until" "0 < now" "now \<le> until"
    and "until \<le> now + co_performLockoutWindow c"
    and "\<And>v e. e \<in> set es \<Longrightarrow> Q v \<Longrightarrow> te_WorkID e = wid \<Longrightarrow>
      co_minimumConfirmations c \<le> te_Confirmations e \<Longrightarrow>
      crd_checkBlockNumber v \<le> te_CheckBlock e \<Longrightarrow> Q (event_record e)"
  shows "holding Q (fold (check_event now) es c) wid until"
  using assms
proof (induction es arbitrary: c)
  case (Cons e es)
  have "holding Q (check_event now e c) wid until"
    by (rule holding_check_event) (use Cons.prems in auto)
  then show ?case
    using Cons.IH [of "check_event now e c"] Cons.prems by (simp add: coord_wf_check_event)
qed simp

lemma holding_gc:
  assumes "holding Q c wid until" "now \<le> until"
  shows "holding Q (c\<lparr>co_cache := ClearExpired now ks (co_cache c)\<rparr>) wid until"
proof -
  from assms obtain r where "Cache_Get now wid (co_cache c) = Some r" by (auto simp: holding_def)
  from Cache_Get_ClearExpired_visible [OF this] assms(1) show ?thesis by (simp add: holding_def)
qed

text \<open>Up to time \<open>until\<close> the work id is locked for reports of block \<open>b\<close> and below.\<close>

definition locked :: "coordinator \<Rightarrow> WorkID \<Rightarrow> BlockNumber \<Rightarrow> time \<Rightarrow> bool" where
  "locked c wid b until \<longleftrightarrow> holding (\<lambda>r. b \<le> crd_checkBlockNumber r) c wid until"

lemma coord_wf_step:
  assumes "coord_step now c c'" and "coord_wf c"
  shows "coord_wf c' \<and> co_performLockoutWindow c' = co_performLockoutWindow c"
  using assms
proof (induction rule: coord_step.induct)
  case (step_events now c latest)
  have "coord_wf (fold (check_event now) es c) \<and>
      co_performLockoutWindow (fold (check_event now) es c) = co_performLockoutWindow c" for es
    using step_events by (induction es arbitrary: c) (simp_all add: coord_wf_check_event)
  with step_events show ?case by (simp add: checkEvents_def split: sum.split)
qed (simp_all add: inv_intros, simp_all add: coord_wf_def util_cache.ttl_gc)

lemma locked_step:
  assumes "coord_step now c c'" "locked c wid b until" "coord_wf c" "0 < now" "now \<le> until"
    and "until \<le> now + co_performLockoutWindow c"
  shows "locked c' wid b until"
  using assms unfolding locked_def
proof (induction rule: coord_step.induct)
  case (step_accept now c ru)
  then show ?case by (intro holding_Accept) auto
next
  case (step_events now c latest)
  have "holding (\<lambda>r. b \<le> crd_checkBlockNumber r) (fold (check_event now) es c) wid until" for es
    using step_events by (intro holding_check_events) (auto simp: event_record_def)
  with step_events show ?case by (simp add: checkEvents_def split: sum.split)
qed (simp_all add: holding_gc holding_cong [of "co_visited_update f c" c for f c])

lemma locked_steps:
  assumes "coord_steps t c t' c'" "locked c wid b (t + co_performLockoutWindow c)" "coord_wf c"
    and "0 < t" "t' \<le> t + co_performLockoutWindow c"
  shows "locked c' wid b (t + co_performLockoutWindow c) \<and> coord_wf c' \<and>
    co_performLockoutWindow c' = co_performLockoutWindow c"
  using assms
proof (induction rule: coord_steps.induct)
  case (steps_step t c t' c' now c'')
  have IH: "locked c' wid b (t + co_performLockoutWindow c)" "coord_wf c'"
    "co_performLockoutWindow c' = co_performLockoutWindow c"
    using steps_step.IH steps_step.prems steps_step.hyps(2) by simp_all
  have "t \<le> now" using coord_steps_time [OF steps_step.hyps(1)] steps_step.hyps(2) by simp
  then show ?case
    using locked_step [OF steps_step.hyps(3) IH(1,2)] coord_wf_step [OF steps_step.hyps(3) IH(2)]
      steps_step.prems IH(3) by simp
qed simp

lemma Accept_locks:
  assumes "fst (Accept t ru c)" "coord_wf c" "0 < t"
  shows "locked (snd (Accept t ru c)) (ru_WorkID ru) (tr_BlockNumber (ru_Trigger ru))
    (t + co_performLockoutWindow c)"
  using assms
  by (auto simp: Accept_def locked_def holding_def store_simps coord_wf_def
        split: option.splits if_splits)

section \<open>Performed work ids\<close>

text \<open>
  A run in which only reports with \<open>A\<close> are offered and only events with \<open>P\<close> are read; the collectors
  run as they like.
\<close>

inductive coord_reading ::
    "(ReportedUpkeep \<Rightarrow> bool) \<Rightarrow> (TransmitEvent \<Rightarrow> bool) \<Rightarrow> time \<Rightarrow> coordinator \<Rightarrow> time \<Rightarrow> coordinator \<Rightarrow> bool"
  for A P where
  reading_none: "coord_reading A P t c t c"
| reading_accept: "coord_reading A P t c t' c' \<Longrightarrow> t' \<le> now \<Longrightarrow> A ru \<Longrightarrow>
    coord_reading A P t c now (snd (Accept now ru c'))"
| reading_events: "coord_reading A P t c t' c' \<Longrightarrow> t' \<le> now \<Longrightarrow>
    (\<And>es e. latest = Inr es \<Longrightarrow> e \<in> set es \<Longrightarrow> P e) \<Longrightarrow>
    coord_reading A P t c now (snd (checkEvents now latest c'))"
| reading_gc: "coord_reading A P t c t' c' \<Longrightarrow> t' \<le> now \<Longrightarrow>
    coord_reading A P t c now (c'\<lparr>co_cache := ClearExpired now ks (co_cache c')\<rparr>)"
| reading_gc_visited: "coord_reading A P t c t' c' \<Longrightarrow> t' \<le> now \<Longrightarrow>
    coord_reading A P t c now (c'\<lparr>co_visited := ClearExpired now ks (co_visited c')\<rparr>)"

lemma settings_Accept [simp]:
  "co_minimumConfirmations (snd (Accept now ru c)) = co_minimumConfirmations c"
  "co_upkeepTypeGetter (snd (Accept now ru c)) = co_upkeepTypeGetter c"
  by (auto simp: Accept_def split: option.split)

lemma settings_checkEvents [simp]:
  "co_minimumConfirmations (snd (checkEvents now latest c)) = co_minimumConfirmations c"
  "co_upkeepTypeGetter (snd (checkEvents now latest c)) = co_upkeepTypeGetter c"
proof -
  have utg: "co_upkeepTypeGetter (check_event now e c) = co_upkeepTypeGetter c" for e c
    by (auto simp: check_event_def Let_def split: option.split)
  have "co_minimumConfirmations (fold (check_event now) es c) = co_minimumConfirmations c"
    "co_upkeepTypeGetter (fold (check_event now) es c) = co_upkeepTypeGetter c" for es
    by (induction es arbitrary: c) (simp_all add: utg)
  then show "co_minimumConfirmations (snd (checkEvents now latest c)) = co_minimumConfirmations c"
    "co_upkeepTypeGetter (snd (checkEvents now latest c)) = co_upkeepTypeGetter c"
    by (simp_all add: checkEvents_def split: sum.split)
qed

lemma coord_reading_facts:
  assumes "coord_reading A P t c t' c'" "coord_wf c"
  shows "t \<le> t' \<and> coord_wf c' \<and> co_performLockoutWindow c' = co_performLockoutWindow c \<and>
    co_minimumConfirmations c' = co_minimumConfirmations c \<and> co_upkeepTypeGetter c' = co_upkeepTypeGetter c"
  using assms
proof (induction rule: coord_reading.induct)
  case (reading_accept t c t' c' now ru)
  then show ?case using coord_wf_step [OF step_accept [of now c' ru]] by simp
next
  case (reading_events t c t' c' now latest)
  then show ?case using coord_wf_step [OF step_events [of now c' latest]] by simp
next
  case (reading_gc t c t' c' now ks)
  then show ?case using coord_wf_step [OF step_gc [of now c' ks]] by simp
next
  case (reading_gc_visited t c t' c' now ks)
  then show ?case using coord_wf_step [OF step_gc_visited [of now c' ks]] by simp
qed simp

lemma holding_reading:
  assumes "coord_reading A P t c t' c'" "holding Q c wid until" "coord_wf c" "0 < t" "t' \<le> until"
    and "until \<le> t + co_performLockoutWindow c"
    and "\<And>v ru. A ru \<Longrightarrow> Q v \<Longrightarrow> ru_WorkID ru = wid \<Longrightarrow>
      crd_checkBlockNumber v < tr_BlockNumber (ru_Trigger ru) \<Longrightarrow> Q (accepted_record ru)"
    and "\<And>v e. P e \<Longrightarrow> Q v \<Longrightarrow> te_WorkID e = wid \<Longrightarrow> co_minimumConfirmations c \<le> te_Confirmations e \<Longrightarrow>
      crd_checkBlockNumber v \<le> te_CheckBlock e \<Longrightarrow> Q (event_record e)"
  shows "holding Q c' wid until"
  using assms
proof (induction rule: coord_reading.induct)
  case (reading_accept t c t' c' now ru)
  note f = coord_reading_facts [OF reading_accept.hyps(1) reading_accept.prems(2)]
  have "holding Q c' wid until" using reading_accept by auto
  then show ?case using f reading_accept.hyps(2,3) reading_accept.prems by (intro holding_Accept) auto
next
  case (reading_events t c t' c' now latest)
  note f = coord_reading_facts [OF reading_events.hyps(1) reading_events.prems(2)]
  have IH: "holding Q c' wid until" using reading_events by auto
  show ?case
  proof (cases latest)
    case (Inl err)
    then show ?thesis using IH by (simp add: checkEvents_def)
  next
    case (Inr es)
    have "holding Q (fold (check_event now) es c') wid until"
      using f IH Inr reading_events.hyps(2,3) reading_events.prems by (intro holding_check_events) auto
    then show ?thesis using Inr by (simp add: checkEvents_def)
  qed
next
  case (reading_gc t c t' c' now ks)
  then show ?case by (intro holding_gc) auto
next
  case (reading_gc_visited t c t' c' now ks)
  then show ?case by (subst holding_cong) auto
qed simp

text \<open>What a perform event, the first of its work id in a poll, leaves behind\<close>

lemma perform_event_recorded:
  assumes "coord_wf c" "0 < now" "co_minimumConfirmations c \<le> te_Confirmations e"
    and "Cache_Get now (visitedID e) (co_visited c) = None"
    and "Cache_Get now (te_WorkID e) (co_cache c) = Some v" "crd_checkBlockNumber v \<le> te_CheckBlock e"
    and "\<forall>f\<in>set before. te_WorkID f \<noteq> te_WorkID e" "until \<le> now + co_performLockoutWindow c"
  shows "holding (\<lambda>r. r = event_record e) (fold (check_event now) (before @ [e]) c) (te_WorkID e) until"
  using assms
proof (induction before arbitrary: c)
  case Nil
  then have "Cache_Get t (te_WorkID e) (co_cache (check_event now e c)) = Some (event_record e)" if "t \<le> until" for t
    using that by (auto simp: check_event_def Let_def coord_wf_def store_simps event_record_def)
  then show ?case by (simp add: holding_def)
next
  case (Cons f before)
  have "visitedID f \<noteq> visitedID e" using Cons.prems(7) visitedID_inj(1) [of f e] by auto
  then have "Cache_Get now (visitedID e) (co_visited (check_event now f c)) = None"
    using Cons.prems(4)
    by (auto simp: check_event_def Let_def Cache_Get_def Cache_Set_def split: option.splits)
  moreover have "Cache_Get now (te_WorkID e) (co_cache (check_event now f c)) = Some v"
    using Cons.prems(5,7)
    by (cases rule: check_event_cases [of now f c]) (auto simp: util_cache.get_set_other)
  ultimately show ?case
    using Cons.IH [of "check_event now f c"] Cons.prems by (simp add: coord_wf_check_event)
qed

text \<open>A property of the record that survives the rest of a poll and the run after it\<close>

lemma holding_poll_reading:
  assumes "holding Q c wid until" "coord_wf c" "0 < now" "until \<le> now + co_performLockoutWindow c"
    and "\<forall>f\<in>set after. P f" "coord_reading A P now (fold (check_event now) after c) t' c'" "t' \<le> until"
    and acc: "\<And>v ru. A ru \<Longrightarrow> Q v \<Longrightarrow> ru_WorkID ru = wid \<Longrightarrow>
      crd_checkBlockNumber v < tr_BlockNumber (ru_Trigger ru) \<Longrightarrow> Q (accepted_record ru)"
    and evt: "\<And>v e. P e \<Longrightarrow> Q v \<Longrightarrow> te_WorkID e = wid \<Longrightarrow> co_minimumConfirmations c \<le> te_Confirmations e \<Longrightarrow>
      crd_checkBlockNumber v \<le> te_CheckBlock e \<Longrightarrow> Q (event_record e)"
  shows "holding Q c' wid until"
proof -
  let ?c = "fold (check_event now) after c"
  have poll: "snd (checkEvents now (Inr after) c) = ?c" by (simp add: checkEvents_def)
  have wf: "coord_wf ?c" "co_performLockoutWindow ?c = co_performLockoutWindow c"
    "co_minimumConfirmations ?c = co_minimumConfirmations c"
    using coord_wf_step [OF step_events assms(2), of now "Inr after"]
      settings_checkEvents(1) [of now "Inr after" c] by (simp_all add: poll)
  have now: "now \<le> until" using coord_reading_facts [OF assms(6) wf(1)] assms(7) by simp
  have "holding Q ?c wid until"
  proof (rule holding_check_events [OF assms(2,1,3) now assms(4)])
    fix v e
    assume "e \<in> set after" "Q v" "te_WorkID e = wid" "co_minimumConfirmations c \<le> te_Confirmations e"
      "crd_checkBlockNumber v \<le> te_CheckBlock e"
    with assms(5) show "Q (event_record e)" by (intro evt [of e v]) auto
  qed
  then show ?thesis
    using assms(4) acc evt
    by (intro holding_reading [OF assms(6) _ wf(1) assms(3,7)]) (auto simp: wf(2,3))
qed

section \<open>Replayed events\<close>

text \<open>An event that a later check will pass over: unconfirmed, visited, or of no known report.\<close>

definition settled :: "time \<Rightarrow> time \<Rightarrow> coordinator \<Rightarrow> TransmitEvent \<Rightarrow> bool" where
  "settled now now' c e \<longleftrightarrow> te_Confirmations e < co_minimumConfirmations c \<or>
     Cache_Get now' (visitedID e) (co_visited c) \<noteq> None \<or>
     Cache_Get now (te_WorkID e) (co_cache c) = None"

lemma settled_skipped:
  assumes "settled now now' c e" "now \<le> now'"
  shows "check_event now' e c = c"
proof (cases "Cache_Get now (te_WorkID e) (co_cache c)")
  case None
  from util_cache.expired_stays [OF None assms(2)] show ?thesis by (simp add: check_event_def)
next
  case (Some v)
  with assms(1) show ?thesis by (auto simp: settled_def check_event_def)
qed

lemma Cache_Get_Set_ttl:
  assumes "0 < now" "0 < c_defaultExpiration c \<Longrightarrow> now' \<le> now + c_defaultExpiration c"
  shows "Cache_Get now' k (Cache_Set now k v (c_defaultExpiration c) c) = Some v"
  using assms by (auto simp: Cache_Get_def Cache_Set_def Let_def)

lemma visited_Set_keeps:
  assumes "Cache_Get now' k c \<noteq> None" "0 < now"
    and "0 < c_defaultExpiration c \<Longrightarrow> now' \<le> now + c_defaultExpiration c"
  shows "Cache_Get now' k (Cache_Set now k' v (c_defaultExpiration c) c) \<noteq> None"
  using assms Cache_Get_Set_ttl [of now c now' k v]
  by (cases "k = k'") (auto simp: Cache_Get_def Cache_Set_def Let_def)

lemma cache_event_other:
  assumes "Cache_Get now wid (co_cache c) = None"
  shows "Cache_Get now wid (co_cache (check_event now e c)) = None"
  using assms
  by (cases "te_WorkID e = wid") (auto simp: check_event_def Let_def store_simps split: option.split)

lemma settled_keep:
  assumes "settled now now' c e" "coord_wf c" "0 < now"
    and "0 < co_performLockoutWindow c \<Longrightarrow> now' \<le> now + co_performLockoutWindow c"
  shows "settled now now' (check_event now e' c) e"
proof -
  have conf: "co_minimumConfirmations (check_event now e' c) = co_minimumConfirmations c" by simp
  have "Cache_Get now' (visitedID e) (co_visited (check_event now e' c)) \<noteq> None"
    if "Cache_Get now' (visitedID e) (co_visited c) \<noteq> None"
    using that visited_Set_keeps [OF that assms(3), of "visitedID e'" True] assms(2,4)
    by (auto simp: check_event_def Let_def coord_wf_def split: option.split)
  then show ?thesis
    using assms(1) cache_event_other [of now "te_WorkID e" c e'] conf
    by (auto simp: settled_def)
qed

text \<open>A visit known now is still known at the time of the replay.\<close>

definition visit_lasts :: "time \<Rightarrow> time \<Rightarrow> coordinator \<Rightarrow> TransmitEvent \<Rightarrow> bool" where
  "visit_lasts now now' c e \<longleftrightarrow> Cache_Get now (visitedID e) (co_visited c) = None \<or>
     Cache_Get now' (visitedID e) (co_visited c) \<noteq> None"

lemma visited_event:
  "co_visited (check_event now e c) = co_visited c \<or>
   co_visited (check_event now e c) =
     Cache_Set now (visitedID e) True (co_performLockoutWindow c) (co_visited c)"
  by (auto simp: check_event_def Let_def split: option.split)

lemma visit_lasts_keep:
  assumes "visit_lasts now now' c e" "coord_wf c" "0 < now"
    and "0 < co_performLockoutWindow c \<Longrightarrow> now' \<le> now + co_performLockoutWindow c"
  shows "visit_lasts now now' (check_event now e' c) e"
proof (cases "visitedID e' = visitedID e")
  case True
  then show ?thesis
    using visited_event [of now e' c] assms Cache_Get_Set_ttl [of now "co_visited c" now']
    by (auto simp: visit_lasts_def coord_wf_def)
next
  case False
  then have "Cache_Get t (visitedID e) (Cache_Set now (visitedID e') True d (co_visited c)) =
      Cache_Get t (visitedID e) (co_visited c)" for t d
    by (simp add: Cache_Get_def Cache_Set_def Let_def)
  then show ?thesis
    using visited_event [of now e' c] assms(1) by (auto simp: visit_lasts_def)
qed

lemma settled_after:
  assumes "coord_wf c" "0 < now" "visit_lasts now now' c e"
    and "0 < co_performLockoutWindow c \<Longrightarrow> now' \<le> now + co_performLockoutWindow c"
  shows "settled now now' (check_event now e c) e"
proof (cases "settled now now' c e")
  case True
  then show ?thesis using assms by (intro settled_keep)
next
  case False
  then show ?thesis
    using assms Cache_Get_Set_ttl [of now "co_visited c" now' "visitedID e" True]
    by (auto simp: settled_def visit_lasts_def check_event_def Let_def coord_wf_def)
qed

lemma settled_fold:
  assumes "coord_wf c" "0 < now" "\<forall>e\<in>set es. visit_lasts now now' c e \<or> settled now now' c e"
    and "0 < co_performLockoutWindow c \<Longrightarrow> now' \<le> now + co_performLockoutWindow c"
    and "f \<in> set es \<or> settled now now' c f"
  shows "settled now now' (fold (check_event now) es c) f"
  using assms
proof (induction es arbitrary: c)
  case (Cons e es)
  have "settled now now' (check_event now e c) e"
    using Cons.prems settled_after settled_keep by auto
  moreover have "\<forall>g\<in>set es. visit_lasts now now' (check_event now e c) g \<or>
      settled now now' (check_event now e c) g"
    using Cons.prems visit_lasts_keep settled_keep by auto
  ultimately show ?case
    using Cons.IH [of "check_event now e c"] Cons.prems settled_keep [of now now' c f e]
    by (auto simp: coord_wf_check_event)
qed simp

section \<open>Properties\<close>

text \<open>
  C6: within the lockout window a report is accepted at most once. Once \<open>Accept\<close> returned true,
  whatever calls follow, no report of the same work id and the same or a lower check block is
  accepted until the window has passed.
\<close>

theorem accepted_at_most_once:
  assumes "coord_wf c" and "0 < t" and "fst (Accept t ru c)"
    and "coord_steps t (snd (Accept t ru c)) t' c'" and "t' \<le> t''"
    and "t'' \<le> t + co_performLockoutWindow c"
    and "ru_WorkID ru' = ru_WorkID ru"
    and "tr_BlockNumber (ru_Trigger ru') \<le> tr_BlockNumber (ru_Trigger ru)"
  shows "\<not> fst (Accept t'' ru' c')"
proof -
  let ?T = "t + co_performLockoutWindow c"
  have "locked c' (ru_WorkID ru) (tr_BlockNumber (ru_Trigger ru)) ?T"
    using locked_steps [OF assms(4)] Accept_locks [OF assms(3,1,2)] assms(1,2,5,6)
    by (simp add: inv_intros)
  with assms(6) obtain r where "Cache_Get t'' (ru_WorkID ru) (co_cache c') = Some r"
      "tr_BlockNumber (ru_Trigger ru) \<le> crd_checkBlockNumber r"
    by (auto simp: locked_def holding_def)
  with assms(7,8) show ?thesis by (auto simp: Accept_iff coord_block_def)
qed

definition sample_coord :: coordinator where
  "sample_coord = NewCoordinator (\<lambda>_. LogTrigger) 1200000 1"

lemma sample_coord_lockout: "co_performLockoutWindow sample_coord = 1200000000000"
  by (simp add: sample_coord_def NewCoordinator_def Let_def millisecond_def)

theorem accepted_at_most_once_witness:
  "\<not> fst (Accept 9 (sample_report ''w'' 100) (snd (Accept 8 (sample_report ''x'' 3)
     (snd (Accept 7 (sample_report ''w'' 100) sample_coord)))))"
proof (rule accepted_at_most_once [of sample_coord 7 "sample_report ''w'' 100" 8])
  show "coord_wf sample_coord" by (simp add: sample_coord_def inv_intros)
  show "fst (Accept 7 (sample_report ''w'' 100) sample_coord)"
    by (simp add: Accept_def sample_coord_def NewCoordinator_def Let_def)
  show "coord_steps 7 (snd (Accept 7 (sample_report ''w'' 100) sample_coord)) 8
      (snd (Accept 8 (sample_report ''x'' 3) (snd (Accept 7 (sample_report ''w'' 100) sample_coord))))"
    by (rule steps_step [OF steps_refl _ step_accept]) simp
qed (simp_all add: sample_coord_lockout)

text \<open>
  An accepted report is to be transmitted, and its work id is neither checked nor proposed,
  at every moment of the lockout window until the next call.
\<close>

lemma accepted_is_pending:
  assumes "coord_wf c" and "0 < t" and "fst (Accept t ru c)"
    and "t \<le> t'" and "t' \<le> t + co_performLockoutWindow c"
  shows "coord_ShouldTransmit t' ru (snd (Accept t ru c)) \<and>
    \<not> ShouldProcess t' (ru_WorkID ru) u tr (snd (Accept t ru c)) \<and>
    (\<forall>p ps. cbp_WorkID p = ru_WorkID ru \<longrightarrow>
       p \<notin> set (FilterProposals t' ps (snd (Accept t ru c))))"
proof -
  have "Cache_Get t' (ru_WorkID ru) (co_cache (snd (Accept t ru c))) = Some (accepted_record ru)"
    using assms
    by (auto simp: Accept_def store_simps coord_wf_def split: option.splits if_splits)
  then show ?thesis
    by (auto simp: coord_ShouldTransmit_def ShouldProcess_def FilterProposals_filter
          proposal_wanted_def)
qed

lemma accepted_is_pending_witness:
  "coord_ShouldTransmit 8 (sample_report ''w'' 100)
     (snd (Accept 7 (sample_report ''w'' 100) sample_coord))"
  using accepted_is_pending [of sample_coord 7 "sample_report ''w'' 100" 8]
  by (simp add: sample_coord_lockout, simp add: sample_coord_def inv_intros)
    (simp add: Accept_def NewCoordinator_def Let_def)

text \<open>
  Reading the same events again within the lockout window changes nothing, provided the
  visits recorded before the first reading have not lapsed in between.
\<close>

lemma checkEvents_replay:
  assumes "coord_wf c" and "0 < now" and "now \<le> now'"
    and "0 < co_performLockoutWindow c \<Longrightarrow> now' \<le> now + co_performLockoutWindow c"
    and "\<forall>e\<in>set events. visit_lasts now now' c e"
    and "c1 = snd (checkEvents now (Inr events) c)"
  shows "checkEvents now' (Inr events) c1 = (None, c1)"
proof -
  have "settled now now' c1 f" if "f \<in> set events" for f
    using that assms by (auto simp: checkEvents_def intro: settled_fold)
  then have "fold (check_event now') es c1 = c1" if "set es \<subseteq> set events" for es
    using that assms(3) by (induction es) (auto simp: settled_skipped [of now now'])
  then show ?thesis by (simp add: checkEvents_def)
qed

definition sample_accepted :: coordinator where
  "sample_accepted = snd (Accept 7 (sample_report ''w'' 100) sample_coord)"

lemma sample_accepted_get:
  "t \<le> 1000000000000 \<Longrightarrow> Cache_Get t ''w'' (co_cache sample_accepted) =
     Some (accepted_record (sample_report ''w'' 100))"
  by (simp add: sample_accepted_def Accept_def sample_coord_def NewCoordinator_def Let_def
      Cache_Set_def Cache_Get_def DefaultCacheExpiration_def millisecond_def NewCache_def
      sample_defs)

lemma sample_accepted_simps:
  "coord_wf sample_accepted" "co_performLockoutWindow sample_accepted = 1200000000000"
  "co_visited sample_accepted = NewCache 1200000000000"
  "co_minimumConfirmations sample_accepted = 1"
  "co_upkeepTypeGetter sample_accepted u = LogTrigger"
proof -
  show "coord_wf sample_accepted"
    by (simp add: sample_accepted_def sample_coord_def inv_intros)
  show "co_performLockoutWindow sample_accepted = 1200000000000"
    by (simp add: sample_accepted_def sample_coord_lockout)
qed (simp_all add: sample_accepted_def Accept_def sample_coord_def NewCoordinator_def Let_def
      millisecond_def)

lemma checkEvents_replay_witness:
  "checkEvents 9 (Inr [sample_event PerformEvent ''w'' 100])
     (snd (checkEvents 8 (Inr [sample_event PerformEvent ''w'' 100]) sample_accepted)) =
   (None, snd (checkEvents 8 (Inr [sample_event PerformEvent ''w'' 100]) sample_accepted))"
  by (rule checkEvents_replay [of sample_accepted 8 9])
    (simp_all add: sample_accepted_simps visit_lasts_def)

text \<open>
  The record of a performed work id: a later report is pending, or the last event was a perform,
  at the transmit block of \<open>e\<close> or later; and the events that leave it so.
\<close>

definition performed_since :: "TransmitEvent \<Rightarrow> coord_record \<Rightarrow> bool" where
  "performed_since e r \<longleftrightarrow> te_CheckBlock e \<le> crd_checkBlockNumber r \<and> (crd_isTransmissionPending r \<or>
     crd_transmitType r = PerformEvent \<and> te_TransmitBlock e \<le> crd_transmitBlockNumber r)"

definition no_other_event :: "coordinator \<Rightarrow> TransmitEvent \<Rightarrow> TransmitEvent \<Rightarrow> bool" where
  "no_other_event c e f \<longleftrightarrow>
     (te_WorkID f = te_WorkID e \<and> co_minimumConfirmations c \<le> te_Confirmations f \<and>
      te_CheckBlock e \<le> te_CheckBlock f \<longrightarrow>
      te_Type f = PerformEvent \<and> te_TransmitBlock e \<le> te_TransmitBlock f)"

text \<open>
  C21: a poll reads a confirmed perform event, the first of its work id in the poll, not visited
  before and for a check block not below the accepted one. Until the lockout window has passed,
  whatever reports are accepted and collectors run, and as long as all confirmed events read for
  that work id and that or a higher check block are performs too, at the same transmit block or
  later: a log trigger of the work id is neither processed nor proposed, and a conditional one is
  processed only from the block of the transmission on; exactly from there on, if no other event of
  the work id is read and no report of it accepted.
\<close>

theorem performed_upkeep_filtered:
  assumes "coord_wf c" and "0 < now" and "te_Type e = PerformEvent"
    and "co_minimumConfirmations c \<le> te_Confirmations e"
    and "Cache_Get now (visitedID e) (co_visited c) = None"
    and "Cache_Get now (te_WorkID e) (co_cache c) = Some v"
    and "crd_checkBlockNumber v \<le> te_CheckBlock e"
    and "\<forall>f\<in>set before. te_WorkID f \<noteq> te_WorkID e" and "\<forall>f\<in>set after. no_other_event c e f"
    and "c1 = snd (checkEvents now (Inr (before @ e # after)) c)"
    and "coord_reading (\<lambda>_. True) (no_other_event c e) now c1 t' c'"
    and "t' \<le> t" and "t \<le> now + co_performLockoutWindow c"
  shows "(co_upkeepTypeGetter c u = LogTrigger \<longrightarrow>
        \<not> ShouldProcess t (te_WorkID e) u tr c' \<and>
        (\<forall>p ps. cbp_WorkID p = te_WorkID e \<and> cbp_UpkeepID p = u \<longrightarrow>
           p \<notin> set (FilterProposals t ps c'))) \<and>
      (co_upkeepTypeGetter c u = ConditionTrigger \<longrightarrow>
        (ShouldProcess t (te_WorkID e) u tr c' \<longrightarrow> te_TransmitBlock e \<le> tr_BlockNumber tr) \<and>
        ((\<forall>f\<in>set after. te_WorkID f \<noteq> te_WorkID e) \<and>
         coord_reading (\<lambda>ru. ru_WorkID ru \<noteq> te_WorkID e) (\<lambda>f. te_WorkID f \<noteq> te_WorkID e) now c1 t' c' \<longrightarrow>
         (ShouldProcess t (te_WorkID e) u tr c' \<longleftrightarrow> te_TransmitBlock e \<le> tr_BlockNumber tr)))"
proof -
  let ?wid = "te_WorkID e" and ?ce = "fold (check_event now) (before @ [e]) c"
  have ce: "coord_wf ?ce" "co_performLockoutWindow ?ce = co_performLockoutWindow c"
    "co_minimumConfirmations ?ce = co_minimumConfirmations c"
    using coord_wf_step [OF step_events assms(1), of now "Inr (before @ [e])"]
      settings_checkEvents(1) [of now "Inr (before @ [e])" c] by (simp_all add: checkEvents_def)
  have c1: "c1 = fold (check_event now) after ?ce" by (simp add: assms(10) checkEvents_def)
  have "coord_wf c1" "co_upkeepTypeGetter c1 = co_upkeepTypeGetter c"
    using coord_wf_step [OF step_events assms(1), of now "Inr (before @ e # after)"] by (simp_all add: assms(10))
  with coord_reading_facts [OF assms(11)] have utg: "co_upkeepTypeGetter c' = co_upkeepTypeGetter c" by simp
  have window: "t \<le> now + co_performLockoutWindow ?ce" using assms(13) ce(2) by simp
  have exact: "holding (\<lambda>r. r = event_record e) ?ce ?wid t"
    by (rule perform_event_recorded [OF assms(1,2,4-8,13)])
  then have "holding (performed_since e) ?ce ?wid t"
    using assms(3) by (auto simp: holding_def event_record_def performed_since_def)
  then have "holding (performed_since e) c' ?wid t"
    by (rule holding_poll_reading [OF _ ce(1) assms(2) window assms(9) assms(11) [unfolded c1] assms(12)])
      (auto simp: performed_since_def event_record_def no_other_event_def ce(3) [simplified])
  then obtain r where r: "Cache_Get t ?wid (co_cache c') = Some r" "performed_since e r"
    by (auto simp: holding_def)
  have only: "Cache_Get t ?wid (co_cache c') = Some (event_record e)"
    if others: "\<forall>f\<in>set after. te_WorkID f \<noteq> ?wid"
      "coord_reading (\<lambda>ru. ru_WorkID ru \<noteq> ?wid) (\<lambda>f. te_WorkID f \<noteq> ?wid) now c1 t' c'"
  proof -
    have "holding (\<lambda>r. r = event_record e) c' ?wid t"
      by (rule holding_poll_reading [OF exact ce(1) assms(2) window others(1) others(2) [unfolded c1] assms(12)]) auto
    then show ?thesis by (auto simp: holding_def)
  qed
  show ?thesis
  proof (intro conjI impI allI)
    assume log: "co_upkeepTypeGetter c u = LogTrigger"
    with r utg show "\<not> ShouldProcess t ?wid u tr c'"
      by (auto simp: ShouldProcess_def performed_since_def)
    fix p :: CoordinatedBlockProposal and ps assume "cbp_WorkID p = ?wid \<and> cbp_UpkeepID p = u"
    with log r utg show "p \<notin> set (FilterProposals t ps c')"
      by (auto simp: FilterProposals_filter proposal_wanted_def performed_since_def)
  next
    assume cond: "co_upkeepTypeGetter c u = ConditionTrigger"
    assume "ShouldProcess t ?wid u tr c'"
    with cond r utg show "te_TransmitBlock e \<le> tr_BlockNumber tr"
      by (auto simp: ShouldProcess_def performed_since_def split: if_splits)
  next
    assume cond: "co_upkeepTypeGetter c u = ConditionTrigger"
    assume "(\<forall>f\<in>set after. te_WorkID f \<noteq> ?wid) \<and>
      coord_reading (\<lambda>ru. ru_WorkID ru \<noteq> ?wid) (\<lambda>f. te_WorkID f \<noteq> ?wid) now c1 t' c'"
    with only have "Cache_Get t ?wid (co_cache c') = Some (event_record e)" by blast
    with cond utg show "ShouldProcess t ?wid u tr c' \<longleftrightarrow> te_TransmitBlock e \<le> tr_BlockNumber tr"
      by (simp add: ShouldProcess_def event_record_def assms(3))
  qed
qed

theorem performed_upkeep_filtered_witness:
  "\<not> ShouldProcess 10 ''w'' 5 (sample_trigger 200) (snd (Accept 9 (sample_report ''x'' 3)
     (snd (checkEvents 8 (Inr [sample_event PerformEvent ''w'' 100]) sample_accepted))))"
proof -
  let ?e = "sample_event PerformEvent ''w'' 100"
  let ?c1 = "snd (checkEvents 8 (Inr ([] @ [?e])) sample_accepted)"
  have run: "coord_reading (\<lambda>_. True) (no_other_event sample_accepted ?e) 8 ?c1 9
      (snd (Accept 9 (sample_report ''x'' 3) ?c1))"
    by (rule reading_accept [OF reading_none]) simp_all
  have event: "te_WorkID ?e = ''w''" "te_Type ?e = PerformEvent" "te_CheckBlock ?e = 100" "1 \<le> te_Confirmations ?e"
    by (simp_all add: sample_event_def)
  have "Cache_Get 8 (te_WorkID ?e) (co_cache sample_accepted) = Some (accepted_record (sample_report ''w'' 100))"
    by (simp add: event sample_accepted_get)
  note filtered = performed_upkeep_filtered [OF sample_accepted_simps(1) _ event(2) _ _ this _ _ _ refl run,
      of 10 5 "sample_trigger 200"]
  show ?thesis
    using filtered by (simp add: sample_accepted_simps event) (simp add: sample_defs)
qed

text \<open>
  C37: the memory of a perform is only as good as the last event. A later event of another type
  for the same work id and check block, in another transaction, replaces it, and the log
  trigger is processed again.
\<close>

theorem performed_log_processed_again:
  assumes "coord_wf c" and "0 < now" and "0 < co_performLockoutWindow c"
    and "te_Type e = PerformEvent" and "te_Type f \<noteq> PerformEvent"
    and "te_WorkID f = te_WorkID e" and "te_CheckBlock f = te_CheckBlock e"
    and "te_TransactionHash f \<noteq> te_TransactionHash e"
    and "co_minimumConfirmations c \<le> te_Confirmations e"
    and "co_minimumConfirmations c \<le> te_Confirmations f"
    and "Cache_Get now (visitedID e) (co_visited c) = None"
    and "Cache_Get now (visitedID f) (co_visited c) = None"
    and "Cache_Get now (te_WorkID e) (co_cache c) = Some v"
    and "crd_checkBlockNumber v = te_CheckBlock e"
  shows "ShouldProcess now (te_WorkID e) u tr (snd (checkEvents now (Inr [e, f]) c))"
proof -
  let ?c = "check_event now e c"
  have "visitedID f \<noteq> visitedID e" using assms(8) visitedID_inj(2) by metis
  then have vis: "Cache_Get now (visitedID f) (co_visited ?c) = None"
    using visited_event [of now e c] assms(12)
    by (auto simp: Cache_Get_def Cache_Set_def Let_def)
  have get: "Cache_Get now (te_WorkID e) (co_cache ?c) =
      Some \<lparr>crd_checkBlockNumber = te_CheckBlock e, crd_isTransmissionPending = False,
        crd_transmitType = PerformEvent, crd_transmitBlockNumber = te_TransmitBlock e\<rparr>"
    and conf: "co_minimumConfirmations ?c = co_minimumConfirmations c"
    using assms by (simp_all add: check_event_def Let_def util_cache.get_set_now)
  have "Cache_Get now (te_WorkID e) (co_cache (check_event now f ?c)) =
      Some \<lparr>crd_checkBlockNumber = te_CheckBlock e, crd_isTransmissionPending = False,
        crd_transmitType = te_Type f, crd_transmitBlockNumber = te_TransmitBlock f\<rparr>"
    using assms(6,7,10) vis get conf
    by (simp add: check_event_def [of now f] Let_def util_cache.get_set_now)
  then show ?thesis
    using assms(5)
    by (simp add: checkEvents_def ShouldProcess_def split: TransmitEventType.splits)
qed

theorem performed_log_processed_again_witness:
  "ShouldProcess 8 ''w'' 5 (sample_trigger 200)
     (snd (checkEvents 8 (Inr [sample_event PerformEvent ''w'' 100,
        (sample_event (OtherEvent 2) ''w'' 100)\<lparr>te_TransactionHash := 10\<rparr>]) sample_accepted))"
  using performed_log_processed_again [of sample_accepted 8 "sample_event PerformEvent ''w'' 100"
      "(sample_event (OtherEvent 2) ''w'' 100)\<lparr>te_TransactionHash := 10\<rparr>"
      "accepted_record (sample_report ''w'' 100)" 5 "sample_trigger 200"]
  by (simp add: sample_accepted_simps sample_accepted_get sample_event_def)
    (simp add: sample_defs)

text \<open>
  The service can be started again after it was closed, but closing it a second time panics,
  because the stop channels of its caches are closed for good.
\<close>

lemma coord_close_after_restart:
  assumes "coord_Start f c = Inr c1" and "coord_Close c1 = Inr c2"
  shows "\<exists>c3. coord_Start g c2 = Inr c3 \<and>
    coord_Close c3 = Inl (Panic ''close of closed channel'')"
  using assms
  by (auto simp: coord_Start_def coord_Close_def Closer_Store_def Closer_Close_def Cache_Stop_def
      Let_def split: if_splits sum.splits option.splits)

lemma coord_close_after_restart_witness:
  "\<exists>c1 c2 c3. coord_Start 0 sample_coord = Inr c1 \<and> coord_Close c1 = Inr c2 \<and>
     coord_Start 1 c2 = Inr c3 \<and> coord_Close c3 = Inl (Panic ''close of closed channel'')"
proof -
  obtain c1 c2 where c: "coord_Start 0 sample_coord = Inr c1" "coord_Close c1 = Inr c2"
    by (simp add: coord_Start_def coord_Close_def Closer_Store_def Closer_Close_def Cache_Stop_def
        sample_coord_def NewCoordinator_def NewCache_def Closer_new_def Let_def)
  with coord_close_after_restart [OF c, of 1] show ?thesis by blast
qed

end
