(* ===== verification/Result_Store.thy ===== *)
theory Result_Store
  imports Interfaces Samples
begin

text \<open>
  \<open>pkg/v3/stores/result_store.go\<close>: the performable results waiting to be observed, keyed by
  work id, each kept for \<open>storeTTL\<close>. The lock makes every operation atomic; the clock is read
  once per operation. The service loop of \<open>Start\<close> is \<open>resultStore_Start\<close> over the signals its
  \<open>select\<close> receives.
\<close>

definition storeTTL :: duration where "storeTTL = 5 * minute"
definition gcInterval :: duration where "gcInterval = 30 * second"

record stored_result =
  sr_data :: CheckResult
  sr_addedAt :: time

record resultStore =
  rs_data :: "WorkID \<rightharpoonup> stored_result"

definition resultStore_New :: resultStore where
  "resultStore_New = \<lparr>rs_data = Map.empty\<rparr>"

definition resultStore_add1 :: "time \<Rightarrow> CheckResult \<Rightarrow> resultStore \<Rightarrow> resultStore" where
  "resultStore_add1 now r s =
     (case rs_data s (cr_WorkID r) of
        None \<Rightarrow> s\<lparr>rs_data := (rs_data s)(cr_WorkID r \<mapsto> \<lparr>sr_data = r, sr_addedAt = now\<rparr>)\<rparr>
      | Some v \<Rightarrow>
          if tr_BlockNumber (cr_Trigger (sr_data v)) < tr_BlockNumber (cr_Trigger r)
          then s\<lparr>rs_data := (rs_data s)(cr_WorkID r \<mapsto> \<lparr>sr_data = r, sr_addedAt = now\<rparr>)\<rparr>
          else s)"

definition resultStore_Add :: "time \<Rightarrow> CheckResult list \<Rightarrow> resultStore \<Rightarrow> resultStore" where
  "resultStore_Add now results s = fold (resultStore_add1 now) results s"

definition resultStore_remove :: "WorkID \<Rightarrow> resultStore \<Rightarrow> resultStore" where
  "resultStore_remove wid s =
     (if rs_data s wid = None then s else s\<lparr>rs_data := (rs_data s)(wid := None)\<rparr>)"

definition resultStore_Remove :: "WorkID list \<Rightarrow> resultStore \<Rightarrow> resultStore" where
  "resultStore_Remove ids s = fold resultStore_remove ids s"

definition result_expired :: "time \<Rightarrow> stored_result \<Rightarrow> bool" where
  "result_expired now r \<longleftrightarrow> time_sub now (sr_addedAt r) > storeTTL"

fun viewResults :: "time \<Rightarrow> WorkID list \<Rightarrow> resultStore \<Rightarrow> CheckResult list" where
  "viewResults now [] s = []"
| "viewResults now (k # ks) s =
     (case rs_data s k of
        None \<Rightarrow> viewResults now ks s
      | Some r \<Rightarrow> if result_expired now r then viewResults now ks s
                  else sr_data r # viewResults now ks s)"

definition resultStore_gc1 :: "time \<Rightarrow> WorkID \<Rightarrow> resultStore \<Rightarrow> resultStore" where
  "resultStore_gc1 now k s =
     (case rs_data s k of
        None \<Rightarrow> s
      | Some v \<Rightarrow> if result_expired now v then s\<lparr>rs_data := (rs_data s)(k := None)\<rparr> else s)"

definition resultStore_gc :: "time \<Rightarrow> WorkID list \<Rightarrow> resultStore \<Rightarrow> resultStore" where
  "resultStore_gc now ks s = fold (resultStore_gc1 now) ks s"

text \<open>
  The signals the loop of \<open>Start\<close> selects on. The collector's tick carries the clock and the
  order the map is ranged over. The loop returns at the first stop signal and leaves the
  signals after it unread.
\<close>

datatype store_signal = GcTick time "WorkID list" | CtxDone | CloseSignal

fun resultStore_Start :: "store_signal list \<Rightarrow> resultStore \<Rightarrow> resultStore \<times> store_signal list" where
  "resultStore_Start [] s = (s, [])"
| "resultStore_Start (GcTick now ks # sigs) s = resultStore_Start sigs (resultStore_gc now ks s)"
| "resultStore_Start (CtxDone # sigs) s = (s, sigs)"
| "resultStore_Start (CloseSignal # sigs) s = (s, sigs)"

section \<open>Invariant\<close>

definition resultStore_inv :: "resultStore \<Rightarrow> bool" where
  "resultStore_inv s \<longleftrightarrow> (\<forall>k r. rs_data s k = Some r \<longrightarrow> cr_WorkID (sr_data r) = k)"

lemma resultStore_inv_New [inv_intros]: "resultStore_inv resultStore_New"
  by (simp add: resultStore_inv_def resultStore_New_def)

lemma resultStore_inv_add1: "resultStore_inv s \<Longrightarrow> resultStore_inv (resultStore_add1 now r s)"
  by (auto simp: resultStore_inv_def resultStore_add1_def split: option.split)

lemma resultStore_inv_Add [inv_intros]:
  "resultStore_inv s \<Longrightarrow> resultStore_inv (resultStore_Add now rs s)"
  unfolding resultStore_Add_def
  by (induction rs arbitrary: s) (auto simp: resultStore_inv_add1)

lemma rs_data_Remove [store_simps]:
  "rs_data (resultStore_Remove ids s) k = (if k \<in> set ids then None else rs_data s k)"
  unfolding resultStore_Remove_def
  by (induction ids arbitrary: s) (auto simp: resultStore_remove_def)

lemma resultStore_inv_Remove [inv_intros]:
  "resultStore_inv s \<Longrightarrow> resultStore_inv (resultStore_Remove ids s)"
  by (auto simp: resultStore_inv_def rs_data_Remove split: if_splits)

lemma rs_data_gc [store_simps]:
  "rs_data (resultStore_gc now ks s) k =
     (case rs_data s k of
        None \<Rightarrow> None
      | Some r \<Rightarrow> if k \<in> set ks \<and> result_expired now r then None else Some r)"
  unfolding resultStore_gc_def
  by (induction ks arbitrary: s) (auto simp: resultStore_gc1_def split: option.splits)

lemma resultStore_inv_gc [inv_intros]:
  "resultStore_inv s \<Longrightarrow> resultStore_inv (resultStore_gc now ks s)"
  by (auto simp: resultStore_inv_def rs_data_gc split: option.splits if_splits)

section \<open>Newest wins\<close>

definition rs_block :: "resultStore \<Rightarrow> WorkID \<rightharpoonup> BlockNumber" where
  "rs_block s k = map_option (\<lambda>r. tr_BlockNumber (cr_Trigger (sr_data r))) (rs_data s k)"

interpretation result_store: newest_wins "resultStore_add1 now" rs_block cr_WorkID
  "\<lambda>r. tr_BlockNumber (cr_Trigger r)" for now
  by unfold_locales
    (auto simp: fun_eq_iff rs_block_def resultStore_add1_def split: option.split)

lemma rs_data_add1_cases:
  "rs_data (resultStore_add1 now r s) k = Some x \<Longrightarrow>
     rs_data s k = Some x \<or> (k = cr_WorkID r \<and> x = \<lparr>sr_data = r, sr_addedAt = now\<rparr>)"
  by (auto simp: resultStore_add1_def split: option.splits if_splits)

lemma rs_data_Add_cases:
  "rs_data (resultStore_Add now rs s) k = Some x \<Longrightarrow>
     rs_data s k = Some x \<or> (\<exists>r\<in>set rs. k = cr_WorkID r \<and> x = \<lparr>sr_data = r, sr_addedAt = now\<rparr>)"
  unfolding resultStore_Add_def
  by (induction rs arbitrary: s) (fastforce dest: rs_data_add1_cases)+

section \<open>Viewing\<close>

lemma viewResults_filter:
  "viewResults now ks s =
     map (\<lambda>k. sr_data (the (rs_data s k)))
       (filter (\<lambda>k. \<exists>r. rs_data s k = Some r \<and> \<not> result_expired now r) ks)"
  by (induction ks) (auto split: option.split)

lemma set_viewResults:
  "range_order (rs_data s) ks \<Longrightarrow>
     set (viewResults now ks s) =
       {sr_data r | r k. rs_data s k = Some r \<and> \<not> result_expired now r}"
  by (force simp: viewResults_filter range_order_def)

lemma distinct_viewResults:
  assumes "resultStore_inv s" and "range_order (rs_data s) ks"
  shows "distinct (map cr_WorkID (viewResults now ks s))"
proof -
  let ?live = "filter (\<lambda>k. \<exists>r. rs_data s k = Some r \<and> \<not> result_expired now r) ks"
  have "map cr_WorkID (viewResults now ks s) = ?live"
    using assms(1) by (auto simp: viewResults_filter resultStore_inv_def intro!: map_idI)
  moreover from assms(2) have "distinct ?live" by (simp add: range_order_def)
  ultimately show ?thesis by simp
qed

lemma result_expired_later:
  "result_expired t r \<Longrightarrow> t \<le> t' \<Longrightarrow> result_expired t' r"
  by (simp add: result_expired_def storeTTL_def minute_def)

text \<open>Collecting garbage is invisible to every later view.\<close>

lemma set_viewResults_gc:
  assumes "range_order (rs_data s) ks" and "range_order (rs_data (resultStore_gc t gs s)) ks'"
    and "t \<le> now"
  shows "set (viewResults now ks' (resultStore_gc t gs s)) = set (viewResults now ks s)"
proof -
  have "rs_data (resultStore_gc t gs s) k = Some r \<and> \<not> result_expired now r \<longleftrightarrow>
      rs_data s k = Some r \<and> \<not> result_expired now r" for k r
    using assms(3) result_expired_later by (auto simp: rs_data_gc split: option.splits)
  then show ?thesis by (simp add: set_viewResults [OF assms(1)] set_viewResults [OF assms(2)])
qed

lemma resultStore_inv_Start:
  "resultStore_inv s \<Longrightarrow> resultStore_inv (fst (resultStore_Start sigs s))"
  by (induction sigs s rule: resultStore_Start.induct) (auto intro: inv_intros)

section \<open>Properties\<close>

lemma rs_data_Add_kept:
  assumes "rs_data s k = Some v"
    and "\<forall>x\<in>set rs. cr_WorkID x = k \<longrightarrow>
      tr_BlockNumber (cr_Trigger x) \<le> tr_BlockNumber (cr_Trigger (sr_data v))"
  shows "rs_data (resultStore_Add now rs s) k = Some v"
  using assms unfolding resultStore_Add_def
proof (induction rs arbitrary: s)
  case (Cons r rs)
  have "rs_data (resultStore_add1 now r s) k = Some v"
    using Cons.prems by (auto simp: resultStore_add1_def split: option.split)
  with Cons show ?case by simp
qed simp

lemma result_expired_iff: "result_expired t v \<longleftrightarrow> sr_addedAt v + storeTTL < t"
  by (auto simp: result_expired_def time_sub_def storeTTL_def minute_def second_def)

text \<open>What an addition leaves for the work id of an added result, and since when it is there\<close>

lemma rs_data_Add_newest:
  assumes "r \<in> set rs"
    and "newest = Max ((case rs_block s (cr_WorkID r) of None \<Rightarrow> {} | Some b \<Rightarrow> {b}) \<union>
        (\<lambda>x. tr_BlockNumber (cr_Trigger x)) ` {x \<in> set rs. cr_WorkID x = cr_WorkID r})"
  obtains v where "rs_data (resultStore_Add now rs s) (cr_WorkID r) = Some v"
    "tr_BlockNumber (cr_Trigger (sr_data v)) = newest"
    "sr_addedAt v = (case rs_data s (cr_WorkID r) of
        None \<Rightarrow> now
      | Some w \<Rightarrow> if tr_BlockNumber (cr_Trigger (sr_data w)) < newest then now else sr_addedAt w)"
proof -
  let ?k = "cr_WorkID r" and ?s = "resultStore_Add now rs s"
  have "rs_block ?s ?k = Some newest"
    using result_store.look_fold [of now rs s ?k] assms
    by (auto simp: resultStore_Add_def Let_def filter_empty_conv split: option.splits)
  then obtain v where v: "rs_data ?s ?k = Some v" "tr_BlockNumber (cr_Trigger (sr_data v)) = newest"
    by (auto simp: rs_block_def)
  have le: "tr_BlockNumber (cr_Trigger x) \<le> newest" if "x \<in> set rs" "cr_WorkID x = ?k" for x
    using that unfolding assms(2) by (intro Max_ge) (auto split: option.split)
  have "sr_addedAt v = (case rs_data s ?k of None \<Rightarrow> now
      | Some w \<Rightarrow> if tr_BlockNumber (cr_Trigger (sr_data w)) < newest then now else sr_addedAt w)"
  proof (cases "rs_data s ?k")
    case None
    then show ?thesis using rs_data_Add_cases [OF v(1)] by auto
  next
    case (Some w)
    show ?thesis
    proof (cases "tr_BlockNumber (cr_Trigger (sr_data w)) < newest")
      case True
      then show ?thesis using rs_data_Add_cases [OF v(1)] Some v(2) by auto
    next
      case False
      then have "rs_data ?s ?k = Some w" using le by (intro rs_data_Add_kept [OF Some]) fastforce
      then show ?thesis using False Some v(1) by simp
    qed
  qed
  with v that show thesis by blast
qed

text \<open>
  C33: after results were added, in any order, the work id of each of them holds the result with the
  highest check block among the added ones and the one stored before. Every later view shows no
  other result of that work id, and shows this one exactly until the time to live has passed since
  this addition, if it is new to the store or newer than the one stored before, and otherwise
  since the stored one was added.
\<close>

theorem result_store_keeps_newest:
  assumes "resultStore_inv s" and "r \<in> set rs"
    and "s' = resultStore_Add now rs s" and "range_order (rs_data s') ks"
    and "newest = Max ((case rs_block s (cr_WorkID r) of None \<Rightarrow> {} | Some b \<Rightarrow> {b}) \<union>
        (\<lambda>x. tr_BlockNumber (cr_Trigger x)) ` {x \<in> set rs. cr_WorkID x = cr_WorkID r})"
  shows "rs_block s' (cr_WorkID r) = Some newest \<and>
    (\<forall>x\<in>set (viewResults t ks s').
       cr_WorkID x = cr_WorkID r \<longrightarrow> tr_BlockNumber (cr_Trigger x) = newest) \<and>
    ((\<exists>x\<in>set (viewResults t ks s'). cr_WorkID x = cr_WorkID r) \<longleftrightarrow>
       (case rs_data s (cr_WorkID r) of
          None \<Rightarrow> t \<le> now + storeTTL
        | Some w \<Rightarrow> if tr_BlockNumber (cr_Trigger (sr_data w)) < newest then t \<le> now + storeTTL
                    else t \<le> sr_addedAt w + storeTTL))"
proof -
  from rs_data_Add_newest [OF assms(2,5), of now] obtain v where
    v: "rs_data s' (cr_WorkID r) = Some v" "tr_BlockNumber (cr_Trigger (sr_data v)) = newest"
    and added: "sr_addedAt v = (case rs_data s (cr_WorkID r) of None \<Rightarrow> now
      | Some w \<Rightarrow> if tr_BlockNumber (cr_Trigger (sr_data w)) < newest then now else sr_addedAt w)"
    unfolding assms(3) by blast
  have "resultStore_inv s'" using assms(1,3) by (simp add: inv_intros)
  then have view: "x \<in> set (viewResults t ks s') \<and> cr_WorkID x = cr_WorkID r \<longleftrightarrow>
      x = sr_data v \<and> t \<le> sr_addedAt v + storeTTL" for x
    using v(1) set_viewResults [OF assms(4), of t]
    by (auto simp: resultStore_inv_def result_expired_iff not_less)
  have "rs_block s' (cr_WorkID r) = Some newest" using v by (simp add: rs_block_def)
  moreover have "\<forall>x\<in>set (viewResults t ks s').
      cr_WorkID x = cr_WorkID r \<longrightarrow> tr_BlockNumber (cr_Trigger x) = newest"
    using view v(2) by (metis (no_types))
  moreover have "(\<exists>x\<in>set (viewResults t ks s'). cr_WorkID x = cr_WorkID r) \<longleftrightarrow>
      t \<le> sr_addedAt v + storeTTL"
    using view by blast
  ultimately show ?thesis by (simp add: added split: option.split)
qed

text \<open>
  At 3 a newer result replaces the one stored at 0 and is viewed for five minutes from then; at
  one minute an older one is ignored, and what is viewed expires five minutes after 0.
\<close>

theorem result_store_keeps_newest_witness:
  "(let s = resultStore_Add 0 [sample_result 5 ''a'' 7] resultStore_New;
        s1 = resultStore_Add 3 [sample_result 5 ''a'' 9, sample_result 5 ''a'' 8] s;
        s2 = resultStore_Add minute [sample_result 5 ''a'' 6] s
    in rs_block s1 ''a'' = Some 9 \<and> rs_block s2 ''a'' = Some 7
     \<and> (\<exists>x\<in>set (viewResults (5 * minute + 1) [''a''] s1). cr_WorkID x = ''a'')
     \<and> \<not> (\<exists>x\<in>set (viewResults (5 * minute + 1) [''a''] s2). cr_WorkID x = ''a''))"
proof -
  let ?s = "resultStore_Add 0 [sample_result 5 ''a'' 7] resultStore_New"
  let ?new = "[sample_result 5 ''a'' 9, sample_result 5 ''a'' 8]"
  let ?old = "[sample_result 5 ''a'' 6]"
  have simps: "cr_WorkID (sample_result 5 w b) = w"
    "tr_BlockNumber (cr_Trigger (sample_result 5 w b)) = b" for w b
    by (simp_all add: sample_result_def sample_trigger_def)
  have data: "rs_data ?s = [''a'' \<mapsto> \<lparr>sr_data = sample_result 5 ''a'' 7, sr_addedAt = 0\<rparr>]"
    by (simp add: resultStore_Add_def resultStore_add1_def resultStore_New_def simps)
  have inv: "resultStore_inv ?s" by (intro inv_intros)
  have ks: "range_order (rs_data (resultStore_Add 3 ?new ?s)) [''a'']"
    "range_order (rs_data (resultStore_Add minute ?old ?s)) [''a'']"
    by (auto simp: range_order_def resultStore_Add_def resultStore_add1_def resultStore_New_def simps)
  have "{x \<in> set ?new. cr_WorkID x = ''a''} = set ?new" "{x \<in> set ?old. cr_WorkID x = ''a''} = set ?old"
    by (auto simp: simps)
  then have max: "Max ((case rs_block ?s ''a'' of None \<Rightarrow> {} | Some b \<Rightarrow> {b}) \<union>
        (\<lambda>x. tr_BlockNumber (cr_Trigger x)) ` {x \<in> set ?new. cr_WorkID x = ''a''}) = 9"
    "Max ((case rs_block ?s ''a'' of None \<Rightarrow> {} | Some b \<Rightarrow> {b}) \<union>
        (\<lambda>x. tr_BlockNumber (cr_Trigger x)) ` {x \<in> set ?old. cr_WorkID x = ''a''}) = 7"
    by (simp_all add: rs_block_def data simps)
  note new = result_store_keeps_newest [OF inv list.set_intros(1) refl ks(1) refl, of "5 * minute + 1",
      unfolded simps max data]
  note old = result_store_keeps_newest [OF inv list.set_intros(1) refl ks(2) refl, of "5 * minute + 1",
      unfolded simps max data]
  from new old show ?thesis by (simp add: Let_def simps storeTTL_def minute_def second_def)
qed

text \<open>
  An expired result that the collector has not removed yet keeps a fresh result of the same
  check block out of the store, and a view shows neither.
\<close>

lemma expired_result_blocks_fresh_one:
  assumes "rs_data s (cr_WorkID r) = Some v" and "result_expired now v"
    and "tr_BlockNumber (cr_Trigger r) = tr_BlockNumber (cr_Trigger (sr_data v))"
    and "resultStore_inv s" and "range_order (rs_data s) ks"
  shows "resultStore_Add now [r] s = s \<and> cr_WorkID r \<notin> cr_WorkID ` set (viewResults now ks s)"
proof
  show "resultStore_Add now [r] s = s"
    using assms(1,3) by (simp add: resultStore_Add_def resultStore_add1_def)
  show "cr_WorkID r \<notin> cr_WorkID ` set (viewResults now ks s)"
    using assms(1,2,4) set_viewResults [OF assms(5), of now] by (auto simp: resultStore_inv_def)
qed

lemma expired_result_blocks_fresh_one_witness:
  "resultStore_Add (6 * minute) [sample_result 5 ''a'' 7]
     (resultStore_Add 0 [sample_result 5 ''a'' 7] resultStore_New) =
   resultStore_Add 0 [sample_result 5 ''a'' 7] resultStore_New"
proof -
  let ?s = "resultStore_Add 0 [sample_result 5 ''a'' 7] resultStore_New"
  have data: "rs_data ?s = [''a'' \<mapsto> \<lparr>sr_data = sample_result 5 ''a'' 7, sr_addedAt = 0\<rparr>]"
    by (simp add: resultStore_Add_def resultStore_add1_def resultStore_New_def sample_result_def)
  have "resultStore_inv ?s" by (intro inv_intros)
  moreover have "range_order (rs_data ?s) [''a'']" unfolding data by (simp add: range_order_def)
  ultimately show ?thesis
    using expired_result_blocks_fresh_one [of ?s "sample_result 5 ''a'' 7"
        "\<lparr>sr_data = sample_result 5 ''a'' 7, sr_addedAt = 0\<rparr>" "6 * minute" "[''a'']"] data
    by (simp add: result_expired_def storeTTL_def minute_def sample_result_def)
qed

end
