(* ===== verification/Proposal_Queue.thy ===== *)
theory Proposal_Queue
  imports Interfaces Samples
begin

text \<open>
  \<open>pkg/v3/stores/proposal_queue.go\<close>: coordinated proposals waiting for the final flows. While
  its record lives, for \<open>proposalExpiry\<close>, a work id is dequeued at most once per coordinated block.
\<close>

record proposalQueueRecord =
  pqr_proposal :: CoordinatedBlockProposal
  pqr_removed :: bool
  pqr_createdAt :: time

record proposalQueue =
  pq_records :: "WorkID \<rightharpoonup> proposalQueueRecord"

definition proposalExpiry :: duration where "proposalExpiry = 20 * second"
definition DefaultExpiration :: duration where "DefaultExpiration = 24 * hour"

definition pqr_expired :: "proposalQueueRecord \<Rightarrow> time \<Rightarrow> duration \<Rightarrow> bool" where
  "pqr_expired r now expr \<longleftrightarrow> time_sub now (pqr_createdAt r) > expr"

definition NewProposalQueue :: proposalQueue where
  "NewProposalQueue = \<lparr>pq_records = Map.empty\<rparr>"

definition pq_enqueue1 :: "time \<Rightarrow> CoordinatedBlockProposal \<Rightarrow> proposalQueue \<Rightarrow> proposalQueue" where
  "pq_enqueue1 now p q =
     (let rec = \<lparr>pqr_proposal = p, pqr_removed = False, pqr_createdAt = now\<rparr>
      in case pq_records q (cbp_WorkID p) of
           Some existing \<Rightarrow>
             if tr_BlockNumber (cbp_Trigger (pqr_proposal existing)) \<ge> tr_BlockNumber (cbp_Trigger p)
             then q
             else q\<lparr>pq_records := (pq_records q)(cbp_WorkID p \<mapsto> rec)\<rparr>
         | None \<Rightarrow> q\<lparr>pq_records := (pq_records q)(cbp_WorkID p \<mapsto> rec)\<rparr>)"

definition pq_Enqueue ::
    "time \<Rightarrow> CoordinatedBlockProposal list \<Rightarrow> proposalQueue \<Rightarrow> proposalQueue" where
  "pq_Enqueue now ps q = fold (pq_enqueue1 now) ps q"

text \<open>The first loop of \<open>Dequeue\<close>: drop expired records, collect the eligible proposals.\<close>

fun pq_collect ::
    "UpkeepTypeGetter \<Rightarrow> time \<Rightarrow> UpkeepType \<Rightarrow> WorkID list \<Rightarrow> (WorkID \<rightharpoonup> proposalQueueRecord) \<Rightarrow>
     (WorkID \<rightharpoonup> proposalQueueRecord) \<times> CoordinatedBlockProposal list" where
  "pq_collect utg now t [] m = (m, [])"
| "pq_collect utg now t (k # ks) m =
     (case m k of
        None \<Rightarrow> pq_collect utg now t ks m
      | Some record \<Rightarrow>
          if pqr_expired record now proposalExpiry then
            pq_collect utg now t ks (m(cbp_WorkID (pqr_proposal record) := None))
          else if pqr_removed record then pq_collect utg now t ks m
          else if utg (cbp_UpkeepID (pqr_proposal record)) = t then
            (let (m', ps) = pq_collect utg now t ks m in (m', pqr_proposal record # ps))
          else pq_collect utg now t ks m)"

text \<open>Reading a missing key of a Go map yields the zero value of the record.\<close>

definition zero_trigger :: Trigger where
  "zero_trigger = \<lparr>tr_BlockNumber = 0, tr_BlockHash = 0, tr_LogTriggerExtension = None\<rparr>"

definition zero_proposal :: CoordinatedBlockProposal where
  "zero_proposal = \<lparr>cbp_UpkeepID = 0, cbp_Trigger = zero_trigger, cbp_WorkID = ''''\<rparr>"

definition pq_mark_removed ::
    "CoordinatedBlockProposal \<Rightarrow> (WorkID \<rightharpoonup> proposalQueueRecord) \<Rightarrow> (WorkID \<rightharpoonup> proposalQueueRecord)"
  where
  "pq_mark_removed p m =
     (let rec = (case m (cbp_WorkID p) of
           Some r \<Rightarrow> r
         | None \<Rightarrow> \<lparr>pqr_proposal = zero_proposal, pqr_removed = False, pqr_createdAt = zero_time\<rparr>)
      in m(cbp_WorkID p \<mapsto> rec\<lparr>pqr_removed := True\<rparr>))"

definition pq_Dequeue ::
    "UpkeepTypeGetter \<Rightarrow> time \<Rightarrow> WorkID list \<Rightarrow> UpkeepType \<Rightarrow> nat \<Rightarrow> proposalQueue \<Rightarrow>
     proposalQueue \<times> CoordinatedBlockProposal list" where
  "pq_Dequeue utg now ks t n q =
     (let (m, ps) = pq_collect utg now t ks (pq_records q);
          proposals = take (min n (length ps)) ps
      in (q\<lparr>pq_records := fold pq_mark_removed proposals m\<rparr>, proposals))"

definition pq_Size :: "time \<Rightarrow> WorkID list \<Rightarrow> proposalQueue \<Rightarrow> nat" where
  "pq_Size now ks q =
     length (filter (\<lambda>k. case pq_records q k of
         None \<Rightarrow> False
       | Some r \<Rightarrow> \<not> (pqr_removed r \<or> pqr_expired r now DefaultExpiration)) ks)"

section \<open>Invariant\<close>

definition pq_inv :: "proposalQueue \<Rightarrow> bool" where
  "pq_inv q \<longleftrightarrow> (\<forall>k r. pq_records q k = Some r \<longrightarrow> cbp_WorkID (pqr_proposal r) = k)"

lemma pq_inv_New [inv_intros]: "pq_inv NewProposalQueue"
  by (simp add: pq_inv_def NewProposalQueue_def)

lemma pq_inv_enqueue1: "pq_inv q \<Longrightarrow> pq_inv (pq_enqueue1 now p q)"
  by (auto simp: pq_inv_def pq_enqueue1_def Let_def split: option.split)

lemma pq_inv_Enqueue [inv_intros]: "pq_inv q \<Longrightarrow> pq_inv (pq_Enqueue now ps q)"
  unfolding pq_Enqueue_def by (induction ps arbitrary: q) (auto simp: pq_inv_enqueue1)

section \<open>Newest wins\<close>

definition pq_block :: "proposalQueue \<Rightarrow> WorkID \<rightharpoonup> BlockNumber" where
  "pq_block q k = map_option (\<lambda>r. tr_BlockNumber (cbp_Trigger (pqr_proposal r))) (pq_records q k)"

interpretation proposal_queue: newest_wins "pq_enqueue1 now" pq_block cbp_WorkID
  "\<lambda>p. tr_BlockNumber (cbp_Trigger p)" for now
  by unfold_locales
    (auto simp: fun_eq_iff pq_block_def pq_enqueue1_def Let_def not_le not_less
      split: option.split)

section \<open>Dequeue\<close>

text \<open>A record that \<open>Dequeue\<close> may hand out: live, not handed out before, of the asked type.\<close>

definition pq_ready :: "UpkeepTypeGetter \<Rightarrow> time \<Rightarrow> UpkeepType \<Rightarrow> proposalQueueRecord \<Rightarrow> bool" where
  "pq_ready utg now t r \<longleftrightarrow> \<not> pqr_expired r now proposalExpiry \<and> \<not> pqr_removed r \<and>
     utg (cbp_UpkeepID (pqr_proposal r)) = t"

lemma pq_collect_result:
  assumes "\<And>k r. m k = Some r \<Longrightarrow> cbp_WorkID (pqr_proposal r) = k" and "distinct ks"
  shows "pq_collect utg now t ks m =
    ((\<lambda>k. case m k of
        None \<Rightarrow> None
      | Some r \<Rightarrow> if k \<in> set ks \<and> pqr_expired r now proposalExpiry then None else Some r),
     map (\<lambda>k. pqr_proposal (the (m k))) (filter (\<lambda>k. \<exists>r. m k = Some r \<and> pq_ready utg now t r) ks))"
  using assms
proof (induction ks arbitrary: m)
  case Nil
  then show ?case by (auto simp: fun_eq_iff split: option.split)
next
  case (Cons k ks)
  show ?case
  proof (cases "m k")
    case None
    with Cons show ?thesis by (auto simp: fun_eq_iff split: option.split)
  next
    case (Some r)
    then have key: "cbp_WorkID (pqr_proposal r) = k" using Cons.prems(1) by blast
    show ?thesis
    proof (cases "pqr_expired r now proposalExpiry")
      case True
      let ?m = "m(k := None)"
      have other: "map (\<lambda>k. pqr_proposal (the (?m k)))
            (filter (\<lambda>k. \<exists>r. ?m k = Some r \<and> pq_ready utg now t r) ks) =
          map (\<lambda>k. pqr_proposal (the (m k)))
            (filter (\<lambda>k. \<exists>r. m k = Some r \<and> pq_ready utg now t r) ks)"
        using Cons.prems(2) by (intro map_cong filter_cong) auto
      have keys: "\<And>k r. ?m k = Some r \<Longrightarrow> cbp_WorkID (pqr_proposal r) = k"
        using Cons.prems(1) by (auto split: if_splits)
      have ds: "distinct ks" using Cons.prems(2) by simp
      have "pq_collect utg now t (k # ks) m = pq_collect utg now t ks ?m"
        using Some True key by simp
      also note Cons.IH [OF keys ds]
      also note other
      also have "(\<lambda>k'. case ?m k' of None \<Rightarrow> None
            | Some r \<Rightarrow> if k' \<in> set ks \<and> pqr_expired r now proposalExpiry then None else Some r) =
          (\<lambda>k'. case m k' of None \<Rightarrow> None
            | Some r \<Rightarrow> if k' \<in> set (k # ks) \<and> pqr_expired r now proposalExpiry then None else Some r)"
        using Some True by (auto simp: fun_eq_iff split: option.split)
      finally show ?thesis
        using Some True by (simp add: pq_ready_def)
    next
      case False
      have ds: "distinct ks" using Cons.prems(2) by simp
      note Cons.IH [OF Cons.prems(1) ds]
      then show ?thesis
        using Some False key Cons.prems(2)
        by (auto simp: fun_eq_iff pq_ready_def split: option.split)
    qed
  qed
qed

lemma fold_mark_removed:
  "(\<And>p. p \<in> set ps \<Longrightarrow> m (cbp_WorkID p) \<noteq> None) \<Longrightarrow>
   fold pq_mark_removed ps m k =
     (if k \<in> cbp_WorkID ` set ps then map_option (pqr_removed_update (\<lambda>_. True)) (m k) else m k)"
proof (induction ps arbitrary: m)
  case (Cons p ps)
  let ?m = "pq_mark_removed p m"
  from Cons.prems [of p] obtain r where r: "m (cbp_WorkID p) = Some r" by auto
  have m: "?m = m(cbp_WorkID p \<mapsto> r\<lparr>pqr_removed := True\<rparr>)"
    using r by (simp add: pq_mark_removed_def)
  have "fold pq_mark_removed ps ?m k =
      (if k \<in> cbp_WorkID ` set ps then map_option (pqr_removed_update (\<lambda>_. True)) (?m k) else ?m k)"
    by (rule Cons.IH) (use Cons.prems in \<open>auto simp: m\<close>)
  then show ?case
    using r by (auto simp: m)
qed simp

lemma pq_Dequeue_result:
  assumes "pq_inv q" and "distinct ks"
  shows "snd (pq_Dequeue utg now ks t n q) =
    take n (map (\<lambda>k. pqr_proposal (the (pq_records q k)))
      (filter (\<lambda>k. \<exists>r. pq_records q k = Some r \<and> pq_ready utg now t r) ks))"
proof -
  from assms(1) have "\<And>k r. pq_records q k = Some r \<Longrightarrow> cbp_WorkID (pqr_proposal r) = k"
    by (simp add: pq_inv_def)
  from pq_collect_result [OF this assms(2)] show ?thesis
    by (simp add: pq_Dequeue_def min_def Let_def)
qed

lemma pq_Dequeue_mem:
  assumes "pq_inv q" and "distinct ks" and "p \<in> set (snd (pq_Dequeue utg now ks t n q))"
  shows "\<exists>r. pq_records q (cbp_WorkID p) = Some r \<and> pqr_proposal r = p \<and> pq_ready utg now t r"
proof -
  from assms obtain k r where "pq_records q k = Some r" "pq_ready utg now t r" "p = pqr_proposal r"
    by (auto simp: pq_Dequeue_result dest!: in_set_takeD)
  with assms(1) show ?thesis by (auto simp: pq_inv_def)
qed

lemma pq_records_Dequeue:
  assumes inv: "pq_inv q" and ks: "distinct ks"
  shows "pq_records (fst (pq_Dequeue utg now ks t n q)) k =
    (case pq_records q k of
       None \<Rightarrow> None
     | Some r \<Rightarrow>
         if k \<in> set ks \<and> pqr_expired r now proposalExpiry then None
         else if k \<in> cbp_WorkID ` set (snd (pq_Dequeue utg now ks t n q))
         then Some (r\<lparr>pqr_removed := True\<rparr>) else Some r)"
proof -
  let ?m = "\<lambda>k. case pq_records q k of
        None \<Rightarrow> None
      | Some r \<Rightarrow> if k \<in> set ks \<and> pqr_expired r now proposalExpiry then None else Some r"
  let ?out = "snd (pq_Dequeue utg now ks t n q)"
  from inv have "\<And>k r. pq_records q k = Some r \<Longrightarrow> cbp_WorkID (pqr_proposal r) = k"
    by (simp add: pq_inv_def)
  from pq_collect_result [OF this ks] have "pq_records (fst (pq_Dequeue utg now ks t n q)) = fold pq_mark_removed ?out ?m"
    by (simp add: pq_Dequeue_def Let_def)
  moreover have "?m (cbp_WorkID p) \<noteq> None" if "p \<in> set ?out" for p
    using pq_Dequeue_mem [OF inv ks that] by (auto simp: pq_ready_def)
  moreover have "\<not> pqr_expired r now proposalExpiry"
    if "k \<in> cbp_WorkID ` set ?out" "pq_records q k = Some r" for r
    using that pq_Dequeue_mem [OF inv ks] by (fastforce simp: pq_ready_def)
  ultimately show ?thesis
    by (auto simp: fold_mark_removed split: option.split)
qed

lemma pq_inv_Dequeue [inv_intros]:
  "pq_inv q \<Longrightarrow> distinct ks \<Longrightarrow> pq_inv (fst (pq_Dequeue utg now ks t n q))"
  using pq_records_Dequeue [of q ks utg now t n]
  by (auto simp: pq_inv_def [of "fst _"] split: option.splits if_splits) (auto simp: pq_inv_def)

lemma pq_enqueue1_keeps:
  "pq_records q k = Some r \<Longrightarrow>
   \<exists>r'. pq_records (pq_enqueue1 now p q) k = Some r' \<and>
     (r' = r \<or> tr_BlockNumber (cbp_Trigger (pqr_proposal r)) <
                tr_BlockNumber (cbp_Trigger (pqr_proposal r')))"
  by (auto simp: pq_enqueue1_def Let_def not_le split: option.split)

lemma pq_Enqueue_keeps:
  "pq_records q k = Some r \<Longrightarrow>
   \<exists>r'. pq_records (pq_Enqueue now ps q) k = Some r' \<and>
     (r' = r \<or> tr_BlockNumber (cbp_Trigger (pqr_proposal r)) <
                tr_BlockNumber (cbp_Trigger (pqr_proposal r')))"
  unfolding pq_Enqueue_def
proof (induction ps arbitrary: q r)
  case (Cons p ps)
  from pq_enqueue1_keeps [OF Cons.prems] obtain r1 where
    r1: "pq_records (pq_enqueue1 now p q) k = Some r1" and
    step: "r1 = r \<or> tr_BlockNumber (cbp_Trigger (pqr_proposal r)) <
      tr_BlockNumber (cbp_Trigger (pqr_proposal r1))"
    by blast
  from Cons.IH [OF r1] step show ?case by fastforce
qed simp

section \<open>The queue over time\<close>

text \<open>
  A run of the queue: calls of \<open>Enqueue\<close> and \<open>Dequeue\<close>, for any proposals, types and limits, with a
  clock that does not go back.
\<close>

inductive pq_steps :: "UpkeepTypeGetter \<Rightarrow> time \<Rightarrow> proposalQueue \<Rightarrow> time \<Rightarrow> proposalQueue \<Rightarrow> bool"
  for utg where
  pq_start: "pq_steps utg t q t q"
| pq_enqueued: "pq_steps utg t q t' q' \<Longrightarrow> t' \<le> now \<Longrightarrow> pq_steps utg t q now (pq_Enqueue now ps q')"
| pq_dequeued: "pq_steps utg t q t' q' \<Longrightarrow> t' \<le> now \<Longrightarrow> distinct ks \<Longrightarrow>
    pq_steps utg t q now (fst (pq_Dequeue utg now ks ty n q'))"

lemma pq_steps_time: "pq_steps utg t q t' q' \<Longrightarrow> t \<le> t'"
  by (induction rule: pq_steps.induct) auto

lemma pq_steps_inv: "pq_steps utg t q t' q' \<Longrightarrow> pq_inv q \<Longrightarrow> pq_inv q'"
  by (induction rule: pq_steps.induct) (auto intro: inv_intros)

lemma pqr_expired_iff: "pqr_expired r now proposalExpiry \<longleftrightarrow> pqr_createdAt r + proposalExpiry < now"
  by (auto simp: pqr_expired_def proposalExpiry_def second_def)

lemma pq_enqueue1_created:
  "pq_records (pq_enqueue1 now p q) k = Some r \<Longrightarrow> pq_records q k = Some r \<or> pqr_createdAt r = now"
  by (auto simp: pq_enqueue1_def Let_def split: option.splits if_splits)

lemma pq_Enqueue_created:
  "pq_records (pq_Enqueue now ps q) k = Some r \<Longrightarrow> pq_records q k = Some r \<or> pqr_createdAt r = now"
  unfolding pq_Enqueue_def
  by (induction ps arbitrary: q) (fastforce dest: pq_enqueue1_created)+

text \<open>No record is from the future.\<close>

lemma pq_steps_created:
  assumes "pq_steps utg t q t' q'" "pq_inv q" "\<forall>k r. pq_records q k = Some r \<longrightarrow> pqr_createdAt r \<le> t"
  shows "\<forall>k r. pq_records q' k = Some r \<longrightarrow> pqr_createdAt r \<le> t'"
  using assms
proof (induction rule: pq_steps.induct)
  case (pq_enqueued t q t' q' now ps)
  then show ?case by (fastforce dest: pq_Enqueue_created)
next
  case (pq_dequeued t q t' q' now ks ty n)
  then show ?case
    using pq_records_Dequeue [OF pq_steps_inv [OF pq_dequeued.hyps(1)] pq_dequeued.hyps(3), of utg now ty n]
    by (fastforce split: option.splits if_splits)
qed simp

text \<open>
  Up to time \<open>until\<close> the work id has a record, of a block above \<open>b\<close> or of block \<open>b\<close> and handed out.
\<close>

definition handed_out :: "proposalQueue \<Rightarrow> WorkID \<Rightarrow> BlockNumber \<Rightarrow> time \<Rightarrow> bool" where
  "handed_out q wid b until \<longleftrightarrow> (\<exists>r. pq_records q wid = Some r \<and>
     until \<le> pqr_createdAt r + proposalExpiry \<and>
     (b < tr_BlockNumber (cbp_Trigger (pqr_proposal r)) \<or>
      b = tr_BlockNumber (cbp_Trigger (pqr_proposal r)) \<and> pqr_removed r))"

lemma handed_out_Enqueue:
  assumes "handed_out q wid b until" "until \<le> now + proposalExpiry"
  shows "handed_out (pq_Enqueue now ps q) wid b until"
proof -
  from assms(1) obtain r where r: "pq_records q wid = Some r" "until \<le> pqr_createdAt r + proposalExpiry"
    "b < tr_BlockNumber (cbp_Trigger (pqr_proposal r)) \<or>
     b = tr_BlockNumber (cbp_Trigger (pqr_proposal r)) \<and> pqr_removed r"
    by (auto simp: handed_out_def)
  from pq_Enqueue_keeps [OF r(1), of now ps] obtain r' where
    r': "pq_records (pq_Enqueue now ps q) wid = Some r'"
    "r' = r \<or> tr_BlockNumber (cbp_Trigger (pqr_proposal r)) < tr_BlockNumber (cbp_Trigger (pqr_proposal r'))"
    by blast
  from pq_Enqueue_created [OF r'(1)] r(1,2) assms(2) have "until \<le> pqr_createdAt r' + proposalExpiry" by auto
  with r(3) r' show ?thesis by (auto simp: handed_out_def)
qed

lemma handed_out_Dequeue:
  assumes "handed_out q wid b until" "now \<le> until" "pq_inv q" "distinct ks"
  shows "handed_out (fst (pq_Dequeue utg now ks ty n q)) wid b until"
  using assms(1,2) pq_records_Dequeue [OF assms(3,4), of utg now ty n wid]
  by (auto simp: handed_out_def pqr_expired_iff)

lemma handed_out_steps:
  assumes "pq_steps utg t q t' q'" "handed_out q wid b until" "t' \<le> until" "until \<le> t + proposalExpiry"
    and "pq_inv q"
  shows "handed_out q' wid b until"
  using assms
proof (induction rule: pq_steps.induct)
  case (pq_enqueued t q t' q' now ps)
  then show ?case using pq_steps_time [OF pq_enqueued.hyps(1)] by (auto intro!: handed_out_Enqueue)
next
  case (pq_dequeued t q t' q' now ks ty n)
  then show ?case using pq_steps_inv [OF pq_dequeued.hyps(1)] by (auto intro!: handed_out_Dequeue)
qed simp

section \<open>Properties\<close>

text \<open>
  C34: in any run of the queue, a dequeued proposal is live, of the asked type and was not handed out
  before, and at most \<open>n\<close> are returned. Whatever calls follow, until the record has expired,
  \<open>proposalExpiry\<close> after it was enqueued, a later dequeue returns the same work id only for a proposal
  coordinated on a strictly higher block.
\<close>

theorem proposal_dequeued_once_per_block:
  assumes "pq_steps utg t0 NewProposalQueue t q" and "t \<le> now" and "distinct ks"
    and "p \<in> set (snd (pq_Dequeue utg now ks ty n q))"
    and "pq_steps utg now (fst (pq_Dequeue utg now ks ty n q)) t' q'" and "t' \<le> now'" and "distinct ks'"
    and "p' \<in> set (snd (pq_Dequeue utg now' ks' ty' n' q'))" and "cbp_WorkID p' = cbp_WorkID p"
  shows "length (snd (pq_Dequeue utg now ks ty n q)) \<le> n \<and>
    (\<exists>r. pq_records q (cbp_WorkID p) = Some r \<and> pqr_proposal r = p \<and> \<not> pqr_removed r \<and>
       utg (cbp_UpkeepID p) = ty \<and> now \<le> pqr_createdAt r + proposalExpiry \<and>
       (now' \<le> pqr_createdAt r + proposalExpiry \<longrightarrow>
          tr_BlockNumber (cbp_Trigger p) < tr_BlockNumber (cbp_Trigger p')))"
proof -
  let ?q = "fst (pq_Dequeue utg now ks ty n q)"
  have inv: "pq_inv q" by (rule pq_steps_inv [OF assms(1) pq_inv_New])
  from pq_Dequeue_mem [OF inv assms(3,4)] obtain r where
    r: "pq_records q (cbp_WorkID p) = Some r" "pqr_proposal r = p" "pq_ready utg now ty r" by blast
  have created: "pqr_createdAt r \<le> now"
    using pq_steps_created [OF assms(1) pq_inv_New] r(1) assms(2) by (fastforce simp: NewProposalQueue_def)
  have "tr_BlockNumber (cbp_Trigger p) < tr_BlockNumber (cbp_Trigger p')"
    if "now' \<le> pqr_createdAt r + proposalExpiry"
  proof -
    have "handed_out ?q (cbp_WorkID p) (tr_BlockNumber (cbp_Trigger p)) (pqr_createdAt r + proposalExpiry)"
      using r pq_records_Dequeue [OF inv assms(3), of utg now ty n] assms(4)
      by (auto simp: handed_out_def pq_ready_def)
    from handed_out_steps [OF assms(5) this] that created assms(6)
    have "handed_out q' (cbp_WorkID p) (tr_BlockNumber (cbp_Trigger p)) (pqr_createdAt r + proposalExpiry)"
      by (auto intro: inv_intros inv assms(3))
    moreover have "pq_inv q'" using pq_steps_inv [OF assms(5)] by (auto intro: inv_intros inv assms(3))
    from pq_Dequeue_mem [OF this assms(7,8)] obtain r' where
      "pq_records q' (cbp_WorkID p) = Some r'" "pqr_proposal r' = p'" "\<not> pqr_removed r'"
      using assms(9) by (auto simp: pq_ready_def)
    ultimately show ?thesis by (auto simp: handed_out_def)
  qed
  moreover have "length (snd (pq_Dequeue utg now ks ty n q)) \<le> n"
    by (simp add: pq_Dequeue_result [OF inv assms(3)])
  ultimately show ?thesis using r by (auto simp: pq_ready_def pqr_expired_iff not_less)
qed

definition sample_pq :: proposalQueue where
  "sample_pq = pq_Enqueue 5 [sample_proposal ''p'' 1] NewProposalQueue"

lemma sample_pq_dequeue:
  "pq_Dequeue (\<lambda>_. LogTrigger) 6 [''p''] LogTrigger 3 sample_pq =
     (\<lparr>pq_records = [''p'' \<mapsto> \<lparr>pqr_proposal = sample_proposal ''p'' 1, pqr_removed = True,
        pqr_createdAt = 5\<rparr>]\<rparr>, [sample_proposal ''p'' 1])"
  by (simp add: sample_pq_def pq_Dequeue_def pq_Enqueue_def pq_enqueue1_def NewProposalQueue_def
      pqr_expired_def proposalExpiry_def second_def pq_mark_removed_def sample_proposal_def Let_def)

lemma sample_pq_steps: "pq_steps (\<lambda>_. LogTrigger) 0 NewProposalQueue 5 sample_pq"
  unfolding sample_pq_def by (rule pq_enqueued [OF pq_start]) simp

text \<open>
  The proposal of block 1 is dequeued at 6, enqueued again at 7 together with one of block 2, and
  what is dequeued at 8 is the one of block 2.
\<close>

theorem proposal_dequeued_once_per_block_witness:
  "(let q = fst (pq_Dequeue (\<lambda>_. LogTrigger) 6 [''p''] LogTrigger 3 sample_pq);
        q' = pq_Enqueue 7 [sample_proposal ''p'' 1, sample_proposal ''p'' 2] q
    in \<forall>p'\<in>set (snd (pq_Dequeue (\<lambda>_. LogTrigger) 8 [''p''] LogTrigger 3 q')).
         cbp_WorkID p' = ''p'' \<longrightarrow> 1 < tr_BlockNumber (cbp_Trigger p'))"
proof -
  let ?q = "fst (pq_Dequeue (\<lambda>_. LogTrigger) 6 [''p''] LogTrigger 3 sample_pq)"
  let ?ps = "[sample_proposal ''p'' 1, sample_proposal ''p'' 2]"
  have mem: "sample_proposal ''p'' 1 \<in> set (snd (pq_Dequeue (\<lambda>_. LogTrigger) 6 [''p''] LogTrigger 3 sample_pq))"
    unfolding sample_pq_dequeue by simp
  have steps: "pq_steps (\<lambda>_. LogTrigger) 6 ?q 7 (pq_Enqueue 7 ?ps ?q)"
    by (rule pq_enqueued [OF pq_start]) simp
  have rec: "pq_records sample_pq ''p'' =
      Some \<lparr>pqr_proposal = sample_proposal ''p'' 1, pqr_removed = False, pqr_createdAt = 5\<rparr>"
    by (simp add: sample_pq_def pq_Enqueue_def pq_enqueue1_def NewProposalQueue_def sample_proposal_def)
  have "1 < tr_BlockNumber (cbp_Trigger p')"
    if "p' \<in> set (snd (pq_Dequeue (\<lambda>_. LogTrigger) 8 [''p''] LogTrigger 3 (pq_Enqueue 7 ?ps ?q)))"
      "cbp_WorkID p' = ''p''" for p'
    using proposal_dequeued_once_per_block [OF sample_pq_steps _ _ mem steps _ _ that(1)] that(2) rec
    by (simp add: proposalExpiry_def second_def sample_proposal_def sample_trigger_def)
  then show ?thesis by (simp add: Let_def)
qed

text \<open>
  Once the record has expired a dequeue deletes it, and the same proposal, enqueued again, is handed
  out again for the same block.
\<close>

lemma expired_proposal_handed_out_again:
  assumes "pq_inv q" "pq_records q (cbp_WorkID p) = Some r" "pqr_expired r now proposalExpiry"
    and "utg (cbp_UpkeepID p) = ty" "0 < n"
  shows "snd (pq_Dequeue utg now [cbp_WorkID p] ty n
    (pq_Enqueue now [p] (fst (pq_Dequeue utg now [cbp_WorkID p] ty n q)))) = [p]"
proof -
  let ?q = "fst (pq_Dequeue utg now [cbp_WorkID p] ty n q)"
  have "pq_records ?q (cbp_WorkID p) = None"
    using pq_records_Dequeue [OF assms(1), of "[cbp_WorkID p]"] assms(2,3) by simp
  then have "pq_records (pq_Enqueue now [p] ?q) (cbp_WorkID p) =
      Some \<lparr>pqr_proposal = p, pqr_removed = False, pqr_createdAt = now\<rparr>"
    by (simp add: pq_Enqueue_def pq_enqueue1_def Let_def)
  moreover have "pq_inv (pq_Enqueue now [p] ?q)" using assms(1) by (intro inv_intros) simp_all
  ultimately show ?thesis
    using assms(4,5)
    by (simp add: pq_Dequeue_result pq_ready_def pqr_expired_def proposalExpiry_def second_def)
qed

end
