(* ===== verification/Metadata_Store.thy ===== *)
theory Metadata_Store
  imports Proposal_Queue Samples
begin

text \<open>
  \<open>pkg/v3/stores/metadata_store.go\<close>: the block history of the node and the proposals waiting to
  be surfaced, in one ordered map per upkeep type. \<open>Keys\<close> returns the map's own slice, so the
  loops of the two view functions range over an array that \<open>Delete\<close> shifts under them; the
  model keeps that array (\<open>slice_delete\<close>, \<open>view_loop\<close>), because what a view returns when a
  proposal has expired depends on it.
\<close>

definition logRecoveryExpiry :: duration where "logRecoveryExpiry = 24 * hour"
definition conditionalExpiry :: duration where "conditionalExpiry = 24 * hour"

record expiringRecord =
  er_createdAt :: time
  er_proposal :: CoordinatedBlockProposal

definition er_expired :: "time \<Rightarrow> expiringRecord \<Rightarrow> duration \<Rightarrow> bool" where
  "er_expired now r expr \<longleftrightarrow> time_sub now (er_createdAt r) > expr"

section \<open>The ordered map\<close>

record orderedMap =
  om_keys :: "string list"
  om_values :: "string \<rightharpoonup> expiringRecord"

definition newOrderedMap :: orderedMap where
  "newOrderedMap = \<lparr>om_keys = [], om_values = Map.empty\<rparr>"

definition om_Add :: "string \<Rightarrow> expiringRecord \<Rightarrow> orderedMap \<Rightarrow> orderedMap" where
  "om_Add key value m =
     (if om_values m key \<noteq> None then m\<lparr>om_values := (om_values m)(key \<mapsto> value)\<rparr>
      else m\<lparr>om_keys := om_keys m @ [key], om_values := (om_values m)(key \<mapsto> value)\<rparr>)"

text \<open>\<open>Get\<close> of a missing key is the zero record, created in the year 1.\<close>

definition om_Get :: "string \<Rightarrow> (string \<rightharpoonup> expiringRecord) \<Rightarrow> expiringRecord" where
  "om_Get key vals =
     (case vals key of
        Some r \<Rightarrow> r
      | None \<Rightarrow> \<lparr>er_createdAt = zero_time, er_proposal = zero_proposal\<rparr>)"

text \<open>\<open>Keys\<close> sorts the slice in place and returns it.\<close>

definition om_Keys :: "orderedMap \<Rightarrow> string list" where
  "om_Keys m = sort (om_keys m)"

text \<open>
  \<open>Delete\<close> on the slice itself: an array \<open>arr\<close> of which the first \<open>n\<close> cells are the keys.
  \<open>append(keys[:i], keys[i+1:]...)\<close> moves the cells after \<open>i\<close> one to the left; the last cell
  keeps its value but is no longer part of the slice.
\<close>

fun index_of :: "'a \<Rightarrow> 'a list \<Rightarrow> nat option" where
  "index_of k [] = None"
| "index_of k (x # xs) = (if x = k then Some 0 else map_option Suc (index_of k xs))"

definition slice_delete :: "'a \<Rightarrow> 'a list \<times> nat \<Rightarrow> 'a list \<times> nat" where
  "slice_delete key s =
     (let arr = fst s; n = snd s
      in case index_of key (take n arr) of
           None \<Rightarrow> (arr, n)
         | Some i \<Rightarrow> (take i arr @ drop (Suc i) (take n arr) @ drop (n - 1) arr, n - 1))"

definition om_Delete :: "string \<Rightarrow> orderedMap \<Rightarrow> orderedMap" where
  "om_Delete key m =
     (let s = slice_delete key (om_keys m, length (om_keys m))
      in m\<lparr>om_values := (om_values m)(key := None), om_keys := take (snd s) (fst s)\<rparr>)"

section \<open>Viewing\<close>

text \<open>
  \<open>for _, key := range m.Keys()\<close>: the range keeps the length it started with and reads the cell
  of the array at each index; a deletion shifts the array it reads from.
\<close>

fun view_loop ::
    "time \<Rightarrow> duration \<Rightarrow> nat list \<Rightarrow> string list \<times> nat \<Rightarrow> (string \<rightharpoonup> expiringRecord) \<Rightarrow>
     CoordinatedBlockProposal list \<times> (string list \<times> nat) \<times> (string \<rightharpoonup> expiringRecord)" where
  "view_loop now expr [] s vals = ([], s, vals)"
| "view_loop now expr (j # js) s vals =
     (let key = fst s ! j; record = om_Get key vals
      in if er_expired now record expr
         then view_loop now expr js (slice_delete key s) (vals(key := None))
         else let res = view_loop now expr js s vals in (er_proposal record # fst res, snd res))"

definition view_proposals ::
    "time \<Rightarrow> duration \<Rightarrow> orderedMap \<Rightarrow> CoordinatedBlockProposal list \<times> orderedMap" where
  "view_proposals now expr m =
     (let arr = om_Keys m;
          res = view_loop now expr [0..<length arr] (arr, length arr) (om_values m);
          s = fst (snd res)
      in (fst res, m\<lparr>om_keys := take (snd s) (fst s), om_values := snd (snd res)\<rparr>))"

section \<open>The store\<close>

record metadataStore =
  ms_blockHistory :: BlockHistory
  ms_conditionalProposals :: orderedMap
  ms_logRecoveryProposals :: orderedMap
  ms_running :: bool
  ms_stopPending :: bool

text \<open>\<open>NewMetadataStore\<close>; \<open>sub\<close> is the error of the block subscriber's \<open>Subscribe\<close>.\<close>

definition NewMetadataStore :: "go_error option \<Rightarrow> metadataStore result" where
  "NewMetadataStore sub =
     (case sub of
        Some e \<Rightarrow> Inl e
      | None \<Rightarrow> Inr \<lparr>ms_blockHistory = [], ms_conditionalProposals = newOrderedMap,
                     ms_logRecoveryProposals = newOrderedMap, ms_running = False,
                     ms_stopPending = False\<rparr>)"

definition SetBlockHistory :: "BlockHistory \<Rightarrow> metadataStore \<Rightarrow> metadataStore" where
  "SetBlockHistory bh m = m\<lparr>ms_blockHistory := bh\<rparr>"

definition GetBlockHistory :: "metadataStore \<Rightarrow> BlockHistory" where
  "GetBlockHistory m = ms_blockHistory m"

definition addLogRecoveryProposal ::
    "time \<Rightarrow> CoordinatedBlockProposal \<Rightarrow> metadataStore \<Rightarrow> metadataStore" where
  "addLogRecoveryProposal now p m =
     m\<lparr>ms_logRecoveryProposals :=
         om_Add (cbp_WorkID p) \<lparr>er_createdAt = now, er_proposal = p\<rparr> (ms_logRecoveryProposals m)\<rparr>"

definition addConditionalProposal ::
    "time \<Rightarrow> CoordinatedBlockProposal \<Rightarrow> metadataStore \<Rightarrow> metadataStore" where
  "addConditionalProposal now p m =
     m\<lparr>ms_conditionalProposals :=
         om_Add (cbp_WorkID p) \<lparr>er_createdAt = now, er_proposal = p\<rparr> (ms_conditionalProposals m)\<rparr>"

definition ms_add1 ::
    "UpkeepTypeGetter \<Rightarrow> time \<Rightarrow> CoordinatedBlockProposal \<Rightarrow> metadataStore \<Rightarrow> metadataStore" where
  "ms_add1 utg now p m =
     (if utg (cbp_UpkeepID p) = LogTrigger then addLogRecoveryProposal now p m
      else if utg (cbp_UpkeepID p) = ConditionTrigger then addConditionalProposal now p m
      else m)"

definition AddProposals ::
    "UpkeepTypeGetter \<Rightarrow> time \<Rightarrow> CoordinatedBlockProposal list \<Rightarrow> metadataStore \<Rightarrow> metadataStore" where
  "AddProposals utg now ps m = fold (ms_add1 utg now) ps m"

definition viewLogRecoveryProposal ::
    "time \<Rightarrow> metadataStore \<Rightarrow> CoordinatedBlockProposal list \<times> metadataStore" where
  "viewLogRecoveryProposal now m =
     (let res = view_proposals now logRecoveryExpiry (ms_logRecoveryProposals m)
      in (fst res, m\<lparr>ms_logRecoveryProposals := snd res\<rparr>))"

definition viewConditionalProposal ::
    "time \<Rightarrow> metadataStore \<Rightarrow> CoordinatedBlockProposal list \<times> metadataStore" where
  "viewConditionalProposal now m =
     (let res = view_proposals now conditionalExpiry (ms_conditionalProposals m)
      in (fst res, m\<lparr>ms_conditionalProposals := snd res\<rparr>))"

definition ViewProposals ::
    "time \<Rightarrow> UpkeepType \<Rightarrow> metadataStore \<Rightarrow> CoordinatedBlockProposal list \<times> metadataStore" where
  "ViewProposals now utype m =
     (if utype = LogTrigger then viewLogRecoveryProposal now m
      else if utype = ConditionTrigger then viewConditionalProposal now m
      else ([], m))"

definition removeLogRecoveryProposal :: "CoordinatedBlockProposal \<Rightarrow> metadataStore \<Rightarrow> metadataStore"
  where
  "removeLogRecoveryProposal p m =
     m\<lparr>ms_logRecoveryProposals := om_Delete (cbp_WorkID p) (ms_logRecoveryProposals m)\<rparr>"

definition removeConditionalProposal :: "CoordinatedBlockProposal \<Rightarrow> metadataStore \<Rightarrow> metadataStore"
  where
  "removeConditionalProposal p m =
     m\<lparr>ms_conditionalProposals := om_Delete (cbp_WorkID p) (ms_conditionalProposals m)\<rparr>"

definition ms_remove1 ::
    "UpkeepTypeGetter \<Rightarrow> CoordinatedBlockProposal \<Rightarrow> metadataStore \<Rightarrow> metadataStore" where
  "ms_remove1 utg p m =
     (if utg (cbp_UpkeepID p) = LogTrigger then removeLogRecoveryProposal p m
      else if utg (cbp_UpkeepID p) = ConditionTrigger then removeConditionalProposal p m
      else m)"

definition RemoveProposals ::
    "UpkeepTypeGetter \<Rightarrow> CoordinatedBlockProposal list \<Rightarrow> metadataStore \<Rightarrow> metadataStore" where
  "RemoveProposals utg ps m = fold (ms_remove1 utg) ps m"

text \<open>
  The life cycle. \<open>unsub\<close> is the error of the subscriber's \<open>Unsubscribe\<close>; the stop channel
  has room for one signal, and a send to a full channel blocks. \<open>Start\<close> marks the store as
  running and then serves the signals its \<open>select\<close> receives.
\<close>

definition ms_Close :: "go_error option \<Rightarrow> metadataStore \<Rightarrow> metadataStore result" where
  "ms_Close unsub m =
     (if \<not> ms_running m then Inl ServiceNotRunning
      else case unsub of
        Some e \<Rightarrow> Inl e
      | None \<Rightarrow> if ms_stopPending m then Inl Blocked
                else Inr (m\<lparr>ms_stopPending := True, ms_running := False\<rparr>))"

definition ms_Start :: "metadataStore \<Rightarrow> metadataStore result" where
  "ms_Start m = (if ms_running m then Inl ServiceAlreadyRunning else Inr (m\<lparr>ms_running := True\<rparr>))"

datatype ms_signal = NewHistory BlockHistory | MsCtxDone "go_error option" | MsStop

text \<open>One turn of the loop: the state, and the value the loop returns when it ends.\<close>

definition ms_serve ::
    "ms_signal \<Rightarrow> metadataStore \<Rightarrow> metadataStore \<times> go_error option option" where
  "ms_serve sig m =
     (case sig of
        NewHistory h \<Rightarrow> (SetBlockHistory h m, None)
      | MsCtxDone unsub \<Rightarrow>
          (case ms_Close unsub m of Inl e \<Rightarrow> (m, Some (Some e)) | Inr m' \<Rightarrow> (m', Some None))
      | MsStop \<Rightarrow> (m\<lparr>ms_stopPending := False\<rparr>, Some None))"

section \<open>Invariant\<close>

definition om_inv :: "orderedMap \<Rightarrow> bool" where
  "om_inv m \<longleftrightarrow> distinct (om_keys m) \<and> set (om_keys m) = dom (om_values m) \<and>
     (\<forall>k r. om_values m k = Some r \<longrightarrow> cbp_WorkID (er_proposal r) = k)"

definition ms_inv :: "metadataStore \<Rightarrow> bool" where
  "ms_inv m \<longleftrightarrow> om_inv (ms_conditionalProposals m) \<and> om_inv (ms_logRecoveryProposals m)"

lemma index_of_None: "index_of k xs = None \<longleftrightarrow> k \<notin> set xs"
  by (induction xs) auto

lemma index_of_Some: "index_of k xs = Some i \<Longrightarrow> i < length xs \<and> xs ! i = k \<and> k \<notin> set (take i xs)"
proof (induction xs arbitrary: i)
  case (Cons x xs)
  then show ?case by (auto split: if_splits)
qed simp

lemma remove1_split: "index_of k xs = Some i \<Longrightarrow> remove1 k xs = take i xs @ drop (Suc i) xs"
proof (induction xs arbitrary: i)
  case (Cons x xs)
  then show ?case by (auto split: if_splits)
qed simp

text \<open>On the slice the deletion is the removal of the key; the array keeps its length.\<close>

lemma slice_delete_keys:
  assumes "n \<le> length arr"
  shows "take (snd (slice_delete k (arr, n))) (fst (slice_delete k (arr, n))) =
      remove1 k (take n arr)"
    and "length (fst (slice_delete k (arr, n))) = length arr"
    and "snd (slice_delete k (arr, n)) \<le> length arr"
proof -
  consider (none) "index_of k (take n arr) = None"
    | (some) i where "index_of k (take n arr) = Some i"
    by (cases "index_of k (take n arr)") auto
  then have "take (snd (slice_delete k (arr, n))) (fst (slice_delete k (arr, n))) =
      remove1 k (take n arr) \<and> length (fst (slice_delete k (arr, n))) = length arr \<and>
      snd (slice_delete k (arr, n)) \<le> length arr"
  proof cases
    case none
    then have "k \<notin> set (take n arr)" by (simp add: index_of_None)
    then have "remove1 k (take n arr) = take n arr" by (rule remove1_idem)
    with none assms show ?thesis by (simp add: slice_delete_def)
  next
    case some
    then have i: "i < n" using index_of_Some [OF some] by simp
    have eq: "slice_delete k (arr, n) =
        (take i arr @ drop (Suc i) (take n arr) @ drop (n - 1) arr, n - 1)"
      using some by (simp add: slice_delete_def)
    have len: "length (take i arr @ drop (Suc i) (take n arr)) = n - 1"
      using i assms by simp
    have "take (n - 1) ((take i arr @ drop (Suc i) (take n arr)) @ drop (n - 1) arr) =
        take i arr @ drop (Suc i) (take n arr)"
      using len by (rule take_append_exact)
    moreover have "remove1 k (take n arr) = take i arr @ drop (Suc i) (take n arr)"
      using remove1_split [OF some] i by (simp add: min_def)
    ultimately show ?thesis
      using i assms unfolding eq by simp
  qed
  then show "take (snd (slice_delete k (arr, n))) (fst (slice_delete k (arr, n))) =
      remove1 k (take n arr)"
    and "length (fst (slice_delete k (arr, n))) = length arr"
    and "snd (slice_delete k (arr, n)) \<le> length arr"
    by blast+
qed

lemma om_keys_Delete: "om_keys (om_Delete k m) = remove1 k (om_keys m)"
  using slice_delete_keys(1) [of "length (om_keys m)" "om_keys m" k]
  by (simp add: om_Delete_def Let_def)

lemma om_values_Delete [store_simps]: "om_values (om_Delete k m) = (om_values m)(k := None)"
  by (simp add: om_Delete_def Let_def)

lemma om_inv_New [inv_intros]: "om_inv newOrderedMap"
  by (simp add: om_inv_def newOrderedMap_def)

lemma om_inv_Add [inv_intros]:
  "om_inv m \<Longrightarrow> cbp_WorkID (er_proposal r) = k \<Longrightarrow> om_inv (om_Add k r m)"
  by (auto simp: om_inv_def om_Add_def)

lemma om_inv_Delete [inv_intros]: "om_inv m \<Longrightarrow> om_inv (om_Delete k m)"
  by (auto simp: om_inv_def om_keys_Delete om_values_Delete split: if_splits)

text \<open>The invariant of the loop: the live part of the array holds the keys of the map.\<close>

definition view_inv :: "string list \<times> nat \<Rightarrow> (string \<rightharpoonup> expiringRecord) \<Rightarrow> bool" where
  "view_inv s vals \<longleftrightarrow> snd s \<le> length (fst s) \<and> distinct (take (snd s) (fst s)) \<and>
     set (take (snd s) (fst s)) = dom vals \<and>
     (\<forall>k r. vals k = Some r \<longrightarrow> cbp_WorkID (er_proposal r) = k)"

lemma view_inv_delete: "view_inv s vals \<Longrightarrow> view_inv (slice_delete k s) (vals(k := None))"
  using slice_delete_keys [of "snd s" "fst s" k]
  by (auto simp: view_inv_def split: if_splits)

lemma view_inv_loop:
  "view_inv s vals \<Longrightarrow>
     view_inv (fst (snd (view_loop now expr js s vals))) (snd (snd (view_loop now expr js s vals)))"
  by (induction js arbitrary: s vals) (auto simp: Let_def view_inv_delete)

lemma om_inv_view [inv_intros]:
  assumes "om_inv m"
  shows "om_inv (snd (view_proposals now expr m))"
proof -
  have "view_inv (om_Keys m, length (om_Keys m)) (om_values m)"
    using assms by (simp add: view_inv_def om_inv_def om_Keys_def)
  from view_inv_loop [OF this] show ?thesis
    by (simp add: view_proposals_def om_inv_def view_inv_def Let_def)
qed

lemma ms_inv_New [inv_intros]: "NewMetadataStore sub = Inr m \<Longrightarrow> ms_inv m"
  by (auto simp: NewMetadataStore_def ms_inv_def intro: inv_intros split: option.splits)

lemma ms_inv_add1: "ms_inv m \<Longrightarrow> ms_inv (ms_add1 utg now p m)"
  by (auto simp: ms_inv_def ms_add1_def addLogRecoveryProposal_def addConditionalProposal_def
        intro: inv_intros)

lemma ms_inv_AddProposals [inv_intros]: "ms_inv m \<Longrightarrow> ms_inv (AddProposals utg now ps m)"
  unfolding AddProposals_def by (induction ps arbitrary: m) (auto simp: ms_inv_add1)

lemma ms_inv_remove1: "ms_inv m \<Longrightarrow> ms_inv (ms_remove1 utg p m)"
  by (auto simp: ms_inv_def ms_remove1_def removeLogRecoveryProposal_def
        removeConditionalProposal_def intro: inv_intros)

lemma ms_inv_RemoveProposals [inv_intros]: "ms_inv m \<Longrightarrow> ms_inv (RemoveProposals utg ps m)"
  unfolding RemoveProposals_def by (induction ps arbitrary: m) (auto simp: ms_inv_remove1)

lemma ms_inv_ViewProposals [inv_intros]: "ms_inv m \<Longrightarrow> ms_inv (snd (ViewProposals now ut m))"
  by (auto simp: ms_inv_def ViewProposals_def viewLogRecoveryProposal_def
        viewConditionalProposal_def Let_def intro: inv_intros)

lemma ms_inv_serve [inv_intros]: "ms_inv m \<Longrightarrow> ms_inv (fst (ms_serve sig m))"
  by (auto simp: ms_inv_def ms_serve_def SetBlockHistory_def ms_Close_def
        split: ms_signal.split sum.split option.split)

interpretation metadata_service: lifecycle ms_Start "ms_Close None" ms_running
  by unfold_locales (auto simp: ms_Start_def ms_Close_def split: if_splits)

section \<open>What a view returns\<close>

lemma view_loop_live:
  "view_inv s vals \<Longrightarrow> \<forall>j\<in>set js. j < length (fst s) \<Longrightarrow> 0 \<le> expr \<Longrightarrow> expr < 2 ^ 63 - 1 \<Longrightarrow>
   0 \<le> now \<Longrightarrow> p \<in> set (fst (view_loop now expr js s vals)) \<Longrightarrow>
   \<exists>r. vals (cbp_WorkID p) = Some r \<and> er_proposal r = p \<and> \<not> er_expired now r expr"
proof (induction js arbitrary: s vals)
  case (Cons j js)
  let ?key = "fst s ! j"
  show ?case
  proof (cases "er_expired now (om_Get ?key vals) expr")
    case True
    have "\<forall>j\<in>set js. j < length (fst (slice_delete ?key s))"
      using Cons.prems(1,2) slice_delete_keys(2) [of "snd s" "fst s" ?key]
      by (simp add: view_inv_def)
    from Cons.IH [OF view_inv_delete [OF Cons.prems(1)] this Cons.prems(3,4,5)] Cons.prems(6) True
    obtain r where "(vals(?key := None)) (cbp_WorkID p) = Some r" "er_proposal r = p"
      "\<not> er_expired now r expr"
      unfolding view_loop.simps Let_def if_P [OF True] by blast
    then show ?thesis by (auto split: if_splits)
  next
    case False
    have "vals ?key \<noteq> None"
      using False Cons.prems(3-5)
      by (auto simp: om_Get_def er_expired_def zero_time_def split: option.splits)
    then obtain r where r: "vals ?key = Some r" by blast
    show ?thesis
      using Cons.IH [OF Cons.prems(1) _ Cons.prems(3,4,5)] Cons.prems(1,2,6) False r
      by (auto simp: Let_def om_Get_def view_inv_def)
  qed
qed simp

lemma view_loop_fresh:
  "\<forall>j\<in>set js. \<not> er_expired now (om_Get (fst s ! j) vals) expr \<Longrightarrow>
   view_loop now expr js s vals = (map (\<lambda>j. er_proposal (om_Get (fst s ! j) vals)) js, s, vals)"
  by (induction js) (simp_all add: Let_def)

text \<open>With nothing expired, a view is the proposals in the order of their work ids.\<close>

lemma view_proposals_fresh:
  assumes inv: "om_inv m" and fresh: "\<forall>k r. om_values m k = Some r \<longrightarrow> \<not> er_expired now r expr"
  shows "view_proposals now expr m =
    (map (\<lambda>k. er_proposal (the (om_values m k))) (sort (om_keys m)),
     m\<lparr>om_keys := sort (om_keys m)\<rparr>)"
proof -
  let ?arr = "sort (om_keys m)"
  have val: "om_values m (?arr ! j) = Some (the (om_values m (?arr ! j)))"
    if "j < length (om_keys m)" for j
  proof -
    from that have "?arr ! j \<in> set (om_keys m)"
      using nth_mem [of j ?arr] by simp
    with inv show ?thesis by (auto simp: om_inv_def)
  qed
  then have get: "om_Get (?arr ! j) (om_values m) = the (om_values m (?arr ! j))"
    if "j < length (om_keys m)" for j
    using that by (metis om_Get_def option.simps(5))
  have "view_loop now expr [0..<length (om_keys m)] (?arr, length (om_keys m)) (om_values m) =
      (map (\<lambda>j. er_proposal (om_Get (?arr ! j) (om_values m))) [0..<length (om_keys m)],
       (?arr, length (om_keys m)), om_values m)"
    using view_loop_fresh [of "[0..<length (om_keys m)]" now "(?arr, length (om_keys m))"
        "om_values m" expr] fresh val get by auto
  moreover have "map (\<lambda>j. er_proposal (om_Get (?arr ! j) (om_values m))) [0..<length (om_keys m)] =
      map (\<lambda>k. er_proposal (the (om_values m k))) ?arr"
    by (rule nth_equalityI) (simp_all add: get)
  ultimately show ?thesis
    by (simp add: view_proposals_def om_Keys_def Let_def)
qed

lemma view_proposals_live:
  assumes "om_inv m" and "0 \<le> now" and "p \<in> set (fst (view_proposals now (24 * hour) m))"
  shows "\<exists>r. om_values m (cbp_WorkID p) = Some r \<and> er_proposal r = p \<and>
    \<not> er_expired now r (24 * hour)"
proof -
  have "view_inv (om_Keys m, length (om_Keys m)) (om_values m)"
    using assms(1) by (simp add: view_inv_def om_inv_def om_Keys_def)
  from view_loop_live [OF this, of "[0..<length (om_Keys m)]" "24 * hour" now p] assms(2,3)
  show ?thesis by (auto simp: view_proposals_def hour_def Let_def)
qed

section \<open>Properties\<close>

text \<open>
  A view returns only proposals that are stored under their work id and have not expired, and
  when nothing has expired it returns every proposal of the type once, in the order of the work
  ids.
\<close>

lemma view_returns_live_proposals:
  assumes "ms_inv m" and "0 \<le> now"
    and "maps = (if ty = LogTrigger then ms_logRecoveryProposals m else ms_conditionalProposals m)"
    and "ty = LogTrigger \<or> ty = ConditionTrigger"
  shows "(\<forall>p\<in>set (fst (ViewProposals now ty m)). \<exists>r. om_values maps (cbp_WorkID p) = Some r \<and>
      er_proposal r = p \<and> \<not> er_expired now r (24 * hour)) \<and>
    ((\<forall>k r. om_values maps k = Some r \<longrightarrow> \<not> er_expired now r (24 * hour)) \<longrightarrow>
      fst (ViewProposals now ty m) =
        map (\<lambda>k. er_proposal (the (om_values maps k))) (sort (om_keys maps)))"
proof -
  have view: "fst (ViewProposals now ty m) = fst (view_proposals now (24 * hour) maps)"
    using assms(3,4)
    by (auto simp: ViewProposals_def viewLogRecoveryProposal_def viewConditionalProposal_def
        logRecoveryExpiry_def conditionalExpiry_def Let_def)
  have inv: "om_inv maps" using assms(1,3) by (simp add: ms_inv_def)
  show ?thesis
    unfolding view using view_proposals_live [OF inv assms(2)] view_proposals_fresh [OF inv] by auto
qed

definition sample_map :: "time \<Rightarrow> orderedMap" where
  "sample_map t = \<lparr>om_keys = [''c'', ''a'', ''b''], om_values =
     [''a'' \<mapsto> \<lparr>er_createdAt = t, er_proposal = sample_proposal ''a'' 1\<rparr>,
      ''b'' \<mapsto> \<lparr>er_createdAt = 100 * hour, er_proposal = sample_proposal ''b'' 2\<rparr>,
      ''c'' \<mapsto> \<lparr>er_createdAt = 100 * hour, er_proposal = sample_proposal ''c'' 3\<rparr>]\<rparr>"

definition sample_ms :: "time \<Rightarrow> metadataStore" where
  "sample_ms t = \<lparr>ms_blockHistory = [], ms_conditionalProposals = newOrderedMap,
     ms_logRecoveryProposals = sample_map t, ms_running = False, ms_stopPending = False\<rparr>"

lemma sample_map_inv: "om_inv (sample_map t)"
  by (auto simp: om_inv_def sample_map_def sample_proposal_def split: if_splits)

lemma string_less [simp]: "''a'' < ''b''" "''b'' < ''c''" "''a'' < ''c''"
  by (simp_all add: less_char_def)

lemma sample_map_sorted: "sort (om_keys (sample_map t)) = [''a'', ''b'', ''c'']"
  by (simp add: sample_map_def not_le [symmetric] less_imp_le)

lemma view_returns_live_proposals_witness:
  "fst (ViewProposals (101 * hour) LogTrigger (sample_ms (100 * hour))) =
     [sample_proposal ''a'' 1, sample_proposal ''b'' 2, sample_proposal ''c'' 3]"
proof -
  have "\<not> er_expired (101 * hour) r (24 * hour)"
    if "om_values (sample_map (100 * hour)) k = Some r" for k r
    using that by (auto simp: sample_map_def er_expired_def hour_def split: if_splits)
  moreover have "ms_inv (sample_ms (100 * hour))"
    using sample_map_inv by (simp add: ms_inv_def sample_ms_def inv_intros)
  moreover have "ms_logRecoveryProposals (sample_ms (100 * hour)) = sample_map (100 * hour)"
    by (simp add: sample_ms_def)
  ultimately have "fst (ViewProposals (101 * hour) LogTrigger (sample_ms (100 * hour))) =
      map (\<lambda>k. er_proposal (the (om_values (sample_map (100 * hour)) k)))
        (sort (om_keys (sample_map (100 * hour))))"
    using view_returns_live_proposals [of "sample_ms (100 * hour)" "101 * hour"
        "sample_map (100 * hour)" LogTrigger] by (simp add: hour_def)
  then show ?thesis unfolding sample_map_sorted by (simp add: sample_map_def)
qed

text \<open>
  C38: an expired proposal spoils the view it is removed by. With three proposals of which the
  first in order has expired, the second is missing from the view and the third is in it twice.
\<close>

theorem expired_proposal_spoils_view:
  assumes "om_values (ms_logRecoveryProposals m) = [a \<mapsto> ra, b \<mapsto> rb, c \<mapsto> rc]"
    and "sort (om_keys (ms_logRecoveryProposals m)) = [a, b, c]" and "distinct [a, b, c]"
    and "er_expired now ra (24 * hour)" and "\<not> er_expired now rb (24 * hour)"
    and "\<not> er_expired now rc (24 * hour)"
  shows "fst (ViewProposals now LogTrigger m) = [er_proposal rc, er_proposal rc]"
proof -
  let ?m = "ms_logRecoveryProposals m"
  have upt: "[0..<length (om_Keys ?m)] = [0, 1, 2]" and keys: "om_Keys ?m = [a, b, c]"
    using assms(2) by (simp_all add: om_Keys_def upt_rec)
  have del: "slice_delete a ([a, b, c], 3) = ([b, c, c], 2)"
    using assms(3) by (simp add: slice_delete_def)
  have "fst (view_loop now (24 * hour) [0, 1, 2] ([a, b, c], 3) (om_values ?m)) =
      [er_proposal rc, er_proposal rc]"
    using assms(1,3-6) del by (simp add: om_Get_def Let_def)
  then show ?thesis
    unfolding ViewProposals_def viewLogRecoveryProposal_def view_proposals_def Let_def upt keys
    by (simp add: logRecoveryExpiry_def numeral_2_eq_2 numeral_3_eq_3 del: view_loop.simps)
qed

theorem expired_proposal_spoils_view_witness:
  "fst (ViewProposals (101 * hour) LogTrigger (sample_ms 0)) =
     [sample_proposal ''c'' 3, sample_proposal ''c'' 3]"
proof -
  have "fst (ViewProposals (101 * hour) LogTrigger (sample_ms 0)) =
      [er_proposal \<lparr>er_createdAt = 100 * hour, er_proposal = sample_proposal ''c'' 3\<rparr>,
       er_proposal \<lparr>er_createdAt = 100 * hour, er_proposal = sample_proposal ''c'' 3\<rparr>]"
  proof (rule expired_proposal_spoils_view)
    show "om_values (ms_logRecoveryProposals (sample_ms 0)) =
       [''a'' \<mapsto> \<lparr>er_createdAt = 0, er_proposal = sample_proposal ''a'' 1\<rparr>,
        ''b'' \<mapsto> \<lparr>er_createdAt = 100 * hour, er_proposal = sample_proposal ''b'' 2\<rparr>,
        ''c'' \<mapsto> \<lparr>er_createdAt = 100 * hour, er_proposal = sample_proposal ''c'' 3\<rparr>]"
      by (simp add: sample_ms_def sample_map_def)
    show "sort (om_keys (ms_logRecoveryProposals (sample_ms 0))) = [''a'', ''b'', ''c'']"
      using sample_map_sorted by (simp add: sample_ms_def)
  qed (simp_all add: er_expired_def hour_def)
  then show ?thesis by simp
qed

end
