(* ===== verification/Hooks.thy ===== *)
theory Hooks
  imports Coordinated_Proposals Coordinator Result_Store Metadata_Store
begin

text \<open>
  \<open>pkg/v3/plugin/hooks\<close>: what the plugin does to its stores with the previous outcome before
  it builds an observation, and how the observation is filled from the stores. The encoder of
  an observation is third-party JSON and an argument. The clock is read once per hook.
\<close>

section \<open>Hooks on the previous outcome\<close>

definition RemoveFromStaging_RunHook :: "AutomationOutcome \<Rightarrow> resultStore \<Rightarrow> resultStore" where
  "RemoveFromStaging_RunHook outcome store =
     resultStore_Remove (map cr_WorkID (ac_AgreedPerformables outcome)) store"

definition RemoveFromMetadata_RunHook ::
    "UpkeepTypeGetter \<Rightarrow> AutomationOutcome \<Rightarrow> metadataStore \<Rightarrow> metadataStore" where
  "RemoveFromMetadata_RunHook utg outcome ms =
     fold (fold (\<lambda>proposal. RemoveProposals utg [proposal])) (ac_SurfacedProposals outcome) ms"

definition AddToProposalQ_RunHook ::
    "time \<Rightarrow> AutomationOutcome \<Rightarrow> proposalQueue \<Rightarrow> proposalQueue" where
  "AddToProposalQ_RunHook now outcome q = fold (pq_Enqueue now) (ac_SurfacedProposals outcome) q"

section \<open>Hooks that fill the observation\<close>

definition AddBlockHistory_RunHook ::
    "metadataStore \<Rightarrow> nat \<Rightarrow> AutomationObservation \<Rightarrow> AutomationObservation" where
  "AddBlockHistory_RunHook ms limit obs =
     obs\<lparr>ao_BlockHistory := limit_to limit (GetBlockHistory ms)\<rparr>"

definition AddLogProposals_RunHook ::
    "rand_draw \<Rightarrow> time \<Rightarrow> coordinator \<Rightarrow> nat \<Rightarrow> key16 \<Rightarrow> metadataStore \<Rightarrow> AutomationObservation \<Rightarrow>
     AutomationObservation \<times> metadataStore" where
  "AddLogProposals_RunHook draw now coord limit rSrc ms obs =
     (let view = ViewProposals now LogTrigger ms;
          proposals = FilterProposals now (fst view) coord;
          proposals = Shuffle (draw rSrc (length proposals)) proposals;
          proposals = limit_to limit proposals
      in (obs\<lparr>ao_UpkeepProposals := ao_UpkeepProposals obs @ proposals\<rparr>, snd view))"

definition AddConditionalProposals_RunHook ::
    "rand_draw \<Rightarrow> time \<Rightarrow> coordinator \<Rightarrow> nat \<Rightarrow> key16 \<Rightarrow> metadataStore \<Rightarrow> AutomationObservation \<Rightarrow>
     AutomationObservation \<times> metadataStore" where
  "AddConditionalProposals_RunHook draw now coord limit rSrc ms obs =
     (let view = ViewProposals now ConditionTrigger ms;
          conditionals = FilterProposals now (fst view) coord;
          conditionals = Shuffle (draw rSrc (length conditionals)) conditionals;
          conditionals = limit_to limit conditionals
      in (obs\<lparr>ao_UpkeepProposals := ao_UpkeepProposals obs @ conditionals\<rparr>, snd view))"

subsection \<open>Results from staging\<close>

record stagedResultSorter =
  ss_lastRandSrc :: key16
  ss_shuffledIDs :: "WorkID \<rightharpoonup> string"

definition zero_key16 :: key16 where "zero_key16 = replicate 16 (char_of (0 :: nat))"

definition NewStagedResultSorter :: stagedResultSorter where
  "NewStagedResultSorter = \<lparr>ss_lastRandSrc = zero_key16, ss_shuffledIDs = Map.empty\<rparr>"

definition shuffle_id ::
    "rand_draw \<Rightarrow> key16 \<Rightarrow> CheckResult \<Rightarrow> stagedResultSorter \<Rightarrow> stagedResultSorter" where
  "shuffle_id draw rSrc result s =
     (if ss_shuffledIDs s (cr_WorkID result) \<noteq> None then s
      else s\<lparr>ss_shuffledIDs := (ss_shuffledIDs s)(cr_WorkID result \<mapsto>
               ShuffleString draw (cr_WorkID result) rSrc)\<rparr>)"

definition updateShuffledIDs ::
    "rand_draw \<Rightarrow> CheckResult list \<Rightarrow> key16 \<Rightarrow> stagedResultSorter \<Rightarrow> stagedResultSorter" where
  "updateShuffledIDs draw results rSrc sorter =
     (let sorter = (if ss_lastRandSrc sorter \<noteq> rSrc
                    then sorter\<lparr>ss_lastRandSrc := rSrc, ss_shuffledIDs := Map.empty\<rparr> else sorter)
      in fold (shuffle_id draw rSrc) results sorter)"

text \<open>Reading a missing key of the map of strings yields the empty string.\<close>

definition orderResults ::
    "rand_draw \<Rightarrow> CheckResult list \<Rightarrow> key16 \<Rightarrow> stagedResultSorter \<Rightarrow>
     CheckResult list \<times> stagedResultSorter" where
  "orderResults draw results rSrc sorter =
     (let sorter' = updateShuffledIDs draw results rSrc sorter
      in (sort_key (\<lambda>r. case ss_shuffledIDs sorter' (cr_WorkID r) of None \<Rightarrow> [] | Some s \<Rightarrow> s) results,
          sorter'))"

definition enc_len :: "(AutomationObservation \<Rightarrow> bytes result) \<Rightarrow> AutomationObservation \<Rightarrow> int" where
  "enc_len encode obs = (case encode obs of Inl _ \<Rightarrow> 0 | Inr b \<Rightarrow> int (length b))"

text \<open>
  \<open>int(math.Ceil(float64(a) / float64(b)))\<close> for positive sizes below \<open>2 ^ 26\<close>, where the
  rounded quotient has the ceiling of the exact one.
\<close>

definition ceil_div :: "int \<Rightarrow> int \<Rightarrow> int" where
  "ceil_div a b = - ((- a) div b)"

lemma ceil_div_pos: "0 < a \<Longrightarrow> 0 < b \<Longrightarrow> 1 \<le> ceil_div a b"
  using div_neg_pos_less0 [of "- a" b] by (simp add: ceil_div_def)

text \<open>
  \<open>addByPercentageExceeded\<close>: cut the results to the limit; while the encoding is too long,
  estimate from the average size how many to drop, drop one more and try again. It returns the
  observation, the number of results in it and the number of encodings. One call up to its
  recursive call is \<open>staging_attempt\<close>: it returns, or goes on with a lower limit. The third
  outcome is an average size that is not positive: the quotient is then infinite or negative,
  and what Go makes of an infinite float as an int is implementation-specific. No encoding that
  grows with every result reaches it.
\<close>

datatype attempt = Returns AutomationObservation int int | GoesOn int AutomationObservation
  | NoAverage

definition next_limit :: "int \<Rightarrow> int \<Rightarrow> int \<Rightarrow> int option" where
  "next_limit observationSize baseSize limit =
     (let performablesSize = observationSize - baseSize;
          avgPerformableSize = go_div performablesSize limit;
          exceededBy = observationSize - MaxObservationLength
      in if avgPerformableSize \<le> 0 then None
         else Some (limit - (ceil_div exceededBy avgPerformableSize + 1)))"

definition staging_attempt ::
    "(AutomationObservation \<Rightarrow> bytes result) \<Rightarrow> CheckResult list \<Rightarrow> int \<Rightarrow> int \<Rightarrow>
     AutomationObservation \<Rightarrow> attempt" where
  "staging_attempt encode results baseSize limit0 obs0 =
     (let limit = (if limit0 > int (length results) then int (length results) else limit0);
          obs = obs0\<lparr>ao_Performable := take (nat limit) results\<rparr>;
          encodingCalls = 1
      in if limit \<le> 0 then Returns obs0 (int (length (ao_Performable obs0))) 0
         else if enc_len encode obs > MaxObservationLength
              then (case next_limit (enc_len encode obs) baseSize limit of
                  None \<Rightarrow> NoAverage
                | Some limit' \<Rightarrow>
                    if limit' \<le> 0
                    then Returns obs (int (length (ao_Performable obs))) encodingCalls
                    else GoesOn limit' obs)
              else Returns obs (int (length (ao_Performable obs))) encodingCalls)"

lemma next_limit_less:
  "MaxObservationLength < sz \<Longrightarrow> next_limit sz baseSize limit = Some limit' \<Longrightarrow> limit' < limit"
  using ceil_div_pos [of "sz - MaxObservationLength" "go_div (sz - baseSize) limit"]
  by (simp add: next_limit_def Let_def split: if_splits)

lemma staging_attempt_less:
  "staging_attempt encode results baseSize limit obs = GoesOn limit' obs' \<Longrightarrow>
     0 < limit' \<and> limit' < limit"
  by (auto simp: staging_attempt_def Let_def split: if_splits option.splits dest: next_limit_less)

function addByPercentageExceeded ::
    "(AutomationObservation \<Rightarrow> bytes result) \<Rightarrow> CheckResult list \<Rightarrow> int \<Rightarrow> int \<Rightarrow>
     AutomationObservation \<Rightarrow> (AutomationObservation \<times> int \<times> int) option" where
  "addByPercentageExceeded encode results baseSize limit obs =
     (case staging_attempt encode results baseSize limit obs of
        Returns obs' added calls \<Rightarrow> Some (obs', added, calls)
      | GoesOn limit' obs' \<Rightarrow>
          map_option (\<lambda>(obs'', added, numEncodings). (obs'', added, numEncodings + 1))
            (addByPercentageExceeded encode results baseSize limit' obs')
      | NoAverage \<Rightarrow> None)"
  by pat_completeness auto
termination
  by (relation "measure (\<lambda>(encode, results, baseSize, limit, obs). nat limit)")
    (auto dest: staging_attempt_less)

declare addByPercentageExceeded.simps [simp del]

definition AddFromStaging_RunHook ::
    "rand_draw \<Rightarrow> (AutomationObservation \<Rightarrow> bytes result) \<Rightarrow> time \<Rightarrow> WorkID list \<Rightarrow> resultStore \<Rightarrow>
     coordinator \<Rightarrow> nat \<Rightarrow> key16 \<Rightarrow> stagedResultSorter \<Rightarrow> AutomationObservation \<Rightarrow>
     (AutomationObservation \<times> stagedResultSorter) result" where
  "AddFromStaging_RunHook draw encode now ks store coord limit rSrc sorter obs =
     (let results = FilterResults now (viewResults now ks store) coord
      in case encode obs of
           Inl err \<Rightarrow> Inl err
         | Inr b \<Rightarrow>
             (let ordered = orderResults draw results rSrc sorter
              in case addByPercentageExceeded encode (fst ordered) (int (length b)) (int limit) obs of
                   None \<Rightarrow> Inl ImplementationSpecific
                 | Some (obs', _, _) \<Rightarrow> Inr (obs', snd ordered)))"

section \<open>The sorter\<close>

text \<open>The cache of shuffled ids holds shuffles by the key it was filled with.\<close>

definition sorter_inv :: "rand_draw \<Rightarrow> stagedResultSorter \<Rightarrow> bool" where
  "sorter_inv draw s \<longleftrightarrow>
     (\<forall>k v. ss_shuffledIDs s k = Some v \<longrightarrow> v = ShuffleString draw k (ss_lastRandSrc s))"

lemma sorter_inv_New [inv_intros]: "sorter_inv draw NewStagedResultSorter"
  by (simp add: sorter_inv_def NewStagedResultSorter_def)

lemma updateShuffledIDs_fold:
  assumes "sorter_inv draw s" and "ss_lastRandSrc s = rSrc"
  shows "sorter_inv draw (fold (shuffle_id draw rSrc) results s) \<and>
    ss_lastRandSrc (fold (shuffle_id draw rSrc) results s) = rSrc \<and>
    dom (ss_shuffledIDs (fold (shuffle_id draw rSrc) results s)) =
      dom (ss_shuffledIDs s) \<union> cr_WorkID ` set results"
  using assms
proof (induction results arbitrary: s)
  case (Cons r results)
  let ?s = "shuffle_id draw rSrc r s"
  have "sorter_inv draw ?s" "ss_lastRandSrc ?s = rSrc"
    using Cons.prems by (auto simp: sorter_inv_def shuffle_id_def)
  moreover have "dom (ss_shuffledIDs ?s) = insert (cr_WorkID r) (dom (ss_shuffledIDs s))"
    by (auto simp: shuffle_id_def)
  ultimately show ?case using Cons.IH [of ?s] by simp
qed simp

lemma updateShuffledIDs_spec:
  assumes "sorter_inv draw s"
  shows "sorter_inv draw (updateShuffledIDs draw results rSrc s)"
    and "ss_lastRandSrc (updateShuffledIDs draw results rSrc s) = rSrc"
    and "cr_WorkID ` set results \<subseteq> dom (ss_shuffledIDs (updateShuffledIDs draw results rSrc s))"
proof -
  let ?s = "if ss_lastRandSrc s \<noteq> rSrc
    then s\<lparr>ss_lastRandSrc := rSrc, ss_shuffledIDs := Map.empty\<rparr> else s"
  have "sorter_inv draw ?s" "ss_lastRandSrc ?s = rSrc"
    using assms by (auto simp: sorter_inv_def)
  from updateShuffledIDs_fold [OF this, of results]
  show "sorter_inv draw (updateShuffledIDs draw results rSrc s)"
    "ss_lastRandSrc (updateShuffledIDs draw results rSrc s) = rSrc"
    "cr_WorkID ` set results \<subseteq> dom (ss_shuffledIDs (updateShuffledIDs draw results rSrc s))"
    unfolding updateShuffledIDs_def Let_def by blast+
qed

lemma orderResults_spec:
  assumes "sorter_inv draw s"
  shows "fst (orderResults draw results rSrc s) =
      sort_key (\<lambda>r. ShuffleString draw (cr_WorkID r) rSrc) results"
    and "sorter_inv draw (snd (orderResults draw results rSrc s))"
proof -
  let ?s = "updateShuffledIDs draw results rSrc s"
  have "ss_shuffledIDs ?s (cr_WorkID r) = Some (ShuffleString draw (cr_WorkID r) rSrc)"
    if "r \<in> set results" for r
  proof -
    obtain v where "ss_shuffledIDs ?s (cr_WorkID r) = Some v"
      using updateShuffledIDs_spec(3) [OF assms] \<open>r \<in> set results\<close> by blast
    then show ?thesis
      using updateShuffledIDs_spec(1,2) [OF assms] by (auto simp: sorter_inv_def)
  qed
  then show "fst (orderResults draw results rSrc s) =
      sort_key (\<lambda>r. ShuffleString draw (cr_WorkID r) rSrc) results"
    by (auto simp: orderResults_def Let_def intro!: sort_key_agree)
  show "sorter_inv draw (snd (orderResults draw results rSrc s))"
    using updateShuffledIDs_spec(1) [OF assms] by (simp add: orderResults_def Let_def)
qed

section \<open>The results of an observation\<close>

lemma staging_attempt_Returns:
  "staging_attempt encode results baseSize limit obs = Returns obs' added calls \<Longrightarrow>
   ao_Performable obs = [] \<or> 0 < limit \<and> results \<noteq> [] \<Longrightarrow>
     added = int (length (ao_Performable obs')) \<and>
     ao_Performable obs' = take (nat (max 0 limit)) results \<and>
     obs' = obs\<lparr>ao_Performable := ao_Performable obs'\<rparr> \<and> calls \<le> max 0 limit"
  by (auto simp: staging_attempt_def Let_def split: if_splits option.splits)

text \<open>Whatever is returned is a prefix of the ordered results, within the limit.\<close>

lemma addBy_prefix:
  assumes "addByPercentageExceeded encode results baseSize limit obs = Some (obs', added, calls)"
    and "ao_Performable obs = [] \<or> 0 < limit \<and> results \<noteq> []"
  shows "\<exists>n. int n \<le> max 0 limit \<and> ao_Performable obs' = take n results \<and>
    obs' = obs\<lparr>ao_Performable := take n results\<rparr> \<and>
    added = int (length (ao_Performable obs')) \<and> calls \<le> max 0 limit"
  using assms
proof (induction encode results baseSize limit obs arbitrary: obs' added calls
    rule: addByPercentageExceeded.induct)
  case (1 encode results baseSize limit obs)
  show ?case
  proof (cases "staging_attempt encode results baseSize limit obs")
    case (Returns o1 a1 c1)
    with 1(2) have "obs' = o1" "added = a1" "calls = c1"
      by (simp_all add: addByPercentageExceeded.simps [of encode results baseSize limit])
    with staging_attempt_Returns [OF Returns 1(3)] show ?thesis
      by (intro exI [of _ "nat (max 0 limit)"]) auto
  next
    case (GoesOn l1 o1)
    with 1(2) obtain c1 where rec: "addByPercentageExceeded encode results baseSize l1 o1 =
        Some (obs', added, c1)" and c: "calls = c1 + 1"
      by (auto simp: addByPercentageExceeded.simps [of encode results baseSize limit])
    have l1: "0 < l1" "l1 < limit" using staging_attempt_less [OF GoesOn] by auto
    have o1: "results \<noteq> []" "\<exists>xs. o1 = obs\<lparr>ao_Performable := xs\<rparr>"
      using GoesOn by (auto simp: staging_attempt_def Let_def split: if_splits option.splits)
    from 1(1) [OF GoesOn rec] l1(1) o1(1) obtain n where n: "int n \<le> l1"
      "ao_Performable obs' = take n results" "obs' = o1\<lparr>ao_Performable := take n results\<rparr>"
      "added = int (length (ao_Performable obs'))" "c1 \<le> l1" by auto
    with l1 o1(2) c show ?thesis by (intro exI [of _ n]) auto
  next
    case NoAverage
    with 1(2) show ?thesis
      by (simp add: addByPercentageExceeded.simps [of encode results baseSize limit])
  qed
qed

lemma ceil_div_le:
  assumes "0 < b" and "a \<le> k * b"
  shows "ceil_div a b \<le> k"
proof -
  have "(- k) * b div b \<le> (- a) div b"
    using assms by (intro zdiv_mono1) simp_all
  moreover have "(- k) * b div b = - k"
    using assms(1) by (intro nonzero_mult_div_cancel_right) simp
  ultimately show ?thesis unfolding ceil_div_def by linarith
qed

lemma next_limit_positive:
  assumes "MaxObservationLength < sz" "0 < n" "n \<le> m"
    and "base + n \<le> sz" "sz \<le> base + n * m" "base + 3 * m \<le> MaxObservationLength"
  shows "\<exists>l. next_limit sz base n = Some l \<and> 0 < l"
proof -
  define avg where "avg = (sz - base) div n"
  have "go_div (sz - base) n = avg" using assms(2,4) by (simp add: avg_def)
  have "1 \<le> avg"
    using zdiv_mono1 [of n "sz - base" n] assms(2,4) by (simp add: avg_def)
  have "avg \<le> m"
    using zdiv_mono1 [of "sz - base" "n * m" n] assms(2,5) by (simp add: avg_def)
  have "sz - base = avg * n + (sz - base) mod n" "(sz - base) mod n < n"
    using assms(2) by (simp_all add: avg_def)
  then have "sz - MaxObservationLength \<le> avg * n - 2 * avg"
    using assms(3,6) \<open>avg \<le> m\<close> by linarith
  then have "ceil_div (sz - MaxObservationLength) avg \<le> n - 2"
    using \<open>1 \<le> avg\<close> by (intro ceil_div_le) (simp_all add: algebra_simps)
  then show ?thesis
    using \<open>1 \<le> avg\<close> \<open>go_div (sz - base) n = avg\<close> by (simp add: next_limit_def Let_def)
qed

text \<open>The bounds on encodings under which staging keeps the observation within its size\<close>

definition sizes_ok ::
    "(AutomationObservation \<Rightarrow> bytes result) \<Rightarrow> CheckResult list \<Rightarrow> AutomationObservation \<Rightarrow>
     int \<Rightarrow> int \<Rightarrow> bool" where
  "sizes_ok encode results obs base m \<longleftrightarrow>
     (\<forall>n. 0 < n \<and> n \<le> length results \<longrightarrow>
        base + int n \<le> enc_len encode (obs\<lparr>ao_Performable := take n results\<rparr>) \<and>
        enc_len encode (obs\<lparr>ao_Performable := take n results\<rparr>) \<le> base + int n * m)"

lemma int_nat_pos: "0 < k \<Longrightarrow> int (nat k) = k"
  by simp

lemma addBy_fits:
  assumes "sizes_ok encode results obs base m" "base + 3 * m \<le> MaxObservationLength"
    and "limit \<le> m" "0 < limit" "results \<noteq> []"
  shows "\<exists>obs' added calls.
    addByPercentageExceeded encode results base limit obs = Some (obs', added, calls) \<and>
    enc_len encode obs' \<le> MaxObservationLength \<and> ao_Performable obs' \<noteq> []"
  using assms
proof (induction encode results base limit obs rule: addByPercentageExceeded.induct)
  case (1 encode results base limit obs)
  let ?n = "if limit > int (length results) then int (length results) else limit"
  let ?o = "obs\<lparr>ao_Performable := take (nat ?n) results\<rparr>"
  have n: "0 < ?n" "?n \<le> m" "nat ?n \<le> length results" "0 < nat ?n" using 1(4-6) by auto
  have step: "addByPercentageExceeded encode results base limit obs =
      (case staging_attempt encode results base limit obs of
        Returns obs' added calls \<Rightarrow> Some (obs', added, calls)
      | GoesOn limit' obs' \<Rightarrow>
          map_option (\<lambda>(obs'', added, numEncodings). (obs'', added, numEncodings + 1))
            (addByPercentageExceeded encode results base limit' obs')
      | NoAverage \<Rightarrow> None)"
    by (rule addByPercentageExceeded.simps)
  show ?case
  proof (cases "MaxObservationLength < enc_len encode ?o")
    case False
    then have "staging_attempt encode results base limit obs =
        Returns ?o (int (length (take (nat ?n) results))) 1"
      using n(1) by (simp add: staging_attempt_def Let_def)
    then show ?thesis using False n(4) 1(6) unfolding step by simp
  next
    case True
    have "int (nat ?n) = ?n" using n(1) by (intro int_nat_pos)
    moreover have "base + int (nat ?n) \<le> enc_len encode ?o \<and>
        enc_len encode ?o \<le> base + int (nat ?n) * m"
      using 1(2) n(3,4) unfolding sizes_ok_def by blast
    ultimately have "base + ?n \<le> enc_len encode ?o \<and> enc_len encode ?o \<le> base + ?n * m"
      by (simp only:)
    with next_limit_positive [OF True n(1,2) _ _ 1(3)] obtain l
      where l: "next_limit (enc_len encode ?o) base ?n = Some l" "0 < l" by blast
    then have att: "staging_attempt encode results base limit obs = GoesOn l ?o"
      using True n(1) by (simp add: staging_attempt_def Let_def)
    have "l \<le> m" using staging_attempt_less [OF att] 1(4) by simp
    moreover have "sizes_ok encode results ?o base m" using 1(2) by (simp add: sizes_ok_def)
    ultimately show ?thesis
      using 1(1) [OF att] 1(3,6) l(2) unfolding step att by auto
  qed
qed

section \<open>Properties\<close>

text \<open>
  C26: the cache of shuffled work ids is invisible: whatever it holds from earlier rounds, the
  results come out in the order of their work ids shuffled with this round's key, which is the
  same on every node.
\<close>

theorem orderResults_is_reference_order:
  assumes "sorter_inv draw s"
  shows "fst (orderResults draw results rSrc s) =
      sort_key (\<lambda>r. ShuffleString draw (cr_WorkID r) rSrc) results \<and>
    sorter_inv draw (snd (orderResults draw results rSrc s))"
  using orderResults_spec [OF assms] by blast

theorem orderResults_is_reference_order_witness:
  "fst (orderResults (\<lambda>_ _ i. i) [sample_result 5 ''b'' 1, sample_result 5 ''a'' 2] ''k''
       (snd (orderResults (\<lambda>_ _ i. i) [sample_result 5 ''b'' 1] ''j'' NewStagedResultSorter))) =
     sort_key (\<lambda>r. ShuffleString (\<lambda>_ _ i. i) (cr_WorkID r) ''k'')
       [sample_result 5 ''b'' 1, sample_result 5 ''a'' 2]"
  using orderResults_is_reference_order [OF orderResults_is_reference_order
      [OF sorter_inv_New, THEN conjunct2]] by blast

text \<open>
  C28: where one result takes at least a byte and at most \<open>m\<close> bytes of the encoding, with room for
  three of them beside the rest of the observation, staging terminates with an encoding within
  the maximal length and adds at least one of the available results.
\<close>

theorem staging_respects_size:
  assumes "sizes_ok encode results obs base m" and "base + 3 * m \<le> MaxObservationLength"
    and "int limit \<le> m" and "0 < limit" and "results \<noteq> []"
  shows "\<exists>obs' added calls.
    addByPercentageExceeded encode results base (int limit) obs = Some (obs', added, calls) \<and>
    enc_len encode obs' \<le> MaxObservationLength \<and> 0 < added \<and> added \<le> int limit \<and>
    calls \<le> int limit \<and> ao_Performable obs' = take (nat added) results"
proof -
  obtain obs' added calls where r:
    "addByPercentageExceeded encode results base (int limit) obs = Some (obs', added, calls)"
    "enc_len encode obs' \<le> MaxObservationLength" "ao_Performable obs' \<noteq> []"
    using addBy_fits [OF assms(1-3) _ assms(5)] assms(4) by auto
  obtain n where n: "int n \<le> int limit" "ao_Performable obs' = take n results"
    "added = int (length (ao_Performable obs'))" "calls \<le> int limit"
    using addBy_prefix [OF r(1)] assms(4,5) by auto
  have "take (nat added) results = take n results" using n(2,3) by (simp add: min_def)
  with r n show ?thesis by auto
qed

definition sample_encode :: "nat \<Rightarrow> AutomationObservation \<Rightarrow> bytes result" where
  "sample_encode k ob = Inr (replicate (k * length (ao_Performable ob) + 10) CHR ''x'')"

lemma sample_enc_len: "enc_len (sample_encode k) ob = int k * int (length (ao_Performable ob)) + 10"
  by (simp add: enc_len_def sample_encode_def)

theorem staging_respects_size_witness:
  "\<exists>obs' added calls.
    addByPercentageExceeded (sample_encode 300) [sample_result 5 ''a'' 10] 10 (int 100)
      empty_observation = Some (obs', added, calls) \<and>
    enc_len (sample_encode 300) obs' \<le> MaxObservationLength \<and> 0 < added \<and> added \<le> int 100 \<and>
    calls \<le> int 100 \<and> ao_Performable obs' = take (nat added) [sample_result 5 ''a'' 10]"
  by (rule staging_respects_size [of _ _ _ _ 300])
    (auto simp: sizes_ok_def sample_enc_len MaxObservationLength_def)

text \<open>
  When even one result makes the encoding too long, staging leaves it in the observation,
  whose encoding then exceeds the maximal length.
\<close>

lemma oversized_result_is_kept:
  assumes "MaxObservationLength < enc_len encode (obs\<lparr>ao_Performable := [r]\<rparr>)"
    and "base < enc_len encode (obs\<lparr>ao_Performable := [r]\<rparr>)" and "0 < limit"
  shows "addByPercentageExceeded encode [r] base limit obs =
    Some (obs\<lparr>ao_Performable := [r]\<rparr>, 1, 1)"
proof -
  let ?sz = "enc_len encode (obs\<lparr>ao_Performable := [r]\<rparr>)"
  have avg: "go_div (?sz - base) 1 = ?sz - base" using assms(2) by simp
  then obtain l where l: "next_limit ?sz base 1 = Some l" "l \<le> 0"
    using assms(1,2) ceil_div_pos [of "?sz - MaxObservationLength" "?sz - base"]
    by (simp add: next_limit_def Let_def)
  have "limit = 1 \<or> 1 < limit" using assms(3) by auto
  then show ?thesis
    using assms(1) l
    by (subst addByPercentageExceeded.simps) (auto simp: staging_attempt_def Let_def)
qed

lemma oversized_result_is_kept_witness:
  "addByPercentageExceeded (sample_encode 2000000) [sample_result 5 ''a'' 10] 10 100
     empty_observation = Some (empty_observation\<lparr>ao_Performable := [sample_result 5 ''a'' 10]\<rparr>, 1, 1)"
  by (rule oversized_result_is_kept) (simp_all add: sample_enc_len MaxObservationLength_def)

end
