(* ===== verification/Ocr3_Plugin.thy ===== *)
theory Ocr3_Plugin
  imports Hooks
begin

text \<open>
  \<open>pkg/v3/plugin/ocr3.go\<close>: the functions the OCR3 protocol calls on a node. \<open>externals\<close>
  collects the code outside the repository: the JSON package, the unique ids of check results,
  the report encoder, Keccak, and the indices drawn by \<open>math/rand\<close>. The plugin's record holds
  the stores its hooks share. A nil byte slice is \<^const>\<open>None\<close>. Loggers and metrics are left out.
\<close>

record externals =
  ex_encode_observation :: "AutomationObservation \<Rightarrow> bytes result"
  ex_decode_observation :: "bytes \<Rightarrow> AutomationObservation result"
  ex_encode_outcome :: "AutomationOutcome \<Rightarrow> bytes result"
  ex_decode_outcome :: "bytes \<Rightarrow> AutomationOutcome result"
  ex_UniqueID :: "CheckResult \<Rightarrow> string"
  ex_IDString :: "UpkeepIdentifier \<Rightarrow> string"
  ex_Encode :: "CheckResult list \<Rightarrow> bytes result"
  ex_Extract :: "bytes \<Rightarrow> ReportedUpkeep list result"
  ex_keccak256 :: "bytes \<Rightarrow> bytes"
  ex_draw :: rand_draw

record ocr3Plugin =
  pl_ConfigDigest :: bytes
  pl_UpkeepTypeGetter :: UpkeepTypeGetter
  pl_WorkIDGenerator :: WorkIDGenerator
  pl_Coordinator :: coordinator
  pl_ResultStore :: resultStore
  pl_MetadataStore :: metadataStore
  pl_ProposalQ :: proposalQueue
  pl_sorter :: stagedResultSorter
  pl_MaxUpkeepBatchSize :: int
  pl_GasLimitPerReport :: "32 word"
  pl_GasOverheadPerUpkeep :: "32 word"
  pl_F :: int

definition getRandomKeySource :: "externals \<Rightarrow> bytes \<Rightarrow> 64 word \<Rightarrow> key16" where
  "getRandomKeySource ex cd seqNr = GetRandomKeySource (ex_keccak256 ex) cd seqNr"

section \<open>Observation\<close>

text \<open>The hooks run on the previous outcome, then those that fill the observation.\<close>

definition pre_build_hooks :: "time \<Rightarrow> AutomationOutcome \<Rightarrow> ocr3Plugin \<Rightarrow> ocr3Plugin" where
  "pre_build_hooks now automationOutcome p =
     p\<lparr>pl_ResultStore := RemoveFromStaging_RunHook automationOutcome (pl_ResultStore p),
       pl_MetadataStore := RemoveFromMetadata_RunHook (pl_UpkeepTypeGetter p) automationOutcome
         (pl_MetadataStore p),
       pl_ProposalQ := AddToProposalQ_RunHook now automationOutcome (pl_ProposalQ p)\<rparr>"

text \<open>\<open>ks\<close> is the order in which the result store is ranged over.\<close>

definition build_observation ::
    "externals \<Rightarrow> time \<Rightarrow> WorkID list \<Rightarrow> 64 word \<Rightarrow> ocr3Plugin \<Rightarrow> bytes result \<times> ocr3Plugin" where
  "build_observation ex now ks seqNr p =
     (let observation = empty_observation;
          observation = AddBlockHistory_RunHook (pl_MetadataStore p) ObservationBlockHistoryLimit
            observation;
          logs = AddLogProposals_RunHook (ex_draw ex) now (pl_Coordinator p)
            ObservationLogRecoveryProposalsLimit (getRandomKeySource ex (pl_ConfigDigest p) seqNr)
            (pl_MetadataStore p) observation;
          conds = AddConditionalProposals_RunHook (ex_draw ex) now (pl_Coordinator p)
            ObservationConditionalsProposalsLimit (getRandomKeySource ex (pl_ConfigDigest p) seqNr)
            (snd logs) (fst logs);
          p = p\<lparr>pl_MetadataStore := snd conds\<rparr>;
          randSrcSeq = seqNr div 10
      in case AddFromStaging_RunHook (ex_draw ex) (ex_encode_observation ex) now ks
                (pl_ResultStore p) (pl_Coordinator p) ObservationPerformablesLimit
                (getRandomKeySource ex (pl_ConfigDigest p) randSrcSeq) (pl_sorter p) (fst conds) of
           Inl err \<Rightarrow> (Inl err, p)
         | Inr (observation, sorter) \<Rightarrow>
             (ex_encode_observation ex observation, p\<lparr>pl_sorter := sorter\<rparr>))"

definition plugin_Observation ::
    "externals \<Rightarrow> time \<Rightarrow> WorkID list \<Rightarrow> 64 word \<Rightarrow> bytes option \<Rightarrow> ocr3Plugin \<Rightarrow>
     bytes result \<times> ocr3Plugin" where
  "plugin_Observation ex now ks seqNr previousOutcome p =
     (case previousOutcome of
        None \<Rightarrow> build_observation ex now ks seqNr p
      | Some prev \<Rightarrow>
          (case DecodeAutomationOutcome (ex_decode_outcome ex) prev (pl_UpkeepTypeGetter p)
                  (pl_WorkIDGenerator p) of
             Inl err \<Rightarrow> (Inl err, p)
           | Inr automationOutcome \<Rightarrow>
               build_observation ex now ks seqNr (pre_build_hooks now automationOutcome p)))"

definition plugin_ValidateObservation ::
    "externals \<Rightarrow> bytes \<Rightarrow> ocr3Plugin \<Rightarrow> go_error option" where
  "plugin_ValidateObservation ex observation p =
     (case DecodeAutomationObservation (ex_decode_observation ex) observation
             (pl_UpkeepTypeGetter p) (pl_WorkIDGenerator p) of
        Inl err \<Rightarrow> Some err
      | Inr _ \<Rightarrow> None)"

section \<open>Outcome\<close>

text \<open>The observations that decode; the others are skipped.\<close>

fun valid_observations ::
    "externals \<Rightarrow> ocr3Plugin \<Rightarrow> (nat \<times> bytes) list \<Rightarrow> (nat \<times> AutomationObservation) list" where
  "valid_observations ex p [] = []"
| "valid_observations ex p ((observer, observation) # aos) =
     (case DecodeAutomationObservation (ex_decode_observation ex) observation
             (pl_UpkeepTypeGetter p) (pl_WorkIDGenerator p) of
        Inl err \<Rightarrow> valid_observations ex p aos
      | Inr ob \<Rightarrow> (observer, ob) # valid_observations ex p aos)"

text \<open>
  \<open>ksR\<close> and \<open>ksB\<close> are the orders in which the counts of results and of blocks are ranged over.
\<close>

definition collect_performables ::
    "externals \<Rightarrow> 64 word \<Rightarrow> (nat \<times> bytes) list \<Rightarrow> ocr3Plugin \<Rightarrow> performables" where
  "collect_performables ex seqNr aos p =
     fold (performables_add (ex_UniqueID ex)) (map snd (valid_observations ex p aos))
       (newPerformables (pl_F p + 1) OutcomeAgreedPerformablesLimit
         (getRandomKeySource ex (pl_ConfigDigest p) seqNr))"

definition collect_proposals ::
    "externals \<Rightarrow> 64 word \<Rightarrow> (nat \<times> bytes) list \<Rightarrow> ocr3Plugin \<Rightarrow> coordinatedBlockProposals" where
  "collect_proposals ex seqNr aos p =
     fold proposals_add (map snd (valid_observations ex p aos))
       (newCoordinatedBlockProposals (pl_F p + 1) OutcomeSurfacedProposalsRoundHistoryLimit
         OutcomeSurfacedProposalsLimit (getRandomKeySource ex (pl_ConfigDigest p) seqNr))"

definition plugin_Outcome ::
    "externals \<Rightarrow> string list \<Rightarrow> BlockKey list \<Rightarrow> 64 word \<Rightarrow> bytes option \<Rightarrow> (nat \<times> bytes) list \<Rightarrow>
     ocr3Plugin \<Rightarrow> bytes result" where
  "plugin_Outcome ex ksR ksB seqNr previousOutcome aos p =
     (let pf = collect_performables ex seqNr aos p;
          cb = collect_proposals ex seqNr aos p;
          prevOutcome =
            (case previousOutcome of
               None \<Rightarrow> Inr empty_outcome
             | Some prev \<Rightarrow> DecodeAutomationOutcome (ex_decode_outcome ex) prev
                 (pl_UpkeepTypeGetter p) (pl_WorkIDGenerator p))
      in case prevOutcome of
           Inl err \<Rightarrow> Inl err
         | Inr prev \<Rightarrow>
             ex_encode_outcome ex
               (proposals_set (ex_draw ex) ksB cb prev
                 (performables_set (ex_draw ex) ksR pf empty_outcome)))"

section \<open>Reports\<close>

definition report_full ::
    "externals \<Rightarrow> ocr3Plugin \<Rightarrow> CheckResult list \<Rightarrow> 64 word \<Rightarrow> string set \<Rightarrow> CheckResult \<Rightarrow> bool" where
  "report_full ex p toPerform gasUsed seenUpkeepIDs result \<longleftrightarrow>
     int (length toPerform) \<ge> pl_MaxUpkeepBatchSize p \<or>
     gasUsed + cr_GasAllocated result + ucast (pl_GasOverheadPerUpkeep p)
       > ucast (pl_GasLimitPerReport p) \<or>
     ex_IDString ex (cr_UpkeepID result) \<in> seenUpkeepIDs"

definition encode_error :: "go_error \<Rightarrow> go_error" where
  "encode_error err = Wrapped ''error encountered while encoding'' err"

text \<open>The reports made so far are returned beside the error, as in the source.\<close>

fun reports_loop ::
    "externals \<Rightarrow> ocr3Plugin \<Rightarrow> CheckResult list \<Rightarrow> 64 word \<Rightarrow> string set \<Rightarrow> CheckResult list \<Rightarrow>
     bytes list \<times> go_error option" where
  "reports_loop ex p toPerform gasUsed seen [] =
     (if length toPerform > 0
      then (case ex_Encode ex toPerform of
              Inl err \<Rightarrow> ([], Some (encode_error err))
            | Inr report \<Rightarrow> ([report], None))
      else ([], None))"
| "reports_loop ex p toPerform gasUsed seen (result # results) =
     (if report_full ex p toPerform gasUsed seen result
      then (case ex_Encode ex toPerform of
              Inl err \<Rightarrow> ([], Some (encode_error err))
            | Inr report \<Rightarrow>
                (let rest = reports_loop ex p [result]
                       (0 + (cr_GasAllocated result + ucast (pl_GasOverheadPerUpkeep p)))
                       {ex_IDString ex (cr_UpkeepID result)} results
                 in (report # fst rest, snd rest)))
      else reports_loop ex p (toPerform @ [result])
             (gasUsed + (cr_GasAllocated result + ucast (pl_GasOverheadPerUpkeep p)))
             (insert (ex_IDString ex (cr_UpkeepID result)) seen) results)"

definition plugin_Reports ::
    "externals \<Rightarrow> bytes \<Rightarrow> ocr3Plugin \<Rightarrow> bytes list \<times> go_error option" where
  "plugin_Reports ex raw p =
     (case DecodeAutomationOutcome (ex_decode_outcome ex) raw (pl_UpkeepTypeGetter p)
             (pl_WorkIDGenerator p) of
        Inl err \<Rightarrow> ([], Some err)
      | Inr outcome \<Rightarrow> reports_loop ex p [] 0 {} (ac_AgreedPerformables outcome))"

section \<open>Acceptance and transmission\<close>

fun accept_loop :: "time \<Rightarrow> ReportedUpkeep list \<Rightarrow> bool \<Rightarrow> coordinator \<Rightarrow> bool \<times> coordinator" where
  "accept_loop now [] accept c = (accept, c)"
| "accept_loop now (upkeep # upkeeps) accept c =
     (let r = Accept now upkeep c
      in accept_loop now upkeeps (if fst r then True else accept) (snd r))"

definition ShouldAcceptAttestedReport ::
    "externals \<Rightarrow> time \<Rightarrow> bytes \<Rightarrow> ocr3Plugin \<Rightarrow> bool result \<times> ocr3Plugin" where
  "ShouldAcceptAttestedReport ex now report p =
     (case ex_Extract ex report of
        Inl err \<Rightarrow> (Inl err, p)
      | Inr upkeeps \<Rightarrow>
          (let r = accept_loop now upkeeps False (pl_Coordinator p)
           in (Inr (fst r), p\<lparr>pl_Coordinator := snd r\<rparr>)))"

fun transmit_loop :: "time \<Rightarrow> ReportedUpkeep list \<Rightarrow> bool \<Rightarrow> coordinator \<Rightarrow> bool" where
  "transmit_loop now [] transmit c = transmit"
| "transmit_loop now (upkeep # upkeeps) transmit c =
     transmit_loop now upkeeps (if coord_ShouldTransmit now upkeep c then True else transmit) c"

definition ShouldTransmitAcceptedReport ::
    "externals \<Rightarrow> time \<Rightarrow> bytes \<Rightarrow> ocr3Plugin \<Rightarrow> bool result" where
  "ShouldTransmitAcceptedReport ex now report p =
     (case ex_Extract ex report of
        Inl err \<Rightarrow> Inl err
      | Inr upkeeps \<Rightarrow> Inr (transmit_loop now upkeeps False (pl_Coordinator p)))"

text \<open>\<open>errors.Join\<close> of the results of closing every service; \<^const>\<open>None\<close> if all are nil.\<close>

definition plugin_Close :: "go_error option list \<Rightarrow> go_error list option" where
  "plugin_Close closes =
     fold (\<lambda>e err. case e of
             None \<Rightarrow> err
           | Some x \<Rightarrow> Some ((case err of None \<Rightarrow> [] | Some es \<Rightarrow> es) @ [x])) closes None"

section \<open>The outcome is valid\<close>

lemma valid_observations_ok:
  "(i, ob) \<in> set (valid_observations ex p aos) \<Longrightarrow>
     observation_ok (pl_UpkeepTypeGetter p) (pl_WorkIDGenerator p) ob \<and>
     (\<exists>b. (i, b) \<in> set aos \<and> ex_decode_observation ex b = Inr ob)"
  by (induction ex p aos rule: valid_observations.induct)
    (auto simp: DecodeAutomationObservation_Inr split: sum.splits)

definition outcome_of ::
    "externals \<Rightarrow> string list \<Rightarrow> BlockKey list \<Rightarrow> 64 word \<Rightarrow> AutomationOutcome \<Rightarrow> (nat \<times> bytes) list \<Rightarrow>
     ocr3Plugin \<Rightarrow> AutomationOutcome" where
  "outcome_of ex ksR ksB seqNr prev aos p =
     proposals_set (ex_draw ex) ksB (collect_proposals ex seqNr aos p) prev
       (performables_set (ex_draw ex) ksR (collect_performables ex seqNr aos p) empty_outcome)"

lemma collected_performable:
  assumes "r \<in> set (ac_AgreedPerformables
    (performables_set draw ks (collect_performables ex seqNr aos p) oc))"
  shows "\<exists>(i, ob)\<in>set (valid_observations ex p aos). r \<in> set (ao_Performable ob)"
proof -
  let ?obs = "map snd (valid_observations ex p aos)"
  have "pf_inv (ex_UniqueID ex) (\<Union>ob\<in>set ?obs. set (ao_Performable ob))
      (collect_performables ex seqNr aos p)"
    unfolding collect_performables_def
    by (rule pf_inv_adds [OF pf_inv_new, unfolded Un_empty_left])
  moreover obtain uid pc where "pf_resultCount (collect_performables ex seqNr aos p) uid = Some pc"
      "rac_result pc = r"
    using agreed_loop_votes [of r] set_agreed_subset assms by blast
  ultimately show ?thesis by (fastforce simp: pf_inv_def)
qed

lemma outcome_of_ok:
  assumes "outcome_ok (pl_UpkeepTypeGetter p) (pl_WorkIDGenerator p) prev"
    and "workID_ignores_block (pl_WorkIDGenerator p)"
  shows "outcome_ok (pl_UpkeepTypeGetter p) (pl_WorkIDGenerator p)
    (outcome_of ex ksR ksB seqNr prev aos p)"
proof -
  let ?utg = "pl_UpkeepTypeGetter p" and ?wg = "pl_WorkIDGenerator p"
  let ?c = "collect_proposals ex seqNr aos p" and ?oc = "outcome_of ex ksR ksB seqNr prev aos p"
  have c: "cb_perRoundLimit ?c = 50" "cb_roundHistoryLimit ?c = 20"
    by (simp_all add: collect_proposals_def newCoordinatedBlockProposals_def)
  have ps: "\<forall>q\<in>set (cb_allNewProposals ?c). proposal_ok ?utg ?wg q"
    by (fastforce simp: collect_proposals_def newCoordinatedBlockProposals_def observation_ok_def
        dest: valid_observations_ok)
  have prev: "rounds_ok ?utg ?wg (cb_perRoundLimit ?c) (ac_SurfacedProposals prev)"
    "length (ac_SurfacedProposals prev) \<le> cb_roundHistoryLimit ?c"
    using assms(1) c by (simp_all add: outcome_ok_def rounds_ok_def)
  have "performable_ok ?utg ?wg r" if "r \<in> set (ac_AgreedPerformables ?oc)" for r
    using that collected_performable [of r "ex_draw ex" ksR ex seqNr aos p empty_outcome]
    by (auto simp: outcome_of_def observation_ok_def dest!: valid_observations_ok)
  moreover have "length (ac_AgreedPerformables ?oc) \<le> 100"
    using performables_set_length [of "ex_draw ex" ksR "collect_performables ex seqNr aos p"]
    by (simp add: outcome_of_def collect_performables_def newPerformables_def)
  moreover have "distinct (map cr_WorkID (ac_AgreedPerformables ?oc))"
    by (simp add: outcome_of_def performables_set_distinct)
  moreover have "rounds_ok ?utg ?wg 50 (ac_SurfacedProposals ?oc)"
      "length (ac_SurfacedProposals ?oc) \<le> 20"
    unfolding outcome_of_def
    using proposals_set_ok [OF prev _ ps assms(2), of "ex_draw ex" ksB] c by simp_all
  ultimately show ?thesis by (simp add: outcome_ok_def rounds_ok_def)
qed

text \<open>
  What the JSON package promises of an outcome it has encoded: decoding gives the outcome back,
  except for the retry intervals of check results, which are not serialised
  (\<open>fixtures/expected_encoded_outcome.txt\<close>). The promise is about one outcome, so that a theorem can
  ask for it of the outcome at hand only.
\<close>

definition on_wire :: "AutomationOutcome \<Rightarrow> AutomationOutcome" where
  "on_wire oc =
     oc\<lparr>ac_AgreedPerformables := map (cr_RetryInterval_update (\<lambda>_. 0)) (ac_AgreedPerformables oc)\<rparr>"

definition json_outcome :: "externals \<Rightarrow> AutomationOutcome \<Rightarrow> bool" where
  "json_outcome ex oc \<longleftrightarrow>
     (\<forall>b. ex_encode_outcome ex oc = Inr b \<longrightarrow> ex_decode_outcome ex b = Inr (on_wire oc))"

lemma outcome_ok_on_wire [simp]: "outcome_ok utg wg (on_wire oc) \<longleftrightarrow> outcome_ok utg wg oc"
  by (simp add: outcome_ok_def on_wire_def performable_ok_def o_def)

text \<open>The outcome of the previous round as a node sees it\<close>

definition previous_outcome ::
    "externals \<Rightarrow> UpkeepTypeGetter \<Rightarrow> WorkIDGenerator \<Rightarrow> bytes option \<Rightarrow> AutomationOutcome result" where
  "previous_outcome ex utg wg previousOutcome =
     (case previousOutcome of
        None \<Rightarrow> Inr empty_outcome
      | Some b \<Rightarrow> DecodeAutomationOutcome (ex_decode_outcome ex) b utg wg)"

lemma plugin_Outcome_eq:
  "plugin_Outcome ex ksR ksB seqNr previousOutcome aos p =
     (case previous_outcome ex (pl_UpkeepTypeGetter p) (pl_WorkIDGenerator p) previousOutcome of
        Inl err \<Rightarrow> Inl err
      | Inr prev \<Rightarrow> ex_encode_outcome ex (outcome_of ex ksR ksB seqNr prev aos p))"
  by (simp add: plugin_Outcome_def previous_outcome_def outcome_of_def Let_def
      split: option.split sum.split)

lemma previous_outcome_ok:
  "previous_outcome ex utg wg previousOutcome = Inr prev \<Longrightarrow> outcome_ok utg wg prev"
  by (auto simp: previous_outcome_def DecodeAutomationOutcome_Inr split: option.splits)

lemma plugin_Outcome_decodes:
  assumes "workID_ignores_block (pl_WorkIDGenerator p)"
    and "previous_outcome ex (pl_UpkeepTypeGetter p) (pl_WorkIDGenerator p) previousOutcome = Inr prev"
    and "json_outcome ex (outcome_of ex ksR ksB seqNr prev aos p)"
    and "plugin_Outcome ex ksR ksB seqNr previousOutcome aos p = Inr b"
  shows "DecodeAutomationOutcome (ex_decode_outcome ex) b (pl_UpkeepTypeGetter p)
      (pl_WorkIDGenerator p) = Inr (on_wire (outcome_of ex ksR ksB seqNr prev aos p))"
  using assms outcome_of_ok [OF previous_outcome_ok [OF assms(2)] assms(1)]
  by (auto simp: plugin_Outcome_eq json_outcome_def DecodeAutomationOutcome_Inr)

section \<open>Rounds of the protocol\<close>

text \<open>
  The outcomes the protocol can reach from the first round on, each computed by some node from
  the previous one and from any observations at all, valid or not. The nodes share the settings
  that enter the outcome but have their own stores.
\<close>

inductive reachable_outcome ::
    "externals \<Rightarrow> UpkeepTypeGetter \<Rightarrow> WorkIDGenerator \<Rightarrow> bytes option \<Rightarrow> bool"
  for ex utg wg where
  first_round: "reachable_outcome ex utg wg None"
| next_round: "reachable_outcome ex utg wg prev \<Longrightarrow>
    pl_UpkeepTypeGetter p = utg \<Longrightarrow> pl_WorkIDGenerator p = wg \<Longrightarrow>
    plugin_Outcome ex ksR ksB seqNr prev aos p = Inr b \<Longrightarrow> reachable_outcome ex utg wg (Some b)"

text \<open>The outcomes nodes compute and encode in some round of the protocol\<close>

definition produced_outcome ::
    "externals \<Rightarrow> UpkeepTypeGetter \<Rightarrow> WorkIDGenerator \<Rightarrow> AutomationOutcome \<Rightarrow> bool" where
  "produced_outcome ex utg wg oc \<longleftrightarrow>
     (\<exists>raw prev ksR ksB seqNr aos p. reachable_outcome ex utg wg raw \<and>
        previous_outcome ex utg wg raw = Inr prev \<and>
        pl_UpkeepTypeGetter p = utg \<and> pl_WorkIDGenerator p = wg \<and>
        oc = outcome_of ex ksR ksB seqNr prev aos p)"

lemma reachable_outcome_decodes:
  assumes "reachable_outcome ex utg wg raw" and "workID_ignores_block wg"
    and "\<forall>oc. produced_outcome ex utg wg oc \<longrightarrow> json_outcome ex oc"
  shows "\<exists>oc. previous_outcome ex utg wg raw = Inr oc"
  using assms
proof (induction rule: reachable_outcome.induct)
  case first_round
  then show ?case by (simp add: previous_outcome_def)
next
  case (next_round raw p ksR ksB seqNr aos b)
  then obtain prev where prev: "previous_outcome ex utg wg raw = Inr prev" by blast
  with next_round have "json_outcome ex (outcome_of ex ksR ksB seqNr prev aos p)"
    unfolding produced_outcome_def by blast
  with next_round prev plugin_Outcome_decodes [of p ex raw prev ksR ksB seqNr aos b] show ?case
    by (simp add: previous_outcome_def)
qed

end
