(* ===== verification/Ocr3_Reports.thy ===== *)
theory Ocr3_Reports
  imports Ocr3_Plugin
begin

text \<open>
  What the protocol functions of the plugin guarantee from the outcome on: the outcome itself,
  how \<open>Reports\<close> cuts the agreed performables into reports, and how a report is accepted and
  transmitted.
\<close>

section \<open>Batches\<close>

text \<open>The batches the loop of \<open>Reports\<close> encodes, without the encoding\<close>

definition gas_of :: "ocr3Plugin \<Rightarrow> CheckResult \<Rightarrow> 64 word" where
  "gas_of p r = cr_GasAllocated r + ucast (pl_GasOverheadPerUpkeep p)"

definition id_of :: "externals \<Rightarrow> CheckResult \<Rightarrow> string" where
  "id_of ex r = ex_IDString ex (cr_UpkeepID r)"

fun batches ::
    "externals \<Rightarrow> ocr3Plugin \<Rightarrow> CheckResult list \<Rightarrow> 64 word \<Rightarrow> string set \<Rightarrow> CheckResult list \<Rightarrow>
     CheckResult list list" where
  "batches ex p cur gas seen [] = (if cur = [] then [] else [cur])"
| "batches ex p cur gas seen (r # rs) =
     (if report_full ex p cur gas seen r
      then cur # batches ex p [r] (gas_of p r) {id_of ex r} rs
      else batches ex p (cur @ [r]) (gas + gas_of p r) (insert (id_of ex r) seen) rs)"

lemma reports_loop_batches:
  assumes "\<forall>b\<in>set (batches ex p cur gas seen rs). ex_Encode ex b = Inr (E b)"
  shows "reports_loop ex p cur gas seen rs = (map E (batches ex p cur gas seen rs), None)"
  using assms
  by (induction ex p cur gas seen rs rule: batches.induct)
    (auto simp: Let_def gas_of_def id_of_def)

lemma concat_batches: "concat (batches ex p cur gas seen rs) = cur @ rs"
  by (induction ex p cur gas seen rs rule: batches.induct) simp_all

text \<open>The gas of a result and of a batch as natural numbers, where nothing wraps around\<close>

definition gas_need :: "ocr3Plugin \<Rightarrow> CheckResult \<Rightarrow> nat" where
  "gas_need p r = unat (cr_GasAllocated r) + unat (pl_GasOverheadPerUpkeep p)"

definition fits_report :: "ocr3Plugin \<Rightarrow> CheckResult \<Rightarrow> bool" where
  "fits_report p r \<longleftrightarrow> gas_need p r \<le> unat (pl_GasLimitPerReport p)"

definition batch_ok :: "externals \<Rightarrow> ocr3Plugin \<Rightarrow> CheckResult list \<Rightarrow> bool" where
  "batch_ok ex p b \<longleftrightarrow> b \<noteq> [] \<and> int (length b) \<le> pl_MaxUpkeepBatchSize p \<and>
     distinct (map (id_of ex) b) \<and>
     sum_list (map (gas_need p) b) \<le> unat (pl_GasLimitPerReport p)"

lemma unat_ucast32 [simp]: "unat (ucast (w :: 32 word) :: 64 word) = unat w"
  by (simp add: unsigned_ucast_eq take_bit_nat_eq_self order_less_trans [OF unsigned_less])

lemma unat_limit: "unat (w :: 32 word) < 2 ^ 32"
  using unsigned_less [of w, where 'a = nat] by simp

lemma unat_add_small:
  "unat (a :: 64 word) + unat b < 2 ^ 64 \<Longrightarrow> unat (a + b) = unat a + unat b"
  by (simp add: unat_word_ariths)

lemma gas_of_unat:
  assumes "fits_report p r"
  shows "unat (gas_of p r) = gas_need p r"
proof -
  have "gas_need p r < 2 ^ 64"
    using assms unat_limit [of "pl_GasLimitPerReport p"] by (simp add: fits_report_def)
  then show ?thesis
    unfolding gas_of_def gas_need_def by (subst unat_add_small) simp_all
qed

lemma report_full_gas:
  assumes "fits_report p r" and "unat gas \<le> unat (pl_GasLimitPerReport p)"
  shows "unat (gas + gas_of p r) = unat gas + gas_need p r"
    and "gas + cr_GasAllocated r + ucast (pl_GasOverheadPerUpkeep p) > ucast (pl_GasLimitPerReport p)
      \<longleftrightarrow> unat gas + gas_need p r > unat (pl_GasLimitPerReport p)"
proof -
  show eq: "unat (gas + gas_of p r) = unat gas + gas_need p r"
    using assms gas_of_unat [OF assms(1)] unat_limit [of "pl_GasLimitPerReport p"]
    by (subst unat_add_small) (simp_all add: fits_report_def)
  have sum: "gas + cr_GasAllocated r + ucast (pl_GasOverheadPerUpkeep p) = gas + gas_of p r"
    by (simp add: gas_of_def add.assoc)
  show "gas + cr_GasAllocated r + ucast (pl_GasOverheadPerUpkeep p)
      > ucast (pl_GasLimitPerReport p) \<longleftrightarrow>
      unat gas + gas_need p r > unat (pl_GasLimitPerReport p)"
    unfolding sum word_less_nat_alt eq unat_ucast32 ..
qed

text \<open>The state of the loop: the batch under construction, its gas and its ids\<close>

definition batch_state ::
    "externals \<Rightarrow> ocr3Plugin \<Rightarrow> CheckResult list \<Rightarrow> 64 word \<Rightarrow> string set \<Rightarrow> bool" where
  "batch_state ex p cur gas seen \<longleftrightarrow>
     (cur = [] \<or> batch_ok ex p cur) \<and> unat gas = sum_list (map (gas_need p) cur) \<and>
     seen = id_of ex ` set cur"

lemma batch_state_single:
  "fits_report p r \<Longrightarrow> 1 \<le> pl_MaxUpkeepBatchSize p \<Longrightarrow>
     batch_state ex p [r] (gas_of p r) {id_of ex r}"
  by (simp add: batch_state_def batch_ok_def gas_of_unat fits_report_def)

lemma batch_state_gas:
  "batch_state ex p cur gas seen \<Longrightarrow> unat gas \<le> unat (pl_GasLimitPerReport p)"
  by (auto simp: batch_state_def batch_ok_def)

lemma batch_state_extend:
  assumes "batch_state ex p cur gas seen" "fits_report p r"
    and "\<not> report_full ex p cur gas seen r"
  shows "batch_state ex p (cur @ [r]) (gas + gas_of p r) (insert (id_of ex r) seen)"
  using assms report_full_gas [OF assms(2) batch_state_gas [OF assms(1)]]
  by (auto simp: batch_state_def batch_ok_def report_full_def id_of_def)

lemma batch_state_not_full_empty:
  assumes "batch_state ex p [] gas seen" "fits_report p r" "1 \<le> pl_MaxUpkeepBatchSize p"
  shows "\<not> report_full ex p [] gas seen r"
  using assms report_full_gas(2) [OF assms(2) batch_state_gas [OF assms(1)]]
  by (auto simp: batch_state_def report_full_def fits_report_def)

lemma batches_ok:
  assumes "batch_state ex p cur gas seen" "\<forall>r\<in>set rs. fits_report p r"
    and "1 \<le> pl_MaxUpkeepBatchSize p" and "b \<in> set (batches ex p cur gas seen rs)"
  shows "batch_ok ex p b"
  using assms
proof (induction ex p cur gas seen rs rule: batches.induct)
  case (1 ex p cur gas seen)
  then show ?case by (auto simp: batch_state_def split: if_splits)
next
  case (2 ex p cur gas seen r rs)
  have r: "fits_report p r" "\<forall>r\<in>set rs. fits_report p r" using 2(4) by simp_all
  show ?case
  proof (cases "report_full ex p cur gas seen r")
    case True
    then have "cur \<noteq> []" using batch_state_not_full_empty [OF _ r(1) 2(5)] 2(3) by blast
    then have "batch_ok ex p cur" using 2(3) by (simp add: batch_state_def)
    then show ?thesis
      using 2(1) [OF True batch_state_single [OF r(1) 2(5)] r(2) 2(5)] 2(6) True by auto
  next
    case False
    then show ?thesis
      using 2(2) [OF False batch_state_extend [OF 2(3) r(1) False] r(2) 2(5)] 2(6) by simp
  qed
qed

lemma length_le_concat: "\<forall>b\<in>set bs. b \<noteq> [] \<Longrightarrow> length bs \<le> length (concat bs)"
proof (induction bs)
  case (Cons b bs)
  then have "0 < length b" by simp
  with Cons show ?case by (simp del: length_greater_0_conv)
qed simp

section \<open>Acceptance\<close>

lemma accept_loop_pending:
  assumes "coord_wf c" "0 < t" "t \<le> t'" "t' \<le> t + co_performLockoutWindow c"
    and "set us \<subseteq> U"
    and "accept \<Longrightarrow> \<exists>u\<in>U. Cache_Get t' (ru_WorkID u) (co_cache c) = Some (accepted_record u)"
    and "fst (accept_loop t us accept c)"
  shows "\<exists>u\<in>U. Cache_Get t' (ru_WorkID u) (co_cache (snd (accept_loop t us accept c))) =
    Some (accepted_record u)"
  using assms
proof (induction t us accept c rule: accept_loop.induct)
  case (2 now u us accept c)
  let ?c = "snd (Accept now u c)" and ?a = "if fst (Accept now u c) then True else accept"
  have "\<exists>u\<in>U. Cache_Get t' (ru_WorkID u) (co_cache ?c) = Some (accepted_record u)" if ?a
  proof (cases "fst (Accept now u c)")
    case True
    then have "Cache_Get t' (ru_WorkID u) (co_cache ?c) = Some (accepted_record u)"
      using 2(2-5) by (auto simp: Accept_def store_simps coord_wf_def split: option.splits if_splits)
    then show ?thesis using 2(6) by auto
  next
    case False
    then have "?c = c" by (auto simp: Accept_def split: option.splits if_splits)
    then show ?thesis using that False 2(7) by auto
  qed
  then show ?case
    using 2(1) [OF refl] 2(2-6,8) by (simp add: inv_intros Let_def)
qed simp

lemma transmit_loop_iff:
  "transmit_loop now us transmit c \<longleftrightarrow> transmit \<or> (\<exists>u\<in>set us. coord_ShouldTransmit now u c)"
  by (induction now us transmit c rule: transmit_loop.induct) auto

section \<open>Properties\<close>

text \<open>
  C1: a node that decodes the previous outcome fails in the next round only when JSON cannot encode
  the new outcome, whatever the other nodes sent; the bytes it returns are decoded and accepted by
  every node: the outcome keeps the size limits, its work ids are unique and every performable and
  proposal is valid. Of JSON it is assumed that this one outcome, when encoded, is decoded to
  itself but for the retry intervals.
\<close>

theorem outcome_always_valid:
  assumes "workID_ignores_block (pl_WorkIDGenerator p)"
    and "previous_outcome ex (pl_UpkeepTypeGetter p) (pl_WorkIDGenerator p) previousOutcome = Inr prev"
    and "json_outcome ex (outcome_of ex ksR ksB seqNr prev aos p)"
  shows "case plugin_Outcome ex ksR ksB seqNr previousOutcome aos p of
      Inl err \<Rightarrow> ex_encode_outcome ex (outcome_of ex ksR ksB seqNr prev aos p) = Inl err
    | Inr b \<Rightarrow> \<exists>oc. DecodeAutomationOutcome (ex_decode_outcome ex) b (pl_UpkeepTypeGetter p)
          (pl_WorkIDGenerator p) = Inr oc \<and>
        outcome_ok (pl_UpkeepTypeGetter p) (pl_WorkIDGenerator p) oc"
proof (cases "plugin_Outcome ex ksR ksB seqNr previousOutcome aos p")
  case (Inl err)
  then show ?thesis using assms(2) by (simp add: plugin_Outcome_eq)
next
  case (Inr b)
  from plugin_Outcome_decodes [OF assms Inr] Inr show ?thesis
    by (auto simp: DecodeAutomationOutcome_Inr)
qed

definition sample_ex :: externals where
  "sample_ex =
     \<lparr>ex_encode_observation = sample_encode 300,
      ex_decode_observation = (\<lambda>b. if b = ''a'' then Inr sample_ob else Inl (External ''bad'')),
      ex_encode_outcome = (\<lambda>oc. if oc = empty_outcome then Inr ''e'' else
        if oc = empty_outcome\<lparr>ac_AgreedPerformables := [sample_result 5 ''a'' 10]\<rparr> then Inr ''s''
        else Inl (External ''too long'')),
      ex_decode_outcome = (\<lambda>b. if b = ''e'' then Inr empty_outcome else if b = ''s''
        then Inr (empty_outcome\<lparr>ac_AgreedPerformables := [sample_result 5 ''a'' 10]\<rparr>)
        else Inl (External ''unexpected end of JSON input'')),
      ex_UniqueID = cr_WorkID, ex_IDString = (\<lambda>u. format_d (unat u)),
      ex_Encode = (\<lambda>rs. if rs = [] then Inl (External ''no results'')
        else Inr (concat (map cr_WorkID rs))),
      ex_Extract = (\<lambda>_. Inr [sample_report ''w'' 100]), ex_keccak256 = (\<lambda>b. b),
      ex_draw = (\<lambda>_ _ i. i)\<rparr>"

definition sample_plugin :: "32 word \<Rightarrow> ocr3Plugin" where
  "sample_plugin gas =
     \<lparr>pl_ConfigDigest = [], pl_UpkeepTypeGetter = (\<lambda>_. ConditionTrigger),
      pl_WorkIDGenerator = (\<lambda>_ _. ''a''), pl_Coordinator = sample_coord,
      pl_ResultStore = resultStore_New,
      pl_MetadataStore = \<lparr>ms_blockHistory = [], ms_conditionalProposals = newOrderedMap,
        ms_logRecoveryProposals = newOrderedMap, ms_running = False, ms_stopPending = False\<rparr>,
      pl_ProposalQ = NewProposalQueue, pl_sorter = NewStagedResultSorter,
      pl_MaxUpkeepBatchSize = 10, pl_GasLimitPerReport = gas, pl_GasOverheadPerUpkeep = 300000,
      pl_F = 1\<rparr>"

lemma sample_json: "json_outcome sample_ex oc"
  by (auto simp: json_outcome_def on_wire_def sample_ex_def empty_outcome_def sample_result_def
      split: if_splits)

lemma sample_wg: "workID_ignores_block (pl_WorkIDGenerator (sample_plugin g))"
  by (simp add: workID_ignores_block_def sample_plugin_def)

lemma sample_performable_ok:
  "performable_ok (pl_UpkeepTypeGetter (sample_plugin g)) (pl_WorkIDGenerator (sample_plugin g))
     (sample_result 5 ''a'' 10)"
  by (simp add: performable_ok_def trigger_fits_def sample_plugin_def sample_defs in_uint256_def)

lemma sample_valid_observations:
  "valid_observations sample_ex (sample_plugin g) [(0, ''a''), (1, ''a''), (2, ''x'')] =
     [(0, sample_ob), (1, sample_ob)]"
proof -
  have "observation_ok (pl_UpkeepTypeGetter (sample_plugin g)) (pl_WorkIDGenerator (sample_plugin g))
      sample_ob"
    using sample_performable_ok by (simp add: observation_ok_def sample_ob_def empty_observation_def)
  then have "DecodeAutomationObservation (ex_decode_observation sample_ex) ''a''
      (pl_UpkeepTypeGetter (sample_plugin g)) (pl_WorkIDGenerator (sample_plugin g)) = Inr sample_ob"
    by (simp add: DecodeAutomationObservation_Inr sample_ex_def)
  moreover have "DecodeAutomationObservation (ex_decode_observation sample_ex) ''x''
      (pl_UpkeepTypeGetter (sample_plugin g)) (pl_WorkIDGenerator (sample_plugin g)) =
      Inl (External ''bad'')"
    by (simp add: DecodeAutomationObservation_def sample_ex_def)
  ultimately show ?thesis by simp
qed

lemma sample_outcome:
  "outcome_of sample_ex [''a''] [] 7 empty_outcome [(0, ''a''), (1, ''a''), (2, ''x'')]
     (sample_plugin g) = empty_outcome\<lparr>ac_AgreedPerformables := [sample_result 5 ''a'' 10]\<rparr>"
proof -
  have "collect_performables sample_ex 7 [(0, ''a''), (1, ''a''), (2, ''x'')] (sample_plugin g) =
      \<lparr>pf_limit = 100, pf_keyRandSource = getRandomKeySource sample_ex [] 7, pf_quorumThreshold = 2,
       pf_resultCount = [''a'' \<mapsto> \<lparr>rac_result = sample_result 5 ''a'' 10, rac_count = 2\<rparr>]\<rparr>"
    unfolding collect_performables_def sample_valid_observations
    by (simp add: performables_add_def performables_add1_def newPerformables_def sample_ob_def
        empty_observation_def sample_result_def sample_ex_def sample_plugin_def Let_def)
  then show ?thesis
    by (simp add: outcome_of_def performables_set_def proposals_set_def getLatestQuorumBlock_def
        zero_block_def limit_to_def Let_def empty_outcome_def)
qed

lemma sample_plugin_Outcome:
  "plugin_Outcome sample_ex [''a''] [] 7 None [(0, ''a''), (1, ''a''), (2, ''x'')]
     (sample_plugin g) = Inr ''s''"
  unfolding plugin_Outcome_eq previous_outcome_def option.case sum.case sample_outcome
  by (simp add: sample_ex_def empty_outcome_def)

theorem outcome_always_valid_witness:
  "\<exists>oc. DecodeAutomationOutcome (ex_decode_outcome sample_ex) ''s''
     (pl_UpkeepTypeGetter (sample_plugin 5000000)) (pl_WorkIDGenerator (sample_plugin 5000000)) = Inr oc
     \<and> oc \<noteq> empty_outcome"
proof -
  have "previous_outcome sample_ex utg wg None = Inr empty_outcome" for utg wg
    by (simp add: previous_outcome_def)
  from outcome_always_valid [OF sample_wg [of 5000000] this sample_json, of "[''a'']" "[]" 7
      "[(0, ''a''), (1, ''a''), (2, ''x'')]"]
  show ?thesis
    unfolding sample_plugin_Outcome
    by (auto simp: DecodeAutomationOutcome_Inr sample_ex_def empty_outcome_def)
qed

text \<open>
  C2: no sequence of rounds, with arbitrary observations in each, leads to an outcome the nodes
  cannot decode, provided that JSON decodes the outcomes produced in these rounds as it encoded
  them, but for retry intervals. So in every next round every node gets as far as encoding the
  outcome it computed from the decoded one.
\<close>

theorem protocol_never_stuck:
  assumes "reachable_outcome ex utg wg (Some b)" and "workID_ignores_block wg"
    and "\<forall>oc. produced_outcome ex utg wg oc \<longrightarrow> json_outcome ex oc"
  shows "\<exists>oc. DecodeAutomationOutcome (ex_decode_outcome ex) b utg wg = Inr oc \<and>
    (\<forall>p ksR ksB seqNr aos. pl_UpkeepTypeGetter p = utg \<and> pl_WorkIDGenerator p = wg \<longrightarrow>
       plugin_Outcome ex ksR ksB seqNr (Some b) aos p =
         ex_encode_outcome ex (outcome_of ex ksR ksB seqNr oc aos p))"
  using reachable_outcome_decodes [OF assms] by (auto simp: previous_outcome_def plugin_Outcome_eq)

theorem protocol_never_stuck_witness:
  "\<exists>oc. DecodeAutomationOutcome (ex_decode_outcome sample_ex) ''s''
     (pl_UpkeepTypeGetter (sample_plugin 5000000)) (pl_WorkIDGenerator (sample_plugin 5000000)) = Inr oc"
  using protocol_never_stuck [OF next_round [OF first_round refl refl sample_plugin_Outcome] sample_wg]
    sample_json by blast

text \<open>
  C3: with at most \<open>F\<close> faulty observers, every performable of an outcome was reported, field for
  field, in the valid observation of an observer that is not faulty.
\<close>

theorem outcome_performable_from_honest_node:
  assumes "distinct (map fst aos)" and "finite faulty" and "int (card faulty) \<le> pl_F p"
    and "inj_on (ex_UniqueID ex)
      (\<Union>(i, ob)\<in>set (valid_observations ex p aos). set (ao_Performable ob))"
    and "r \<in> set (ac_AgreedPerformables (outcome_of ex ksR ksB seqNr prev aos p))"
  shows "\<exists>i b ob. (i, b) \<in> set aos \<and> i \<notin> faulty \<and> ex_decode_observation ex b = Inr ob \<and>
    r \<in> set (ao_Performable ob)"
proof -
  let ?obs = "valid_observations ex p aos"
  have sub: "distinct (map fst (valid_observations ex p xs)) \<and>
      set (map fst (valid_observations ex p xs)) \<subseteq> set (map fst xs)"
    if "distinct (map fst xs)" for xs
    using that by (induction ex p xs rule: valid_observations.induct) (auto split: sum.splits)
  have "length (filter (\<lambda>x. fst x \<in> faulty) ?obs) =
      card (fst ` set (filter (\<lambda>x. fst x \<in> faulty) ?obs))"
    using sub [OF assms(1)] distinct_map_filter' [of fst ?obs "\<lambda>x. fst x \<in> faulty"]
    by (metis distinct_card length_map set_map)
  also have "\<dots> \<le> card faulty" by (rule card_mono [OF assms(2)]) auto
  finally have few: "int (length (filter (\<lambda>x. fst x \<in> faulty) ?obs)) \<le> pl_F p"
    using assms(3) by linarith
  have dist: "\<forall>ob\<in>set (map snd ?obs). distinct (map cr_WorkID (ao_Performable ob))"
    by (auto simp: observation_ok_def dest!: valid_observations_ok)
  have "pl_F p + 1 \<le> int (length (filter (\<lambda>ob. r \<in> set (ao_Performable ob)) (map snd ?obs)))"
    using agreed_observed_by_quorum [OF dist _ collect_performables_def] assms(4,5)
    by (auto simp: outcome_of_def case_prod_unfold)
  then have "length (filter (\<lambda>x. fst x \<in> faulty) ?obs) <
      length (filter (\<lambda>x. r \<in> set (ao_Performable (snd x))) ?obs)"
    using few by (simp add: filter_map o_def)
  from filter_pigeonhole [OF this] obtain i ob where "(i, ob) \<in> set ?obs" "i \<notin> faulty"
    "r \<in> set (ao_Performable ob)" by auto
  then show ?thesis using valid_observations_ok [of i ob] by blast
qed

theorem outcome_performable_from_honest_node_witness:
  "\<exists>i b ob. (i, b) \<in> set [(0::nat, ''a''), (1, ''a''), (2, ''x'')] \<and> i \<notin> {2} \<and>
    ex_decode_observation sample_ex b = Inr ob \<and> sample_result 5 ''a'' 10 \<in> set (ao_Performable ob)"
proof (rule outcome_performable_from_honest_node [of _ "{2}" "sample_plugin 5000000"])
  show "inj_on (ex_UniqueID sample_ex) (\<Union>(i, ob)\<in>set (valid_observations sample_ex
      (sample_plugin 5000000) [(0, ''a''), (1, ''a''), (2, ''x'')]). set (ao_Performable ob))"
    unfolding sample_valid_observations by (simp add: sample_ob_def)
  show "sample_result 5 ''a'' 10 \<in> set (ac_AgreedPerformables (outcome_of sample_ex [''a''] [] 7
      empty_outcome [(0, ''a''), (1, ''a''), (2, ''x'')] (sample_plugin 5000000)))"
    unfolding sample_outcome by simp
qed (simp_all add: sample_plugin_def)

text \<open>
  C8: when every agreed performable fits a report on its own, the batch size is at least one and the
  encoder encodes non-empty batches of agreed performables, \<open>Reports\<close> returns without an error; its reports encode consecutive batches that
  together are the agreed performables in their order; each batch is non-empty, holds an upkeep
  at most once, and respects the batch size and the gas limit; there are at most as many reports
  as the plugin announces to the protocol.
\<close>

theorem reports_partition_performables:
  assumes "DecodeAutomationOutcome (ex_decode_outcome ex) raw (pl_UpkeepTypeGetter p)
      (pl_WorkIDGenerator p) = Inr oc"
    and "\<forall>r\<in>set (ac_AgreedPerformables oc). fits_report p r" and "1 \<le> pl_MaxUpkeepBatchSize p"
    and "\<forall>b. b \<noteq> [] \<and> set b \<subseteq> set (ac_AgreedPerformables oc) \<longrightarrow> ex_Encode ex b = Inr (E b)"
  shows "\<exists>bs. plugin_Reports ex raw p = (map E bs, None) \<and> concat bs = ac_AgreedPerformables oc \<and>
    (\<forall>b\<in>set bs. batch_ok ex p b) \<and> length bs \<le> MaxReportCount"
proof -
  let ?bs = "batches ex p [] 0 {} (ac_AgreedPerformables oc)"
  have "batch_state ex p [] 0 {}" by (simp add: batch_state_def)
  from batches_ok [OF this assms(2,3)] have ok: "\<forall>b\<in>set ?bs. batch_ok ex p b" by blast
  moreover have "set b \<subseteq> set (ac_AgreedPerformables oc)" if "b \<in> set ?bs" for b
    using that concat_batches [of ex p "[]" 0 "{}" "ac_AgreedPerformables oc"]
    by (metis UN_upper append_Nil set_concat)
  ultimately have "\<forall>b\<in>set ?bs. ex_Encode ex b = Inr (E b)" using assms(4) by (simp add: batch_ok_def)
  from reports_loop_batches [OF this] have "plugin_Reports ex raw p = (map E ?bs, None)"
    using assms(1) by (simp add: plugin_Reports_def)
  moreover have "length ?bs \<le> length (concat ?bs)"
    using ok by (intro length_le_concat) (simp add: batch_ok_def)
  then have "length ?bs \<le> MaxReportCount"
    using assms(1)
    by (simp add: concat_batches MaxReportCount_def DecodeAutomationOutcome_Inr outcome_ok_def)
  ultimately show ?thesis using ok concat_batches by fastforce
qed

lemma sample_decoded:
  "DecodeAutomationOutcome (ex_decode_outcome sample_ex) ''s'' (pl_UpkeepTypeGetter (sample_plugin g))
     (pl_WorkIDGenerator (sample_plugin g)) =
   Inr (empty_outcome\<lparr>ac_AgreedPerformables := [sample_result 5 ''a'' 10]\<rparr>)"
  using sample_performable_ok [of g]
  by (simp add: DecodeAutomationOutcome_Inr outcome_ok_def sample_ex_def empty_outcome_def)

theorem reports_partition_performables_witness:
  "\<exists>bs. plugin_Reports sample_ex ''s'' (sample_plugin 5000000) =
      (map (\<lambda>rs. concat (map cr_WorkID rs)) bs, None) \<and> concat bs = [sample_result 5 ''a'' 10] \<and>
    (\<forall>b\<in>set bs. batch_ok sample_ex (sample_plugin 5000000) b) \<and> length bs \<le> MaxReportCount"
  using reports_partition_performables [OF sample_decoded, of 5000000
      "\<lambda>rs. concat (map cr_WorkID rs)"]
  by (simp add: fits_report_def gas_need_def sample_plugin_def sample_result_def sample_ex_def
      empty_outcome_def)

text \<open>
  A performable over the gas limit at the head of the outcome makes \<open>Reports\<close> encode an empty
  report before it: with an encoder that refuses an empty report, \<open>Reports\<close> fails as a whole.
\<close>

lemma oversized_performable_empty_report:
  assumes "DecodeAutomationOutcome (ex_decode_outcome ex) raw (pl_UpkeepTypeGetter p)
      (pl_WorkIDGenerator p) = Inr oc"
    and "ac_AgreedPerformables oc = r # rs"
    and "ucast (pl_GasLimitPerReport p) < gas_of p r"
  shows "(\<forall>e. ex_Encode ex [] = Inl e \<longrightarrow> plugin_Reports ex raw p = ([], Some (encode_error e))) \<and>
    (\<forall>b. ex_Encode ex [] = Inr b \<longrightarrow> (\<exists>bs. fst (plugin_Reports ex raw p) = b # bs))"
proof -
  have "report_full ex p [] 0 {} r" using assms(3) by (simp add: report_full_def gas_of_def)
  then show ?thesis using assms(1,2) by (simp add: plugin_Reports_def Let_def)
qed

lemma oversized_performable_empty_report_witness:
  "plugin_Reports sample_ex ''s'' (sample_plugin 200000) =
     ([], Some (encode_error (External ''no results'')))"
proof -
  have "ucast (pl_GasLimitPerReport (sample_plugin 200000)) <
      gas_of (sample_plugin 200000) (sample_result 5 ''a'' 10)"
    by (simp add: gas_of_def sample_plugin_def sample_result_def)
  from oversized_performable_empty_report [OF sample_decoded _ this] show ?thesis
    by (simp add: sample_ex_def empty_outcome_def)
qed

text \<open>
  A report that was accepted is to be transmitted: until the next call, at every moment of
  the lockout window.
\<close>

lemma accepted_report_is_transmitted:
  assumes "coord_wf (pl_Coordinator p)" and "0 < t"
    and "ShouldAcceptAttestedReport ex t report p = (Inr True, p')"
    and "t \<le> t'" and "t' \<le> t + co_performLockoutWindow (pl_Coordinator p)"
  shows "ShouldTransmitAcceptedReport ex t' report p' = Inr True"
proof -
  obtain us where us: "ex_Extract ex report = Inr us"
    "fst (accept_loop t us False (pl_Coordinator p))"
    "pl_Coordinator p' = snd (accept_loop t us False (pl_Coordinator p))"
    using assms(3) by (auto simp: ShouldAcceptAttestedReport_def Let_def split: sum.splits)
  from accept_loop_pending [OF assms(1,2,4,5) subset_refl _ us(2)] obtain u where
    "u \<in> set us" "Cache_Get t' (ru_WorkID u) (co_cache (pl_Coordinator p')) = Some (accepted_record u)"
    using us(3) by auto
  then have "coord_ShouldTransmit t' u (pl_Coordinator p')"
    by (simp add: coord_ShouldTransmit_def)
  with us(1) \<open>u \<in> set us\<close> show ?thesis
    by (auto simp: ShouldTransmitAcceptedReport_def transmit_loop_iff)
qed

lemma accepted_report_is_transmitted_witness:
  "ShouldTransmitAcceptedReport sample_ex 9 ''r''
     (snd (ShouldAcceptAttestedReport sample_ex 7 ''r'' (sample_plugin 5000000))) = Inr True"
proof (rule accepted_report_is_transmitted [of "sample_plugin 5000000" 7])
  have c: "pl_Coordinator (sample_plugin 5000000) = sample_coord" by (simp add: sample_plugin_def)
  show "coord_wf (pl_Coordinator (sample_plugin 5000000))"
    unfolding c by (simp add: sample_coord_def inv_intros)
  show "9 \<le> 7 + co_performLockoutWindow (pl_Coordinator (sample_plugin 5000000))"
    unfolding c by (simp add: sample_coord_lockout)
  have "ex_Extract sample_ex ''r'' = Inr [sample_report ''w'' 100]" by (simp add: sample_ex_def)
  moreover have "fst (Accept 7 (sample_report ''w'' 100) sample_coord)"
    by (simp add: Accept_def sample_coord_def NewCoordinator_def Let_def)
  ultimately show "ShouldAcceptAttestedReport sample_ex 7 ''r'' (sample_plugin 5000000) =
      (Inr True, snd (ShouldAcceptAttestedReport sample_ex 7 ''r'' (sample_plugin 5000000)))"
    unfolding ShouldAcceptAttestedReport_def c by (simp add: Let_def)
qed simp_all

end
