(* ===== verification/Ocr3_Observation.thy ===== *)
theory Ocr3_Observation
  imports Ocr3_Reports
begin

text \<open>
  The observation a correct node builds, against the validation the other nodes apply to it.
\<close>

section \<open>Stores a correct node keeps\<close>

definition proposals_fit ::
    "UpkeepTypeGetter \<Rightarrow> WorkIDGenerator \<Rightarrow> UpkeepType \<Rightarrow> orderedMap \<Rightarrow> bool" where
  "proposals_fit utg wg ty m \<longleftrightarrow> om_inv m \<and>
     (\<forall>k r. om_values m k = Some r \<longrightarrow>
        utg (cbp_UpkeepID (er_proposal r)) = ty \<and> proposal_ok utg wg (er_proposal r))"

definition nothing_expired :: "time \<Rightarrow> orderedMap \<Rightarrow> bool" where
  "nothing_expired now m \<longleftrightarrow> (\<forall>k r. om_values m k = Some r \<longrightarrow> \<not> er_expired now r (24 * hour))"

definition stores_ok :: "externals \<Rightarrow> time \<Rightarrow> ocr3Plugin \<Rightarrow> bool" where
  "stores_ok ex now p \<longleftrightarrow>
     resultStore_inv (pl_ResultStore p) \<and>
     (\<forall>k r. rs_data (pl_ResultStore p) k = Some r \<longrightarrow>
        performable_ok (pl_UpkeepTypeGetter p) (pl_WorkIDGenerator p) (sr_data r)) \<and>
     proposals_fit (pl_UpkeepTypeGetter p) (pl_WorkIDGenerator p) LogTrigger
       (ms_logRecoveryProposals (pl_MetadataStore p)) \<and>
     proposals_fit (pl_UpkeepTypeGetter p) (pl_WorkIDGenerator p) ConditionTrigger
       (ms_conditionalProposals (pl_MetadataStore p)) \<and>
     nothing_expired now (ms_logRecoveryProposals (pl_MetadataStore p)) \<and>
     nothing_expired now (ms_conditionalProposals (pl_MetadataStore p)) \<and>
     distinct (map bk_Number (GetBlockHistory (pl_MetadataStore p))) \<and>
     sorter_inv (ex_draw ex) (pl_sorter p)"

text \<open>
  The work ids of two upkeeps differ, and every result adds to the length of an encoding; both
  are properties of the code outside the repository.
\<close>

definition workID_tells_upkeep :: "WorkIDGenerator \<Rightarrow> bool" where
  "workID_tells_upkeep wg \<longleftrightarrow> (\<forall>u t u' t'. wg u t = wg u' t' \<longrightarrow> u = u')"

definition encoder_ok :: "externals \<Rightarrow> bool" where
  "encoder_ok ex \<longleftrightarrow>
     (\<forall>ob. \<exists>b. ex_encode_observation ex ob = Inr b) \<and>
     (\<forall>ob xs. ao_Performable ob = [] \<longrightarrow>
        enc_len (ex_encode_observation ex) ob + int (length xs) \<le>
        enc_len (ex_encode_observation ex) (ob\<lparr>ao_Performable := xs\<rparr>))"

section \<open>The parts of the observation\<close>

lemma view_fresh:
  assumes "proposals_fit utg wg ty m" "nothing_expired now m"
  shows "distinct (map cbp_WorkID (fst (view_proposals now (24 * hour) m)))"
    and "\<forall>p\<in>set (fst (view_proposals now (24 * hour) m)).
      utg (cbp_UpkeepID p) = ty \<and> proposal_ok utg wg p"
proof -
  have inv: "om_inv m" using assms(1) by (simp add: proposals_fit_def)
  have eq: "fst (view_proposals now (24 * hour) m) =
      map (\<lambda>k. er_proposal (the (om_values m k))) (sort (om_keys m))"
    using view_proposals_fresh [OF inv] assms(2) by (simp add: nothing_expired_def)
  have k: "\<exists>r. om_values m k = Some r \<and> cbp_WorkID (er_proposal r) = k" if "k \<in> set (om_keys m)" for k
    using that inv by (fastforce simp: om_inv_def)
  then have "map cbp_WorkID (fst (view_proposals now (24 * hour) m)) = sort (om_keys m)"
    unfolding eq by (auto intro!: map_idI) (metis option.sel)
  then show "distinct (map cbp_WorkID (fst (view_proposals now (24 * hour) m)))"
    using inv by (simp add: om_inv_def)
  show "\<forall>p\<in>set (fst (view_proposals now (24 * hour) m)).
      utg (cbp_UpkeepID p) = ty \<and> proposal_ok utg wg p"
    unfolding eq using k assms(1) by (fastforce simp: proposals_fit_def)
qed

text \<open>What a hook appends of a view: a shuffled, filtered and cut selection\<close>

definition selected ::
    "rand_draw \<Rightarrow> time \<Rightarrow> coordinator \<Rightarrow> nat \<Rightarrow> key16 \<Rightarrow> CoordinatedBlockProposal list \<Rightarrow>
     CoordinatedBlockProposal list" where
  "selected draw now coord limit rSrc view =
     (let ps = FilterProposals now view coord
      in limit_to limit (Shuffle (draw rSrc (length ps)) ps))"

lemma selected_facts:
  "set (selected draw now coord limit rSrc view) \<subseteq> set view"
  "length (selected draw now coord limit rSrc view) \<le> limit"
  "distinct (map cbp_WorkID view) \<Longrightarrow> distinct (map cbp_WorkID (selected draw now coord limit rSrc view))"
proof -
  show "set (selected draw now coord limit rSrc view) \<subseteq> set view"
    using set_limit_to by (fastforce simp: selected_def Let_def FilterProposals_filter)
  show "length (selected draw now coord limit rSrc view) \<le> limit"
    by (simp add: selected_def Let_def length_limit_to)
  assume "distinct (map cbp_WorkID view)"
  then show "distinct (map cbp_WorkID (selected draw now coord limit rSrc view))"
    by (simp add: selected_def Let_def distinct_map_limit_to FilterProposals_filter
        distinct_map_filter')
qed

text \<open>The observation before staging, over the plugin's stores\<close>

definition base_observation :: "externals \<Rightarrow> time \<Rightarrow> 64 word \<Rightarrow> ocr3Plugin \<Rightarrow> AutomationObservation" where
  "base_observation ex now seqNr p =
     (let k = getRandomKeySource ex (pl_ConfigDigest p) seqNr;
          sel = (\<lambda>m. selected (ex_draw ex) now (pl_Coordinator p) 5 k
                       (fst (view_proposals now (24 * hour) m)))
      in \<lparr>ao_Performable = [],
          ao_UpkeepProposals = sel (ms_logRecoveryProposals (pl_MetadataStore p)) @
            sel (ms_conditionalProposals (pl_MetadataStore p)),
          ao_BlockHistory = limit_to 256 (GetBlockHistory (pl_MetadataStore p))\<rparr>)"

lemma distinct_append_types:
  assumes "distinct (map cbp_WorkID xs)" "distinct (map cbp_WorkID ys)"
    and "\<forall>p\<in>set xs. utg (cbp_UpkeepID p) = t \<and> proposal_ok utg wg p"
    and "\<forall>p\<in>set ys. utg (cbp_UpkeepID p) = t' \<and> proposal_ok utg wg p"
    and "t \<noteq> t'" "workID_tells_upkeep wg"
  shows "distinct (map cbp_WorkID (xs @ ys))"
proof -
  have "cbp_WorkID a \<noteq> cbp_WorkID b" if "a \<in> set xs" "b \<in> set ys" for a b
  proof
    assume "cbp_WorkID a = cbp_WorkID b"
    then have "wg (cbp_UpkeepID a) (cbp_Trigger a) = wg (cbp_UpkeepID b) (cbp_Trigger b)"
      using that assms(3,4) by (simp add: proposal_ok_def)
    then have "cbp_UpkeepID a = cbp_UpkeepID b" using assms(6) unfolding workID_tells_upkeep_def by blast
    with that assms(3-5) show False by auto
  qed
  then show ?thesis using assms(1,2) by auto
qed

lemma base_observation_ok:
  assumes "stores_ok ex now p" and "workID_tells_upkeep (pl_WorkIDGenerator p)"
  shows "observation_ok (pl_UpkeepTypeGetter p) (pl_WorkIDGenerator p) (base_observation ex now seqNr p)"
proof -
  let ?utg = "pl_UpkeepTypeGetter p" and ?wg = "pl_WorkIDGenerator p"
  let ?k = "getRandomKeySource ex (pl_ConfigDigest p) seqNr"
  let ?sel = "\<lambda>m. selected (ex_draw ex) now (pl_Coordinator p) 5 ?k
    (fst (view_proposals now (24 * hour) m))"
  let ?xs = "?sel (ms_logRecoveryProposals (pl_MetadataStore p))"
  let ?ys = "?sel (ms_conditionalProposals (pl_MetadataStore p))"
  have sel: "distinct (map cbp_WorkID (?sel m))" "\<forall>q\<in>set (?sel m). ?utg (cbp_UpkeepID q) = ty \<and>
      proposal_ok ?utg ?wg q" "length (?sel m) \<le> 5"
    if "proposals_fit ?utg ?wg ty m" "nothing_expired now m" for m ty
    using view_fresh [OF that] selected_facts by blast+
  have logs: "distinct (map cbp_WorkID ?xs)"
      "\<forall>q\<in>set ?xs. ?utg (cbp_UpkeepID q) = LogTrigger \<and> proposal_ok ?utg ?wg q" "length ?xs \<le> 5"
    and conds: "distinct (map cbp_WorkID ?ys)"
      "\<forall>q\<in>set ?ys. ?utg (cbp_UpkeepID q) = ConditionTrigger \<and> proposal_ok ?utg ?wg q"
      "length ?ys \<le> 5"
    using sel assms(1) unfolding stores_ok_def by blast+
  have "distinct (map cbp_WorkID (?xs @ ?ys))"
    by (rule distinct_append_types [OF logs(1) conds(1) logs(2) conds(2) _ assms(2)]) simp
  moreover have "filter (\<lambda>q. ?utg (cbp_UpkeepID q) = ConditionTrigger) (?xs @ ?ys) = ?ys"
      "filter (\<lambda>q. ?utg (cbp_UpkeepID q) = LogTrigger) (?xs @ ?ys) = ?xs"
    using logs(2) conds(2) by (auto simp: filter_empty_conv filter_id_conv)
  moreover have "distinct (map bk_Number (limit_to 256 (GetBlockHistory (pl_MetadataStore p))))"
    using assms(1) by (simp add: stores_ok_def distinct_map_limit_to)
  moreover have "base_observation ex now seqNr p =
      \<lparr>ao_Performable = [], ao_UpkeepProposals = ?xs @ ?ys,
       ao_BlockHistory = limit_to 256 (GetBlockHistory (pl_MetadataStore p))\<rparr>"
    by (simp add: base_observation_def Let_def)
  ultimately show ?thesis
    using logs conds length_limit_to [of 256 "GetBlockHistory (pl_MetadataStore p)"]
    by (auto simp: observation_ok_def)
qed

text \<open>The hooks before staging build exactly that observation.\<close>

lemma hooks_base_observation:
  assumes "logs = AddLogProposals_RunHook (ex_draw ex) now (pl_Coordinator p) 5
      (getRandomKeySource ex (pl_ConfigDigest p) seqNr) (pl_MetadataStore p)
      (AddBlockHistory_RunHook (pl_MetadataStore p) 256 empty_observation)"
    and "conds = AddConditionalProposals_RunHook (ex_draw ex) now (pl_Coordinator p) 5
      (getRandomKeySource ex (pl_ConfigDigest p) seqNr) (snd logs) (fst logs)"
  shows "fst conds = base_observation ex now seqNr p"
  unfolding assms
  by (simp add: base_observation_def selected_def AddConditionalProposals_RunHook_def
      AddLogProposals_RunHook_def AddBlockHistory_RunHook_def ViewProposals_def
      viewLogRecoveryProposal_def viewConditionalProposal_def logRecoveryExpiry_def
      conditionalExpiry_def empty_observation_def Let_def)

section \<open>Staging\<close>

lemma next_limit_total:
  assumes "0 < n" "base + n \<le> sz"
  shows "next_limit sz base n \<noteq> None"
proof -
  have "1 \<le> (sz - base) div n" using zdiv_mono1 [of n "sz - base" n] assms by simp
  then show ?thesis using assms by (simp add: next_limit_def Let_def)
qed

lemma addBy_total:
  assumes "\<forall>xs. base + int (length xs) \<le> enc_len encode (obs\<lparr>ao_Performable := xs\<rparr>)"
  shows "addByPercentageExceeded encode results base limit obs \<noteq> None"
  using assms
proof (induction encode results base limit obs rule: addByPercentageExceeded.induct)
  case (1 encode results base limit obs)
  define n where "n = (if limit > int (length results) then int (length results) else limit)"
  let ?o = "obs\<lparr>ao_Performable := take (nat n) results\<rparr>"
  have "next_limit (enc_len encode ?o) base n \<noteq> None" if "0 < n"
  proof (rule next_limit_total [OF that])
    have "int (length (take (nat n) results)) = n" using that by (auto simp: n_def split: if_splits)
    moreover have "base + int (length (take (nat n) results)) \<le> enc_len encode ?o"
      using 1(2) by blast
    ultimately show "base + n \<le> enc_len encode ?o" by (simp only:)
  qed
  then have "n \<le> 0 \<or> next_limit (enc_len encode ?o) base n \<noteq> None" by (meson not_le)
  then have no: "staging_attempt encode results base limit obs \<noteq> NoAverage"
    unfolding staging_attempt_def Let_def n_def [symmetric] by (auto split: option.split)
  show ?case
  proof (cases "staging_attempt encode results base limit obs")
    case (GoesOn l1 o1)
    then obtain xs where "o1 = obs\<lparr>ao_Performable := xs\<rparr>"
      by (auto simp: staging_attempt_def Let_def split: if_splits option.splits)
    then have "addByPercentageExceeded encode results base l1 o1 \<noteq> None"
      using 1(1) [OF GoesOn] 1(2) by simp
    then show ?thesis
      using GoesOn by (subst addByPercentageExceeded.simps) (auto split: prod.split)
  qed (use no in \<open>simp_all add: addByPercentageExceeded.simps [of encode results base limit]\<close>)
qed

lemma observation_ok_performables:
  assumes "observation_ok utg wg ob" "distinct (map cr_WorkID rs)"
    and "\<forall>r\<in>set rs. performable_ok utg wg r" "length rs \<le> 100"
  shows "observation_ok utg wg (ob\<lparr>ao_Performable := rs\<rparr>)"
  using assms by (simp add: observation_ok_def)

lemma staging_ok:
  assumes st: "stores_ok ex now p" and "range_order (rs_data (pl_ResultStore p)) ks"
    and enc: "encoder_ok ex"
    and ob: "observation_ok (pl_UpkeepTypeGetter p) (pl_WorkIDGenerator p) ob" "ao_Performable ob = []"
  shows "\<exists>ob' sorter. AddFromStaging_RunHook (ex_draw ex) (ex_encode_observation ex) now ks
      (pl_ResultStore p) c 100 k (pl_sorter p) ob = Inr (ob', sorter) \<and>
    observation_ok (pl_UpkeepTypeGetter p) (pl_WorkIDGenerator p) ob'"
proof -
  let ?rs = "FilterResults now (viewResults now ks (pl_ResultStore p)) c"
  let ?ord = "fst (orderResults (ex_draw ex) ?rs k (pl_sorter p))"
  have ord: "?ord = sort_key (\<lambda>r. ShuffleString (ex_draw ex) (cr_WorkID r) k) ?rs"
    using orderResults_spec(1) st by (simp add: stores_ok_def)
  have dist: "distinct (map cr_WorkID ?ord)"
    unfolding ord using distinct_viewResults [OF _ assms(2)] st
    by (simp add: distinct_map_sort_key FilterResults_filter distinct_map_filter' stores_ok_def)
  have good: "\<forall>r\<in>set ?ord. performable_ok (pl_UpkeepTypeGetter p) (pl_WorkIDGenerator p) r"
    unfolding ord using set_viewResults [OF assms(2), of now] st
    by (auto simp: FilterResults_filter stores_ok_def)
  obtain b where b: "ex_encode_observation ex ob = Inr b" using enc unfolding encoder_ok_def by blast
  have "addByPercentageExceeded (ex_encode_observation ex) ?ord (int (length b)) (int 100) ob \<noteq> None"
    using enc ob(2) b by (intro addBy_total) (auto simp: encoder_ok_def enc_len_def)
  then obtain ob' a e where r: "addByPercentageExceeded (ex_encode_observation ex) ?ord
      (int (length b)) (int 100) ob = Some (ob', a, e)" by auto
  from addBy_prefix [OF r] ob(2) obtain n where n: "n \<le> 100"
    "ob' = ob\<lparr>ao_Performable := take n ?ord\<rparr>" by auto
  have "distinct (map cr_WorkID (take n ?ord))" using dist by (simp flip: take_map)
  moreover have "\<forall>r\<in>set (take n ?ord). performable_ok (pl_UpkeepTypeGetter p) (pl_WorkIDGenerator p) r"
    using good by (blast dest: in_set_takeD)
  ultimately have "observation_ok (pl_UpkeepTypeGetter p) (pl_WorkIDGenerator p) ob'"
    unfolding n(2) using n(1) by (intro observation_ok_performables [OF ob(1)]) simp_all
  with r b show ?thesis by (simp add: AddFromStaging_RunHook_def Let_def)
qed

section \<open>Properties\<close>

text \<open>The plugin after the hooks on the previous outcome\<close>

definition after_hooks ::
    "externals \<Rightarrow> time \<Rightarrow> bytes option \<Rightarrow> ocr3Plugin \<Rightarrow> ocr3Plugin result" where
  "after_hooks ex now previousOutcome p =
     (case previousOutcome of
        None \<Rightarrow> Inr p
      | Some prev \<Rightarrow>
          (case DecodeAutomationOutcome (ex_decode_outcome ex) prev (pl_UpkeepTypeGetter p)
                  (pl_WorkIDGenerator p) of
             Inl err \<Rightarrow> Inl err | Inr oc \<Rightarrow> Inr (pre_build_hooks now oc p)))"

lemma plugin_Observation_after_hooks:
  "after_hooks ex now prev p = Inr p' \<Longrightarrow>
     plugin_Observation ex now ks seqNr prev p = build_observation ex now ks seqNr p'"
  by (auto simp: after_hooks_def plugin_Observation_def split: option.splits sum.splits)

text \<open>
  A node whose stores are in order builds an observation, and what it builds passes the
  validation of the other nodes: the block history is cut and has no duplicate numbers, there are
  at most five proposals of each type and a hundred results, without duplicate work ids, each
  valid by itself.
\<close>

lemma observation_of_stores_ok:
  assumes "after_hooks ex now prev p = Inr p'" and "stores_ok ex now p'"
    and "range_order (rs_data (pl_ResultStore p')) ks"
    and "workID_tells_upkeep (pl_WorkIDGenerator p')" and "encoder_ok ex"
  shows "\<exists>ob b. fst (plugin_Observation ex now ks seqNr prev p) = Inr b \<and>
    ex_encode_observation ex ob = Inr b \<and>
    observation_ok (pl_UpkeepTypeGetter p') (pl_WorkIDGenerator p') ob \<and>
    (ex_decode_observation ex b = Inr ob \<longrightarrow> plugin_ValidateObservation ex b p' = None)"
proof -
  let ?ob = "base_observation ex now seqNr p'"
  have "ao_Performable ?ob = []" by (simp add: base_observation_def Let_def)
  from staging_ok [OF assms(2,3,5) base_observation_ok [OF assms(2,4)] this] obtain ob' s where
    ob': "AddFromStaging_RunHook (ex_draw ex) (ex_encode_observation ex) now ks (pl_ResultStore p')
        (pl_Coordinator p') 100 (getRandomKeySource ex (pl_ConfigDigest p') (seqNr div 10))
        (pl_sorter p') ?ob = Inr (ob', s)"
      "observation_ok (pl_UpkeepTypeGetter p') (pl_WorkIDGenerator p') ob'" by blast
  obtain b where b: "ex_encode_observation ex ob' = Inr b"
    using assms(5) unfolding encoder_ok_def by blast
  have "fst (plugin_Observation ex now ks seqNr prev p) = Inr b"
    unfolding plugin_Observation_after_hooks [OF assms(1)]
    using ob'(1) b hooks_base_observation [OF refl refl, of ex now p' seqNr]
    by (simp add: build_observation_def Let_def)
  moreover have "DecodeAutomationObservation (ex_decode_observation ex) b (pl_UpkeepTypeGetter p')
      (pl_WorkIDGenerator p') = Inr ob'" if "ex_decode_observation ex b = Inr ob'"
    using that ob'(2) DecodeAutomationObservation_Inr by blast
  then have "ex_decode_observation ex b = Inr ob' \<longrightarrow> plugin_ValidateObservation ex b p' = None"
    by (simp add: plugin_ValidateObservation_def)
  ultimately show ?thesis using b ob'(2) by blast
qed

definition sample_node :: ocr3Plugin where
  "sample_node = (sample_plugin 5000000)\<lparr>pl_WorkIDGenerator := (\<lambda>u _. format_d (unat u))\<rparr>"

text \<open>
  A previous outcome that is empty but not nil is decoded all the same, and since an empty
  input is no JSON document the node returns an error instead of an observation.
\<close>

lemma empty_previous_outcome_is_decoded:
  assumes "ex_decode_outcome ex [] = Inl e"
  shows "plugin_Observation ex now ks seqNr (Some []) p = (Inl e, p) \<and>
    plugin_Outcome ex ksR ksB seqNr (Some []) aos p = Inl e"
  using assms by (simp add: plugin_Observation_def plugin_Outcome_def DecodeAutomationOutcome_def Let_def)

lemma empty_previous_outcome_is_decoded_witness:
  "plugin_Outcome sample_ex [] [] 7 (Some []) [] (sample_plugin 5) =
     Inl (External ''unexpected end of JSON input'')"
  using empty_previous_outcome_is_decoded [of sample_ex "External ''unexpected end of JSON input''"]
  by (simp add: sample_ex_def)

end
