(* ===== verification/Worker_Group.thy ===== *)
theory Worker_Group
  imports Interfaces
begin

text \<open>
  \<open>pkg/util/worker.go\<close>: the group of workers behind the check pipeline. Its goroutines (the
  callers of \<open>Do\<close>, the queuing loop, the processing loop, the workers and the readers of
  results) interleave; each of their atomic actions is a step of the relation \<open>wg_step\<close>. An item
  is identified by its value; \<open>exec\<close> is what running it returns. The name of a worker and the
  time an item took are left out.
\<close>

section \<open>The queue\<close>

definition Queue_Add :: "'a list \<Rightarrow> 'a list \<Rightarrow> 'a list" where
  "Queue_Add vals q = q @ vals"

definition Queue_Pop :: "'a list \<Rightarrow> ('a \<times> 'a list) result" where
  "Queue_Pop q =
     (if length q = 0 then Inl (External ''no values to return'')
      else Inr (q ! 0, if length q > 1 then drop 1 q else []))"

definition Queue_Len :: "'a list \<Rightarrow> nat" where
  "Queue_Len q = length q"

section \<open>The group\<close>

record 'j GroupedItem =
  gi_Group :: nat
  gi_Item :: 'j

record ('j, 'r) WorkItemResult =
  wr_Item :: 'j
  wr_Data :: "'r result"

text \<open>The processing loop waits for a notification, processes the queue, does so a last time, ends.\<close>

datatype phase = Waiting | Processing | LastRound | Ended

record ('j, 'r) WorkerGroup =
  wg_maxWorkers :: nat
  wg_activeWorkers :: nat
  wg_workers :: nat
  wg_queue :: "'j GroupedItem list"
  wg_input :: "'j GroupedItem list"
  wg_chInputNotify :: bool
  wg_resultData :: "nat \<rightharpoonup> ('j, 'r) WorkItemResult list"
  wg_resultNotify :: "nat \<rightharpoonup> bool"
  wg_chStopInputs :: bool
  wg_chStopProcessing :: bool
  wg_queueClosed :: bool
  wg_svcStopped :: bool
  wg_senders :: "'j GroupedItem list"
  wg_queuing :: bool
  wg_phase :: phase
  wg_busy :: "'j GroupedItem list"

definition NewWorkerGroup :: "nat \<Rightarrow> ('j, 'r) WorkerGroup" where
  "NewWorkerGroup workers =
     \<lparr>wg_maxWorkers = workers, wg_activeWorkers = 0, wg_workers = 0, wg_queue = [], wg_input = [],
      wg_chInputNotify = False, wg_resultData = Map.empty, wg_resultNotify = Map.empty,
      wg_chStopInputs = False, wg_chStopProcessing = False, wg_queueClosed = False,
      wg_svcStopped = False, wg_senders = [], wg_queuing = True, wg_phase = Waiting, wg_busy = []\<rparr>"

text \<open>Creating the entries of a group where they are missing, as \<open>Do\<close> and \<open>storeResult\<close> do\<close>

definition ensure_group :: "nat \<Rightarrow> ('j, 'r) WorkerGroup \<Rightarrow> ('j, 'r) WorkerGroup" where
  "ensure_group grp w =
     (let w1 = (if wg_resultData w grp = None
                then w\<lparr>wg_resultData := (wg_resultData w)(grp \<mapsto> [])\<rparr> else w)
      in if wg_resultNotify w1 grp = None
         then w1\<lparr>wg_resultNotify := (wg_resultNotify w1)(grp \<mapsto> False)\<rparr> else w1)"

text \<open>
  \<open>Do\<close> up to its \<open>select\<close>: the two early returns, then the caller waits to send. The \<open>select\<close>
  itself is a step below: the send needs room in the input channel (one place), the other cases
  a cancelled context or a closed stop channel.
\<close>

definition Do_enter ::
    "bool \<Rightarrow> 'j GroupedItem \<Rightarrow> ('j, 'r) WorkerGroup \<Rightarrow> ('j, 'r) WorkerGroup result" where
  "Do_enter ctxErr gi w =
     (if ctxErr then Inl (External ''worker context cancelled'')
      else if wg_queueClosed w then Inl (External ''worker process has stopped'')
      else Inr ((ensure_group (gi_Group gi) w)\<lparr>wg_senders := wg_senders w @ [gi]\<rparr>))"

definition NotifyResult :: "nat \<Rightarrow> ('j, 'r) WorkerGroup \<Rightarrow> bool \<times> ('j, 'r) WorkerGroup" where
  "NotifyResult grp w =
     (case wg_resultNotify w grp of
        None \<Rightarrow> (False, w\<lparr>wg_resultNotify := (wg_resultNotify w)(grp \<mapsto> False)\<rparr>)
      | Some b \<Rightarrow> (b, w))"

definition wg_Results ::
    "nat \<Rightarrow> ('j, 'r) WorkerGroup \<Rightarrow> ('j, 'r) WorkItemResult list \<times> ('j, 'r) WorkerGroup" where
  "wg_Results grp w =
     (let w' = w\<lparr>wg_resultData := (wg_resultData w)(grp \<mapsto> [])\<rparr>
      in case wg_resultData w grp of
           None \<Rightarrow> ([], w')
         | Some resultData \<Rightarrow> (if length resultData > 1 then rev resultData else resultData, w'))"

definition RemoveGroup :: "nat \<Rightarrow> ('j, 'r) WorkerGroup \<Rightarrow> ('j, 'r) WorkerGroup" where
  "RemoveGroup grp w =
     w\<lparr>wg_resultData := (wg_resultData w)(grp := None),
       wg_resultNotify := (wg_resultNotify w)(grp := None)\<rparr>"

definition storeResult ::
    "nat \<Rightarrow> ('j, 'r) WorkItemResult \<Rightarrow> ('j, 'r) WorkerGroup \<Rightarrow> ('j, 'r) WorkerGroup" where
  "storeResult grp res w =
     (let w1 = ensure_group grp w
      in w1\<lparr>wg_resultData :=
              (wg_resultData w1)(grp \<mapsto> res # the (wg_resultData w1 grp)),
            wg_resultNotify := (wg_resultNotify w1)(grp \<mapsto> True)\<rparr>)"

text \<open>\<open>doJob\<close>: a new worker while there may be more, else one that waits in the channel\<close>

definition doJob :: "'j GroupedItem \<Rightarrow> ('j, 'r) WorkerGroup \<Rightarrow> ('j, 'r) WorkerGroup result" where
  "doJob item w =
     (if wg_activeWorkers w < wg_maxWorkers w
      then Inr (w\<lparr>wg_activeWorkers := wg_activeWorkers w + 1, wg_busy := wg_busy w @ [item]\<rparr>)
      else if wg_workers w > 0
      then Inr (w\<lparr>wg_workers := wg_workers w - 1, wg_busy := wg_busy w @ [item]\<rparr>)
      else Inl Blocked)"

text \<open>
  A worker's \<open>Do\<close>: it runs the item unless its context is done, stores the result and puts itself
  back on the channel of workers, which has room for all of them.
\<close>

definition worker_Do ::
    "('j \<Rightarrow> 'r result) \<Rightarrow> 'j GroupedItem \<Rightarrow> ('j, 'r) WorkerGroup \<Rightarrow> ('j, 'r) WorkerGroup" where
  "worker_Do exec item w =
     (let data = (if wg_svcStopped w then Inl (External ''context canceled'')
                  else exec (gi_Item item));
          w1 = storeResult (gi_Group item) \<lparr>wr_Item = gi_Item item, wr_Data = data\<rparr> w;
          w2 = w1\<lparr>wg_busy := remove1 item (wg_busy w1)\<rparr>
      in if wg_workers w2 < wg_maxWorkers w2 then w2\<lparr>wg_workers := wg_workers w2 + 1\<rparr> else w2)"

text \<open>\<open>Stop\<close> runs once; the queuing loop then hands the signal on to the processing loop.\<close>

definition wg_Stop :: "('j, 'r) WorkerGroup \<Rightarrow> ('j, 'r) WorkerGroup" where
  "wg_Stop w =
     (if wg_svcStopped w then w
      else w\<lparr>wg_svcStopped := True, wg_queueClosed := True, wg_chStopInputs := True\<rparr>)"

section \<open>The interleaving\<close>

text \<open>
  A configuration is the group with the items that were sent into it and the results that were
  read from it, in order.
\<close>

type_synonym ('j, 'r) wg_config =
  "('j, 'r) WorkerGroup \<times> 'j GroupedItem list \<times> (nat \<times> ('j, 'r) WorkItemResult) list"

inductive wg_step ::
    "('j \<Rightarrow> 'r result) \<Rightarrow> ('j, 'r) wg_config \<Rightarrow> ('j, 'r) wg_config \<Rightarrow> bool" for exec where
  do_enter: "Do_enter False gi w = Inr w' \<Longrightarrow> wg_step exec (w, sent, read) (w', sent, read)"
| do_send: "wg_senders w = xs @ gi # ys \<Longrightarrow> wg_input w = [] \<Longrightarrow>
    wg_step exec (w, sent, read) (w\<lparr>wg_senders := xs @ ys, wg_input := [gi]\<rparr>, sent @ [gi], read)"
| do_give_up: "wg_senders w = xs @ gi # ys \<Longrightarrow>
    wg_step exec (w, sent, read) (w\<lparr>wg_senders := xs @ ys\<rparr>, sent, read)"
| queue_input: "wg_queuing w \<Longrightarrow> wg_input w = [gi] \<Longrightarrow>
    wg_step exec (w, sent, read)
      (w\<lparr>wg_input := [], wg_queue := Queue_Add [gi] (wg_queue w), wg_chInputNotify := True\<rparr>, sent, read)"
| stop: "wg_step exec (w, sent, read) (wg_Stop w, sent, read)"
| stop_queuing: "wg_queuing w \<Longrightarrow> wg_chStopInputs w \<Longrightarrow>
    wg_step exec (w, sent, read)
      (w\<lparr>wg_chStopInputs := False, wg_queuing := False, wg_chStopProcessing := True\<rparr>, sent, read)"
| wake: "wg_phase w = Waiting \<Longrightarrow> wg_chInputNotify w \<Longrightarrow>
    wg_step exec (w, sent, read) (w\<lparr>wg_chInputNotify := False, wg_phase := Processing\<rparr>, sent, read)"
| stop_processing: "wg_phase w = Waiting \<Longrightarrow> wg_chStopProcessing w \<Longrightarrow>
    wg_step exec (w, sent, read) (w\<lparr>wg_chStopProcessing := False, wg_phase := LastRound\<rparr>, sent, read)"
| dispatch: "wg_phase w = Processing \<or> wg_phase w = LastRound \<Longrightarrow>
    Queue_Pop (wg_queue w) = Inr (gi, q) \<Longrightarrow> doJob gi (w\<lparr>wg_queue := q\<rparr>) = Inr w' \<Longrightarrow>
    wg_step exec (w, sent, read) (w', sent, read)"
| processed: "wg_phase w = Processing \<Longrightarrow> Queue_Len (wg_queue w) = 0 \<Longrightarrow>
    wg_step exec (w, sent, read) (w\<lparr>wg_phase := Waiting\<rparr>, sent, read)"
| finished: "wg_phase w = LastRound \<Longrightarrow> Queue_Len (wg_queue w) = 0 \<Longrightarrow>
    wg_step exec (w, sent, read) (w\<lparr>wg_phase := Ended\<rparr>, sent, read)"
| complete: "item \<in> set (wg_busy w) \<Longrightarrow>
    wg_step exec (w, sent, read) (worker_Do exec item w, sent, read)"
| read_results: "wg_resultNotify w grp = Some True \<Longrightarrow>
    wg_Results grp (w\<lparr>wg_resultNotify := (wg_resultNotify w)(grp \<mapsto> False)\<rparr>) = (rs, w') \<Longrightarrow>
    wg_step exec (w, sent, read) (w', sent, read @ map (Pair grp) rs)"

inductive wg_reachable ::
    "('j \<Rightarrow> 'r result) \<Rightarrow> nat \<Rightarrow> ('j, 'r) wg_config \<Rightarrow> bool" for exec n where
  wg_init: "wg_reachable exec n (NewWorkerGroup n, [], [])"
| wg_next: "wg_reachable exec n s \<Longrightarrow> wg_step exec s s' \<Longrightarrow> wg_reachable exec n s'"

inductive_cases wg_stepE: "wg_step exec s s'"

section \<open>Invariant\<close>

definition stored :: "nat \<Rightarrow> ('j, 'r) WorkerGroup \<Rightarrow> ('j, 'r) WorkItemResult list" where
  "stored g w = (case wg_resultData w g of None \<Rightarrow> [] | Some rs \<Rightarrow> rs)"

definition of_group :: "nat \<Rightarrow> 'j GroupedItem list \<Rightarrow> 'j multiset" where
  "of_group g xs = mset (map gi_Item (filter (\<lambda>i. gi_Group i = g) xs))"

definition read_items :: "nat \<Rightarrow> (nat \<times> ('j, 'r) WorkItemResult) list \<Rightarrow> 'j multiset" where
  "read_items g rs = mset (map (wr_Item \<circ> snd) (filter (\<lambda>r. fst r = g) rs))"

lemma of_group_append [simp]: "of_group g (xs @ ys) = of_group g xs + of_group g ys"
  by (simp add: of_group_def)

lemma of_group_Cons [simp]:
  "of_group g (x # xs) = (if gi_Group x = g then {#gi_Item x#} else {#}) + of_group g xs"
  by (simp add: of_group_def)

lemma of_group_Nil [simp]: "of_group g [] = {#}"
  by (simp add: of_group_def)

lemma of_group_remove1:
  "x \<in> set xs \<Longrightarrow>
     of_group g xs = (if gi_Group x = g then {#gi_Item x#} else {#}) + of_group g (remove1 x xs)"
  by (induction xs) auto

text \<open>
  Workers are conserved and bounded; every item sent is in exactly one place; a queue that is
  not empty and a result that is not read have a pending notification.
\<close>

definition wg_inv :: "('j, 'r) wg_config \<Rightarrow> bool" where
  "wg_inv s \<longleftrightarrow> (case s of (w, sent, read) \<Rightarrow>
     length (wg_busy w) + wg_workers w = wg_activeWorkers w \<and>
     wg_activeWorkers w \<le> wg_maxWorkers w \<and>
     (\<forall>g. of_group g sent = of_group g (wg_input w) + of_group g (wg_queue w) +
        of_group g (wg_busy w) + mset (map wr_Item (stored g w)) + read_items g read) \<and>
     (wg_phase w = Waiting \<and> wg_queue w \<noteq> [] \<longrightarrow> wg_chInputNotify w) \<and>
     (\<forall>g. stored g w \<noteq> [] \<longrightarrow> wg_resultNotify w g = Some True))"

lemma ensure_group_simps [simp]:
  "wg_maxWorkers (ensure_group g w) = wg_maxWorkers w"
  "wg_activeWorkers (ensure_group g w) = wg_activeWorkers w"
  "wg_workers (ensure_group g w) = wg_workers w" "wg_queue (ensure_group g w) = wg_queue w"
  "wg_input (ensure_group g w) = wg_input w" "wg_busy (ensure_group g w) = wg_busy w"
  "wg_chInputNotify (ensure_group g w) = wg_chInputNotify w"
  "wg_phase (ensure_group g w) = wg_phase w" "stored h (ensure_group g w) = stored h w"
  by (auto simp: ensure_group_def stored_def Let_def)

lemma ensure_group_notify:
  "wg_resultNotify w h = Some b \<Longrightarrow> wg_resultNotify (ensure_group g w) h = Some b"
  by (auto simp: ensure_group_def Let_def)

lemma ensure_group_data: "wg_resultData (ensure_group g w) g = Some (stored g w)"
  by (auto simp: ensure_group_def stored_def Let_def split: option.split)

lemma storeResult_simps [simp]:
  "wg_maxWorkers (storeResult g r w) = wg_maxWorkers w"
  "wg_activeWorkers (storeResult g r w) = wg_activeWorkers w"
  "wg_workers (storeResult g r w) = wg_workers w" "wg_queue (storeResult g r w) = wg_queue w"
  "wg_input (storeResult g r w) = wg_input w" "wg_busy (storeResult g r w) = wg_busy w"
  "wg_chInputNotify (storeResult g r w) = wg_chInputNotify w"
  "wg_phase (storeResult g r w) = wg_phase w"
  "stored h (storeResult g r w) = (if h = g then r # stored g w else stored h w)"
  by (auto simp: storeResult_def Let_def stored_def ensure_group_data [unfolded stored_def]
      ensure_group_def)

lemma storeResult_notify:
  "wg_resultNotify (storeResult g r w) g = Some True"
  "wg_resultNotify w h = Some True \<Longrightarrow> wg_resultNotify (storeResult g r w) h = Some True"
  by (auto simp: storeResult_def Let_def dest: ensure_group_notify [of _ _ _ g])

lemma wg_inv_step_complete:
  assumes "wg_inv (w, sent, read)" and "item \<in> set (wg_busy w)"
  shows "wg_inv (worker_Do exec item w, sent, read)"
proof -
  let ?r = "\<lparr>wr_Item = gi_Item item, wr_Data = (if wg_svcStopped w
    then Inl (External ''context canceled'') else exec (gi_Item item))\<rparr>"
  let ?s = "storeResult (gi_Group item) ?r w"
  have inv: "length (wg_busy w) + wg_workers w = wg_activeWorkers w"
      "wg_activeWorkers w \<le> wg_maxWorkers w"
      "\<And>g. of_group g sent = of_group g (wg_input w) + of_group g (wg_queue w) +
        of_group g (wg_busy w) + mset (map wr_Item (stored g w)) + read_items g read"
      "wg_phase w = Waiting \<and> wg_queue w \<noteq> [] \<longrightarrow> wg_chInputNotify w"
      "\<And>g. stored g w \<noteq> [] \<Longrightarrow> wg_resultNotify w g = Some True"
    using assms(1) by (simp_all add: wg_inv_def)
  have len: "length (wg_busy w) = Suc (length (remove1 item (wg_busy w)))"
    using assms(2) by (simp add: length_remove1) (metis Suc_pred length_pos_if_in_set)
  have eq: "worker_Do exec item w =
      ?s\<lparr>wg_busy := remove1 item (wg_busy w), wg_workers := wg_workers w + 1\<rparr>"
    using len inv(1,2) by (simp add: worker_Do_def Let_def)
  have st: "stored g (worker_Do exec item w) = stored g ?s" for g
    unfolding eq by (simp add: stored_def)
  have "of_group g sent = of_group g (wg_input w) + of_group g (wg_queue w) +
      of_group g (remove1 item (wg_busy w)) + mset (map wr_Item (stored g ?s)) + read_items g read" for g
    using inv(3) [of g] of_group_remove1 [OF assms(2), of g] by auto
  moreover have "wg_resultNotify ?s g = Some True" if "stored g ?s \<noteq> []" for g
    using that inv(5) [of g] storeResult_notify [where w = w]
    by (cases "g = gi_Group item") auto
  ultimately show ?thesis
    using inv(1,2,4) len unfolding wg_inv_def prod.case st by (simp add: eq)
qed

lemma wg_inv_step_dispatch:
  assumes "wg_inv (w, sent, read)" and "Queue_Pop (wg_queue w) = Inr (gi, q)"
    and "doJob gi (w\<lparr>wg_queue := q\<rparr>) = Inr w'"
  shows "wg_inv (w', sent, read)"
proof -
  have q: "wg_queue w = gi # q"
    using assms(2) by (cases "wg_queue w") (auto simp: Queue_Pop_def split: if_splits)
  have "stored g w' = stored g w" for g
    using assms(3) by (auto simp: doJob_def stored_def split: if_splits)
  then show ?thesis
    using assms(1,3) q unfolding wg_inv_def prod.case
    by (auto simp: doJob_def split: if_splits)
qed

lemma wg_inv_step_read:
  assumes "wg_inv (w, sent, read)"
    and "wg_Results grp (w\<lparr>wg_resultNotify := (wg_resultNotify w)(grp \<mapsto> False)\<rparr>) = (rs, w')"
  shows "wg_inv (w', sent, read @ map (Pair grp) rs)"
proof -
  have w': "w' = w\<lparr>wg_resultNotify := (wg_resultNotify w)(grp \<mapsto> False),
      wg_resultData := (wg_resultData w)(grp \<mapsto> [])\<rparr>"
    using assms(2) by (auto simp: wg_Results_def Let_def split: option.splits)
  have rs: "mset rs = mset (stored grp w)"
    using assms(2) by (auto simp: wg_Results_def Let_def stored_def split: option.splits)
  have items: "read_items g (read @ map (Pair grp) rs) =
      read_items g read + (if g = grp then mset (map wr_Item (stored grp w)) else {#})" for g
    using rs by (auto simp: read_items_def filter_map o_def)
  have "stored g w' = (if g = grp then [] else stored g w)" for g
    by (simp add: w' stored_def)
  then show ?thesis
    using assms(1) unfolding wg_inv_def prod.case items by (auto simp: w')
qed

lemma wg_inv_step: "wg_step exec s s' \<Longrightarrow> wg_inv s \<Longrightarrow> wg_inv s'"
proof (induction rule: wg_step.induct)
  case (do_enter gi w w' sent read)
  then have w': "w' = (ensure_group (gi_Group gi) w)\<lparr>wg_senders := wg_senders w @ [gi]\<rparr>"
    by (auto simp: Do_enter_def split: if_splits)
  have "stored g w' = stored g w" for g
    using ensure_group_simps(9) [of g "gi_Group gi" w] by (simp add: w' stored_def)
  then show ?case
    using do_enter.prems ensure_group_notify [of w _ _ "gi_Group gi"]
    unfolding wg_inv_def prod.case by (simp add: w')
next
  case (dispatch w gi q w' sent read)
  then show ?case by (blast intro: wg_inv_step_dispatch)
next
  case (complete item w sent read)
  then show ?case by (blast intro: wg_inv_step_complete)
next
  case (read_results w grp rs w' sent read)
  then show ?case by (blast intro: wg_inv_step_read)
qed (auto simp: wg_inv_def stored_def Queue_Add_def Queue_Len_def wg_Stop_def split: if_splits)

lemma wg_reachable_inv: "wg_reachable exec n s \<Longrightarrow> wg_inv s"
proof (induction rule: wg_reachable.induct)
  case wg_init
  then show ?case by (simp add: wg_inv_def NewWorkerGroup_def stored_def read_items_def)
qed (rule wg_inv_step)

lemma wg_max_step: "wg_step exec s s' \<Longrightarrow> wg_maxWorkers (fst s') = wg_maxWorkers (fst s)"
  by (induction rule: wg_step.induct)
    (auto simp: Do_enter_def wg_Stop_def doJob_def worker_Do_def wg_Results_def Let_def
      split: if_splits option.splits)

lemma wg_max_reachable: "wg_reachable exec n s \<Longrightarrow> wg_maxWorkers (fst s) = n"
  by (induction rule: wg_reachable.induct) (simp_all add: NewWorkerGroup_def wg_max_step)

text \<open>Until it is stopped, the group keeps taking input and processing.\<close>

definition wg_alive :: "('j, 'r) WorkerGroup \<Rightarrow> bool" where
  "wg_alive w \<longleftrightarrow> wg_svcStopped w \<or>
     wg_queuing w \<and> \<not> wg_chStopInputs w \<and> \<not> wg_chStopProcessing w \<and> length (wg_input w) \<le> 1 \<and>
     (wg_phase w = Waiting \<or> wg_phase w = Processing)"

lemma ensure_group_alive [simp]: "wg_alive (ensure_group g w) = wg_alive w"
  by (auto simp: ensure_group_def wg_alive_def Let_def)

lemma wg_alive_step: "wg_step exec s s' \<Longrightarrow> wg_alive (fst s) \<Longrightarrow> wg_alive (fst s')"
proof (induction rule: wg_step.induct)
  case (do_enter gi w w' sent read)
  then show ?case
    using ensure_group_alive [of "gi_Group gi" w]
    by (auto simp: Do_enter_def wg_alive_def split: if_splits)
next
  case (complete item w sent read)
  have "wg_alive (storeResult g r w) = wg_alive w" for g r
    using ensure_group_alive [of g w] by (simp add: storeResult_def wg_alive_def Let_def)
  with complete show ?case by (auto simp: worker_Do_def wg_alive_def Let_def)
qed (auto simp: wg_alive_def wg_Stop_def doJob_def wg_Results_def Let_def
      split: if_splits option.splits)

lemma wg_alive_reachable: "wg_reachable exec n s \<Longrightarrow> wg_alive (fst s)"
  by (induction rule: wg_reachable.induct)
    (simp_all add: wg_alive_step, simp add: wg_alive_def NewWorkerGroup_def)

text \<open>Some goroutine of the group, or a reader with a notification, can act.\<close>

definition wg_enabled :: "('j, 'r) WorkerGroup \<Rightarrow> bool" where
  "wg_enabled w \<longleftrightarrow>
     wg_queuing w \<and> wg_input w \<noteq> [] \<or>
     wg_phase w = Waiting \<and> wg_chInputNotify w \<or>
     wg_phase w = Processing \<and>
       (wg_queue w = [] \<or> wg_activeWorkers w < wg_maxWorkers w \<or> 0 < wg_workers w) \<or>
     wg_busy w \<noteq> [] \<or> (\<exists>g. wg_resultNotify w g = Some True)"

lemma quiescent_all_read:
  assumes "wg_inv (w, sent, read)" "wg_alive w" "\<not> wg_svcStopped w" "0 < wg_maxWorkers w"
    and "\<not> wg_enabled w"
  shows "of_group g sent = read_items g read"
proof -
  have "wg_busy w = []" "\<forall>g. wg_resultNotify w g \<noteq> Some True" "wg_queuing w \<Longrightarrow> wg_input w = []"
    using assms(5) by (auto simp: wg_enabled_def)
  moreover have "wg_queuing w" "wg_phase w = Waiting \<or> wg_phase w = Processing"
    using assms(2,3) by (auto simp: wg_alive_def)
  moreover have "wg_phase w \<noteq> Processing"
    using assms(1,4,5) \<open>wg_busy w = []\<close> by (auto simp: wg_enabled_def wg_inv_def)
  moreover have "wg_queue w = []" if "wg_phase w = Waiting"
    using assms(1,5) that by (auto simp: wg_inv_def wg_enabled_def)
  moreover have "stored g w = []"
    using assms(1) \<open>\<forall>g. wg_resultNotify w g \<noteq> Some True\<close> by (auto simp: wg_inv_def)
  ultimately show ?thesis using assms(1) by (auto simp: wg_inv_def)
qed

section \<open>Properties\<close>

text \<open>
  In every interleaving at most the configured number of items run at once, and of every group
  no more results are read than items were sent: each result belongs to an item that was sent,
  and no item's result is read twice.
\<close>

lemma worker_group_reads_each_once:
  assumes "wg_reachable exec n (w, sent, read)"
  shows "length (wg_busy w) \<le> n \<and> read_items g read \<subseteq># of_group g sent"
proof -
  have "wg_inv (w, sent, read)" "wg_maxWorkers w = n"
    using wg_reachable_inv [OF assms] wg_max_reachable [OF assms] by simp_all
  then show ?thesis by (auto simp: wg_inv_def)
qed

text \<open>A complete run: one item is sent, queued, dispatched, run and read.\<close>

definition sample_item :: "nat GroupedItem" where
  "sample_item = \<lparr>gi_Group = 1, gi_Item = 7\<rparr>"

lemma sample_run:
  "\<exists>w. wg_reachable Inr 2 (w, [sample_item], [(1, \<lparr>wr_Item = 7, wr_Data = Inr 7\<rparr>)]) \<and>
     \<not> wg_svcStopped w \<and> \<not> wg_enabled w"
proof -
  let ?exec = "Inr :: nat \<Rightarrow> nat result"
  let ?w0 = "NewWorkerGroup 2 :: (nat, nat) WorkerGroup"
  let ?w1 = "?w0\<lparr>wg_resultData := [1 \<mapsto> []], wg_resultNotify := [1 \<mapsto> False], wg_senders := [sample_item]\<rparr>"
  let ?w2 = "?w1\<lparr>wg_senders := [] @ [], wg_input := [sample_item]\<rparr>"
  let ?w3 = "?w2\<lparr>wg_input := [], wg_queue := Queue_Add [sample_item] (wg_queue ?w2), wg_chInputNotify := True\<rparr>"
  let ?w4 = "?w3\<lparr>wg_chInputNotify := False, wg_phase := Processing\<rparr>"
  let ?w5 = "?w4\<lparr>wg_queue := [], wg_activeWorkers := 1, wg_busy := [sample_item]\<rparr>"
  let ?w6 = "worker_Do ?exec sample_item ?w5"
  let ?w7 = "?w6\<lparr>wg_phase := Waiting\<rparr>"
  let ?rs = "[\<lparr>wr_Item = 7, wr_Data = Inr 7\<rparr>]"
  let ?w8 = "?w7\<lparr>wg_resultNotify := (wg_resultNotify ?w7)(1 \<mapsto> False), wg_resultData := (wg_resultData ?w7)(1 \<mapsto> [])\<rparr>"
  note defs = NewWorkerGroup_def sample_item_def Queue_Add_def Queue_Pop_def Queue_Len_def
    doJob_def worker_Do_def storeResult_def ensure_group_def wg_Results_def Let_def
  have "wg_reachable ?exec 2 (?w1, [], [])"
    by (rule wg_next [OF wg_init do_enter [of sample_item]]) (simp add: Do_enter_def defs)
  then have "wg_reachable ?exec 2 (?w2, [] @ [sample_item], [])"
    by (rule wg_next [OF _ do_send]) (simp_all add: defs)
  then have "wg_reachable ?exec 2 (?w3, [] @ [sample_item], [])"
    by (rule wg_next [OF _ queue_input]) (simp_all add: defs)
  then have "wg_reachable ?exec 2 (?w4, [] @ [sample_item], [])"
    by (rule wg_next [OF _ wake]) (simp_all add: defs)
  then have "wg_reachable ?exec 2 (?w5, [] @ [sample_item], [])"
    by (rule wg_next [OF _ dispatch [of _ sample_item "[]"]]) (simp_all add: defs)
  then have "wg_reachable ?exec 2 (?w6, [] @ [sample_item], [])"
    by (rule wg_next [OF _ complete]) (simp add: defs)
  then have "wg_reachable ?exec 2 (?w7, [] @ [sample_item], [])"
    by (rule wg_next [OF _ processed]) (simp_all add: defs)
  then have "wg_reachable ?exec 2 (?w8, [] @ [sample_item], [] @ map (Pair 1) ?rs)"
    by (rule wg_next [OF _ read_results]) (simp_all add: defs)
  moreover have "\<not> wg_svcStopped ?w8" "\<not> wg_enabled ?w8"
    by (simp_all add: defs wg_enabled_def)
  ultimately show ?thesis by auto
qed

lemma worker_group_reads_each_once_witness:
  "read_items 1 [(1, \<lparr>wr_Item = 7 :: nat, wr_Data = Inr (7 :: nat)\<rparr>)] \<subseteq># of_group 1 [sample_item]"
  using sample_run worker_group_reads_each_once by blast

text \<open>
  C19: no wake-up is lost. As long as the group is not stopped and has a worker, it can only come
  to rest, with nothing that any of its goroutines or a notified reader could do, when the
  result of every item ever sent has been read.
\<close>

theorem worker_group_rests_only_when_done:
  assumes "wg_reachable exec n (w, sent, read)" and "\<not> wg_svcStopped w" and "0 < n"
    and "\<not> wg_enabled w"
  shows "of_group g sent = read_items g read"
  using quiescent_all_read [OF wg_reachable_inv [OF assms(1)]] wg_alive_reachable [OF assms(1)]
    wg_max_reachable [OF assms(1)] assms(2-4) by simp

theorem worker_group_rests_only_when_done_witness:
  "of_group 1 [sample_item] = read_items 1 [(1, \<lparr>wr_Item = 7 :: nat, wr_Data = Inr (7 :: nat)\<rparr>)]"
  using sample_run worker_group_rests_only_when_done [of Inr 2] by (metis zero_less_numeral)

text \<open>An input that the queuing loop left behind stays there.\<close>

lemma stranded_step:
  "wg_step exec s s' \<Longrightarrow> \<not> wg_queuing (fst s) \<and> wg_input (fst s) = [gi] \<Longrightarrow>
     \<not> wg_queuing (fst s') \<and> wg_input (fst s') = [gi]"
proof (induction rule: wg_step.induct)
  case (do_enter gi' w w' sent read)
  then show ?case by (auto simp: Do_enter_def ensure_group_def Let_def split: if_splits)
next
  case (complete item w sent read)
  then show ?case by (auto simp: worker_Do_def storeResult_def ensure_group_def Let_def)
qed (auto simp: wg_Stop_def doJob_def wg_Results_def Let_def split: if_splits option.splits)

text \<open>
  Stopping can strand an item. A caller that passed the check before the group was stopped
  may still send its item after the queuing loop has ended; the item then stays in the input
  channel whatever happens, and its result never comes.
\<close>

lemma stop_strands_sent_item:
  "\<exists>w. wg_reachable exec n (w, [gi], []) \<and>
     (\<forall>s. (wg_step exec)\<^sup>*\<^sup>* (w, [gi], []) s \<longrightarrow> wg_input (fst s) = [gi])"
proof -
  let ?w0 = "NewWorkerGroup n :: ('a, 'b) WorkerGroup"
  let ?w1 = "(ensure_group (gi_Group gi) ?w0)\<lparr>wg_senders := [gi]\<rparr>"
  let ?w2 = "wg_Stop ?w1"
  let ?w3 = "?w2\<lparr>wg_chStopInputs := False, wg_queuing := False, wg_chStopProcessing := True\<rparr>"
  let ?w4 = "?w3\<lparr>wg_senders := [] @ [], wg_input := [gi]\<rparr>"
  note defs = wg_Stop_def ensure_group_def NewWorkerGroup_def Let_def
  have "wg_reachable exec n (?w1, [], [])"
    by (rule wg_next [OF wg_init do_enter [of gi]]) (simp add: Do_enter_def NewWorkerGroup_def)
  then have "wg_reachable exec n (?w2, [], [])"
    by (rule wg_next [OF _ stop])
  then have "wg_reachable exec n (?w3, [], [])"
    by (rule wg_next [OF _ stop_queuing]) (simp_all add: defs)
  then have "wg_reachable exec n (?w4, [] @ [gi], [])"
    by (rule wg_next [OF _ do_send]) (simp_all add: defs)
  then have "wg_reachable exec n (?w4, [gi], [])" by simp
  moreover have "\<not> wg_queuing (fst s) \<and> wg_input (fst s) = [gi]"
    if "(wg_step exec)\<^sup>*\<^sup>* (?w4, [gi], []) s" for s
    using that by (induction rule: rtranclp_induct) (simp, blast dest: stranded_step)
  ultimately show ?thesis by blast
qed

lemma stop_strands_sent_item_witness:
  "\<exists>w :: (nat, nat) WorkerGroup. wg_reachable (\<lambda>_. Inr 0) 4 (w, [\<lparr>gi_Group = 1, gi_Item = 7\<rparr>], [])"
  using stop_strands_sent_item by blast

text \<open>
  A reader that asks for its notification channel after its group was removed creates the entry
  again, and nothing removes it any more.
\<close>

lemma notify_recreates_group:
  "wg_resultNotify (snd (NotifyResult g (RemoveGroup g w))) g = Some False"
  by (simp add: NotifyResult_def RemoveGroup_def)

end
