(* ===== verification/Runner.thy ===== *)
theory Runner
  imports Util_Cache Worker_Group Samples
begin

text \<open>
  \<open>pkg/v3/runner\<close>: the check pipeline's runner, with its result accumulator, its batching
  (\<open>internal/util/array.go\<close>, \<open>Unflatten\<close>) and its cache. The runnable behind it is an argument.
  Batches run in parallel on the worker group, which delivers the result of every batch once
  (theory \<open>Worker_Group\<close>), in the order in which they complete: that order is an argument of
  \<open>RunJobs\<close>, a list of indices of batches.
\<close>

section \<open>The accumulated result\<close>

record 'a run_result =
  rr_successes :: int
  rr_failures :: int
  rr_err :: "go_error option"
  rr_values :: "'a list"

definition newResult :: "'a run_result" where
  "newResult = \<lparr>rr_successes = 0, rr_failures = 0, rr_err = None, rr_values = []\<rparr>"

definition AddSuccesses :: "int \<Rightarrow> 'a run_result \<Rightarrow> 'a run_result" where
  "AddSuccesses v r = r\<lparr>rr_successes := rr_successes r + v\<rparr>"

definition AddFailures :: "int \<Rightarrow> 'a run_result \<Rightarrow> 'a run_result" where
  "AddFailures v r = r\<lparr>rr_failures := rr_failures r + v\<rparr>"

definition SetErr :: "go_error \<Rightarrow> 'a run_result \<Rightarrow> 'a run_result" where
  "SetErr err r = r\<lparr>rr_err := Some err\<rparr>"

definition Total :: "'a run_result \<Rightarrow> int" where
  "Total r = rr_successes r + rr_failures r"

definition result_Add :: "'a \<Rightarrow> 'a run_result \<Rightarrow> 'a run_result" where
  "result_Add res r = r\<lparr>rr_values := rr_values r @ [res]\<rparr>"

lemmas run_result_defs = newResult_def AddSuccesses_def AddFailures_def SetErr_def Total_def
  result_Add_def

section \<open>Batches\<close>

text \<open>
  \<open>Unflatten\<close>: consecutive groups of \<open>size\<close> elements. With a size of zero the loop of the source
  does not advance: \<^const>\<open>None\<close>.
\<close>

function unflatten_from :: "nat \<Rightarrow> 'a list \<Rightarrow> nat \<Rightarrow> 'a list list" where
  "unflatten_from sz b i =
     (if 0 < sz \<and> i < length b
      then let j = (if i + sz > length b then length b else i + sz)
           in take (j - i) (drop i b) # unflatten_from sz b (i + sz)
      else [])"
  by pat_completeness auto
termination by (relation "measure (\<lambda>(sz, b, i). length b - i)") auto

declare unflatten_from.simps [simp del]

definition Unflatten :: "'a list \<Rightarrow> nat \<Rightarrow> 'a list list option" where
  "Unflatten b sz = (if sz = 0 \<and> b \<noteq> [] then None else Some (unflatten_from sz b 0))"

lemma concat_unflatten_from: "0 < sz \<Longrightarrow> concat (unflatten_from sz b i) = drop i b"
proof (induction sz b i rule: unflatten_from.induct)
  case (1 sz b i)
  show ?case
  proof (cases "i < length b")
    case True
    have "take (min (length b) (i + sz) - i) (drop i b) @ drop (i + sz) b = drop i b"
      by (simp add: min_def) (metis add.commute append_take_drop_id drop_drop)
    then show ?thesis
      using 1 True by (subst unflatten_from.simps) (auto simp: Let_def min_def split: if_splits)
  next
    case False
    then show ?thesis by (subst unflatten_from.simps) simp
  qed
qed

lemma unflatten_from_group:
  "g \<in> set (unflatten_from sz b i) \<Longrightarrow> g \<noteq> [] \<and> length g \<le> sz"
proof (induction sz b i rule: unflatten_from.induct)
  case (1 sz b i)
  then show ?case
    by (subst (asm) (2) unflatten_from.simps) (auto simp: Let_def split: if_splits)
qed

section \<open>The runner\<close>

definition WorkerBatchLimit :: nat where "WorkerBatchLimit = 10"

record Runner =
  rn_workers :: "(UpkeepPayload list, CheckResult list) WorkerGroup"
  rn_cache :: "CheckResult Cache"
  rn_workerBatchLimit :: nat
  rn_cacheGcInterval :: duration
  rn_running :: bool
  rn_chClose :: bool

record RunnerConfig =
  rc_Workers :: nat
  rc_CacheExpire :: duration
  rc_CacheClean :: duration

definition NewRunner :: "RunnerConfig \<Rightarrow> Runner" where
  "NewRunner conf =
     \<lparr>rn_workers = NewWorkerGroup (rc_Workers conf), rn_cache = NewCache (rc_CacheExpire conf),
      rn_workerBatchLimit = WorkerBatchLimit, rn_cacheGcInterval = rc_CacheClean conf,
      rn_running = False, rn_chClose = False\<rparr>"

text \<open>The worker function: the runnable with its error wrapped\<close>

definition wrapWorkerFunc ::
    "(UpkeepPayload list \<Rightarrow> CheckResult list result) \<Rightarrow> UpkeepPayload list \<Rightarrow>
     CheckResult list result" where
  "wrapWorkerFunc runnable payloads =
     (case runnable payloads of
        Inl err \<Rightarrow>
          Inl (Wrapped (''failed to check upkeep payloads for ids '' @
                        strings_Join '', '' (map up_WorkID payloads)) err)
      | Inr checkResults \<Rightarrow> Inr checkResults)"

definition cache_result :: "time \<Rightarrow> CheckResult \<Rightarrow> Runner \<Rightarrow> Runner" where
  "cache_result now res o1 =
     (if cr_PipelineExecutionState res = 0
      then case Cache_Get now (cr_WorkID res) (rn_cache o1) of
          None \<Rightarrow> o1\<lparr>rn_cache := Cache_Set now (cr_WorkID res) res DefaultCacheExpiration (rn_cache o1)\<rparr>
        | Some c \<Rightarrow>
            if tr_BlockNumber (cr_Trigger res) > tr_BlockNumber (cr_Trigger c)
            then o1\<lparr>rn_cache := Cache_Set now (cr_WorkID res) res DefaultCacheExpiration (rn_cache o1)\<rparr>
            else o1
      else o1)"

definition wrapAggregate ::
    "time \<Rightarrow> CheckResult list result \<Rightarrow> CheckResult run_result \<times> Runner \<Rightarrow>
     CheckResult run_result \<times> Runner" where
  "wrapAggregate now delivered s =
     (case delivered of
        Inr results \<Rightarrow>
          fold (\<lambda>res st. (result_Add res (fst st), cache_result now res (snd st))) results
            (AddSuccesses 1 (fst s), snd s)
      | Inl err \<Rightarrow> (AddFailures 1 (SetErr err (fst s)), snd s))"

text \<open>
  \<open>RunJobs\<close>: the result of every job is handed to \<open>resFunc\<close>, in the order \<open>order\<close> in which the
  jobs complete. A job that was never accepted (cancelled context, stopped group) has no place
  in the order.
\<close>

definition RunJobs :: "nat list \<Rightarrow> 'k list \<Rightarrow> ('k \<Rightarrow> 'd) \<Rightarrow> ('d \<Rightarrow> 's \<Rightarrow> 's) \<Rightarrow> 's \<Rightarrow> 's" where
  "RunJobs order jobs jobFunc resFunc s =
     fold (\<lambda>i. if i < length jobs then resFunc (jobFunc (jobs ! i)) else id) order s"

fun split_cached ::
    "time \<Rightarrow> Runner \<Rightarrow> UpkeepPayload list \<Rightarrow> CheckResult run_result \<Rightarrow>
     CheckResult run_result \<times> UpkeepPayload list" where
  "split_cached now o1 [] result = (result, [])"
| "split_cached now o1 (payload # payloads) result =
     (case Cache_Get now (up_WorkID payload) (rn_cache o1) of
        Some res \<Rightarrow>
          if tr_BlockNumber (cr_Trigger res) = tr_BlockNumber (up_Trigger payload) \<and>
             tr_BlockHash (cr_Trigger res) = tr_BlockHash (up_Trigger payload)
          then split_cached now o1 payloads (result_Add res result)
          else (let rest = split_cached now o1 payloads result in (fst rest, payload # snd rest))
      | None \<Rightarrow> (let rest = split_cached now o1 payloads result in (fst rest, payload # snd rest)))"

definition ErrTooManyErrors :: "go_error \<Rightarrow> go_error" where
  "ErrTooManyErrors err = Wrapped ''too many errors in parallel worker process'' err"

definition parallelCheck ::
    "(UpkeepPayload list \<Rightarrow> CheckResult list result) \<Rightarrow> nat list \<Rightarrow> time \<Rightarrow> UpkeepPayload list \<Rightarrow> Runner \<Rightarrow>
     CheckResult run_result result \<times> Runner" where
  "parallelCheck runnable order now payloads o1 =
     (if length payloads = 0 then (Inr newResult, o1)
      else let split = split_cached now o1 payloads newResult; toRun = snd split
           in if length toRun = 0 then (Inr (fst split), o1)
              else case Unflatten toRun (rn_workerBatchLimit o1) of
                None \<Rightarrow> (Inl Blocked, o1)
              | Some batches \<Rightarrow>
                  (let st = RunJobs order batches (wrapWorkerFunc runnable) (wrapAggregate now)
                              (fst split, o1);
                       result = fst st
                   in if Total result > 0 \<and> Total result = rr_failures result \<and> rr_err result \<noteq> None
                      then (Inl (ErrTooManyErrors (the (rr_err result))), snd st)
                      else (Inr result, snd st)))"

definition CheckUpkeeps ::
    "(UpkeepPayload list \<Rightarrow> CheckResult list result) \<Rightarrow> nat list \<Rightarrow> time \<Rightarrow> UpkeepPayload list \<Rightarrow> Runner \<Rightarrow>
     CheckResult list result \<times> Runner" where
  "CheckUpkeeps runnable order now payloads o1 =
     (let r = parallelCheck runnable order now payloads o1
      in (case fst r of Inl err \<Rightarrow> Inl err | Inr result \<Rightarrow> Inr (rr_values result), snd r))"

text \<open>\<open>Start\<close> up to the point where it waits for the close signal; the cleaner runs beside it.\<close>

definition Runner_Start :: "Runner \<Rightarrow> Runner result" where
  "Runner_Start o1 =
     (if rn_running o1 then Inl ServiceAlreadyRunning else Inr (o1\<lparr>rn_running := True\<rparr>))"

definition Runner_Close :: "Runner \<Rightarrow> Runner result" where
  "Runner_Close o1 =
     (if \<not> rn_running o1 then Inl ServiceNotRunning
      else case Cache_Stop (rn_cache o1) of
        Inl e \<Rightarrow> Inl e
      | Inr cache \<Rightarrow>
          if rn_chClose o1 then Inl Blocked
          else Inr (o1\<lparr>rn_cache := cache, rn_workers := wg_Stop (rn_workers o1),
                         rn_running := False, rn_chClose := True\<rparr>))"

interpretation runner_service: lifecycle Runner_Start Runner_Close rn_running
  by unfold_locales
    (auto simp: Runner_Start_def Runner_Close_def split: if_splits sum.splits)

section \<open>The cache of results\<close>

definition runner_block :: "time \<Rightarrow> Runner \<Rightarrow> WorkID \<rightharpoonup> BlockNumber" where
  "runner_block now o1 k =
     map_option (\<lambda>r. tr_BlockNumber (cr_Trigger r)) (Cache_Get now k (rn_cache o1))"

interpretation runner_cache: newest_wins
  "\<lambda>r. cache_result now (r\<lparr>cr_PipelineExecutionState := 0\<rparr>)" "runner_block now" cr_WorkID
  "\<lambda>r. tr_BlockNumber (cr_Trigger r)"
proof unfold_locales
  fix r :: CheckResult and o1 :: Runner
  let ?r = "r\<lparr>cr_PipelineExecutionState := 0\<rparr>"
  have look: "Cache_Get now k (Cache_Set now (cr_WorkID r) ?r DefaultCacheExpiration (rn_cache o1)) =
      (if k = cr_WorkID r then Some ?r else Cache_Get now k (rn_cache o1))" for k
    by (simp add: util_cache.get_set_now util_cache.get_set_other)
  show "runner_block now (cache_result now ?r o1) =
       (case runner_block now o1 (cr_WorkID r) of
          None \<Rightarrow> (runner_block now o1)(cr_WorkID r \<mapsto> tr_BlockNumber (cr_Trigger r))
        | Some b \<Rightarrow> if b < tr_BlockNumber (cr_Trigger r)
                    then (runner_block now o1)(cr_WorkID r \<mapsto> tr_BlockNumber (cr_Trigger r))
                    else runner_block now o1)"
    by (auto simp: cache_result_def runner_block_def look fun_eq_iff split: option.splits)
qed

section \<open>What a check returns\<close>

lemma aggregate_values:
  "rr_values (fst (fold (\<lambda>res st. (result_Add res (fst st), cache_result now res (snd st))) rs s)) =
     rr_values (fst s) @ rs"
  "rr_successes (fst (fold (\<lambda>res st. (result_Add res (fst st), cache_result now res (snd st))) rs s)) =
     rr_successes (fst s)"
  "rr_failures (fst (fold (\<lambda>res st. (result_Add res (fst st), cache_result now res (snd st))) rs s)) =
     rr_failures (fst s)"
  "rr_err (fst (fold (\<lambda>res st. (result_Add res (fst st), cache_result now res (snd st))) rs s)) =
     rr_err (fst s)"
  by (induction rs arbitrary: s) (simp_all add: result_Add_def)

lemma wrapAggregate_simps [simp]:
  "rr_values (fst (wrapAggregate now (Inr rs) s)) = rr_values (fst s) @ rs"
  "rr_successes (fst (wrapAggregate now (Inr rs) s)) = rr_successes (fst s) + 1"
  "rr_failures (fst (wrapAggregate now (Inr rs) s)) = rr_failures (fst s)"
  "rr_err (fst (wrapAggregate now (Inr rs) s)) = rr_err (fst s)"
  "rr_values (fst (wrapAggregate now (Inl e) s)) = rr_values (fst s)"
  "rr_successes (fst (wrapAggregate now (Inl e) s)) = rr_successes (fst s)"
  "rr_failures (fst (wrapAggregate now (Inl e) s)) = rr_failures (fst s) + 1"
  "rr_err (fst (wrapAggregate now (Inl e) s)) = Some e"
  by (simp_all add: wrapAggregate_def aggregate_values AddSuccesses_def AddFailures_def SetErr_def)

definition delivered_values :: "(UpkeepPayload list \<Rightarrow> CheckResult list result) \<Rightarrow> UpkeepPayload list \<Rightarrow> CheckResult list" where
  "delivered_values runnable batch = (case runnable batch of Inl _ \<Rightarrow> [] | Inr rs \<Rightarrow> rs)"

lemma RunJobs_result:
  assumes "\<forall>i\<in>set order. i < length jobs"
  shows "rr_values (fst (RunJobs order jobs (wrapWorkerFunc runnable) (wrapAggregate now) s)) =
      rr_values (fst s) @ concat (map (\<lambda>i. delivered_values runnable (jobs ! i)) order)"
    and "rr_failures (fst (RunJobs order jobs (wrapWorkerFunc runnable) (wrapAggregate now) s)) =
      rr_failures (fst s) + int (length (filter (\<lambda>i. \<exists>e. runnable (jobs ! i) = Inl e) order))"
    and "Total (fst (RunJobs order jobs (wrapWorkerFunc runnable) (wrapAggregate now) s)) =
      Total (fst s) + int (length order)"
  using assms
  by (induction order arbitrary: s)
    (auto simp: RunJobs_def wrapWorkerFunc_def delivered_values_def Total_def split: sum.split)

lemma RunJobs_err:
  assumes "\<forall>i\<in>set order. i < length jobs"
  shows "rr_err (fst (RunJobs order jobs (wrapWorkerFunc runnable) (wrapAggregate now) s)) \<noteq> None \<longleftrightarrow>
    rr_err (fst s) \<noteq> None \<or> (\<exists>i\<in>set order. \<exists>e. runnable (jobs ! i) = Inl e)"
  using assms
  by (induction order arbitrary: s)
    (auto simp: RunJobs_def wrapWorkerFunc_def split: sum.split)

text \<open>The result the cache holds for a payload: same work id, same block number and hash\<close>

definition cache_hit :: "time \<Rightarrow> Runner \<Rightarrow> UpkeepPayload \<Rightarrow> CheckResult option" where
  "cache_hit now o1 p =
     (case Cache_Get now (up_WorkID p) (rn_cache o1) of
        None \<Rightarrow> None
      | Some r \<Rightarrow> if tr_BlockNumber (cr_Trigger r) = tr_BlockNumber (up_Trigger p) \<and>
                    tr_BlockHash (cr_Trigger r) = tr_BlockHash (up_Trigger p)
                 then Some r else None)"

definition uncached :: "time \<Rightarrow> Runner \<Rightarrow> UpkeepPayload list \<Rightarrow> UpkeepPayload list" where
  "uncached now o1 payloads = filter (\<lambda>p. cache_hit now o1 p = None) payloads"

lemma split_cached:
  "snd (split_cached now o1 ps res) = uncached now o1 ps"
  "rr_values (fst (split_cached now o1 ps res)) =
     rr_values res @ map (\<lambda>p. the (cache_hit now o1 p)) (filter (\<lambda>p. cache_hit now o1 p \<noteq> None) ps)"
  "rr_successes (fst (split_cached now o1 ps res)) = rr_successes res"
  "rr_failures (fst (split_cached now o1 ps res)) = rr_failures res"
  "rr_err (fst (split_cached now o1 ps res)) = rr_err res"
  by (induction ps arbitrary: res)
    (auto simp: uncached_def cache_hit_def result_Add_def Let_def split: option.splits)

text \<open>The batches of a check; the order in which they complete is one of their indices.\<close>

definition check_batches :: "time \<Rightarrow> Runner \<Rightarrow> UpkeepPayload list \<Rightarrow> UpkeepPayload list list" where
  "check_batches now o1 payloads = unflatten_from (rn_workerBatchLimit o1) (uncached now o1 payloads) 0"

definition complete_order :: "nat list \<Rightarrow> 'a list \<Rightarrow> bool" where
  "complete_order order jobs \<longleftrightarrow> mset order = mset [0..<length jobs]"

lemma complete_order_bound: "complete_order order jobs \<Longrightarrow> \<forall>i\<in>set order. i < length jobs"
  unfolding complete_order_def using mset_eq_setD by fastforce

lemma complete_order_image:
  assumes "complete_order order jobs"
  shows "mset (concat (map (\<lambda>i. f (jobs ! i)) order)) = mset (concat (map f jobs))"
proof -
  have "mset (map (\<lambda>i. f (jobs ! i)) order) = mset (map (\<lambda>i. f (jobs ! i)) [0..<length jobs])"
    using assms by (simp add: complete_order_def mset_map)
  also have "map (\<lambda>i. f (jobs ! i)) [0..<length jobs] = map f jobs"
    by (rule nth_equalityI) simp_all
  finally have "image_mset mset (mset (map (\<lambda>i. f (jobs ! i)) order)) = image_mset mset (mset (map f jobs))"
    by simp
  then show ?thesis by (simp add: mset_concat image_mset.compositionality flip: sum_mset_sum_list)
qed

lemma check_batches_ok:
  assumes "rn_workerBatchLimit o1 = WorkerBatchLimit"
  shows "concat (check_batches now o1 ps) = uncached now o1 ps"
    and "b \<in> set (check_batches now o1 ps) \<Longrightarrow> b \<noteq> [] \<and> length b \<le> WorkerBatchLimit"
    and "Unflatten (uncached now o1 ps) (rn_workerBatchLimit o1) = Some (check_batches now o1 ps)"
  using assms concat_unflatten_from [of WorkerBatchLimit "uncached now o1 ps" 0]
    unflatten_from_group [of b WorkerBatchLimit "uncached now o1 ps" 0]
  by (simp_all add: check_batches_def WorkerBatchLimit_def Unflatten_def)

text \<open>Whether a check fails as a whole, and its values when it does not\<close>

definition jobs_state where
  "jobs_state runnable order now ps o1 =
     RunJobs order (check_batches now o1 ps) (wrapWorkerFunc runnable) (wrapAggregate now)
       (fst (split_cached now o1 ps newResult), o1)"

lemma CheckUpkeeps_unfold:
  assumes "rn_workerBatchLimit o1 = WorkerBatchLimit" "uncached now o1 ps \<noteq> []"
  shows "CheckUpkeeps runnable order now ps o1 =
    (let result = fst (jobs_state runnable order now ps o1)
     in (if Total result > 0 \<and> Total result = rr_failures result \<and> rr_err result \<noteq> None
         then Inl (ErrTooManyErrors (the (rr_err result))) else Inr (rr_values result),
         snd (jobs_state runnable order now ps o1)))"
proof -
  from assms(2) have "ps \<noteq> []" by (auto simp: uncached_def)
  with assms(2) show ?thesis
    using check_batches_ok(3) [OF assms(1), of now ps]
    by (simp add: CheckUpkeeps_def parallelCheck_def split_cached jobs_state_def Let_def)
qed

lemma CheckUpkeeps_cached:
  assumes "uncached now o1 ps = []"
  shows "CheckUpkeeps runnable order now ps o1 = (Inr (map (\<lambda>p. the (cache_hit now o1 p)) ps), o1)"
proof -
  have "filter (\<lambda>p. cache_hit now o1 p \<noteq> None) ps = ps"
    using assms unfolding uncached_def filter_empty_conv filter_id_conv by blast
  with assms show ?thesis
    using split_cached(2) [of now o1 ps newResult]
    by (auto simp: CheckUpkeeps_def parallelCheck_def split_cached(1) newResult_def Let_def)
qed

lemma jobs_values:
  assumes "rn_workerBatchLimit o1 = WorkerBatchLimit"
    and "complete_order order (check_batches now o1 ps)"
    and "\<And>b. b \<noteq> [] \<Longrightarrow> length b \<le> WorkerBatchLimit \<Longrightarrow> runnable b = Inr (map check b)"
  shows "mset (rr_values (fst (jobs_state runnable order now ps o1))) =
    mset (map (\<lambda>p. case cache_hit now o1 p of Some r \<Rightarrow> r | None \<Rightarrow> check p) ps)"
proof -
  let ?bs = "check_batches now o1 ps"
  have "concat (map (delivered_values runnable) ?bs) = concat (map (map check) ?bs)"
    using check_batches_ok(2) [OF assms(1)] assms(3)
    by (auto simp: delivered_values_def intro!: arg_cong [where f = concat])
  also have "\<dots> = map check (uncached now o1 ps)"
    using check_batches_ok(1) [OF assms(1), of now ps] by (simp flip: map_concat)
  finally have run: "mset (concat (map (\<lambda>i. delivered_values runnable (?bs ! i)) order)) =
      mset (map check (uncached now o1 ps))"
    using complete_order_image [OF assms(2), of "delivered_values runnable"] by simp
  have "mset (map (\<lambda>p. case cache_hit now o1 p of Some r \<Rightarrow> r | None \<Rightarrow> check p) ps) =
      mset (map (\<lambda>p. the (cache_hit now o1 p)) (filter (\<lambda>p. cache_hit now o1 p \<noteq> None) ps)) +
      mset (map check (uncached now o1 ps))"
    unfolding uncached_def by (induction ps) auto
  with run show ?thesis
    using RunJobs_result(1) [OF complete_order_bound [OF assms(2)], of runnable now]
    by (simp add: jobs_state_def split_cached newResult_def)
qed

lemma jobs_failures:
  assumes "complete_order order (check_batches now o1 ps)"
  shows "rr_failures (fst (jobs_state runnable order now ps o1)) =
      int (length (filter (\<lambda>i. \<exists>e. runnable (check_batches now o1 ps ! i) = Inl e) order))"
    and "Total (fst (jobs_state runnable order now ps o1)) = int (length order)"
    and "rr_err (fst (jobs_state runnable order now ps o1)) \<noteq> None \<longleftrightarrow>
      (\<exists>i\<in>set order. \<exists>e. runnable (check_batches now o1 ps ! i) = Inl e)"
  using RunJobs_result(2,3) [OF complete_order_bound [OF assms], of runnable now]
    RunJobs_err [OF complete_order_bound [OF assms], of runnable now]
  by (simp_all add: jobs_state_def split_cached newResult_def Total_def)

lemma jobs_fail_iff:
  assumes "rn_workerBatchLimit o1 = WorkerBatchLimit" "uncached now o1 ps \<noteq> []"
    and ord: "complete_order order (check_batches now o1 ps)"
  shows "(let r = fst (jobs_state runnable order now ps o1)
          in Total r > 0 \<and> Total r = rr_failures r \<and> rr_err r \<noteq> None) \<longleftrightarrow>
    (\<forall>b\<in>set (check_batches now o1 ps). \<exists>e. runnable b = Inl e)"
proof -
  let ?bs = "check_batches now o1 ps"
  have "?bs \<noteq> []" using assms(2) check_batches_ok(1) [OF assms(1), of now ps] by auto
  moreover have set_ord: "set order = {0..<length ?bs}" and "length order = length ?bs"
    using ord mset_eq_setD mset_eq_length unfolding complete_order_def by fastforce+
  ultimately have "order \<noteq> []" by auto
  then have "(let r = fst (jobs_state runnable order now ps o1)
        in Total r > 0 \<and> Total r = rr_failures r \<and> rr_err r \<noteq> None) \<longleftrightarrow>
      (\<forall>i\<in>set order. \<exists>e. runnable (?bs ! i) = Inl e)"
    unfolding jobs_failures [OF ord] Let_def of_nat_eq_iff length_filter_all
    by (cases order) auto
  then show ?thesis unfolding set_ord all_set_conv_all_nth by (simp add: Ball_def)
qed

section \<open>What a check leaves in the cache\<close>

definition runner_inv :: "Runner \<Rightarrow> bool" where
  "runner_inv o1 \<longleftrightarrow> rn_workerBatchLimit o1 = WorkerBatchLimit \<and>
     (\<forall>k item. c_data (rn_cache o1) k = Some item \<longrightarrow>
        cr_WorkID (ci_Item item) = k \<and> cr_PipelineExecutionState (ci_Item item) = 0)"

lemma runner_inv_New: "runner_inv (NewRunner conf)"
  by (simp add: runner_inv_def NewRunner_def NewCache_def)

lemma runner_inv_cache_result: "runner_inv o1 \<Longrightarrow> runner_inv (cache_result now r o1)"
  by (auto simp: runner_inv_def cache_result_def Cache_Set_def Let_def split: option.splits)

lemma runner_inv_fold: "runner_inv o1 \<Longrightarrow> runner_inv (fold (cache_result now) rs o1)"
  by (induction rs arbitrary: o1) (simp_all add: runner_inv_cache_result)

lemma aggregate_runner:
  "snd (fold (\<lambda>res st. (result_Add res (fst st), cache_result now res (snd st))) rs s) =
     fold (cache_result now) rs (snd s)"
  by (induction rs arbitrary: s) simp_all

lemma RunJobs_runner:
  assumes "\<forall>i\<in>set order. i < length jobs"
  shows "snd (RunJobs order jobs (wrapWorkerFunc runnable) (wrapAggregate now) s) =
    fold (cache_result now) (concat (map (\<lambda>i. delivered_values runnable (jobs ! i)) order)) (snd s)"
  using assms
  by (induction order arbitrary: s)
    (auto simp: RunJobs_def wrapWorkerFunc_def wrapAggregate_def delivered_values_def
      aggregate_runner split: sum.split)

lemma runner_block_fold:
  "runner_block now (fold (cache_result now) rs o1) =
   runner_block now (fold (\<lambda>r. cache_result now (r\<lparr>cr_PipelineExecutionState := 0\<rparr>))
     (filter (\<lambda>r. cr_PipelineExecutionState r = 0) rs) o1)"
proof (induction rs arbitrary: o1)
  case (Cons r rs)
  have ok: "cache_result now (r\<lparr>cr_PipelineExecutionState := 0\<rparr>) o1 = cache_result now r o1"
    if "cr_PipelineExecutionState r = 0"
    using that by (cases r) simp
  have "cache_result now r o1 = o1" if "cr_PipelineExecutionState r \<noteq> 0"
    using that by (simp add: cache_result_def)
  with ok show ?case by (cases "cr_PipelineExecutionState r = 0") (simp_all add: Cons)
qed simp

lemma runner_block_fold_mono:
  assumes "runner_block now o1 k = Some b"
  shows "\<exists>b'. runner_block now (fold (cache_result now) rs o1) k = Some b' \<and> b \<le> b'"
  unfolding runner_block_fold by (rule runner_cache.look_fold_mono [OF assms])

lemma runner_block_fold_ge:
  assumes "r \<in> set rs" "cr_PipelineExecutionState r = 0"
  shows "\<exists>b. runner_block now (fold (cache_result now) rs o1) (cr_WorkID r) = Some b \<and>
    tr_BlockNumber (cr_Trigger r) \<le> b"
  unfolding runner_block_fold by (rule runner_cache.look_fold_ge) (use assms in simp)

lemma cache_hit_block:
  assumes "runner_inv o1" "cache_hit now o1 p = Some r"
  shows "runner_block now o1 (cr_WorkID r) = Some (tr_BlockNumber (cr_Trigger r))"
  using assms
  by (auto simp: cache_hit_def runner_inv_def runner_block_def Cache_Get_def
      split: option.splits if_splits)

section \<open>Properties\<close>

definition sample_runner :: Runner where
  "sample_runner = cache_result 100 (sample_result 5 ''a'' 10)
     (NewRunner \<lparr>rc_Workers = 2, rc_CacheExpire = 50, rc_CacheClean = 30\<rparr>)"

definition sample_check :: "UpkeepPayload \<Rightarrow> CheckResult" where
  "sample_check p = sample_result 5 (up_WorkID p) (tr_BlockNumber (up_Trigger p))"

lemma sample_runner_cache:
  "cache_hit 110 sample_runner (sample_payload w n) =
     (if w = ''a'' \<and> n = 10 then Some (sample_result 5 ''a'' 10) else None)"
  by (auto simp: sample_runner_def cache_hit_def cache_result_def Cache_Get_def Cache_Set_def
      NewRunner_def NewCache_def DefaultCacheExpiration_def sample_defs Let_def)

lemma sample_runner_inv: "runner_inv sample_runner"
  unfolding sample_runner_def by (intro runner_inv_cache_result runner_inv_New)

lemma sample_runner_batches:
  "check_batches 110 sample_runner [sample_payload ''a'' 10, sample_payload ''b'' 10, sample_payload ''a'' 11] =
     [[sample_payload ''b'' 10, sample_payload ''a'' 11]]"
  using sample_runner_inv
  by (simp add: check_batches_def uncached_def sample_runner_cache runner_inv_def
      WorkerBatchLimit_def unflatten_from.simps Let_def)

text \<open>
  C22: A check answers for every payload exactly once: the results are, as a multiset, the cached
  result of every payload that has one for its very block and what the runnable says of every other,
  whatever the order in which the batches complete. The runnable is asked in batches of at least
  one and at most \<open>WorkerBatchLimit\<close> payloads.
\<close>

theorem check_answers_each_payload_once:
  assumes "rn_workerBatchLimit o1 = WorkerBatchLimit"
    and "complete_order order (check_batches now o1 ps)"
    and "\<And>b. b \<noteq> [] \<Longrightarrow> length b \<le> WorkerBatchLimit \<Longrightarrow> runnable b = Inr (map check b)"
  shows "\<exists>vs o2. CheckUpkeeps runnable order now ps o1 = (Inr vs, o2) \<and>
    mset vs = mset (map (\<lambda>p. case cache_hit now o1 p of Some r \<Rightarrow> r | None \<Rightarrow> check p) ps)"
proof (cases "uncached now o1 ps = []")
  case True
  then have "\<forall>p\<in>set ps. cache_hit now o1 p \<noteq> None" by (auto simp: uncached_def filter_empty_conv)
  then have "map (\<lambda>p. the (cache_hit now o1 p)) ps =
      map (\<lambda>p. case cache_hit now o1 p of Some r \<Rightarrow> r | None \<Rightarrow> check p) ps"
    by auto
  with CheckUpkeeps_cached [OF True] show ?thesis by simp
next
  case False
  have "\<not> (\<forall>b\<in>set (check_batches now o1 ps). \<exists>e. runnable b = Inl e)"
    using check_batches_ok(1) [OF assms(1), of now ps]
      check_batches_ok(2) [OF assms(1), of _ now ps] assms(3) False
    by (metis Inl_Inr_False concat.simps(1) list.set_intros(1) neq_Nil_conv)
  with jobs_fail_iff [OF assms(1) False assms(2), of runnable] show ?thesis
    using jobs_values [OF assms] by (auto simp: CheckUpkeeps_unfold [OF assms(1) False] Let_def)
qed

theorem check_answers_each_payload_once_witness:
  "\<exists>vs o2. CheckUpkeeps (\<lambda>b. Inr (map sample_check b)) [0] 110
       [sample_payload ''a'' 10, sample_payload ''b'' 10, sample_payload ''a'' 11] sample_runner =
       (Inr vs, o2) \<and>
     mset vs = mset [sample_result 5 ''a'' 10, sample_result 5 ''b'' 10, sample_result 5 ''a'' 11]"
  using check_answers_each_payload_once [of sample_runner "[0]" 110
      "[sample_payload ''a'' 10, sample_payload ''b'' 10, sample_payload ''a'' 11]"
      "\<lambda>b. Inr (map sample_check b)" sample_check] sample_runner_inv
  by (simp add: sample_runner_batches complete_order_def runner_inv_def sample_runner_cache)
    (simp add: sample_check_def sample_defs)

text \<open>
  A check of uncached payloads fails as a whole exactly when every batch fails; a batch that
  fails beside one that succeeds is dropped without an error.
\<close>

lemma check_fails_iff_all_batches_fail:
  assumes "rn_workerBatchLimit o1 = WorkerBatchLimit"
    and "complete_order order (check_batches now o1 ps)"
    and "uncached now o1 ps \<noteq> []"
  shows "(\<exists>err. fst (CheckUpkeeps runnable order now ps o1) = Inl err) \<longleftrightarrow>
    (\<forall>b\<in>set (check_batches now o1 ps). \<exists>err. runnable b = Inl err)"
  unfolding jobs_fail_iff [OF assms(1,3,2), symmetric] CheckUpkeeps_unfold [OF assms(1,3)]
  by (simp add: Let_def)

lemma check_fails_iff_all_batches_fail_witness:
  "\<exists>err. fst (CheckUpkeeps (\<lambda>b. Inl (External ''rpc'')) [0] 110
     [sample_payload ''a'' 10, sample_payload ''b'' 10, sample_payload ''a'' 11] sample_runner) = Inl err"
  using check_fails_iff_all_batches_fail [of sample_runner "[0]" 110
      "[sample_payload ''a'' 10, sample_payload ''b'' 10, sample_payload ''a'' 11]"
      "\<lambda>b. Inl (External ''rpc'')"] sample_runner_inv
  by (simp add: sample_runner_batches complete_order_def runner_inv_def uncached_def
      sample_runner_cache)

text \<open>
  The runner's cache moves forward only. After a check, every successful result that was
  returned is covered by an entry for its work id at its block or a later one, no entry went back
  to an earlier block, and the cache still files every result under its own work id.
\<close>

lemma runner_cache_moves_forward:
  assumes "runner_inv o1"
    and "complete_order order (check_batches now o1 ps)"
    and "CheckUpkeeps runnable order now ps o1 = (Inr vs, o2)"
  shows "runner_inv o2 \<and>
    (\<forall>r\<in>set vs. cr_PipelineExecutionState r = 0 \<longrightarrow>
       (\<exists>b. runner_block now o2 (cr_WorkID r) = Some b \<and> tr_BlockNumber (cr_Trigger r) \<le> b)) \<and>
    (\<forall>w b. runner_block now o1 w = Some b \<longrightarrow> (\<exists>b'. runner_block now o2 w = Some b' \<and> b \<le> b'))"
proof (cases "uncached now o1 ps = []")
  case True
  from CheckUpkeeps_cached [OF this] assms(3)
  have vs: "vs = map (\<lambda>p. the (cache_hit now o1 p)) ps" and "o2 = o1" by auto
  moreover have "cache_hit now o1 p = Some (the (cache_hit now o1 p))" if "p \<in> set ps" for p
    using True that by (auto simp: uncached_def filter_empty_conv)
  ultimately show ?thesis using assms(1) cache_hit_block [OF assms(1)] by fastforce
next
  case False
  have lim: "rn_workerBatchLimit o1 = WorkerBatchLimit" using assms(1) by (simp add: runner_inv_def)
  let ?bs = "check_batches now o1 ps"
  let ?rs = "concat (map (\<lambda>i. delivered_values runnable (?bs ! i)) order)"
  let ?hits = "map (\<lambda>p. the (cache_hit now o1 p)) (filter (\<lambda>p. cache_hit now o1 p \<noteq> None) ps)"
  have o2: "o2 = fold (cache_result now) ?rs o1" and vs: "vs = ?hits @ ?rs"
    using assms(3) RunJobs_runner [OF complete_order_bound [OF assms(2)], of runnable now]
      RunJobs_result(1) [OF complete_order_bound [OF assms(2)], of runnable now]
    by (auto simp: CheckUpkeeps_unfold [OF lim False] jobs_state_def split_cached newResult_def
        Let_def split: if_splits)
  have hit: "\<exists>b. runner_block now o2 (cr_WorkID r) = Some b \<and> tr_BlockNumber (cr_Trigger r) \<le> b"
    if "r \<in> set ?hits" for r
    using that cache_hit_block [OF assms(1)] runner_block_fold_mono [of now o1 _ _ ?rs]
    unfolding o2 by auto
  show ?thesis
    using hit runner_block_fold_ge [of _ ?rs now o1] runner_block_fold_mono [of now o1 _ _ ?rs]
      runner_inv_fold [OF assms(1)]
    unfolding vs o2 set_append by blast
qed

lemma runner_cache_moves_forward_witness:
  "\<exists>b. runner_block 110 (snd (CheckUpkeeps (\<lambda>b. Inr (map sample_check b)) [0] 110
       [sample_payload ''a'' 10, sample_payload ''b'' 10, sample_payload ''a'' 11] sample_runner)) ''a'' =
     Some b \<and> 11 \<le> b"
proof -
  let ?ps = "[sample_payload ''a'' 10, sample_payload ''b'' 10, sample_payload ''a'' 11]"
  let ?run = "CheckUpkeeps (\<lambda>b. Inr (map sample_check b)) [0] 110 ?ps sample_runner"
  have ord: "complete_order [0] (check_batches 110 sample_runner ?ps)"
    by (simp add: sample_runner_batches complete_order_def)
  have lim: "rn_workerBatchLimit sample_runner = WorkerBatchLimit" "uncached 110 sample_runner ?ps \<noteq> []"
    using sample_runner_inv by (simp_all add: runner_inv_def uncached_def sample_runner_cache)
  have jobs: "0 < Total (fst (jobs_state (\<lambda>b. Inr (map sample_check b)) [0] 110 ?ps sample_runner)) \<longrightarrow>
      rr_err (fst (jobs_state (\<lambda>b. Inr (map sample_check b)) [0] 110 ?ps sample_runner)) = None"
    using jobs_failures(3) [OF ord, of "\<lambda>b. Inr (map sample_check b)"] by simp
  have vals: "rr_values (fst (jobs_state (\<lambda>b. Inr (map sample_check b)) [0] 110 ?ps sample_runner)) =
      [sample_result 5 ''a'' 10, sample_result 5 ''b'' 10, sample_result 5 ''a'' 11]"
    using RunJobs_result(1) [OF complete_order_bound [OF ord], of "\<lambda>b. Inr (map sample_check b)" 110]
    by (simp add: jobs_state_def sample_runner_batches split_cached newResult_def
        delivered_values_def sample_runner_cache del: split_cached.simps)
      (simp add: sample_check_def sample_defs)
  from jobs vals have "?run = (Inr [sample_result 5 ''a'' 10, sample_result 5 ''b'' 10,
      sample_result 5 ''a'' 11], snd ?run)"
    by (auto simp: CheckUpkeeps_unfold [OF lim] Let_def)
  from runner_cache_moves_forward [OF sample_runner_inv ord this] show ?thesis
    by (simp add: sample_defs)
qed

end
