(* ===== verification/Retry_Queue.thy ===== *)
theory Retry_Queue
  imports Proposal_Queue
begin

text \<open>
  \<open>pkg/v3/stores/retry_queue.go\<close>: payloads whose check failed with a retryable error. A record
  is handed out once its interval has passed, is then pending until it is enqueued again, and is
  dropped a fixed time after it was first seen, however often it is enqueued.
\<close>

definition RetryInterval :: duration where "RetryInterval = 30 * second"

record retryQueueRecord =
  rqr_payload :: UpkeepPayload
  rqr_interval :: duration
  rqr_pending :: bool
  rqr_createdAt :: time
  rqr_updatedAt :: time

record retryQueue =
  rq_records :: "WorkID \<rightharpoonup> retryQueueRecord"
  rq_expiration :: duration
  rq_interval :: duration

definition rqr_elapsed :: "retryQueueRecord \<Rightarrow> time \<Rightarrow> duration \<Rightarrow> bool" where
  "rqr_elapsed r now expr \<longleftrightarrow> time_sub now (rqr_updatedAt r) > expr"

definition rqr_expired :: "retryQueueRecord \<Rightarrow> time \<Rightarrow> duration \<Rightarrow> bool" where
  "rqr_expired r now expr \<longleftrightarrow> time_sub now (rqr_createdAt r) > expr"

definition NewRetryQueue :: retryQueue where
  "NewRetryQueue =
     \<lparr>rq_records = Map.empty, rq_expiration = DefaultExpiration, rq_interval = RetryInterval\<rparr>"

definition rq_enqueue1 :: "time \<Rightarrow> RetryRecord \<Rightarrow> retryQueue \<Rightarrow> retryQueue" where
  "rq_enqueue1 now rec q =
     (let payload = rr_Payload rec;
          record = (case rq_records q (up_WorkID payload) of
              Some r \<Rightarrow> r
            | None \<Rightarrow> \<lparr>rqr_payload = payload, rqr_interval = 0, rqr_pending = False,
                       rqr_createdAt = now, rqr_updatedAt = zero_time\<rparr>);
          record = (if tr_BlockNumber (up_Trigger payload) >
                       tr_BlockNumber (up_Trigger (rqr_payload record))
                    then record\<lparr>rqr_payload := payload\<rparr> else record);
          record = record\<lparr>rqr_updatedAt := now, rqr_pending := False\<rparr>;
          record = record\<lparr>rqr_interval :=
                     (if rr_Interval rec > 0 then rr_Interval rec else rq_interval q)\<rparr>
      in q\<lparr>rq_records := (rq_records q)(up_WorkID payload \<mapsto> record)\<rparr>)"

definition rq_Enqueue :: "time \<Rightarrow> RetryRecord list \<Rightarrow> retryQueue \<Rightarrow> retryQueue" where
  "rq_Enqueue now recs q = fold (rq_enqueue1 now) recs q"

text \<open>
  The loop of \<open>Dequeue\<close>: \<open>got\<close> payloads were already collected; it breaks as soon as \<open>n\<close> are.
\<close>

fun rq_loop :: "time \<Rightarrow> nat \<Rightarrow> WorkID list \<Rightarrow> nat \<Rightarrow> retryQueue \<Rightarrow> retryQueue \<times> UpkeepPayload list" where
  "rq_loop now n [] got q = (q, [])"
| "rq_loop now n (k # ks) got q =
     (case rq_records q k of
        None \<Rightarrow> rq_loop now n ks got q
      | Some record \<Rightarrow>
          if rqr_expired record now (rq_expiration q) then
            rq_loop now n ks got (q\<lparr>rq_records := (rq_records q)(k := None)\<rparr>)
          else if rqr_pending record then rq_loop now n ks got q
          else if rqr_elapsed record now (rqr_interval record) then
            (let q' = q\<lparr>rq_records := (rq_records q)(k \<mapsto> record\<lparr>rqr_pending := True\<rparr>)\<rparr>
             in if Suc got \<ge> n then (q', [rqr_payload record])
                else let res = rq_loop now n ks (Suc got) q'
                     in (fst res, rqr_payload record # snd res))
          else rq_loop now n ks got q)"

definition rq_Dequeue :: "time \<Rightarrow> WorkID list \<Rightarrow> nat \<Rightarrow> retryQueue \<Rightarrow> retryQueue \<times> UpkeepPayload list"
  where "rq_Dequeue now ks n q = rq_loop now n ks 0 q"

definition rq_Size :: "time \<Rightarrow> WorkID list \<Rightarrow> retryQueue \<Rightarrow> nat" where
  "rq_Size now ks q =
     length (filter (\<lambda>k. case rq_records q k of
         None \<Rightarrow> False
       | Some r \<Rightarrow> \<not> (rqr_pending r \<or> rqr_expired r now (rq_expiration q))) ks)"

section \<open>Invariant\<close>

definition rq_inv :: "retryQueue \<Rightarrow> bool" where
  "rq_inv q \<longleftrightarrow> (\<forall>k r. rq_records q k = Some r \<longrightarrow> up_WorkID (rqr_payload r) = k)"

lemma rq_inv_New [inv_intros]: "rq_inv NewRetryQueue"
  by (simp add: rq_inv_def NewRetryQueue_def)

lemma rq_inv_enqueue1: "rq_inv q \<Longrightarrow> rq_inv (rq_enqueue1 now rec q)"
  by (auto simp: rq_inv_def rq_enqueue1_def Let_def split: option.splits)

lemma rq_inv_Enqueue [inv_intros]: "rq_inv q \<Longrightarrow> rq_inv (rq_Enqueue now recs q)"
  unfolding rq_Enqueue_def by (induction recs arbitrary: q) (auto simp: rq_inv_enqueue1)

text \<open>A record that may be handed out.\<close>

definition rq_ready :: "time \<Rightarrow> duration \<Rightarrow> retryQueueRecord \<Rightarrow> bool" where
  "rq_ready now expr r \<longleftrightarrow>
     \<not> rqr_expired r now expr \<and> \<not> rqr_pending r \<and> rqr_elapsed r now (rqr_interval r)"

lemma rq_expiration_loop [simp]: "rq_expiration (fst (rq_loop now n ks got q)) = rq_expiration q"
  by (induction ks arbitrary: got q) (auto simp: Let_def split: option.split)

text \<open>What the loop does to a record: it drops it, marks it pending and returns it, or keeps it.\<close>

lemma rq_loop_other: "k \<notin> set ks \<Longrightarrow> rq_records (fst (rq_loop now n ks got q)) k = rq_records q k"
  by (induction ks arbitrary: got q) (auto simp: Let_def split: option.split)

lemma rq_loop_hit:
  "rq_records q k = Some r \<Longrightarrow> rq_ready now (rq_expiration q) r \<Longrightarrow>
   rq_loop now n (k # ks) got q =
     (let q' = q\<lparr>rq_records := (rq_records q)(k \<mapsto> r\<lparr>rqr_pending := True\<rparr>)\<rparr>
      in if Suc got \<ge> n then (q', [rqr_payload r])
         else let res = rq_loop now n ks (Suc got) q' in (fst res, rqr_payload r # snd res))"
  by (simp add: rq_ready_def Let_def)

lemma rq_loop_miss:
  "rq_records q k = Some r \<Longrightarrow> \<not> rq_ready now (rq_expiration q) r \<Longrightarrow>
   rq_loop now n (k # ks) got q =
     rq_loop now n ks got
       (if rqr_expired r now (rq_expiration q) then q\<lparr>rq_records := (rq_records q)(k := None)\<rparr>
        else q)"
  by (auto simp: rq_ready_def)

text \<open>A returned payload was ready and is pending afterwards.\<close>

lemma rq_loop_mem:
  "distinct ks \<Longrightarrow> p \<in> set (snd (rq_loop now n ks got q)) \<Longrightarrow>
   \<exists>k\<in>set ks. \<exists>r. rq_records q k = Some r \<and> rqr_payload r = p \<and>
     rq_ready now (rq_expiration q) r \<and>
     rq_records (fst (rq_loop now n ks got q)) k = Some (r\<lparr>rqr_pending := True\<rparr>)"
proof (induction ks arbitrary: got q)
  case (Cons k ks)
  then have ds: "distinct ks" and new: "k \<notin> set ks" by auto
  show ?case
  proof (cases "rq_records q k")
    case None
    with Cons ds show ?thesis by auto
  next
    case (Some r)
    show ?thesis
    proof (cases "rq_ready now (rq_expiration q) r")
      case False
      let ?q = "if rqr_expired r now (rq_expiration q)
        then q\<lparr>rq_records := (rq_records q)(k := None)\<rparr> else q"
      from Cons.IH [OF ds, of got ?q] Cons.prems(2) new show ?thesis
        unfolding rq_loop_miss [OF Some False] by (auto split: if_splits)
    next
      case True
      let ?q = "q\<lparr>rq_records := (rq_records q)(k \<mapsto> r\<lparr>rqr_pending := True\<rparr>)\<rparr>"
      have k: "rq_records (fst (rq_loop now n ks (Suc got) ?q)) k = Some (r\<lparr>rqr_pending := True\<rparr>)"
        using rq_loop_other [OF new] by simp
      from Cons.IH [OF ds, of "Suc got" ?q] Cons.prems(2) new k Some True show ?thesis
        unfolding rq_loop_hit [OF Some True] by (auto simp: Let_def split: if_splits)
    qed
  qed
qed simp

lemma rq_loop_length: "length (snd (rq_loop now n ks got q)) \<le> max 1 (n - got)"
proof (induction ks arbitrary: got q)
  case (Cons k ks)
  show ?case
  proof (cases "rq_records q k")
    case None
    with Cons.IH show ?thesis by simp
  next
    case (Some r)
    show ?thesis
    proof (cases "rq_ready now (rq_expiration q) r")
      case True
      let ?q = "q\<lparr>rq_records := (rq_records q)(k \<mapsto> r\<lparr>rqr_pending := True\<rparr>)\<rparr>"
      from Cons.IH [of "Suc got" ?q] show ?thesis
        unfolding rq_loop_hit [OF Some True] by (auto simp: Let_def)
    next
      case False
      from Cons.IH show ?thesis unfolding rq_loop_miss [OF Some False] .
    qed
  qed
qed simp

text \<open>A record the loop leaves in place is the old one, possibly marked pending.\<close>

lemma rq_loop_records:
  "rq_records (fst (rq_loop now n ks got q)) k = Some r' \<Longrightarrow>
   \<exists>r. rq_records q k = Some r \<and> (r' = r \<or> r' = r\<lparr>rqr_pending := True\<rparr>)"
proof (induction ks arbitrary: got q)
  case (Cons k1 ks)
  show ?case
  proof (cases "rq_records q k1")
    case None
    with Cons show ?thesis by auto
  next
    case (Some r)
    show ?thesis
    proof (cases "rq_ready now (rq_expiration q) r")
      case True
      let ?q = "q\<lparr>rq_records := (rq_records q)(k1 \<mapsto> r\<lparr>rqr_pending := True\<rparr>)\<rparr>"
      have "rq_records (fst (rq_loop now n ks (Suc got) ?q)) k = Some r' \<or>
          rq_records ?q k = Some r'"
        using Cons.prems unfolding rq_loop_hit [OF Some True]
        by (auto simp: Let_def split: if_splits)
      then show ?thesis
        using Cons.IH [of "Suc got" ?q] Some by (fastforce split: if_splits)
    next
      case False
      with Cons.prems Cons.IH show ?thesis
        unfolding rq_loop_miss [OF Some False] by (fastforce split: if_splits)
    qed
  qed
qed simp

lemma rq_inv_Dequeue [inv_intros]: "rq_inv q \<Longrightarrow> rq_inv (fst (rq_Dequeue now ks n q))"
  unfolding rq_inv_def rq_Dequeue_def by (fastforce dest: rq_loop_records)

text \<open>Enqueuing a known work id keeps the time it was first seen and makes it wait again.\<close>

lemma rq_enqueue1_createdAt:
  "rq_records q k = Some r \<Longrightarrow>
   \<exists>r'. rq_records (rq_enqueue1 now rec q) k = Some r' \<and> rqr_createdAt r' = rqr_createdAt r \<and>
     tr_BlockNumber (up_Trigger (rqr_payload r)) \<le> tr_BlockNumber (up_Trigger (rqr_payload r'))"
  by (cases "k = up_WorkID (rr_Payload rec)") (auto simp: rq_enqueue1_def Let_def)

lemma rq_Enqueue_createdAt:
  "rq_records q k = Some r \<Longrightarrow>
   \<exists>r'. rq_records (rq_Enqueue now recs q) k = Some r' \<and> rqr_createdAt r' = rqr_createdAt r \<and>
     tr_BlockNumber (up_Trigger (rqr_payload r)) \<le> tr_BlockNumber (up_Trigger (rqr_payload r'))"
  unfolding rq_Enqueue_def
proof (induction recs arbitrary: q r)
  case (Cons rec recs)
  from rq_enqueue1_createdAt [OF Cons.prems, of now rec] obtain r1 where
    "rq_records (rq_enqueue1 now rec q) k = Some r1" "rqr_createdAt r1 = rqr_createdAt r"
    "tr_BlockNumber (up_Trigger (rqr_payload r)) \<le> tr_BlockNumber (up_Trigger (rqr_payload r1))"
    by blast
  with Cons.IH [of "rq_enqueue1 now rec q" r1] show ?case by fastforce
qed simp

lemma rq_expiration_Enqueue [simp]: "rq_expiration (rq_Enqueue now recs q) = rq_expiration q"
  unfolding rq_Enqueue_def
  by (induction recs arbitrary: q) (auto simp: rq_enqueue1_def Let_def)

section \<open>Properties\<close>

text \<open>
  A dequeued payload was neither pending nor expired and its interval had passed; no more
  than the batch are returned; it is pending afterwards, so a second dequeue, at any later time,
  does not return its work id.
\<close>

lemma retry_dequeued_once:
  assumes inv: "rq_inv q" and ks: "distinct ks" and ks': "distinct ks'" and n: "0 < n"
    and p: "p \<in> set (snd (rq_Dequeue now ks n q))"
  shows "length (snd (rq_Dequeue now ks n q)) \<le> n \<and>
    (\<exists>r. rq_records q (up_WorkID p) = Some r \<and> rqr_payload r = p \<and>
       rq_ready now (rq_expiration q) r) \<and>
    up_WorkID p \<notin> up_WorkID ` set (snd (rq_Dequeue now' ks' n' (fst (rq_Dequeue now ks n q))))"
proof -
  let ?q = "fst (rq_Dequeue now ks n q)"
  from rq_loop_mem [OF ks p [unfolded rq_Dequeue_def]] obtain k r where
    r: "rq_records q k = Some r" "rqr_payload r = p" "rq_ready now (rq_expiration q) r" and
    pend: "rq_records ?q k = Some (r\<lparr>rqr_pending := True\<rparr>)"
    by (auto simp: rq_Dequeue_def)
  from inv r have k: "k = up_WorkID p" by (auto simp: rq_inv_def)
  have inv': "rq_inv ?q" by (intro inv_intros inv)
  have "up_WorkID p' \<noteq> up_WorkID p" if p': "p' \<in> set (snd (rq_Dequeue now' ks' n' ?q))" for p'
  proof
    assume eq: "up_WorkID p' = up_WorkID p"
    from rq_loop_mem [OF ks' p' [unfolded rq_Dequeue_def [of now']]] obtain k' r' where
      r': "rq_records ?q k' = Some r'" "rqr_payload r' = p'" "rq_ready now' (rq_expiration ?q) r'"
      by blast
    from inv' r' have "k' = up_WorkID p'" by (auto simp: rq_inv_def)
    with eq k pend r' show False by (auto simp: rq_ready_def)
  qed
  then have "up_WorkID p \<notin> up_WorkID ` set (snd (rq_Dequeue now' ks' n' ?q))"
    by (metis imageE)
  moreover have "length (snd (rq_Dequeue now ks n q)) \<le> n"
    using rq_loop_length [of now n ks 0 q] n by (simp add: rq_Dequeue_def)
  ultimately show ?thesis using r k by blast
qed

definition sample_rq :: retryQueue where
  "sample_rq = rq_Enqueue 5 [\<lparr>rr_Payload = sample_payload ''p'' 1, rr_Interval = 10\<rparr>] NewRetryQueue"

lemma retry_dequeued_once_witness:
  "sample_payload ''p'' 1 \<in> set (snd (rq_Dequeue 20 [''p''] 3 sample_rq)) \<and>
   ''p'' \<notin> up_WorkID ` set (snd (rq_Dequeue 90 [''p''] 3 (fst (rq_Dequeue 20 [''p''] 3 sample_rq))))"
proof -
  have inv: "rq_inv sample_rq"
    unfolding sample_rq_def by (intro inv_intros)
  have mem: "sample_payload ''p'' 1 \<in> set (snd (rq_Dequeue 20 [''p''] 3 sample_rq))"
    by (simp add: sample_rq_def rq_Dequeue_def rq_Enqueue_def rq_enqueue1_def NewRetryQueue_def
        rqr_expired_def rqr_elapsed_def DefaultExpiration_def hour_def sample_payload_def Let_def)
  have "up_WorkID (sample_payload ''p'' 1) = ''p''" by (simp add: sample_payload_def)
  with retry_dequeued_once [OF inv _ _ _ mem, of "[''p'']" 90 3] mem show ?thesis by simp
qed

end
