(* ===== verification/Pipeline.thy ===== *)
theory Pipeline
  imports Ocr3_Observation Runner Retry_Queue
begin

text \<open>
  The eligibility pipeline: \<open>pkg/v3/observer.go\<close>, \<open>preprocessors\<close>, \<open>postprocessors\<close>,
  \<open>tickers\<close> and \<open>flows\<close>. The state of a node is its plugin, with the stores, the proposal queue
  and the coordinator the flows share with it, its runner, its retry queue and the upkeep states
  it reported. The interfaces the flows are composed of (\<open>PreProcessor\<close>, \<open>PostProcessor\<close>,
  \<open>Tick\<close>) become datatypes with one constructor per implementation. What the flows read from
  outside the repository is the record \<open>pipeline_ext\<close>, an argument of every call. Loggers and
  the time limit of a call are left out.
\<close>

datatype UpkeepState = Performed | Ineligible

record node =
  nd_plugin :: ocr3Plugin
  nd_runner :: Runner
  nd_retryQ :: retryQueue
  nd_states :: "(CheckResult \<times> UpkeepState) list"

text \<open>
  A provider that is nil is \<^const>\<open>None\<close>. \<open>pe_order\<close> is the order in which the batches of a check
  complete, \<open>pe_range\<close> the order in which the map of a queue is ranged over, \<open>pe_draw\<close> the
  indices the sampler's shuffle draws.
\<close>

record pipeline_ext =
  pe_now :: time
  pe_runnable :: "UpkeepPayload list \<Rightarrow> CheckResult list result"
  pe_order :: "nat list"
  pe_range :: "WorkID list"
  pe_draw :: "nat \<Rightarrow> nat"
  pe_SetUpkeepState :: "CheckResult \<Rightarrow> UpkeepState \<Rightarrow> go_error option"
  pe_BuildPayloads :: "CoordinatedBlockProposal list \<Rightarrow> UpkeepPayload list result"
  pe_IsEmpty :: "UpkeepPayload \<Rightarrow> bool"
  pe_GetActiveUpkeeps :: "UpkeepPayload list result"
  pe_GetLatestPayloads :: "UpkeepPayload list result option"
  pe_GetRecoveryProposals :: "UpkeepPayload list result option"
  pe_OfInt :: "nat \<Rightarrow> int"

abbreviation nd_metadata :: "node \<Rightarrow> metadataStore" where
  "nd_metadata n \<equiv> pl_MetadataStore (nd_plugin n)"

abbreviation nd_results :: "node \<Rightarrow> resultStore" where
  "nd_results n \<equiv> pl_ResultStore (nd_plugin n)"

abbreviation nd_utg :: "node \<Rightarrow> UpkeepTypeGetter" where
  "nd_utg n \<equiv> pl_UpkeepTypeGetter (nd_plugin n)"

definition set_metadata :: "metadataStore \<Rightarrow> node \<Rightarrow> node" where
  "set_metadata m n = n\<lparr>nd_plugin := (nd_plugin n)\<lparr>pl_MetadataStore := m\<rparr>\<rparr>"

definition set_results :: "resultStore \<Rightarrow> node \<Rightarrow> node" where
  "set_results s n = n\<lparr>nd_plugin := (nd_plugin n)\<lparr>pl_ResultStore := s\<rparr>\<rparr>"

definition set_proposalQ :: "proposalQueue \<Rightarrow> node \<Rightarrow> node" where
  "set_proposalQ q n = n\<lparr>nd_plugin := (nd_plugin n)\<lparr>pl_ProposalQ := q\<rparr>\<rparr>"

lemmas set_store_defs = set_metadata_def set_results_def set_proposalQ_def

section \<open>Preprocessors\<close>

datatype PreProcessor = coordinatorPreProcessor | proposalFilterer UpkeepType

definition proposalFilterer_PreProcess ::
    "time \<Rightarrow> UpkeepType \<Rightarrow> UpkeepPayload list \<Rightarrow> node \<Rightarrow> UpkeepPayload list \<times> node" where
  "proposalFilterer_PreProcess now upkeepType payloads n =
     (let view = ViewProposals now upkeepType (nd_metadata n);
          flatten = cbp_WorkID ` set (fst view)
      in (filter (\<lambda>payload. up_WorkID payload \<notin> flatten) payloads, set_metadata (snd view) n))"

fun PreProcess :: "time \<Rightarrow> PreProcessor \<Rightarrow> UpkeepPayload list \<Rightarrow> node \<Rightarrow> UpkeepPayload list \<times> node" where
  "PreProcess now coordinatorPreProcessor payloads n =
     (coord_PreProcess now payloads (pl_Coordinator (nd_plugin n)), n)"
| "PreProcess now (proposalFilterer ty) payloads n = proposalFilterer_PreProcess now ty payloads n"

section \<open>Postprocessors\<close>

text \<open>The error that was joined and the node; a panic of the source ends the call: \<^const>\<open>Inl\<close>.\<close>

type_synonym post_result = "(go_error option \<times> node) result"

definition eligible_PostProcess :: "time \<Rightarrow> CheckResult list \<Rightarrow> node \<Rightarrow> post_result" where
  "eligible_PostProcess now results n =
     Inr (None, fold (\<lambda>res n. if cr_PipelineExecutionState res = 0 \<and> cr_Eligible res
                              then set_results (resultStore_Add now [res] (nd_results n)) n else n)
                  results n)"

text \<open>The loop over the results with their indices\<close>

fun retryable_loop ::
    "time \<Rightarrow> UpkeepPayload list \<Rightarrow> (nat \<times> CheckResult) list \<Rightarrow> node \<Rightarrow> node result" where
  "retryable_loop now payloads [] n = Inr n"
| "retryable_loop now payloads ((i, res) # rest) n =
     (if cr_PipelineExecutionState res \<noteq> 0 \<and> cr_Retryable res
      then if i < length payloads
           then retryable_loop now payloads rest
                  (n\<lparr>nd_retryQ := rq_Enqueue now
                       [\<lparr>rr_Payload = payloads ! i, rr_Interval = cr_RetryInterval res\<rparr>]
                       (nd_retryQ n)\<rparr>)
           else Inl (Panic ''index out of range'')
      else retryable_loop now payloads rest n)"

definition retryable_PostProcess ::
    "time \<Rightarrow> CheckResult list \<Rightarrow> UpkeepPayload list \<Rightarrow> node \<Rightarrow> post_result" where
  "retryable_PostProcess now results payloads n =
     (case retryable_loop now payloads (enumerate 0 results) n of
        Inl e \<Rightarrow> Inl e | Inr n' \<Rightarrow> Inr (None, n'))"

fun ineligible_loop ::
    "(CheckResult \<Rightarrow> UpkeepState \<Rightarrow> go_error option) \<Rightarrow> CheckResult list \<Rightarrow> go_error option \<Rightarrow> node \<Rightarrow>
     go_error option \<times> node" where
  "ineligible_loop SetUpkeepState [] merr n = (merr, n)"
| "ineligible_loop SetUpkeepState (res # rest) merr n =
     (if cr_PipelineExecutionState res = 0 \<and> \<not> cr_Eligible res
      then case SetUpkeepState res Ineligible of
          Some err \<Rightarrow> ineligible_loop SetUpkeepState rest (errors_Join merr (Some err)) n
        | None \<Rightarrow> ineligible_loop SetUpkeepState rest merr
            (n\<lparr>nd_states := nd_states n @ [(res, Ineligible)]\<rparr>)
      else ineligible_loop SetUpkeepState rest merr n)"

definition ineligible_PostProcess :: "pipeline_ext \<Rightarrow> CheckResult list \<Rightarrow> node \<Rightarrow> post_result" where
  "ineligible_PostProcess ext results n = Inr (ineligible_loop (pe_SetUpkeepState ext) results None n)"

definition result_proposal :: "CheckResult \<Rightarrow> CoordinatedBlockProposal" where
  "result_proposal r = \<lparr>cbp_UpkeepID = cr_UpkeepID r, cbp_Trigger = cr_Trigger r, cbp_WorkID = cr_WorkID r\<rparr>"

definition metadata_PostProcess :: "time \<Rightarrow> CheckResult list \<Rightarrow> node \<Rightarrow> post_result" where
  "metadata_PostProcess now results n =
     Inr (None, fold (\<lambda>r n. if cr_PipelineExecutionState r = 0 \<and> cr_Eligible r
                            then set_metadata (AddProposals (nd_utg n) now [result_proposal r]
                                                (nd_metadata n)) n
                            else n)
                  results n)"

datatype PostProcessor =
    eligiblePostProcessor | retryablePostProcessor | ineligiblePostProcessor
  | addProposalToMetadataStore | CombinedPostprocessor "PostProcessor list"

fun PostProcess ::
    "pipeline_ext \<Rightarrow> PostProcessor \<Rightarrow> CheckResult list \<Rightarrow> UpkeepPayload list \<Rightarrow> node \<Rightarrow> post_result"
and combined_PostProcess ::
    "pipeline_ext \<Rightarrow> PostProcessor list \<Rightarrow> CheckResult list \<Rightarrow> UpkeepPayload list \<Rightarrow>
     go_error option \<Rightarrow> node \<Rightarrow> post_result" where
  "PostProcess ext eligiblePostProcessor results payloads n =
     eligible_PostProcess (pe_now ext) results n"
| "PostProcess ext retryablePostProcessor results payloads n =
     retryable_PostProcess (pe_now ext) results payloads n"
| "PostProcess ext ineligiblePostProcessor results payloads n = ineligible_PostProcess ext results n"
| "PostProcess ext addProposalToMetadataStore results payloads n =
     metadata_PostProcess (pe_now ext) results n"
| "PostProcess ext (CombinedPostprocessor source) results payloads n =
     combined_PostProcess ext source results payloads None n"
| "combined_PostProcess ext [] results payloads err n = Inr (err, n)"
| "combined_PostProcess ext (pp # source) results payloads err n =
     (case PostProcess ext pp results payloads n of
        Inl e \<Rightarrow> Inl e
      | Inr (e, n') \<Rightarrow> combined_PostProcess ext source results payloads (errors_Join err e) n')"

section \<open>Ticks\<close>

definition MaxSampledConditionals :: int where "MaxSampledConditionals = 300"

definition sampler_Value :: "pipeline_ext \<Rightarrow> UpkeepPayload list result" where
  "sampler_Value ext =
     (case pe_GetActiveUpkeeps ext of
        Inl err \<Rightarrow> Inl err
      | Inr upkeeps \<Rightarrow>
          if length upkeeps = 0 then Inr []
          else let upkeeps = Shuffle (pe_draw ext) upkeeps;
                   sz = pe_OfInt ext (length upkeeps)
               in if sz \<le> 0 then Inr []
                  else let sz = (if sz > MaxSampledConditionals then MaxSampledConditionals else sz);
                           sz = (if int (length upkeeps) < sz then int (length upkeeps) else sz)
                       in Inr (take (nat sz) upkeeps))"

definition coordinatedProposalsTick_Value ::
    "pipeline_ext \<Rightarrow> UpkeepType \<Rightarrow> nat \<Rightarrow> node \<Rightarrow> UpkeepPayload list result \<times> node" where
  "coordinatedProposalsTick_Value ext utype batchSize n =
     (let dq = pq_Dequeue (nd_utg n) (pe_now ext) (pe_range ext) utype batchSize
                 (pl_ProposalQ (nd_plugin n));
          n' = set_proposalQ (fst dq) n
      in case pe_BuildPayloads ext (snd dq) of
           Inl err \<Rightarrow> (Inl (Wrapped ''failed to build payloads from proposals'' err), n')
         | Inr builtPayloads \<Rightarrow> (Inr (filter (\<lambda>p. \<not> pe_IsEmpty ext p) builtPayloads), n'))"

definition retryTick_Value :: "pipeline_ext \<Rightarrow> nat \<Rightarrow> node \<Rightarrow> UpkeepPayload list result \<times> node" where
  "retryTick_Value ext batchSize n =
     (let dq = rq_Dequeue (pe_now ext) (pe_range ext) batchSize (nd_retryQ n)
      in (Inr (snd dq), n\<lparr>nd_retryQ := fst dq\<rparr>))"

definition logTick_Value :: "pipeline_ext \<Rightarrow> UpkeepPayload list result" where
  "logTick_Value ext = (case pe_GetLatestPayloads ext of None \<Rightarrow> Inr [] | Some logs \<Rightarrow> logs)"

definition logRecoveryTick_Value :: "pipeline_ext \<Rightarrow> UpkeepPayload list result" where
  "logRecoveryTick_Value ext =
     (case pe_GetRecoveryProposals ext of None \<Rightarrow> Inr [] | Some logs \<Rightarrow> logs)"

datatype Tick =
    sampler | coordinatedProposalsTick UpkeepType nat | retryTick nat | logTick | logRecoveryTick

fun Tick_Value :: "pipeline_ext \<Rightarrow> Tick \<Rightarrow> node \<Rightarrow> UpkeepPayload list result \<times> node" where
  "Tick_Value ext sampler n = (sampler_Value ext, n)"
| "Tick_Value ext (coordinatedProposalsTick ty k) n = coordinatedProposalsTick_Value ext ty k n"
| "Tick_Value ext (retryTick k) n = retryTick_Value ext k n"
| "Tick_Value ext logTick n = (logTick_Value ext, n)"
| "Tick_Value ext logRecoveryTick n = (logRecoveryTick_Value ext, n)"

section \<open>The observer\<close>

record Observer =
  ob_Preprocessors :: "PreProcessor list"
  ob_Postprocessor :: PostProcessor

fun run_PreProcessors ::
    "time \<Rightarrow> PreProcessor list \<Rightarrow> UpkeepPayload list \<Rightarrow> node \<Rightarrow> UpkeepPayload list \<times> node" where
  "run_PreProcessors now [] value n = (value, n)"
| "run_PreProcessors now (p # ps) value n =
     (let r = PreProcess now p value n in run_PreProcessors now ps (fst r) (snd r))"

definition run_check ::
    "pipeline_ext \<Rightarrow> UpkeepPayload list \<Rightarrow> node \<Rightarrow> CheckResult list result \<times> node" where
  "run_check ext value n =
     (let r = CheckUpkeeps (pe_runnable ext) (pe_order ext) (pe_now ext) value (nd_runner n)
      in (fst r, n\<lparr>nd_runner := snd r\<rparr>))"

definition Process :: "pipeline_ext \<Rightarrow> Observer \<Rightarrow> Tick \<Rightarrow> node \<Rightarrow> post_result" where
  "Process ext ob tick n =
     (case Tick_Value ext tick n of
        (Inl err, n1) \<Rightarrow> Inr (Some err, n1)
      | (Inr value, n1) \<Rightarrow>
          (let pre = run_PreProcessors (pe_now ext) (ob_Preprocessors ob) value n1;
               chk = run_check ext (fst pre) (snd pre)
           in case fst chk of
                Inl err \<Rightarrow> Inr (Some err, snd chk)
              | Inr results \<Rightarrow> PostProcess ext (ob_Postprocessor ob) results (fst pre) (snd chk)))"

section \<open>Tickers and flows\<close>

text \<open>
  The loop of \<open>timeTicker.Start\<close> on the signals its \<open>select\<close> receives: the ticks it spawns
  \<open>Process\<close> on, each in a goroutine of its own. A tick the getter failed to make is nil, and
  \<open>Process\<close> is spawned on it all the same.
\<close>

datatype ticker_signal = TickerTick time | TickerDone

fun timeTicker_Start ::
    "(time \<Rightarrow> 'tick result) option \<Rightarrow> ticker_signal list \<Rightarrow> 'tick option list" where
  "timeTicker_Start getterFn [] = []"
| "timeTicker_Start getterFn (TickerDone # sigs) = []"
| "timeTicker_Start getterFn (TickerTick tm # sigs) =
     (case getterFn of
        None \<Rightarrow> timeTicker_Start getterFn sigs
      | Some getter \<Rightarrow>
          (case getter tm of Inl err \<Rightarrow> None | Inr tick \<Rightarrow> Some tick) # timeTicker_Start getterFn sigs)"

record flow =
  fl_interval :: duration
  fl_observer :: Observer
  fl_tick :: Tick

definition SamplingConditionInterval :: duration where "SamplingConditionInterval = 3 * second"
definition FinalConditionalInterval :: duration where "FinalConditionalInterval = 1 * second"
definition FinalConditionalBatchSize :: nat where "FinalConditionalBatchSize = 50"
definition RecoveryFinalInterval :: duration where "RecoveryFinalInterval = 1 * second"
definition FinalRecoveryBatchSize :: nat where "FinalRecoveryBatchSize = 50"
definition RecoveryProposalInterval :: duration where "RecoveryProposalInterval = 1 * second"
definition LogCheckInterval :: duration where "LogCheckInterval = 1 * second"
definition RetryBatchSize :: nat where "RetryBatchSize = 10"
definition RetryCheckInterval :: duration where "RetryCheckInterval = 5 * second"

definition newSampleProposalFlow :: "PreProcessor list \<Rightarrow> duration \<Rightarrow> flow" where
  "newSampleProposalFlow pre interval =
     \<lparr>fl_interval = interval,
      fl_observer = \<lparr>ob_Preprocessors = pre @ [proposalFilterer LogTrigger],
                     ob_Postprocessor = addProposalToMetadataStore\<rparr>,
      fl_tick = sampler\<rparr>"

definition newFinalConditionalFlow :: "PreProcessor list \<Rightarrow> duration \<Rightarrow> flow" where
  "newFinalConditionalFlow preprocessors interval =
     \<lparr>fl_interval = interval,
      fl_observer = \<lparr>ob_Preprocessors = preprocessors,
                     ob_Postprocessor = CombinedPostprocessor
                       [eligiblePostProcessor, retryablePostProcessor]\<rparr>,
      fl_tick = coordinatedProposalsTick ConditionTrigger FinalConditionalBatchSize\<rparr>"

definition newFinalRecoveryFlow :: "PreProcessor list \<Rightarrow> duration \<Rightarrow> flow" where
  "newFinalRecoveryFlow preprocessors interval =
     \<lparr>fl_interval = interval,
      fl_observer = \<lparr>ob_Preprocessors = preprocessors,
                     ob_Postprocessor = CombinedPostprocessor
                       [eligiblePostProcessor, retryablePostProcessor, ineligiblePostProcessor]\<rparr>,
      fl_tick = coordinatedProposalsTick LogTrigger FinalRecoveryBatchSize\<rparr>"

definition newRecoveryProposalFlow :: "PreProcessor list \<Rightarrow> duration \<Rightarrow> flow" where
  "newRecoveryProposalFlow preProcessors interval =
     \<lparr>fl_interval = interval,
      fl_observer = \<lparr>ob_Preprocessors = preProcessors @ [proposalFilterer LogTrigger],
                     ob_Postprocessor = CombinedPostprocessor
                       [ineligiblePostProcessor, addProposalToMetadataStore]\<rparr>,
      fl_tick = logRecoveryTick\<rparr>"

definition newLogTriggerFlow :: "PreProcessor list \<Rightarrow> duration \<Rightarrow> flow" where
  "newLogTriggerFlow preprocessors interval =
     \<lparr>fl_interval = interval,
      fl_observer = \<lparr>ob_Preprocessors = preprocessors,
                     ob_Postprocessor = CombinedPostprocessor
                       [eligiblePostProcessor, retryablePostProcessor, ineligiblePostProcessor]\<rparr>,
      fl_tick = logTick\<rparr>"

definition NewRetryFlow :: "PreProcessor \<Rightarrow> duration \<Rightarrow> flow" where
  "NewRetryFlow coord interval =
     \<lparr>fl_interval = interval,
      fl_observer = \<lparr>ob_Preprocessors = [coord],
                     ob_Postprocessor = CombinedPostprocessor
                       [eligiblePostProcessor, retryablePostProcessor, ineligiblePostProcessor]\<rparr>,
      fl_tick = retryTick RetryBatchSize\<rparr>"

definition ConditionalTriggerFlows :: "PreProcessor \<Rightarrow> flow list" where
  "ConditionalTriggerFlows coord =
     [newFinalConditionalFlow [coord] FinalConditionalInterval,
      newSampleProposalFlow [coord] SamplingConditionInterval]"

definition LogTriggerFlows :: "PreProcessor \<Rightarrow> duration \<Rightarrow> duration \<Rightarrow> duration \<Rightarrow> flow list" where
  "LogTriggerFlows coord logInterval recoveryProposalInterval recoveryFinalInterval =
     [newRecoveryProposalFlow [coord] recoveryProposalInterval,
      newFinalRecoveryFlow [coord] recoveryFinalInterval,
      newLogTriggerFlow [coord] logInterval]"

text \<open>The flows \<open>newPlugin\<close> sets up\<close>

definition plugin_flows :: "flow list" where
  "plugin_flows =
     LogTriggerFlows coordinatorPreProcessor LogCheckInterval RecoveryProposalInterval
       RecoveryFinalInterval @
     [NewRetryFlow coordinatorPreProcessor RetryCheckInterval] @
     ConditionalTriggerFlows coordinatorPreProcessor"

lemmas flow_defs = newSampleProposalFlow_def newFinalConditionalFlow_def newFinalRecoveryFlow_def
  newRecoveryProposalFlow_def newLogTriggerFlow_def NewRetryFlow_def ConditionalTriggerFlows_def
  LogTriggerFlows_def

section \<open>What the calls leave alone\<close>

lemma set_stores_simps [simp]:
  "nd_runner (set_metadata m n) = nd_runner n" "nd_runner (set_proposalQ q n) = nd_runner n"
  "nd_runner (set_results s n) = nd_runner n"
  "pl_Coordinator (nd_plugin (set_metadata m n)) = pl_Coordinator (nd_plugin n)"
  "pl_Coordinator (nd_plugin (set_results s n)) = pl_Coordinator (nd_plugin n)"
  "pl_Coordinator (nd_plugin (set_proposalQ q n)) = pl_Coordinator (nd_plugin n)"
  by (simp_all add: set_store_defs)

lemma PreProcess_subset: "set (fst (PreProcess now p value n)) \<subseteq> set value"
  by (cases p) (auto simp: coord_PreProcess_filter proposalFilterer_PreProcess_def Let_def)

lemma run_PreProcessors_subset: "set (fst (run_PreProcessors now ps vs n)) \<subseteq> set vs"
proof (induction ps arbitrary: vs n)
  case (Cons p ps)
  show ?case
    using Cons [of "fst (PreProcess now p vs n)" "snd (PreProcess now p vs n)"]
      PreProcess_subset [of now p vs n] by (auto simp: Let_def)
qed simp

lemma Tick_Value_coordinator [simp]:
  "pl_Coordinator (nd_plugin (snd (Tick_Value ext tick n))) = pl_Coordinator (nd_plugin n)"
  by (cases tick)
    (simp_all add: coordinatedProposalsTick_Value_def retryTick_Value_def Let_def split: sum.split)

text \<open>A check depends on the runnable only through the batches it is asked.\<close>

lemma CheckUpkeeps_cong:
  assumes "\<And>b. b \<noteq> [] \<Longrightarrow> set b \<subseteq> set ps \<Longrightarrow> r1 b = r2 b"
  shows "CheckUpkeeps r1 order now ps o1 = CheckUpkeeps r2 order now ps o1"
proof -
  have "r1 b = r2 b" if "Unflatten (uncached now o1 ps) sz = Some bs" "b \<in> set bs" for b bs sz
  proof -
    from that have "b \<in> set (unflatten_from sz (uncached now o1 ps) 0)"
      and pos: "0 < sz"
      by (auto simp: Unflatten_def unflatten_from.simps [of 0] unflatten_from.simps [of _ "[]"]
          split: if_splits)
    then have "b \<noteq> []" "set b \<subseteq> set (concat (unflatten_from sz (uncached now o1 ps) 0))"
      using unflatten_from_group by fastforce+
    then show ?thesis
      using assms [of b] by (auto simp: concat_unflatten_from [OF pos] uncached_def)
  qed
  then have "RunJobs order bs (wrapWorkerFunc r1) res s = RunJobs order bs (wrapWorkerFunc r2) res s"
    if "Unflatten (uncached now o1 ps) sz = Some bs" for bs sz res
      and s :: "CheckResult run_result \<times> Runner"
    using that unfolding RunJobs_def
    by (intro fold_cong refl) (auto simp: wrapWorkerFunc_def)
  then have "parallelCheck r1 order now ps o1 = parallelCheck r2 order now ps o1"
    by (simp add: parallelCheck_def split_cached(1) Let_def split: option.split)
  then show ?thesis by (simp add: CheckUpkeeps_def)
qed

lemma PostProcess_runnable:
  "PostProcess (ext\<lparr>pe_runnable := r\<rparr>) pp results payloads n = PostProcess ext pp results payloads n"
  "combined_PostProcess (ext\<lparr>pe_runnable := r\<rparr>) pps results payloads err n =
     combined_PostProcess ext pps results payloads err n"
  by (induction ext pp results payloads n and ext pps results payloads err n
      rule: PostProcess_combined_PostProcess.induct)
    (simp_all add: ineligible_PostProcess_def split: sum.split)

lemma Tick_Value_runnable: "Tick_Value (ext\<lparr>pe_runnable := r\<rparr>) tick n = Tick_Value ext tick n"
  by (cases tick)
    (simp_all add: sampler_Value_def coordinatedProposalsTick_Value_def retryTick_Value_def
      logTick_Value_def logRecoveryTick_Value_def Let_def split: sum.split)

section \<open>Properties\<close>

definition sample_pipeline :: node where
  "sample_pipeline =
     \<lparr>nd_plugin = sample_node\<lparr>pl_Coordinator := sample_accepted\<rparr>, nd_runner = sample_runner,
      nd_retryQ = NewRetryQueue, nd_states = []\<rparr>"

definition failed_check :: "UpkeepPayload \<Rightarrow> CheckResult" where
  "failed_check p = (sample_check p)\<lparr>cr_PipelineExecutionState := 2, cr_Retryable := True\<rparr>"

definition sample_ext :: pipeline_ext where
  "sample_ext =
     \<lparr>pe_now = 110, pe_runnable = (\<lambda>b. Inr (map failed_check b)), pe_order = [0], pe_range = [],
      pe_draw = (\<lambda>i. 0), pe_SetUpkeepState = (\<lambda>_ _. None), pe_BuildPayloads = (\<lambda>_. Inr []),
      pe_IsEmpty = (\<lambda>_. False),
      pe_GetActiveUpkeeps = Inr [sample_payload ''a'' 10, sample_payload ''b'' 10, sample_payload ''c'' 10],
      pe_GetLatestPayloads = Some (Inr [sample_payload ''w'' 100, sample_payload ''b'' 10]),
      pe_GetRecoveryProposals = None, pe_OfInt = (\<lambda>_. 2)\<rparr>"

definition may_check :: "time \<Rightarrow> node \<Rightarrow> UpkeepPayload \<Rightarrow> bool" where
  "may_check now n p \<longleftrightarrow>
     ShouldProcess now (up_WorkID p) (up_UpkeepID p) (up_Trigger p) (pl_Coordinator (nd_plugin n))"

text \<open>
  C9: No flow of the plugin ever asks the check pipeline about an upkeep that is in flight or was
  performed: what a call of \<open>Process\<close> does, to the node and to its error, does not depend on the
  answers of the runnable to batches that hold a payload the coordinator says not to process.
\<close>

theorem flows_never_check_in_flight:
  assumes "fl \<in> set plugin_flows"
    and "\<And>b. b \<noteq> [] \<Longrightarrow> \<forall>p\<in>set b. may_check (pe_now ext) n p \<Longrightarrow> pe_runnable ext b = r b"
  shows "Process ext (fl_observer fl) (fl_tick fl) n =
    Process (ext\<lparr>pe_runnable := r\<rparr>) (fl_observer fl) (fl_tick fl) n"
proof -
  obtain ps where ps: "ob_Preprocessors (fl_observer fl) = coordinatorPreProcessor # ps"
    using assms(1) by (auto simp: plugin_flows_def flow_defs)
  have chk: "run_check ext (fst pre) (snd pre) = run_check (ext\<lparr>pe_runnable := r\<rparr>) (fst pre) (snd pre)"
    if "Tick_Value ext (fl_tick fl) n = (Inr vs, n1)"
      "pre = run_PreProcessors (pe_now ext) (ob_Preprocessors (fl_observer fl)) vs n1" for vs n1 pre
  proof -
    have "pl_Coordinator (nd_plugin n1) = pl_Coordinator (nd_plugin n)"
      using Tick_Value_coordinator [of ext "fl_tick fl" n] that(1) by simp
    then have "\<forall>p\<in>set (fst pre). may_check (pe_now ext) n p"
      using run_PreProcessors_subset [of "pe_now ext" ps "filter (may_check (pe_now ext) n) vs" n1]
        that(2)
      by (auto simp: ps coord_PreProcess_filter simp flip: may_check_def)
    then show ?thesis
      unfolding run_check_def
      using CheckUpkeeps_cong [of "fst pre" "pe_runnable ext" r "pe_order ext" "pe_now ext"] assms(2)
      by (simp add: subset_iff)
  qed
  obtain v n1 where tick: "Tick_Value ext (fl_tick fl) n = (v, n1)" by fastforce
  show ?thesis
  proof (cases v)
    case (Inr vs)
    from chk [OF tick [unfolded Inr] refl] show ?thesis
      by (simp add: Process_def Tick_Value_runnable PostProcess_runnable tick Inr Let_def
          split: sum.split)
  qed (simp add: Process_def Tick_Value_runnable tick)
qed

theorem flows_never_check_in_flight_witness:
  "Process sample_ext (fl_observer (newLogTriggerFlow [coordinatorPreProcessor] LogCheckInterval))
     logTick sample_pipeline =
   Process (sample_ext\<lparr>pe_runnable := (\<lambda>b. if \<exists>p\<in>set b. up_WorkID p = ''w'' then Inl (External ''x'')
       else Inr (map failed_check b))\<rparr>)
     (fl_observer (newLogTriggerFlow [coordinatorPreProcessor] LogCheckInterval)) logTick sample_pipeline"
proof -
  let ?fl = "newLogTriggerFlow [coordinatorPreProcessor] LogCheckInterval"
  have "?fl \<in> set plugin_flows" by (simp add: plugin_flows_def LogTriggerFlows_def)
  moreover have "up_WorkID p \<noteq> ''w''" if "may_check 110 sample_pipeline p" for p
    using that sample_accepted_get [of 110]
    by (auto simp: may_check_def ShouldProcess_def sample_pipeline_def)
  ultimately show ?thesis
    using flows_never_check_in_flight [of ?fl sample_ext sample_pipeline
        "\<lambda>b. if \<exists>p\<in>set b. up_WorkID p = ''w'' then Inl (External ''x'') else Inr (map failed_check b)"]
    by (auto simp: sample_ext_def newLogTriggerFlow_def)
qed

text \<open>
  The sampler returns at most \<open>MaxSampledConditionals\<close> of the active upkeeps, none more often
  than it is active, and as many as the ratio asks for up to that limit.
\<close>

lemma sampler_bounds:
  assumes "pe_GetActiveUpkeeps ext = Inr upkeeps"
  shows "\<exists>sample. sampler_Value ext = Inr sample \<and> mset sample \<subseteq># mset upkeeps \<and>
    length sample = (if upkeeps = [] then 0
      else nat (min (min (pe_OfInt ext (length upkeeps)) 300) (int (length upkeeps))))"
proof -
  have "mset (take k (Shuffle d upkeeps)) \<subseteq># mset upkeeps" for k d
    by (metis append_take_drop_id mset_Shuffle mset_append mset_subset_eq_add_left)
  with assms show ?thesis
    by (auto simp: sampler_Value_def MaxSampledConditionals_def Let_def min_def)
qed

lemma sampler_bounds_witness:
  "\<exists>sample. sampler_Value sample_ext = Inr sample \<and> length sample = 2"
  using sampler_bounds [of sample_ext
      "[sample_payload ''a'' 10, sample_payload ''b'' 10, sample_payload ''c'' 10]"]
  by (auto simp: sample_ext_def)

text \<open>
  C36: Retries can go to the wrong payload. The runner returns cached results before those it ran,
  and the retry post-processor pairs results and payloads by position: when the second of two
  payloads is cached and the check of the first fails retryably, the second is queued for a
  retry and the first is not.
\<close>

theorem retry_queues_wrong_payload:
  assumes "rn_workerBatchLimit (nd_runner n) = WorkerBatchLimit"
    and "cache_hit (pe_now ext) (nd_runner n) p = None"
    and "cache_hit (pe_now ext) (nd_runner n) q = Some rq" "cr_PipelineExecutionState rq = 0"
    and "pe_runnable ext [p] = Inr [rp]" "cr_PipelineExecutionState rp \<noteq> 0" "cr_Retryable rp"
    and "pe_order ext = [0]" "up_WorkID p \<noteq> up_WorkID q"
    and "rq_records (nd_retryQ n) (up_WorkID p) = None"
  shows "\<exists>n1 n2. run_check ext [p, q] n = (Inr [rq, rp], n1) \<and>
    retryable_PostProcess (pe_now ext) [rq, rp] [p, q] n1 = Inr (None, n2) \<and>
    rq_records (nd_retryQ n2) (up_WorkID p) = None \<and>
    rq_records (nd_retryQ n2) (up_WorkID q) \<noteq> None"
proof -
  have unc: "uncached (pe_now ext) (nd_runner n) [p, q] = [p]"
    using assms(2,3) by (simp add: uncached_def)
  have bat: "check_batches (pe_now ext) (nd_runner n) [p, q] = [[p]]"
    using assms(1) by (simp add: check_batches_def unc WorkerBatchLimit_def unflatten_from.simps Let_def)
  have ord: "complete_order [0] (check_batches (pe_now ext) (nd_runner n) [p, q])"
    by (simp add: bat complete_order_def)
  let ?j = "jobs_state (pe_runnable ext) [0] (pe_now ext) [p, q] (nd_runner n)"
  have "rr_values (fst ?j) = [rq, rp]"
    using RunJobs_result(1) [OF complete_order_bound [OF ord], of "pe_runnable ext" "pe_now ext"]
      assms(2,3,5)
    by (simp add: jobs_state_def bat split_cached newResult_def delivered_values_def
        del: split_cached.simps)
  moreover have "rr_err (fst ?j) = None"
    using jobs_failures(3) [OF ord, of "pe_runnable ext"] assms(5) by (simp add: bat)
  ultimately have "run_check ext [p, q] n = (Inr [rq, rp], n\<lparr>nd_runner := snd ?j\<rparr>)"
    using CheckUpkeeps_unfold [OF assms(1), of "pe_now ext" "[p, q]" "pe_runnable ext" "[0]"] unc assms(8)
    by (simp add: run_check_def Let_def)
  moreover have "\<exists>n2. retryable_PostProcess (pe_now ext) [rq, rp] [p, q] (n\<lparr>nd_runner := snd ?j\<rparr>) =
      Inr (None, n2) \<and> rq_records (nd_retryQ n2) (up_WorkID p) = None \<and>
      rq_records (nd_retryQ n2) (up_WorkID q) \<noteq> None"
    using assms(4,6,7,9,10)
    by (simp add: retryable_PostProcess_def rq_Enqueue_def rq_enqueue1_def Let_def)
  ultimately show ?thesis by blast
qed

theorem retry_queues_wrong_payload_witness:
  "\<exists>n1 n2. run_check sample_ext [sample_payload ''b'' 10, sample_payload ''a'' 10] sample_pipeline =
      (Inr [sample_result 5 ''a'' 10, failed_check (sample_payload ''b'' 10)], n1) \<and>
    retryable_PostProcess 110 [sample_result 5 ''a'' 10, failed_check (sample_payload ''b'' 10)]
      [sample_payload ''b'' 10, sample_payload ''a'' 10] n1 = Inr (None, n2) \<and>
    rq_records (nd_retryQ n2) ''b'' = None \<and> rq_records (nd_retryQ n2) ''a'' \<noteq> None"
  using retry_queues_wrong_payload [of sample_pipeline sample_ext "sample_payload ''b'' 10"
      "sample_payload ''a'' 10" "sample_result 5 ''a'' 10" "failed_check (sample_payload ''b'' 10)"]
    sample_runner_inv sample_runner_cache
  by (simp add: sample_pipeline_def sample_ext_def runner_inv_def NewRetryQueue_def failed_check_def)
    (simp add: sample_defs)

text \<open>
  The sampling flow does not leave out what it already proposed. Its filter looks at the log
  proposals: with none of them in the metadata store, every sampled payload is checked and
  proposed again, although its conditional proposal is still there.
\<close>

lemma sample_flow_filters_log_proposals:
  assumes "om_Keys (ms_logRecoveryProposals (nd_metadata n)) = []"
    and "\<forall>p\<in>set payloads. may_check now n p"
  shows "fst (run_PreProcessors now
      (ob_Preprocessors (fl_observer (newSampleProposalFlow [coordinatorPreProcessor] i))) payloads n) =
    payloads"
  using assms
  by (simp add: newSampleProposalFlow_def coord_PreProcess_filter may_check_def
      proposalFilterer_PreProcess_def ViewProposals_def viewLogRecoveryProposal_def
      view_proposals_def Let_def filter_id_conv)

lemma sample_flow_filters_log_proposals_witness:
  "fst (run_PreProcessors 110
      (ob_Preprocessors (fl_observer (newSampleProposalFlow [coordinatorPreProcessor] 3)))
      [sample_payload ''b'' 10]
      (set_metadata (AddProposals (\<lambda>_. ConditionTrigger) 100 [sample_proposal ''b'' 9]
         (nd_metadata sample_pipeline)) sample_pipeline)) = [sample_payload ''b'' 10]"
proof (rule sample_flow_filters_log_proposals)
  show "\<forall>p\<in>set [sample_payload ''b'' 10]. may_check 110
      (set_metadata (AddProposals (\<lambda>_. ConditionTrigger) 100 [sample_proposal ''b'' 9]
        (nd_metadata sample_pipeline)) sample_pipeline) p"
    by (simp add: may_check_def ShouldProcess_def sample_pipeline_def sample_accepted_def Accept_def
        sample_coord_def NewCoordinator_def Cache_Get_def Cache_Set_def NewCache_def sample_defs Let_def)
qed (simp add: sample_pipeline_def set_store_defs sample_node_def sample_plugin_def AddProposals_def
    ms_add1_def addConditionalProposal_def newOrderedMap_def om_Keys_def)

end
