(* ===== verification/Config.thy ===== *)
theory Config
  imports Complex_Main Automation_Types
begin

text \<open>
  \<open>pkg/v3/config/config.go\<close> and the parts of \<open>pkg/v3/plugin/factory.go\<close> and \<open>delegate.go\<close> that
  turn configuration into numbers. JSON decoding is an argument. The sampling ratio is a
  rational number: a \<open>float32\<close> times a count below \<open>2 ^ 29\<close> is exact in \<open>float64\<close>. The complex
  power that computes the ratio is an argument.
\<close>

section \<open>The off-chain configuration\<close>

record LogProviderConfig =
  lpc_BlockRate :: "32 word"
  lpc_LogLimit :: "32 word"

record OffchainConfig =
  oc_PerformLockoutWindow :: int
  oc_TargetProbability :: string
  oc_TargetInRounds :: int
  oc_MinConfirmations :: int
  oc_GasLimitPerReport :: "32 word"
  oc_GasOverheadPerUpkeep :: "32 word"
  oc_MaxUpkeepBatchSize :: int
  oc_LogProviderConfig :: LogProviderConfig

definition ensureMinimumDefaults :: "OffchainConfig \<Rightarrow> OffchainConfig" where
  "ensureMinimumDefaults conf =
     (let conf = (if oc_PerformLockoutWindow conf \<le> 0
                  then conf\<lparr>oc_PerformLockoutWindow := 20 * 60 * 1000\<rparr> else conf);
          conf = (if length (oc_TargetProbability conf) = 0
                  then conf\<lparr>oc_TargetProbability := ''0.99999''\<rparr> else conf);
          conf = (if oc_TargetInRounds conf \<le> 0 then conf\<lparr>oc_TargetInRounds := 1\<rparr> else conf);
          conf = (if oc_MinConfirmations conf \<le> 0 then conf\<lparr>oc_MinConfirmations := 0\<rparr> else conf);
          conf = (if oc_GasLimitPerReport conf = 0
                  then conf\<lparr>oc_GasLimitPerReport := 5300000\<rparr> else conf);
          conf = (if oc_GasOverheadPerUpkeep conf = 0
                  then conf\<lparr>oc_GasOverheadPerUpkeep := 300000\<rparr> else conf);
          conf = (if oc_MaxUpkeepBatchSize conf \<le> 0
                  then conf\<lparr>oc_MaxUpkeepBatchSize := 1\<rparr> else conf)
      in conf)"

definition DecodeOffchainConfig :: "(bytes \<Rightarrow> OffchainConfig result) \<Rightarrow> bytes \<Rightarrow> OffchainConfig result" where
  "DecodeOffchainConfig unmarshal b =
     (case unmarshal b of Inl err \<Rightarrow> Inl err | Inr config \<Rightarrow> Inr (ensureMinimumDefaults config))"

section \<open>The configuration of the services\<close>

definition DefaultCacheExpiration_config :: duration where
  "DefaultCacheExpiration_config = 20 * minute"
definition DefaultCacheClearInterval :: duration where "DefaultCacheClearInterval = 30 * second"
definition DefaultServiceQueueLength :: int where "DefaultServiceQueueLength = 1000"

record ReportingFactoryConfig =
  rfc_CacheExpiration :: duration
  rfc_CacheEvictionInterval :: duration
  rfc_MaxServiceWorkers :: int
  rfc_ServiceQueueLength :: int

text \<open>The defaults \<open>NewDelegate\<close> sets and overrides; \<open>procs\<close> is \<open>runtime.GOMAXPROCS(0)\<close>.\<close>

definition delegate_config :: "int \<Rightarrow> ReportingFactoryConfig \<Rightarrow> ReportingFactoryConfig" where
  "delegate_config procs c =
     (let conf = \<lparr>rfc_CacheExpiration = DefaultCacheExpiration_config,
                  rfc_CacheEvictionInterval = DefaultCacheClearInterval,
                  rfc_MaxServiceWorkers = 10 * procs,
                  rfc_ServiceQueueLength = DefaultServiceQueueLength\<rparr>;
          conf = (if rfc_CacheExpiration c \<noteq> 0
                  then conf\<lparr>rfc_CacheExpiration := rfc_CacheExpiration c\<rparr> else conf);
          conf = (if rfc_CacheEvictionInterval c \<noteq> 0
                  then conf\<lparr>rfc_CacheEvictionInterval := rfc_CacheEvictionInterval c\<rparr> else conf);
          conf = (if rfc_MaxServiceWorkers c \<noteq> 0
                  then conf\<lparr>rfc_MaxServiceWorkers := rfc_MaxServiceWorkers c\<rparr> else conf);
          conf = (if rfc_ServiceQueueLength c \<noteq> 0
                  then conf\<lparr>rfc_ServiceQueueLength := rfc_ServiceQueueLength c\<rparr> else conf)
      in conf)"

section \<open>The sampling ratio\<close>

type_synonym sampleRatio = rat

definition sampleFromProbability ::
    "(int \<Rightarrow> int \<Rightarrow> rat \<Rightarrow> sampleRatio) \<Rightarrow> int \<Rightarrow> int \<Rightarrow> rat \<Rightarrow> sampleRatio result" where
  "sampleFromProbability cpow rounds nodes probability =
     (if rounds \<le> 0 then Inl (External ''number of rounds must be greater than 0'')
      else if nodes \<le> 0 then Inl (External ''number of nodes must be greater than 0'')
      else if probability > 1 \<or> probability \<le> 0
      then Inl (External ''probability must be less than 1 and greater than 0'')
      else Inr (cpow rounds nodes probability))"

text \<open>\<open>math.Round\<close> rounds half away from zero.\<close>

definition math_Round :: "rat \<Rightarrow> int" where
  "math_Round x = (if x < 0 then - \<lfloor>- x + 1 / 2\<rfloor> else \<lfloor>x + 1 / 2\<rfloor>)"

definition sampleRatio_OfInt :: "sampleRatio \<Rightarrow> nat \<Rightarrow> int" where
  "sampleRatio_OfInt r cnt =
     (if cnt = 0 then 0
      else let v = math_Round (r * rat_of_nat cnt) in if v < 1 then 1 else v)"

section \<open>Properties\<close>

definition config_usable :: "OffchainConfig \<Rightarrow> bool" where
  "config_usable c \<longleftrightarrow> 0 < oc_PerformLockoutWindow c \<and> oc_TargetProbability c \<noteq> [] \<and>
     0 < oc_TargetInRounds c \<and> 0 \<le> oc_MinConfirmations c \<and> 0 < oc_GasLimitPerReport c \<and>
     0 < oc_GasOverheadPerUpkeep c \<and> 1 \<le> oc_MaxUpkeepBatchSize c"

text \<open>
  A decoded configuration is usable: every value is inside its bounds. Usable values are left
  as they were given, so that applying the defaults twice changes nothing.
\<close>

lemma decoded_config_usable:
  assumes "DecodeOffchainConfig unmarshal b = Inr c"
  shows "config_usable c \<and> ensureMinimumDefaults c = c \<and>
    (\<forall>c0. unmarshal b = Inr c0 \<and> config_usable c0 \<longrightarrow> c = c0)"
proof -
  have usable: "config_usable (ensureMinimumDefaults x)" for x
    by (auto simp: config_usable_def ensureMinimumDefaults_def Let_def word_gt_0)
  have same: "ensureMinimumDefaults x = x" if "config_usable x" for x
    using that by (auto simp: config_usable_def ensureMinimumDefaults_def Let_def)
  obtain c0 where c0: "unmarshal b = Inr c0" "c = ensureMinimumDefaults c0"
    using assms by (auto simp: DecodeOffchainConfig_def split: sum.splits)
  with usable same show ?thesis by auto
qed

definition sample_config :: OffchainConfig where
  "sample_config =
     \<lparr>oc_PerformLockoutWindow = 0, oc_TargetProbability = [], oc_TargetInRounds = - 3,
      oc_MinConfirmations = 2, oc_GasLimitPerReport = 0, oc_GasOverheadPerUpkeep = 5,
      oc_MaxUpkeepBatchSize = 0,
      oc_LogProviderConfig = \<lparr>lpc_BlockRate = 1, lpc_LogLimit = 1\<rparr>\<rparr>"

lemma decoded_config_usable_witness: "config_usable (ensureMinimumDefaults sample_config)"
  using decoded_config_usable [of "\<lambda>_. Inr sample_config" "[]"] by (simp add: DecodeOffchainConfig_def)

text \<open>
  A ratio of at most one samples at least one and at most all of a non-empty set, and between
  the two within a half of the exact share.
\<close>

lemma sampleRatio_OfInt_bounds:
  assumes "0 < cnt" "r \<le> 1"
  shows "1 \<le> sampleRatio_OfInt r cnt \<and> sampleRatio_OfInt r cnt \<le> int cnt \<and>
    (1 \<le> r * rat_of_nat cnt \<longrightarrow>
      \<bar>rat_of_int (sampleRatio_OfInt r cnt) - r * rat_of_nat cnt\<bar> \<le> 1 / 2)"
proof -
  let ?x = "r * rat_of_nat cnt"
  have le: "?x \<le> rat_of_nat cnt" using assms by (simp add: mult_le_cancel_right1)
  have neg: "0 \<le> \<lfloor>- ?x + 1 / 2\<rfloor>" if "?x < 0" using that by (simp add: le_floor_iff)
  have "math_Round ?x \<le> int cnt"
  proof (cases "?x < 0")
    case True
    from neg [OF True] have "- \<lfloor>- ?x + 1 / 2\<rfloor> \<le> int cnt" by linarith
    with True show ?thesis by (simp only: math_Round_def if_True)
  next
    case False
    with le show ?thesis by (simp add: math_Round_def floor_le_iff)
  qed
  moreover have "\<bar>rat_of_int (sampleRatio_OfInt r cnt) - ?x\<bar> \<le> 1 / 2" if "1 \<le> ?x"
  proof -
    have "1 \<le> math_Round ?x" using that by (simp add: math_Round_def le_floor_iff)
    then have "sampleRatio_OfInt r cnt = \<lfloor>?x + 1 / 2\<rfloor>"
      using assms that by (simp add: sampleRatio_OfInt_def math_Round_def Let_def)
    moreover have "\<bar>rat_of_int \<lfloor>y + 1 / 2\<rfloor> - y\<bar> \<le> 1 / 2" for y :: rat
      using floor_correct [of "y + 1 / 2"] by linarith
    ultimately show ?thesis by (simp only:)
  qed
  ultimately show ?thesis using assms(1) by (auto simp: sampleRatio_OfInt_def Let_def)
qed

lemma sampleRatio_OfInt_bounds_witness:
  "1 \<le> sampleRatio_OfInt (1 / 4) 10 \<and> sampleRatio_OfInt (1 / 4) 10 \<le> 10"
  using sampleRatio_OfInt_bounds [of 10 "1 / 4"] by simp

end
