(* ===== verification/Node.thy ===== *)
theory Node
  imports Pipeline Config
begin

text \<open>
  A whole node: \<open>pkg/v3/plugin/plugin.go\<close> (\<open>newPlugin\<close>) and the interleaving of everything that
  runs in it: the goroutines its tickers spawn, each making the calls of \<open>Observer.Process\<close> one
  by one, the calls the OCR protocol makes on the plugin, the transmit events, the block history
  and the collector of the result store. A call is one step; the calls of different goroutines
  interleave freely.
\<close>

section \<open>Assembly\<close>

record node_config =
  nc_digest :: bytes
  nc_utg :: UpkeepTypeGetter
  nc_wg :: WorkIDGenerator
  nc_runner :: RunnerConfig
  nc_offchain :: OffchainConfig
  nc_F :: int

text \<open>\<open>sub\<close> is the error of the block subscriber.\<close>

definition newPlugin :: "node_config \<Rightarrow> go_error option \<Rightarrow> node result" where
  "newPlugin nc sub =
     (case NewMetadataStore sub of
        Inl err \<Rightarrow> Inl err
      | Inr metadataStore \<Rightarrow>
          (let conf = nc_offchain nc
           in Inr \<lparr>nd_plugin =
                \<lparr>pl_ConfigDigest = nc_digest nc, pl_UpkeepTypeGetter = nc_utg nc,
                 pl_WorkIDGenerator = nc_wg nc,
                 pl_Coordinator = NewCoordinator (nc_utg nc) (oc_PerformLockoutWindow conf)
                   (oc_MinConfirmations conf),
                 pl_ResultStore = resultStore_New, pl_MetadataStore = metadataStore,
                 pl_ProposalQ = NewProposalQueue, pl_sorter = NewStagedResultSorter,
                 pl_MaxUpkeepBatchSize = oc_MaxUpkeepBatchSize conf,
                 pl_GasLimitPerReport = oc_GasLimitPerReport conf,
                 pl_GasOverheadPerUpkeep = oc_GasOverheadPerUpkeep conf, pl_F = nc_F nc\<rparr>,
               nd_runner = NewRunner (nc_runner nc), nd_retryQ = NewRetryQueue, nd_states = []\<rparr>))"

text \<open>
  \<open>NewReportingPlugin\<close> of the factory: the configuration is decoded, the target probability
  parsed, the ratio computed, then the plugin assembled.
\<close>

definition NewReportingPlugin ::
    "(bytes \<Rightarrow> OffchainConfig result) \<Rightarrow> (string \<Rightarrow> rat result) \<Rightarrow> (int \<Rightarrow> int \<Rightarrow> rat \<Rightarrow> sampleRatio) \<Rightarrow>
     bytes \<Rightarrow> int \<Rightarrow> node_config \<Rightarrow> go_error option \<Rightarrow> (sampleRatio \<times> node) result" where
  "NewReportingPlugin unmarshal ParseFloat cpow offchainConfig N nc sub =
     (case DecodeOffchainConfig unmarshal offchainConfig of
        Inl err \<Rightarrow> Inl err
      | Inr conf \<Rightarrow>
          (case ParseFloat (oc_TargetProbability conf) of
             Inl err \<Rightarrow> Inl (Wrapped ''failed to parse configured probability'' err)
           | Inr parsed \<Rightarrow>
               (case sampleFromProbability cpow (oc_TargetInRounds conf) (N - nc_F nc) parsed of
                  Inl err \<Rightarrow> Inl (Wrapped ''failed to create plugin'' err)
                | Inr sample \<Rightarrow>
                    (case newPlugin (nc\<lparr>nc_offchain := conf\<rparr>) sub of
                       Inl err \<Rightarrow> Inl err
                     | Inr n \<Rightarrow> Inr (sample, n)))))"

section \<open>The interleaving\<close>

text \<open>How far a call of \<open>Process\<close> has come\<close>

datatype stage =
    Ticked Tick
  | Preprocessing "PreProcessor list" "UpkeepPayload list"
  | Postprocessing "CheckResult list" "UpkeepPayload list"

type_synonym activity = "Observer \<times> stage"

inductive node_step ::
    "externals \<Rightarrow> (pipeline_ext \<Rightarrow> bool) \<Rightarrow> node \<times> activity list \<Rightarrow> node \<times> activity list \<Rightarrow> bool"
  for ex env where
  spawn: "fl \<in> set plugin_flows \<Longrightarrow>
    node_step ex env (n, as) (n, as @ [(fl_observer fl, Ticked (fl_tick fl))])"
| fetch: "env ext \<Longrightarrow> Tick_Value ext tick n = (Inr v, n') \<Longrightarrow>
    node_step ex env (n, xs @ (ob, Ticked tick) # ys)
      (n', xs @ (ob, Preprocessing (ob_Preprocessors ob) v) # ys)"
| fetch_fails: "env ext \<Longrightarrow> Tick_Value ext tick n = (Inl err, n') \<Longrightarrow>
    node_step ex env (n, xs @ (ob, Ticked tick) # ys) (n', xs @ ys)"
| preprocess: "PreProcess now p v n = (v', n') \<Longrightarrow>
    node_step ex env (n, xs @ (ob, Preprocessing (p # ps) v) # ys)
      (n', xs @ (ob, Preprocessing ps v') # ys)"
| check: "env ext \<Longrightarrow> run_check ext v n = (Inr rs, n') \<Longrightarrow>
    node_step ex env (n, xs @ (ob, Preprocessing [] v) # ys) (n', xs @ (ob, Postprocessing rs v) # ys)"
| check_fails: "env ext \<Longrightarrow> run_check ext v n = (Inl err, n') \<Longrightarrow>
    node_step ex env (n, xs @ (ob, Preprocessing [] v) # ys) (n', xs @ ys)"
| postprocess: "env ext \<Longrightarrow> PostProcess ext (ob_Postprocessor ob) rs v n = Inr (err, n') \<Longrightarrow>
    node_step ex env (n, xs @ (ob, Postprocessing rs v) # ys) (n', xs @ ys)"
| observe: "plugin_Observation ex now ks seqNr prev (nd_plugin n) = (r, p) \<Longrightarrow>
    node_step ex env (n, as) (n\<lparr>nd_plugin := p\<rparr>, as)"
| accept: "ShouldAcceptAttestedReport ex now report (nd_plugin n) = (r, p) \<Longrightarrow>
    node_step ex env (n, as) (n\<lparr>nd_plugin := p\<rparr>, as)"
| transmit_events: "checkEvents now latest (pl_Coordinator (nd_plugin n)) = (err, c) \<Longrightarrow>
    node_step ex env (n, as) (n\<lparr>nd_plugin := (nd_plugin n)\<lparr>pl_Coordinator := c\<rparr>\<rparr>, as)"
| new_blocks: "distinct (map bk_Number bh) \<Longrightarrow>
    node_step ex env (n, as) (set_metadata (SetBlockHistory bh (nd_metadata n)) n, as)"
| collect: "node_step ex env (n, as) (set_results (resultStore_gc now ks (nd_results n)) n, as)"

inductive node_reachable ::
    "externals \<Rightarrow> (pipeline_ext \<Rightarrow> bool) \<Rightarrow> node_config \<Rightarrow> node \<times> activity list \<Rightarrow> bool" for ex env nc where
  node_init: "newPlugin nc None = Inr n \<Longrightarrow> node_reachable ex env nc (n, [])"
| node_next: "node_reachable ex env nc s \<Longrightarrow> node_step ex env s s' \<Longrightarrow> node_reachable ex env nc s'"

section \<open>What is trusted of the environment\<close>

text \<open>
  The check pipeline behind the runnable marks a result as successful and eligible only if it
  fills it in the way \<open>validateCheckResult\<close> demands of every node.
\<close>

definition result_fine :: "UpkeepTypeGetter \<Rightarrow> WorkIDGenerator \<Rightarrow> CheckResult \<Rightarrow> bool" where
  "result_fine utg wg r \<longleftrightarrow>
     (cr_PipelineExecutionState r = 0 \<and> cr_Eligible r \<longrightarrow> performable_ok utg wg r)"

definition runnable_fine :: "UpkeepTypeGetter \<Rightarrow> WorkIDGenerator \<Rightarrow> pipeline_ext \<Rightarrow> bool" where
  "runnable_fine utg wg ext \<longleftrightarrow>
     (\<forall>b rs. pe_runnable ext b = Inr rs \<longrightarrow> (\<forall>r\<in>set rs. result_fine utg wg r))"

section \<open>Results of the runner\<close>

definition runner_all :: "(CheckResult \<Rightarrow> bool) \<Rightarrow> Runner \<Rightarrow> bool" where
  "runner_all P o1 \<longleftrightarrow> (\<forall>k item. c_data (rn_cache o1) k = Some item \<longrightarrow> P (ci_Item item))"

lemma runner_all_cache_result: "runner_all P o1 \<Longrightarrow> P r \<Longrightarrow> runner_all P (cache_result now r o1)"
  by (auto simp: runner_all_def cache_result_def Cache_Set_def Let_def split: option.splits)

lemma runner_all_fold:
  "runner_all P o1 \<Longrightarrow> \<forall>r\<in>set rs. P r \<Longrightarrow> runner_all P (fold (cache_result now) rs o1)"
  by (induction rs arbitrary: o1) (simp_all add: runner_all_cache_result)

definition run_all :: "(CheckResult \<Rightarrow> bool) \<Rightarrow> CheckResult run_result \<times> Runner \<Rightarrow> bool" where
  "run_all P s \<longleftrightarrow> (\<forall>r\<in>set (rr_values (fst s)). P r) \<and> runner_all P (snd s)"

lemma run_all_fold:
  "run_all P s \<Longrightarrow> \<forall>r\<in>set rs. P r \<Longrightarrow>
     run_all P (fold (\<lambda>res st. (result_Add res (fst st), cache_result now res (snd st))) rs s)"
  using runner_all_fold [of P "snd s" rs now]
  by (auto simp: run_all_def aggregate_values aggregate_runner)

lemma run_all_aggregate:
  "run_all P s \<Longrightarrow> (\<And>rs. d = Inr rs \<Longrightarrow> \<forall>r\<in>set rs. P r) \<Longrightarrow> run_all P (wrapAggregate now d s)"
  by (cases d)
    (auto simp: wrapAggregate_def run_all_def AddFailures_def SetErr_def
      intro!: run_all_fold [unfolded run_all_def] simp: AddSuccesses_def)

lemma run_all_RunJobs:
  assumes "\<And>b rs. runnable b = Inr rs \<Longrightarrow> \<forall>r\<in>set rs. P r" "run_all P s"
  shows "run_all P (RunJobs order jobs (wrapWorkerFunc runnable) (wrapAggregate now) s)"
proof -
  have step: "run_all P (wrapAggregate now (wrapWorkerFunc runnable b) t)" if "run_all P t" for b t
    using that assms(1)
    by (intro run_all_aggregate) (auto simp: wrapWorkerFunc_def split: sum.splits)
  show ?thesis
    using assms(2) unfolding RunJobs_def by (induction order arbitrary: s) (simp_all add: step)
qed

lemma cache_hit_all: "runner_all P o1 \<Longrightarrow> cache_hit now o1 p = Some r \<Longrightarrow> P r"
  by (auto simp: runner_all_def cache_hit_def Cache_Get_def split: option.splits if_splits)

lemma CheckUpkeeps_all:
  assumes "runner_all P o1" "\<And>b rs. runnable b = Inr rs \<Longrightarrow> \<forall>r\<in>set rs. P r"
  shows "runner_all P (snd (CheckUpkeeps runnable order now ps o1))"
    and "fst (CheckUpkeeps runnable order now ps o1) = Inr vs \<Longrightarrow> \<forall>r\<in>set vs. P r"
proof -
  have init: "run_all P (fst (split_cached now o1 ps newResult), o1)"
    using assms(1) cache_hit_all [OF assms(1)]
    by (auto simp: run_all_def split_cached(2) newResult_def)
  then have "run_all P (RunJobs order bs (wrapWorkerFunc runnable) (wrapAggregate now)
      (fst (split_cached now o1 ps newResult), o1))" for bs
    using assms(2) by (rule run_all_RunJobs [rotated])
  with init assms(1) show "runner_all P (snd (CheckUpkeeps runnable order now ps o1))"
    and "fst (CheckUpkeeps runnable order now ps o1) = Inr vs \<Longrightarrow> \<forall>r\<in>set vs. P r"
    by (auto simp: CheckUpkeeps_def parallelCheck_def run_all_def newResult_def Let_def
        split: option.splits if_splits)
qed

section \<open>Invariant of the stores\<close>

definition results_wf :: "UpkeepTypeGetter \<Rightarrow> WorkIDGenerator \<Rightarrow> resultStore \<Rightarrow> bool" where
  "results_wf utg wg s \<longleftrightarrow> resultStore_inv s \<and>
     (\<forall>k r. rs_data s k = Some r \<longrightarrow> performable_ok utg wg (sr_data r))"

definition metadata_wf :: "UpkeepTypeGetter \<Rightarrow> WorkIDGenerator \<Rightarrow> metadataStore \<Rightarrow> bool" where
  "metadata_wf utg wg m \<longleftrightarrow>
     proposals_fit utg wg LogTrigger (ms_logRecoveryProposals m) \<and>
     proposals_fit utg wg ConditionTrigger (ms_conditionalProposals m) \<and>
     distinct (map bk_Number (GetBlockHistory m))"

definition plugin_wf :: "externals \<Rightarrow> UpkeepTypeGetter \<Rightarrow> WorkIDGenerator \<Rightarrow> ocr3Plugin \<Rightarrow> bool" where
  "plugin_wf ex utg wg p \<longleftrightarrow>
     pl_UpkeepTypeGetter p = utg \<and> pl_WorkIDGenerator p = wg \<and>
     results_wf utg wg (pl_ResultStore p) \<and> metadata_wf utg wg (pl_MetadataStore p) \<and>
     sorter_inv (ex_draw ex) (pl_sorter p)"

definition metadata_fresh :: "time \<Rightarrow> metadataStore \<Rightarrow> bool" where
  "metadata_fresh now m \<longleftrightarrow>
     nothing_expired now (ms_logRecoveryProposals m) \<and> nothing_expired now (ms_conditionalProposals m)"

lemma stores_ok_iff:
  "plugin_wf ex utg wg p \<Longrightarrow> stores_ok ex now p \<longleftrightarrow> metadata_fresh now (pl_MetadataStore p)"
  by (auto simp: stores_ok_def plugin_wf_def results_wf_def metadata_wf_def metadata_fresh_def)

lemma results_wf_Add1:
  "results_wf utg wg s \<Longrightarrow> performable_ok utg wg r \<Longrightarrow> results_wf utg wg (resultStore_Add now [r] s)"
  using resultStore_inv_Add [of s now "[r]"]
  by (auto simp: results_wf_def resultStore_Add_def resultStore_add1_def split: option.splits if_splits)

lemma results_wf_Remove: "results_wf utg wg s \<Longrightarrow> results_wf utg wg (resultStore_Remove ids s)"
  by (auto simp: results_wf_def resultStore_inv_Remove rs_data_Remove split: if_splits)

lemma results_wf_gc: "results_wf utg wg s \<Longrightarrow> results_wf utg wg (resultStore_gc now ks s)"
  using resultStore_inv_gc [of s now ks]
  by (auto simp: results_wf_def rs_data_gc split: if_splits option.splits)

lemma view_loop_values:
  "snd (snd (view_loop now expr js s vals)) k = Some r \<Longrightarrow> vals k = Some r"
proof (induction js arbitrary: s vals)
  case (Cons j js)
  then show ?case
    using Cons.IH [of "slice_delete (fst s ! j) s" "vals(fst s ! j := None)"]
    by (auto simp: Let_def fun_upd_def split: if_splits)
qed simp

lemma proposals_fit_view:
  assumes "proposals_fit utg wg ty m"
  shows "proposals_fit utg wg ty (snd (view_proposals now expr m))"
proof -
  have "om_values (snd (view_proposals now expr m)) k = Some r \<Longrightarrow> om_values m k = Some r" for k r
    using view_loop_values by (fastforce simp: view_proposals_def Let_def)
  with assms show ?thesis by (auto simp: proposals_fit_def om_inv_view)
qed

lemma proposals_fit_Delete: "proposals_fit utg wg ty m \<Longrightarrow> proposals_fit utg wg ty (om_Delete k m)"
  by (auto simp: proposals_fit_def om_inv_Delete om_values_Delete split: if_splits)

lemma proposals_fit_Add:
  "proposals_fit utg wg ty m \<Longrightarrow> proposal_ok utg wg p \<Longrightarrow> utg (cbp_UpkeepID p) = ty \<Longrightarrow>
     proposals_fit utg wg ty (om_Add (cbp_WorkID p) \<lparr>er_createdAt = now, er_proposal = p\<rparr> m)"
  by (auto simp: proposals_fit_def intro!: om_inv_Add) (auto simp: om_Add_def split: if_splits)

lemma metadata_wf_View: "metadata_wf utg wg m \<Longrightarrow> metadata_wf utg wg (snd (ViewProposals now ty m))"
  by (auto simp: metadata_wf_def ViewProposals_def viewLogRecoveryProposal_def
      viewConditionalProposal_def GetBlockHistory_def Let_def intro: proposals_fit_view)

lemma metadata_wf_remove1: "metadata_wf utg wg m \<Longrightarrow> metadata_wf utg wg (ms_remove1 utg' p m)"
  by (auto simp: metadata_wf_def ms_remove1_def removeLogRecoveryProposal_def
      removeConditionalProposal_def GetBlockHistory_def intro: proposals_fit_Delete)

lemma metadata_wf_add1:
  "metadata_wf utg wg m \<Longrightarrow> proposal_ok utg wg p \<Longrightarrow> metadata_wf utg wg (ms_add1 utg now p m)"
  by (auto simp: metadata_wf_def ms_add1_def addLogRecoveryProposal_def addConditionalProposal_def
      GetBlockHistory_def intro: proposals_fit_Add)

lemma metadata_wf_history:
  "metadata_wf utg wg m \<Longrightarrow> distinct (map bk_Number bh) \<Longrightarrow> metadata_wf utg wg (SetBlockHistory bh m)"
  by (simp add: metadata_wf_def SetBlockHistory_def GetBlockHistory_def)

text \<open>Whatever removing a proposal keeps, the hook on the previous outcome keeps.\<close>

lemma RemoveFromMetadata_keeps:
  assumes step: "\<And>p m. P m \<Longrightarrow> P (ms_remove1 utg p m)" and "P m"
  shows "P (RemoveFromMetadata_RunHook utg oc m)"
proof -
  have "P (fold (\<lambda>p. RemoveProposals utg [p]) ps m)" if "P m" for ps m
    using that by (induction ps arbitrary: m) (simp_all add: RemoveProposals_def step)
  then have "P (fold (fold (\<lambda>p. RemoveProposals utg [p])) pss m)" if "P m" for pss m
    using that by (induction pss arbitrary: m) simp_all
  with assms(2) show ?thesis by (simp add: RemoveFromMetadata_RunHook_def)
qed

lemma metadata_wf_RunHook:
  "metadata_wf utg wg m \<Longrightarrow> metadata_wf utg wg (RemoveFromMetadata_RunHook utg' oc m)"
  by (rule RemoveFromMetadata_keeps) (rule metadata_wf_remove1)

lemma metadata_fresh_remove1: "metadata_fresh now m \<Longrightarrow> metadata_fresh now (ms_remove1 utg p m)"
  by (auto simp: metadata_fresh_def nothing_expired_def ms_remove1_def removeLogRecoveryProposal_def
      removeConditionalProposal_def om_values_Delete)

lemma metadata_fresh_RunHook:
  "metadata_fresh now m \<Longrightarrow> metadata_fresh now (RemoveFromMetadata_RunHook utg oc m)"
  by (rule RemoveFromMetadata_keeps) (rule metadata_fresh_remove1)

section \<open>Every call keeps the invariant\<close>

lemma plugin_wf_hooks: "plugin_wf ex utg wg p \<Longrightarrow> plugin_wf ex utg wg (pre_build_hooks now oc p)"
  by (simp add: plugin_wf_def pre_build_hooks_def RemoveFromStaging_RunHook_def results_wf_Remove
      metadata_wf_RunHook)

lemma plugin_wf_build:
  assumes "plugin_wf ex utg wg p"
  shows "plugin_wf ex utg wg (snd (build_observation ex now ks seqNr p))"
  using assms orderResults_spec(2) [of "ex_draw ex" "pl_sorter p"]
  by (auto simp: plugin_wf_def build_observation_def AddLogProposals_RunHook_def
      AddConditionalProposals_RunHook_def AddFromStaging_RunHook_def metadata_wf_View Let_def
      split: sum.splits option.splits prod.splits)

lemma plugin_wf_Observation:
  "plugin_wf ex utg wg p \<Longrightarrow> plugin_wf ex utg wg (snd (plugin_Observation ex now ks seqNr prev p))"
  by (auto simp: plugin_Observation_def plugin_wf_build plugin_wf_hooks split: option.split sum.split)

text \<open>What a node keeps: its plugin's stores, and only fine results in its runner's cache\<close>

definition node_wf :: "externals \<Rightarrow> UpkeepTypeGetter \<Rightarrow> WorkIDGenerator \<Rightarrow> node \<Rightarrow> bool" where
  "node_wf ex utg wg n \<longleftrightarrow>
     plugin_wf ex utg wg (nd_plugin n) \<and> runner_all (result_fine utg wg) (nd_runner n)"

definition activity_wf :: "UpkeepTypeGetter \<Rightarrow> WorkIDGenerator \<Rightarrow> activity \<Rightarrow> bool" where
  "activity_wf utg wg a \<longleftrightarrow>
     (case snd a of Postprocessing rs v \<Rightarrow> \<forall>r\<in>set rs. result_fine utg wg r | _ \<Rightarrow> True)"

lemma node_wf_Tick_Value: "node_wf ex utg wg n \<Longrightarrow> node_wf ex utg wg (snd (Tick_Value ext tick n))"
  by (cases tick)
    (auto simp: node_wf_def plugin_wf_def coordinatedProposalsTick_Value_def retryTick_Value_def
      set_proposalQ_def Let_def split: sum.split)

lemma node_wf_PreProcess: "node_wf ex utg wg n \<Longrightarrow> node_wf ex utg wg (snd (PreProcess now p v n))"
  by (cases p)
    (auto simp: node_wf_def plugin_wf_def proposalFilterer_PreProcess_def set_metadata_def
      metadata_wf_View Let_def)

lemma node_wf_check:
  assumes "node_wf ex utg wg n" "runnable_fine utg wg ext"
  shows "node_wf ex utg wg (snd (run_check ext v n))"
    and "fst (run_check ext v n) = Inr rs \<Longrightarrow> \<forall>r\<in>set rs. result_fine utg wg r"
  using assms CheckUpkeeps_all [of "result_fine utg wg" "nd_runner n" "pe_runnable ext"]
  by (auto simp: node_wf_def run_check_def runnable_fine_def Let_def)

lemma node_wf_eligible:
  assumes "node_wf ex utg wg n" "\<forall>r\<in>set rs. result_fine utg wg r"
    "eligible_PostProcess now rs n = Inr (err, n')"
  shows "node_wf ex utg wg n'"
proof -
  let ?f = "\<lambda>res n. if cr_PipelineExecutionState res = 0 \<and> cr_Eligible res
    then set_results (resultStore_Add now [res] (nd_results n)) n else n"
  have "node_wf ex utg wg (fold ?f rs n)"
    using assms(1,2)
  proof (induction rs arbitrary: n)
    case (Cons r rs)
    then have "node_wf ex utg wg (?f r n)"
      by (auto simp: node_wf_def plugin_wf_def set_results_def result_fine_def results_wf_Add1)
    with Cons.IH [of "?f r n"] Cons.prems(2) show ?case by simp
  qed simp
  with assms(3) show ?thesis by (simp add: eligible_PostProcess_def)
qed

lemma performable_proposal: "performable_ok utg wg r \<Longrightarrow> proposal_ok utg wg (result_proposal r)"
  by (simp add: performable_ok_def proposal_ok_def result_proposal_def)

lemma node_wf_metadata:
  assumes "node_wf ex utg wg n" "\<forall>r\<in>set rs. result_fine utg wg r"
    "metadata_PostProcess now rs n = Inr (err, n')"
  shows "node_wf ex utg wg n'"
proof -
  let ?f = "\<lambda>r n. if cr_PipelineExecutionState r = 0 \<and> cr_Eligible r
    then set_metadata (AddProposals (nd_utg n) now [result_proposal r] (nd_metadata n)) n else n"
  have "node_wf ex utg wg (fold ?f rs n)"
    using assms(1,2)
  proof (induction rs arbitrary: n)
    case (Cons r rs)
    then have "node_wf ex utg wg (?f r n)"
      by (auto simp: node_wf_def plugin_wf_def set_metadata_def result_fine_def AddProposals_def
          metadata_wf_add1 performable_proposal)
    with Cons.IH [of "?f r n"] Cons.prems(2) show ?case by simp
  qed simp
  with assms(3) show ?thesis by (simp add: metadata_PostProcess_def)
qed

lemma node_wf_retryable:
  "node_wf ex utg wg n \<Longrightarrow> retryable_loop now payloads irs n = Inr n' \<Longrightarrow> node_wf ex utg wg n'"
  by (induction now payloads irs n rule: retryable_loop.induct)
    (auto simp: node_wf_def split: if_splits)

lemma node_wf_ineligible:
  "node_wf ex utg wg n \<Longrightarrow> node_wf ex utg wg (snd (ineligible_loop f rs merr n))"
  by (induction f rs merr n rule: ineligible_loop.induct)
    (auto simp: node_wf_def split: option.split)

lemma node_wf_PostProcess:
  "node_wf ex utg wg n \<Longrightarrow> \<forall>r\<in>set rs. result_fine utg wg r \<Longrightarrow>
     PostProcess ext pp rs v n = Inr (err, n') \<Longrightarrow> node_wf ex utg wg n'"
  "node_wf ex utg wg n \<Longrightarrow> \<forall>r\<in>set rs. result_fine utg wg r \<Longrightarrow>
     combined_PostProcess ext pps rs v e n = Inr (err, n') \<Longrightarrow> node_wf ex utg wg n'"
proof (induction ext pp rs v n and ext pps rs v e n arbitrary: err n' and err n'
    rule: PostProcess_combined_PostProcess.induct)
  case (1 ext results payloads n)
  then show ?case by (simp add: node_wf_eligible)
next
  case (2 ext results payloads n)
  then show ?case by (auto simp: retryable_PostProcess_def split: sum.splits dest: node_wf_retryable)
next
  case (3 ext results payloads n)
  then show ?case
    using node_wf_ineligible [of ex utg wg n "pe_SetUpkeepState ext" results None]
    by (simp add: ineligible_PostProcess_def)
next
  case (4 ext results payloads n)
  then show ?case by (simp add: node_wf_metadata)
next
  case (5 ext source results payloads n)
  from "5.IH" [OF "5.prems"(1,2)] "5.prems"(3) show ?case by simp
next
  case (6 ext results payloads err n)
  then show ?case by simp
next
  case (7 ext pp source results payloads err0 n)
  from "7.prems"(3) obtain e n1 where pp: "PostProcess ext pp results payloads n = Inr (e, n1)"
    and rest: "combined_PostProcess ext source results payloads (errors_Join err0 e) n1 = Inr (err, n')"
    by (auto split: sum.splits prod.splits)
  from "7.IH"(1) [OF "7.prems"(1,2) pp] have "node_wf ex utg wg n1" .
  from "7.IH"(2) [OF pp refl this "7.prems"(2) rest] show ?case .
qed

section \<open>Reachable nodes\<close>

definition node_inv :: "externals \<Rightarrow> node_config \<Rightarrow> node \<times> activity list \<Rightarrow> bool" where
  "node_inv ex nc s \<longleftrightarrow>
     node_wf ex (nc_utg nc) (nc_wg nc) (fst s) \<and>
     (\<forall>a\<in>set (snd s). activity_wf (nc_utg nc) (nc_wg nc) a)"

lemma node_inv_init: "newPlugin nc sub = Inr n \<Longrightarrow> node_inv ex nc (n, [])"
  by (auto simp: newPlugin_def node_inv_def node_wf_def plugin_wf_def results_wf_def metadata_wf_def
      resultStore_inv_def resultStore_New_def proposals_fit_def om_inv_def newOrderedMap_def
      NewMetadataStore_def GetBlockHistory_def sorter_inv_New runner_all_def NewRunner_def
      NewCache_def Let_def split: option.splits sum.splits)

lemma node_step_inv:
  assumes "node_step ex env s s'" "node_inv ex nc s"
    and env: "\<And>ext. env ext \<Longrightarrow> runnable_fine (nc_utg nc) (nc_wg nc) ext"
  shows "node_inv ex nc s'"
  using assms(1,2)
proof (induction rule: node_step.induct)
  case (fetch ext tick n v n' xs ob ys)
  then show ?case
    using node_wf_Tick_Value [of ex _ _ n ext tick] by (auto simp: node_inv_def activity_wf_def)
next
  case (fetch_fails ext tick n err n' xs ob ys)
  then show ?case
    using node_wf_Tick_Value [of ex _ _ n ext tick] by (auto simp: node_inv_def)
next
  case (preprocess now p v n v' n' xs ob ps ys)
  then show ?case
    using node_wf_PreProcess [of ex _ _ n now p v] by (auto simp: node_inv_def activity_wf_def)
next
  case (check ext v n rs n' xs ob ys)
  then show ?case
    using node_wf_check(1) [of ex "nc_utg nc" "nc_wg nc" n ext v]
      node_wf_check(2) [of ex "nc_utg nc" "nc_wg nc" n ext v rs] env
    by (auto simp: node_inv_def activity_wf_def)
next
  case (check_fails ext v n err n' xs ob ys)
  then show ?case
    using node_wf_check(1) [of ex "nc_utg nc" "nc_wg nc" n ext v] env by (auto simp: node_inv_def)
next
  case (postprocess ext ob rs v n err n' xs ys)
  then show ?case
    using node_wf_PostProcess(1) [of ex "nc_utg nc" "nc_wg nc" n rs ext "ob_Postprocessor ob" v err n']
    by (auto simp: node_inv_def activity_wf_def)
next
  case (observe now ks seqNr prev n r p as)
  then show ?case
    using plugin_wf_Observation [of ex "nc_utg nc" "nc_wg nc" "nd_plugin n" now ks seqNr prev]
    by (simp add: node_inv_def node_wf_def)
next
  case (accept now report n r p as)
  then show ?case
    by (auto simp: node_inv_def node_wf_def plugin_wf_def ShouldAcceptAttestedReport_def Let_def
        split: sum.splits)
next
  case (collect n as now ks)
  then show ?case
    by (simp add: node_inv_def node_wf_def plugin_wf_def set_results_def results_wf_gc)
qed (auto simp: node_inv_def node_wf_def plugin_wf_def set_metadata_def activity_wf_def
    metadata_wf_history)

lemma node_reachable_inv:
  assumes "node_reachable ex env nc s"
    and "\<And>ext. env ext \<Longrightarrow> runnable_fine (nc_utg nc) (nc_wg nc) ext"
  shows "node_inv ex nc s"
  using assms(1) by induction (auto intro: node_inv_init node_step_inv assms(2))

text \<open>
  C4: In every interleaving of its flows, plugin calls, events and collectors, a node whose check
  pipeline fills in eligible results properly builds an observation that the other nodes accept,
  as long as no proposal in its metadata store has expired.
\<close>

theorem node_observation_valid:
  assumes "node_reachable ex env nc (n, as)"
    and "\<And>ext. env ext \<Longrightarrow> runnable_fine (nc_utg nc) (nc_wg nc) ext"
    and "metadata_fresh now (nd_metadata n)"
    and "after_hooks ex now prev (nd_plugin n) = Inr p'"
    and "range_order (rs_data (pl_ResultStore p')) ks"
    and "workID_tells_upkeep (nc_wg nc)" and "encoder_ok ex"
  shows "\<exists>ob b. fst (plugin_Observation ex now ks seqNr prev (nd_plugin n)) = Inr b \<and>
    ex_encode_observation ex ob = Inr b \<and> observation_ok (nc_utg nc) (nc_wg nc) ob \<and>
    (ex_decode_observation ex b = Inr ob \<longrightarrow> plugin_ValidateObservation ex b p' = None)"
proof -
  have wf: "plugin_wf ex (nc_utg nc) (nc_wg nc) (nd_plugin n)"
    using node_reachable_inv [OF assms(1,2)] by (simp add: node_inv_def node_wf_def)
  consider "p' = nd_plugin n" | oc where "p' = pre_build_hooks now oc (nd_plugin n)"
    using assms(4) by (auto simp: after_hooks_def split: option.splits sum.splits)
  then have "plugin_wf ex (nc_utg nc) (nc_wg nc) p' \<and> metadata_fresh now (pl_MetadataStore p')"
  proof cases
    case 2
    then show ?thesis
      using plugin_wf_hooks [OF wf] metadata_fresh_RunHook [OF assms(3)]
      by (simp add: pre_build_hooks_def)
  qed (simp add: wf assms(3))
  moreover from this have "pl_UpkeepTypeGetter p' = nc_utg nc" "pl_WorkIDGenerator p' = nc_wg nc"
    by (simp_all add: plugin_wf_def)
  ultimately show ?thesis
    using observation_of_stores_ok [OF assms(4) _ assms(5) _ assms(7), of seqNr] assms(6)
      stores_ok_iff [of ex "nc_utg nc" "nc_wg nc" p' now] by simp
qed

text \<open>A call of \<open>Process\<close> that runs alone is one of the interleavings.\<close>

lemma run_PreProcessors_steps:
  "node_reachable ex env nc (n, as @ [(ob, Preprocessing ps v)]) \<Longrightarrow>
     run_PreProcessors now ps v n = (v', n') \<Longrightarrow>
     node_reachable ex env nc (n', as @ [(ob, Preprocessing [] v')])"
proof (induction ps arbitrary: v n)
  case (Cons p ps)
  obtain v1 n1 where p: "PreProcess now p v n = (v1, n1)" by fastforce
  with Cons.prems(2) have "run_PreProcessors now ps v1 n1 = (v', n')" by (simp add: Let_def)
  moreover have "node_reachable ex env nc (n1, as @ [(ob, Preprocessing ps v1)])"
    by (rule node_next [OF Cons.prems(1) preprocess [OF p, where ys = "[]"]])
  ultimately show ?case by (rule Cons.IH [rotated])
qed simp

lemma Process_reachable:
  assumes "node_reachable ex env nc (n, as)" "fl \<in> set plugin_flows" "env ext"
    "Process ext (fl_observer fl) (fl_tick fl) n = Inr (err, n')"
  shows "node_reachable ex env nc (n', as)"
proof -
  let ?ob = "fl_observer fl"
  obtain v n1 where tick: "Tick_Value ext (fl_tick fl) n = (v, n1)" by fastforce
  have start: "node_reachable ex env nc (n, as @ [(?ob, Ticked (fl_tick fl))])"
    by (rule node_next [OF assms(1) spawn [OF assms(2)]])
  show ?thesis
  proof (cases v)
    case (Inl e)
    from node_next [OF start fetch_fails [where env = env, OF assms(3) tick [unfolded Inl], where ys = "[]"]] assms(4)
    show ?thesis by (simp add: Process_def tick Inl)
  next
    case (Inr vs)
    obtain v2 n2 where pre: "run_PreProcessors (pe_now ext) (ob_Preprocessors ?ob) vs n1 = (v2, n2)"
      by fastforce
    from node_next [OF start fetch [where env = env, OF assms(3) tick [unfolded Inr], where ys = "[]"]]
    have r2: "node_reachable ex env nc (n2, as @ [(?ob, Preprocessing [] v2)])"
      by (rule run_PreProcessors_steps [OF _ pre])
    obtain c n3 where chk: "run_check ext v2 n2 = (c, n3)" by fastforce
    show ?thesis
    proof (cases c)
      case (Inl e)
      from node_next [OF r2 check_fails [where env = env, OF assms(3) chk [unfolded Inl], where ys = "[]"]] assms(4)
      show ?thesis by (simp add: Process_def tick Inr pre chk Inl)
    next
      case (Inr rs)
      from node_next [OF r2 check [where env = env, OF assms(3) chk [unfolded Inr], where ys = "[]"]]
      have r3: "node_reachable ex env nc (n3, as @ [(?ob, Postprocessing rs v2)])" by simp
      have "PostProcess ext (ob_Postprocessor ?ob) rs v2 n3 = Inr (err, n')"
        using assms(4) by (simp add: Process_def tick \<open>v = Inr vs\<close> pre chk Inr)
      from node_next [OF r3 postprocess [where env = env, OF assms(3) this, where ys = "[]"]] show ?thesis by simp
    qed
  qed
qed

definition sample_nc :: node_config where
  "sample_nc = \<lparr>nc_digest = [], nc_utg = (\<lambda>_. ConditionTrigger), nc_wg = (\<lambda>u _. format_d (unat u)),
     nc_runner = \<lparr>rc_Workers = 2, rc_CacheExpire = 50, rc_CacheClean = 30\<rparr>,
     nc_offchain = ensureMinimumDefaults sample_config, nc_F = 1\<rparr>"

definition sample_start :: node where
  "sample_start = projr (newPlugin sample_nc None)"

definition sample_running :: node where
  "sample_running = set_metadata (SetBlockHistory [BlockKey 5 1] (nd_metadata sample_start)) sample_start"

lemma sample_start_eq: "newPlugin sample_nc None = Inr sample_start"
  by (simp add: sample_start_def newPlugin_def NewMetadataStore_def Let_def)

lemma sample_wg_tells: "workID_tells_upkeep (nc_wg sample_nc)"
  unfolding workID_tells_upkeep_def sample_nc_def
  by (auto dest: format_d_inj simp: word_unat_eq_iff)

lemma sample_running_reachable: "node_reachable ex env sample_nc (sample_running, [])"
  unfolding sample_running_def
  by (rule node_next [OF node_init [OF sample_start_eq] new_blocks]) simp

theorem node_observation_valid_witness:
  "\<exists>ob b. fst (plugin_Observation sample_ex 9 [] 7 None (nd_plugin sample_running)) = Inr b \<and>
    ex_encode_observation sample_ex ob = Inr b \<and>
    observation_ok (nc_utg sample_nc) (nc_wg sample_nc) ob"
proof -
  have "metadata_fresh 9 (nd_metadata sample_running)"
    by (simp add: sample_running_def sample_start_def newPlugin_def NewMetadataStore_def set_metadata_def
        SetBlockHistory_def metadata_fresh_def nothing_expired_def newOrderedMap_def Let_def)
  moreover have "after_hooks sample_ex 9 None (nd_plugin sample_running) = Inr (nd_plugin sample_running)"
    by (simp add: after_hooks_def)
  moreover have "range_order (rs_data (nd_results sample_running)) []"
    by (simp add: sample_running_def sample_start_def newPlugin_def NewMetadataStore_def set_metadata_def
        resultStore_New_def Let_def)
  moreover have "encoder_ok sample_ex"
    by (auto simp: encoder_ok_def sample_ex_def sample_enc_len sample_encode_def)
  ultimately show ?thesis
    using node_observation_valid [OF sample_running_reachable
        [of sample_ex "runnable_fine (nc_utg sample_nc) (nc_wg sample_nc)"], of 9 None _ "[]" 7]
      sample_wg_tells by blast
qed

text \<open>
  In every reachable state of a node, whatever interleaving led there, every staged result is
  filed under its own work id and passes the validation of the other nodes, and every proposal in
  the metadata store is filed under its own work id, in the map of its upkeep's type, and passes
  theirs.
\<close>

lemma node_stores_invariant:
  assumes "node_reachable ex env nc (n, as)"
    and "\<And>ext. env ext \<Longrightarrow> runnable_fine (nc_utg nc) (nc_wg nc) ext"
  shows "(\<forall>k r. rs_data (nd_results n) k = Some r \<longrightarrow>
      cr_WorkID (sr_data r) = k \<and> validateCheckResult (sr_data r) (nc_utg nc) (nc_wg nc) = None) \<and>
    (\<forall>k r. om_values (ms_logRecoveryProposals (nd_metadata n)) k = Some r \<longrightarrow>
      cbp_WorkID (er_proposal r) = k \<and> nc_utg nc (cbp_UpkeepID (er_proposal r)) = LogTrigger \<and>
      validateUpkeepProposal (er_proposal r) (nc_utg nc) (nc_wg nc) = None) \<and>
    (\<forall>k r. om_values (ms_conditionalProposals (nd_metadata n)) k = Some r \<longrightarrow>
      cbp_WorkID (er_proposal r) = k \<and> nc_utg nc (cbp_UpkeepID (er_proposal r)) = ConditionTrigger \<and>
      validateUpkeepProposal (er_proposal r) (nc_utg nc) (nc_wg nc) = None)"
  using node_reachable_inv [OF assms]
  by (auto simp: node_inv_def node_wf_def plugin_wf_def results_wf_def metadata_wf_def
      proposals_fit_def om_inv_def resultStore_inv_def validateCheckResult_None
      validateUpkeepProposal_None)

definition fine_check :: "UpkeepPayload \<Rightarrow> CheckResult" where
  "fine_check p = sample_result 5 (format_d 5) (tr_BlockNumber (up_Trigger p))"

definition sample_fine :: pipeline_ext where
  "sample_fine = sample_ext\<lparr>pe_runnable := (\<lambda>b. Inr (map fine_check b)),
     pe_GetLatestPayloads := Some (Inr [sample_payload (format_d 5) 10])\<rparr>"

lemma sample_fine_runnable: "runnable_fine (nc_utg sample_nc) (nc_wg sample_nc) sample_fine"
  by (simp add: runnable_fine_def sample_fine_def result_fine_def performable_ok_def fine_check_def
      sample_defs sample_nc_def trigger_fits_def in_uint256_def)

text \<open>A log trigger flow stages the result of the payload it was given.\<close>

definition sample_staged :: node where
  "sample_staged = snd (projr (Process sample_fine
     (fl_observer (newLogTriggerFlow [coordinatorPreProcessor] LogCheckInterval)) logTick sample_running))"

lemma sample_staged_eval:
  "Process sample_fine (fl_observer (newLogTriggerFlow [coordinatorPreProcessor] LogCheckInterval))
     logTick sample_running = Inr (None, sample_staged) \<and>
   rs_data (nd_results sample_staged) (format_d 5) =
     Some \<lparr>sr_data = sample_result 5 (format_d 5) 10, sr_addedAt = 110\<rparr>"
  unfolding sample_staged_def
  by (simp add: Process_def logTick_Value_def sample_fine_def sample_ext_def newLogTriggerFlow_def
      sample_running_def sample_start_def newPlugin_def NewMetadataStore_def set_metadata_def
      SetBlockHistory_def ShouldProcess_def NewCoordinator_def run_check_def CheckUpkeeps_def
      parallelCheck_def NewRunner_def newResult_def Unflatten_def WorkerBatchLimit_def
      unflatten_from.simps RunJobs_def wrapWorkerFunc_def wrapAggregate_def AddSuccesses_def
      result_Add_def Total_def eligible_PostProcess_def retryable_PostProcess_def
      ineligible_PostProcess_def fine_check_def sample_defs set_results_def resultStore_Add_def
      resultStore_add1_def resultStore_New_def Let_def)

lemma node_stores_invariant_witness:
  "validateCheckResult (sample_result 5 (format_d 5) 10) (nc_utg sample_nc) (nc_wg sample_nc) = None \<and>
   rs_data (nd_results sample_staged) (format_d 5) =
     Some \<lparr>sr_data = sample_result 5 (format_d 5) 10, sr_addedAt = 110\<rparr>"
proof -
  let ?env = "runnable_fine (nc_utg sample_nc) (nc_wg sample_nc)"
  let ?fl = "newLogTriggerFlow [coordinatorPreProcessor] LogCheckInterval"
  have "?fl \<in> set plugin_flows" "fl_tick ?fl = logTick"
    by (simp_all add: plugin_flows_def LogTriggerFlows_def newLogTriggerFlow_def)
  with sample_staged_eval have "node_reachable sample_ex ?env sample_nc (sample_staged, [])"
    using Process_reachable [OF sample_running_reachable, of ?fl ?env sample_fine None sample_staged
        sample_ex] sample_fine_runnable by simp
  from node_stores_invariant [OF this] sample_staged_eval show ?thesis by fastforce
qed

end
