(* ===== verification/Delegate.thy ===== *)
theory Delegate
  imports Node
begin

text \<open>
  \<open>pkg/v3/plugin/delegate.go\<close> and \<open>pkg/v2/delegate.go\<close>: the delegates the host creates, starts and closes.
  libocr's oracle is a parameter: \<open>newOracleFn\<close> makes one from its arguments, \<open>start\<close> and \<open>close\<close> act
  on it. The fields that are only passed through to the oracle and its plugin are one value.
\<close>

section \<open>Version 3\<close>

record 'a DelegateConfig =
  dc_args :: 'a
  dc_service :: ReportingFactoryConfig

record 'o Delegate =
  dg_keeper :: 'o

definition runner_config :: "ReportingFactoryConfig \<Rightarrow> RunnerConfig" where
  "runner_config conf =
     \<lparr>rc_Workers = nat (rfc_MaxServiceWorkers conf), rc_CacheExpire = rfc_CacheExpiration conf,
      rc_CacheClean = rfc_CacheEvictionInterval conf\<rparr>"

definition NewDelegate ::
    "('a \<Rightarrow> RunnerConfig \<Rightarrow> 'o result) \<Rightarrow> int \<Rightarrow> 'a DelegateConfig \<Rightarrow> 'o Delegate result" where
  "NewDelegate newOracleFn procs c =
     (let conf = delegate_config procs (dc_service c)
      in case newOracleFn (dc_args c) (runner_config conf) of
           Inl err \<Rightarrow> Inl (Wrapped ''failed to create new OCR oracle'' err)
         | Inr keeper \<Rightarrow> Inr \<lparr>dg_keeper = keeper\<rparr>)"

definition delegate_Start ::
    "('o \<Rightarrow> go_error option \<times> 'o) \<Rightarrow> 'o Delegate \<Rightarrow> go_error option \<times> 'o Delegate" where
  "delegate_Start start d =
     (case start (dg_keeper d) of
        (Some err, k) \<Rightarrow> (Some (Wrapped ''failed to start keeper oracle'' err), d\<lparr>dg_keeper := k\<rparr>)
      | (None, k) \<Rightarrow> (None, d\<lparr>dg_keeper := k\<rparr>))"

definition delegate_Close ::
    "('o \<Rightarrow> go_error option \<times> 'o) \<Rightarrow> 'o Delegate \<Rightarrow> go_error option \<times> 'o Delegate" where
  "delegate_Close close d =
     (case close (dg_keeper d) of
        (Some err, k) \<Rightarrow> (Some (Wrapped ''failed to close keeper oracle'' err), d\<lparr>dg_keeper := k\<rparr>)
      | (None, k) \<Rightarrow> (None, d\<lparr>dg_keeper := k\<rparr>))"

lemma delegate_config_fields:
  "rfc_MaxServiceWorkers (delegate_config procs c) = (if rfc_MaxServiceWorkers c = 0 then 10 * procs else rfc_MaxServiceWorkers c)"
  "rfc_CacheExpiration (delegate_config procs c) =
     (if rfc_CacheExpiration c = 0 then DefaultCacheExpiration_config else rfc_CacheExpiration c)"
  "rfc_CacheEvictionInterval (delegate_config procs c) =
     (if rfc_CacheEvictionInterval c = 0 then DefaultCacheClearInterval else rfc_CacheEvictionInterval c)"
  by (simp_all add: delegate_config_def Let_def)

text \<open>
  The runner of a plugin has workers and an expiring cache unless the host configures negative
  values: what is left at zero is replaced.
\<close>

lemma delegate_runner_usable:
  assumes "0 < procs" "0 \<le> rfc_MaxServiceWorkers (dc_service c)" "0 \<le> rfc_CacheExpiration (dc_service c)"
    and "0 \<le> rfc_CacheEvictionInterval (dc_service c)"
  shows "\<exists>rc. NewDelegate newOracleFn procs c =
        map_sum (Wrapped ''failed to create new OCR oracle'') (\<lambda>k. \<lparr>dg_keeper = k\<rparr>) (newOracleFn (dc_args c) rc)
      \<and> 0 < rc_Workers rc \<and> 0 < rc_CacheExpire rc \<and> 0 < rc_CacheClean rc"
proof (intro exI conjI)
  let ?rc = "runner_config (delegate_config procs (dc_service c))"
  show "NewDelegate newOracleFn procs c =
      map_sum (Wrapped ''failed to create new OCR oracle'') (\<lambda>k. \<lparr>dg_keeper = k\<rparr>) (newOracleFn (dc_args c) ?rc)"
    by (cases "newOracleFn (dc_args c) ?rc") (simp_all add: NewDelegate_def Let_def)
  show "0 < rc_Workers ?rc" using assms(1,2) by (simp add: runner_config_def delegate_config_fields)
  show "0 < rc_CacheExpire ?rc"
    using assms(3) by (simp add: runner_config_def delegate_config_fields DefaultCacheExpiration_config_def minute_def second_def)
  show "0 < rc_CacheClean ?rc"
    using assms(4) by (simp add: runner_config_def delegate_config_fields DefaultCacheClearInterval_def second_def)
qed

text \<open>A delegate fails to start exactly when its oracle does, with the oracle's error inside.\<close>

lemma delegate_Start_error:
  "fst (delegate_Start start d) = map_option (Wrapped ''failed to start keeper oracle'') (fst (start (dg_keeper d)))"
  by (auto simp: delegate_Start_def split: prod.splits option.splits)

lemma delegate_Close_error:
  "fst (delegate_Close close d) = map_option (Wrapped ''failed to close keeper oracle'') (fst (close (dg_keeper d)))"
  by (auto simp: delegate_Close_def split: prod.splits option.splits)

section \<open>Version 2\<close>

text \<open>The service configuration is computed and logged, and nothing is made from it.\<close>

definition NewDelegate_v2 :: "('a \<Rightarrow> 'o result) \<Rightarrow> int \<Rightarrow> 'a DelegateConfig \<Rightarrow> ReportingFactoryConfig \<times> 'o Delegate result" where
  "NewDelegate_v2 newOracleFn procs c =
     (let conf = delegate_config procs (dc_service c)
      in (conf, case newOracleFn (dc_args c) of
           Inl err \<Rightarrow> Inl (Wrapped ''failed to create new OCR oracle'' err)
         | Inr keeper \<Rightarrow> Inr \<lparr>dg_keeper = keeper\<rparr>))"

definition delegate_Start_v2 ::
    "('o \<Rightarrow> go_error option \<times> 'o) \<Rightarrow> 'o Delegate \<Rightarrow> go_error option \<times> 'o Delegate" where
  "delegate_Start_v2 start d =
     (case start (dg_keeper d) of
        (Some err, k) \<Rightarrow> (Some (Wrapped ''failed to start keeper oracle'' err), d\<lparr>dg_keeper := k\<rparr>)
      | (None, k) \<Rightarrow> (None, d\<lparr>dg_keeper := k\<rparr>))"

definition delegate_Close_v2 ::
    "('o \<Rightarrow> go_error option \<times> 'o) \<Rightarrow> 'o Delegate \<Rightarrow> go_error option \<times> 'o Delegate" where
  "delegate_Close_v2 close d =
     (case close (dg_keeper d) of
        (Some err, k) \<Rightarrow> (Some (Wrapped ''failed to close keeper oracle'' err), d\<lparr>dg_keeper := k\<rparr>)
      | (None, k) \<Rightarrow> (None, d\<lparr>dg_keeper := k\<rparr>))"

lemma v2_delegate_ignores_service_config:
  "snd (NewDelegate_v2 newOracleFn procs c) = snd (NewDelegate_v2 newOracleFn procs (c\<lparr>dc_service := s\<rparr>))"
  by (simp add: NewDelegate_v2_def Let_def)

end
