(* ===== verification/Protocol_Modify.thy ===== *)
theory Protocol_Modify
  imports Outcome
begin

text \<open>
  \<open>tools/testprotocol/modify/struct.go\<close> and \<open>defaults.go\<close>: the modifiers with which protocol tests change
  the observations and outcomes of a node before they are sent. A modifier of proposals or
  performables ranges over the elements by value: it changes copies. The JSON encoders are
  parameters.
\<close>

section \<open>Modifiers\<close>

text \<open>
  \<open>for _, x := range xs { \<dots> }; return xs\<close>: the changed copies are dropped and the list returned as it
  was given.
\<close>

definition range_by_value :: "('a \<Rightarrow> 'a) \<Rightarrow> 'a list \<Rightarrow> 'a list" where
  "range_by_value change xs = fst (fold (\<lambda>x (xs, copies). (xs, change x # copies)) xs (xs, []))"

definition WithProposalUpkeepIDAs :: "UpkeepIdentifier \<Rightarrow> CoordinatedBlockProposal list \<Rightarrow> CoordinatedBlockProposal list" where
  "WithProposalUpkeepIDAs upkeepID = range_by_value (\<lambda>p. p\<lparr>cbp_UpkeepID := upkeepID\<rparr>)"

definition WithProposalBlockAs :: "BlockNumber \<Rightarrow> CoordinatedBlockProposal list \<Rightarrow> CoordinatedBlockProposal list" where
  "WithProposalBlockAs block = range_by_value (\<lambda>p. p\<lparr>cbp_Trigger := (cbp_Trigger p)\<lparr>tr_BlockNumber := block\<rparr>\<rparr>)"

definition WithPerformableBlockAs :: "BlockNumber \<Rightarrow> CheckResult list \<Rightarrow> CheckResult list" where
  "WithPerformableBlockAs block = range_by_value (\<lambda>r. r\<lparr>cr_Trigger := (cr_Trigger r)\<lparr>tr_BlockNumber := block\<rparr>\<rparr>)"

text \<open>The modifier of the block history writes through the index.\<close>

definition WithBlockHistoryBlockAs :: "64 word \<Rightarrow> BlockHistory \<Rightarrow> BlockHistory" where
  "WithBlockHistoryBlockAs number history =
     fold (\<lambda>idx h. h[idx := BlockKey number (bk_Hash (h ! idx))]) [0..<length history] history"

text \<open>What a list of modifiers may hold; \<open>OtherModifier\<close> is any other type.\<close>

datatype StructModifier =
    ProposalModifier "CoordinatedBlockProposal list \<Rightarrow> CoordinatedBlockProposal list"
  | PerformableModifier "CheckResult list \<Rightarrow> CheckResult list"
  | BlockHistoryModifier "BlockHistory \<Rightarrow> BlockHistory"
  | OtherModifier

fun AsObservation ::
    "(AutomationObservation \<Rightarrow> bytes result) \<Rightarrow> StructModifier list \<Rightarrow> AutomationObservation \<Rightarrow> bytes result" where
  "AsObservation encode [] observation = encode observation"
| "AsObservation encode (m # ms) observation =
     (case m of
        ProposalModifier f \<Rightarrow> AsObservation encode ms (observation\<lparr>ao_UpkeepProposals := f (ao_UpkeepProposals observation)\<rparr>)
      | PerformableModifier f \<Rightarrow> AsObservation encode ms (observation\<lparr>ao_Performable := f (ao_Performable observation)\<rparr>)
      | BlockHistoryModifier f \<Rightarrow> AsObservation encode ms (observation\<lparr>ao_BlockHistory := f (ao_BlockHistory observation)\<rparr>)
      | OtherModifier \<Rightarrow> Inl (External ''unexpected modifier type''))"

fun AsOutcome ::
    "(AutomationOutcome \<Rightarrow> bytes result) \<Rightarrow> StructModifier list \<Rightarrow> AutomationOutcome \<Rightarrow> bytes result" where
  "AsOutcome encode [] outcome = encode outcome"
| "AsOutcome encode (m # ms) outcome =
     (case m of
        ProposalModifier f \<Rightarrow> AsOutcome encode ms (outcome\<lparr>ac_SurfacedProposals := map f (ac_SurfacedProposals outcome)\<rparr>)
      | PerformableModifier f \<Rightarrow> AsOutcome encode ms (outcome\<lparr>ac_AgreedPerformables := f (ac_AgreedPerformables outcome)\<rparr>)
      | _ \<Rightarrow> Inl (External ''unexpected modifier type''))"

text \<open>The value a named modifier is applied to\<close>

datatype protocol_value =
    ObservationValue AutomationObservation
  | OutcomeValue AutomationOutcome
  | OtherValue

datatype ValueModifier =
    ObservationModifier "AutomationObservation \<Rightarrow> bytes result"
  | OutcomeModifier "AutomationOutcome \<Rightarrow> bytes result"
  | UnknownModifier

definition Modify :: "string \<Rightarrow> ValueModifier \<Rightarrow> protocol_value \<Rightarrow> string \<times> bytes result" where
  "Modify name m v =
     (name, case m of
        ObservationModifier f \<Rightarrow>
          (case v of ObservationValue observation \<Rightarrow> f observation | _ \<Rightarrow> Inl (External ''value not an observation''))
      | OutcomeModifier f \<Rightarrow>
          (case v of OutcomeValue outcome \<Rightarrow> f outcome | _ \<Rightarrow> Inl (External ''value not an outcome''))
      | UnknownModifier \<Rightarrow> Inl (External ''unrecognized modifier type''))"

section \<open>The default modifiers\<close>

definition ObservationModifiers ::
    "(AutomationObservation \<Rightarrow> bytes result) \<Rightarrow> (protocol_value \<Rightarrow> string \<times> bytes result) list" where
  "ObservationModifiers encode =
     [Modify ''set all proposals to block 1'' (ObservationModifier (AsObservation encode [ProposalModifier (WithProposalBlockAs 1)])),
      Modify ''set all proposals to block 1_000_000_000''
        (ObservationModifier (AsObservation encode [ProposalModifier (WithProposalBlockAs 1000000000)])),
      Modify ''set all proposals to block 0'' (ObservationModifier (AsObservation encode [ProposalModifier (WithProposalBlockAs 0)])),
      Modify ''set all performables to block 1''
        (ObservationModifier (AsObservation encode [PerformableModifier (WithPerformableBlockAs 1)])),
      Modify ''set all performables to block 1_000_000_000''
        (ObservationModifier (AsObservation encode [PerformableModifier (WithPerformableBlockAs 1000000000)])),
      Modify ''set all performables to block 0''
        (ObservationModifier (AsObservation encode [PerformableModifier (WithPerformableBlockAs 0)])),
      Modify ''set all block history numbers to 0''
        (ObservationModifier (AsObservation encode [BlockHistoryModifier (WithBlockHistoryBlockAs 0)])),
      Modify ''set all block history numbers to 1''
        (ObservationModifier (AsObservation encode [BlockHistoryModifier (WithBlockHistoryBlockAs 1)])),
      Modify ''set all block history numbers to 1_000_000_000''
        (ObservationModifier (AsObservation encode [BlockHistoryModifier (WithBlockHistoryBlockAs 1000000000)]))]"

definition OutcomeModifiers ::
    "(AutomationOutcome \<Rightarrow> bytes result) \<Rightarrow> (protocol_value \<Rightarrow> string \<times> bytes result) list" where
  "OutcomeModifiers encode =
     [Modify ''set all proposals to block 1'' (OutcomeModifier (AsOutcome encode [ProposalModifier (WithProposalBlockAs 1)])),
      Modify ''set all proposals to block 1_000_000_000''
        (OutcomeModifier (AsOutcome encode [ProposalModifier (WithProposalBlockAs 1000000000)])),
      Modify ''set all proposals to block 0'' (OutcomeModifier (AsOutcome encode [ProposalModifier (WithProposalBlockAs 0)])),
      Modify ''set all performables to block 1''
        (OutcomeModifier (AsOutcome encode [PerformableModifier (WithPerformableBlockAs 1)])),
      Modify ''set all performables to block 1_000_000_000''
        (OutcomeModifier (AsOutcome encode [PerformableModifier (WithPerformableBlockAs 1000000000)])),
      Modify ''set all performables to block 0''
        (OutcomeModifier (AsOutcome encode [PerformableModifier (WithPerformableBlockAs 0)]))]"

section \<open>What they change\<close>

lemma range_by_value_id [simp]: "range_by_value change = (\<lambda>xs. xs)"
proof
  fix xs
  have "fst (fold (\<lambda>x (ys, copies). (ys, change x # copies)) zs (ys, cs)) = ys" for zs ys cs
    by (induction zs arbitrary: cs) simp_all
  then show "range_by_value change xs = xs" by (simp add: range_by_value_def)
qed

lemma fold_update_all:
  "n \<le> length h \<Longrightarrow> fold (\<lambda>i h. h[i := f (h ! i)]) [0..<n] h = map f (take n h) @ drop n h"
proof (induction n)
  case (Suc n)
  then have "(map f (take n h) @ drop n h)[n := f (h ! n)] = map f (take n h) @ (drop n h)[0 := f (h ! n)]"
    by (simp add: list_update_append)
  moreover have "drop n h = h ! n # drop (Suc n) h" using Suc.prems by (simp add: Cons_nth_drop_Suc)
  ultimately show ?case using Suc by (simp add: nth_append take_Suc_conv_app_nth)
qed simp

lemma WithBlockHistoryBlockAs_map:
  "WithBlockHistoryBlockAs number history = map (\<lambda>b. BlockKey number (bk_Hash b)) history"
  using fold_update_all [of "length history" history "\<lambda>b. BlockKey number (bk_Hash b)"]
  by (simp add: WithBlockHistoryBlockAs_def)

text \<open>
  The first six modifiers of observations and all modifiers of outcomes send what the node computed:
  a protocol test that uses them tests nothing. The remaining three change every block.
\<close>

lemma default_modifiers_change_nothing:
  "\<forall>m\<in>set (take 6 (ObservationModifiers encode)). snd (m (ObservationValue observation)) = encode observation"
  "\<forall>m\<in>set (OutcomeModifiers encode'). snd (m (OutcomeValue outcome)) = encode' outcome"
  by (simp_all add: ObservationModifiers_def OutcomeModifiers_def Modify_def WithProposalBlockAs_def
      WithPerformableBlockAs_def)

lemma history_modifiers_change:
  "snd (Modify name (ObservationModifier (AsObservation encode [BlockHistoryModifier (WithBlockHistoryBlockAs n)]))
      (ObservationValue observation)) =
   encode (observation\<lparr>ao_BlockHistory := map (\<lambda>b. BlockKey n (bk_Hash b)) (ao_BlockHistory observation)\<rparr>)"
  by (simp add: Modify_def WithBlockHistoryBlockAs_map)

text \<open>A modified history of two or more blocks is rejected by every node, whatever else is observed.\<close>

lemma modified_history_rejected:
  assumes "length (ao_BlockHistory observation) \<ge> 2"
  shows "validateAutomationObservation
    (observation\<lparr>ao_BlockHistory := map (\<lambda>b. BlockKey n (bk_Hash b)) (ao_BlockHistory observation)\<rparr>) utg wg \<noteq> None"
proof -
  obtain a b bs where "ao_BlockHistory observation = a # b # bs"
    using assms by (metis Suc_le_length_iff numeral_2_eq_2)
  then show ?thesis by (simp add: validateAutomationObservation_def)
qed

end
