(* ===== verification/V2_Encoding.thy ===== *)
theory V2_Encoding
  imports Automation_Types Go_Format
begin

text \<open>
  \<open>pkg/v2/encoding/basic.go\<close>: the keys of version 2. A block key and an upkeep identifier are
  decimal numbers written as strings, read and written by \<open>SetString\<close> and \<open>String\<close> of \<open>math/big\<close>; an
  upkeep key joins the two with a separator. A nil key is the empty one: both are refused with the
  same error.
\<close>

type_synonym BlockKey2 = string
type_synonym UpkeepIdentifier2 = string
type_synonym UpkeepKey = string

section \<open>Keys\<close>

definition separator :: char where "separator = CHR ''|''"

definition MakeUpkeepKey :: "BlockKey2 \<Rightarrow> UpkeepIdentifier2 \<Rightarrow> UpkeepKey" where
  "MakeUpkeepKey blockKey upkeepIdentifier = blockKey @ separator # upkeepIdentifier"

fun strings_Split :: "char \<Rightarrow> string \<Rightarrow> string list" where
  "strings_Split c [] = [[]]"
| "strings_Split c (x # xs) =
     (if x = c then [] # strings_Split c xs
      else (x # hd (strings_Split c xs)) # tl (strings_Split c xs))"

definition ErrUpkeepKeyNotParsable :: go_error where
  "ErrUpkeepKeyNotParsable = External ''upkeep key not parsable''"

definition SplitUpkeepKey :: "UpkeepKey \<Rightarrow> (BlockKey2 \<times> UpkeepIdentifier2) result" where
  "SplitUpkeepKey upkeepKey =
     (let components = strings_Split separator upkeepKey
      in if length components \<noteq> 2 then Inl (Wrapped ''missing data in upkeep key'' ErrUpkeepKeyNotParsable)
         else Inr (components ! 0, components ! 1))"

definition ErrInvalidBlockKey :: go_error where
  "ErrInvalidBlockKey = External ''invalid block key''"

definition ErrInvalidUpkeepIdentifier :: go_error where
  "ErrInvalidUpkeepIdentifier = External ''invalid upkeep identifier''"

text \<open>
  The body the two validators share: \<open>what\<close> names the validated value in the message, \<open>bound\<close>
  is the largest number accepted.
\<close>

definition validate_number :: "string \<Rightarrow> int \<Rightarrow> go_error \<Rightarrow> string \<Rightarrow> bool result" where
  "validate_number what bound err s =
     (case big_SetString s of
        None \<Rightarrow> Inl (Wrapped (what @ '' is not a big int'') err)
      | Some n \<Rightarrow>
          if big_String n \<noteq> s then Inl (Wrapped (what @ '' stringify mismatch'') err)
          else if n < 0 \<or> n > bound
          then Inl (Wrapped (what @ '' exceeds lower or upper bounds'') err)
          else Inr True)"

definition ValidateUpkeepIdentifier :: "UpkeepIdentifier2 \<Rightarrow> bool result" where
  "ValidateUpkeepIdentifier identifier =
     validate_number ''upkeep identifier''
       115792089237316195423570985008687907853269984665640564039457584007913129639935
       ErrInvalidUpkeepIdentifier identifier"

definition ValidateBlockKey :: "BlockKey2 \<Rightarrow> bool result" where
  "ValidateBlockKey key =
     validate_number ''block key'' 18446744073709551615 ErrInvalidBlockKey key"

definition ValidateUpkeepKey :: "UpkeepKey \<Rightarrow> bool result" where
  "ValidateUpkeepKey key =
     (case SplitUpkeepKey key of
        Inl err \<Rightarrow> Inl err
      | Inr (blockKey, upkeepIdentifier) \<Rightarrow>
          (case ValidateBlockKey blockKey of
             Inl err \<Rightarrow> Inl err
           | Inr _ \<Rightarrow>
               (case ValidateUpkeepIdentifier upkeepIdentifier of
                  Inl err \<Rightarrow> Inl err
                | Inr _ \<Rightarrow> Inr True)))"

text \<open>\<open>GetMedian\<close> panics on a value that is no number; of an even number it takes the higher.\<close>

definition GetMedian :: "BlockKey2 list \<Rightarrow> BlockKey2 result" where
  "GetMedian values =
     (if \<exists>v\<in>set values. big_SetString v = None then Inl (Panic ''unexpected not integer block value'')
      else let blockNumbers = sort (map (\<lambda>v. the (big_SetString v)) values);
               median = (if length blockNumbers = 0 then 0
                         else blockNumbers ! (length blockNumbers div 2))
           in Inr (big_String median))"

definition After :: "BlockKey2 \<Rightarrow> BlockKey2 \<Rightarrow> bool result" where
  "After a b =
     (case big_SetString a of
        None \<Rightarrow> Inl (External ''block key not parsable'')
      | Some aInt \<Rightarrow>
          (case big_SetString b of
             None \<Rightarrow> Inl (External ''block key not parsable'')
           | Some bInt \<Rightarrow> Inr (aInt > bInt)))"

definition Increment :: "BlockKey2 \<Rightarrow> BlockKey2 result" where
  "Increment v =
     (case big_SetString v of
        None \<Rightarrow> Inl (External ''block key not parsable'')
      | Some n \<Rightarrow> Inr (big_String (n + 1)))"

section \<open>What validation accepts\<close>

lemma validate_number_iff:
  "validate_number what bound err s = Inr b \<longleftrightarrow> b \<and> (\<exists>n. s = format_d n \<and> int n \<le> bound)"
proof
  assume "validate_number what bound err s = Inr b"
  then obtain n where "big_String n = s" "0 \<le> n" "n \<le> bound" b
    by (auto simp: validate_number_def split: option.splits if_splits)
  then show "b \<and> (\<exists>n. s = format_d n \<and> int n \<le> bound)"
    by (auto simp: big_String_def intro!: exI [of _ "nat n"])
qed (auto simp: validate_number_def big_String_def)

lemma ValidateBlockKey_iff: "ValidateBlockKey s = Inr b \<longleftrightarrow> b \<and> (\<exists>n<2 ^ 64. s = format_d n)"
proof -
  have "int n \<le> 18446744073709551615 \<longleftrightarrow> n < 2 ^ 64" for n by auto
  then show ?thesis by (auto simp: ValidateBlockKey_def validate_number_iff)
qed

lemma ValidateUpkeepIdentifier_iff:
  "ValidateUpkeepIdentifier s = Inr b \<longleftrightarrow> b \<and> (\<exists>n<2 ^ 256. s = format_d n)"
proof -
  have "int n \<le> 115792089237316195423570985008687907853269984665640564039457584007913129639935 \<longleftrightarrow>
      n < 2 ^ 256" for n by auto
  then show ?thesis by (auto simp: ValidateUpkeepIdentifier_def validate_number_iff)
qed

lemma strings_Split_no_sep: "c \<notin> set s \<Longrightarrow> strings_Split c s = [s]"
  by (induction s) auto

lemma strings_Split_ne [simp]: "strings_Split c s \<noteq> []"
  by (cases s) auto

lemma strings_Split_sep: "c \<notin> set a \<Longrightarrow> strings_Split c (a @ c # s) = a # strings_Split c s"
  by (induction a) auto

lemma strings_Split_one: "strings_Split c s = [t] \<Longrightarrow> s = t"
proof (induction s arbitrary: t)
  case (Cons x s)
  then show ?case by (cases "strings_Split c s") (auto split: if_splits)
qed simp

lemma strings_Split_two: "strings_Split c s = [a, b] \<Longrightarrow> s = a @ c # b"
proof (induction s arbitrary: a)
  case (Cons x s)
  then show ?case
    by (cases "strings_Split c s") (auto split: if_splits dest: strings_Split_one)
qed simp

lemma SplitUpkeepKey_Make:
  "separator \<notin> set b \<Longrightarrow> separator \<notin> set i \<Longrightarrow> SplitUpkeepKey (MakeUpkeepKey b i) = Inr (b, i)"
  by (simp add: SplitUpkeepKey_def MakeUpkeepKey_def strings_Split_sep strings_Split_no_sep)

lemma SplitUpkeepKey_Inr: "SplitUpkeepKey k = Inr (b, i) \<Longrightarrow> k = MakeUpkeepKey b i"
proof -
  assume "SplitUpkeepKey k = Inr (b, i)"
  then have "strings_Split separator k = [b, i]"
    by (auto simp: SplitUpkeepKey_def Let_def numeral_2_eq_2 length_Suc_conv split: if_splits)
  then show ?thesis by (simp add: MakeUpkeepKey_def strings_Split_two)
qed

lemma SplitUpkeepKey_valid:
  "ValidateBlockKey b = Inr True \<Longrightarrow> ValidateUpkeepIdentifier i = Inr True \<Longrightarrow>
     SplitUpkeepKey (MakeUpkeepKey b i) = Inr (b, i)"
  using format_d_no_sign(3)
  by (intro SplitUpkeepKey_Make)
    (auto simp: ValidateBlockKey_iff ValidateUpkeepIdentifier_iff separator_def)

lemma ValidateUpkeepKey_Make:
  "ValidateBlockKey b = Inr True \<Longrightarrow> ValidateUpkeepIdentifier i = Inr True \<Longrightarrow>
     ValidateUpkeepKey (MakeUpkeepKey b i) = Inr True"
  by (simp add: ValidateUpkeepKey_def SplitUpkeepKey_valid)

section \<open>Properties\<close>

text \<open>
  C32: Valid keys survive the round trip: an upkeep key made of a valid block key and a valid
  identifier is valid and splits into the two, and a valid upkeep key is the one made of its
  parts, which are the decimal digits of a 64-bit and a 256-bit number.
\<close>

theorem upkeep_key_roundtrip:
  "(ValidateBlockKey b = Inr True \<and> ValidateUpkeepIdentifier i = Inr True \<longrightarrow>
      SplitUpkeepKey (MakeUpkeepKey b i) = Inr (b, i) \<and>
      ValidateUpkeepKey (MakeUpkeepKey b i) = Inr True) \<and>
   (ValidateUpkeepKey k = Inr True \<longrightarrow>
      (\<exists>n m. n < 2 ^ 64 \<and> m < 2 ^ 256 \<and> SplitUpkeepKey k = Inr (format_d n, format_d m) \<and>
        k = MakeUpkeepKey (format_d n) (format_d m)))"
proof (intro conjI impI)
  assume valid: "ValidateBlockKey b = Inr True \<and> ValidateUpkeepIdentifier i = Inr True"
  then show "SplitUpkeepKey (MakeUpkeepKey b i) = Inr (b, i)" by (simp add: SplitUpkeepKey_valid)
  from valid show "ValidateUpkeepKey (MakeUpkeepKey b i) = Inr True" by (simp add: ValidateUpkeepKey_Make)
next
  assume "ValidateUpkeepKey k = Inr True"
  then obtain b i where bi: "SplitUpkeepKey k = Inr (b, i)" "ValidateBlockKey b = Inr True"
      "ValidateUpkeepIdentifier i = Inr True"
    by (auto simp: ValidateUpkeepKey_def ValidateBlockKey_iff ValidateUpkeepIdentifier_iff
        split: sum.splits)
  then show "\<exists>n m. n < 2 ^ 64 \<and> m < 2 ^ 256 \<and> SplitUpkeepKey k = Inr (format_d n, format_d m) \<and>
      k = MakeUpkeepKey (format_d n) (format_d m)"
    using SplitUpkeepKey_Inr [OF bi(1)] by (auto simp: ValidateBlockKey_iff ValidateUpkeepIdentifier_iff)
qed

lemma format_d_valid:
  "n < 2 ^ 64 \<Longrightarrow> ValidateBlockKey (format_d n) = Inr True"
  "n < 2 ^ 256 \<Longrightarrow> ValidateUpkeepIdentifier (format_d n) = Inr True"
  unfolding ValidateBlockKey_iff ValidateUpkeepIdentifier_iff by blast+

theorem upkeep_key_roundtrip_witness:
  "SplitUpkeepKey (MakeUpkeepKey (format_d 17) (format_d 42)) = Inr (format_d 17, format_d 42)"
  using upkeep_key_roundtrip [of "format_d 17" "format_d 42" "[]"] format_d_valid [of 17]
    format_d_valid [of 42] by simp

lemma sorted_filter_le:
  fixes xs :: "'a :: linorder list"
  assumes "sorted xs" "i < length xs"
  shows "i < length (filter (\<lambda>x. x \<le> xs ! i) xs)"
    and "length xs - i \<le> length (filter (\<lambda>x. xs ! i \<le> x) xs)"
proof -
  have "filter (\<lambda>x. x \<le> xs ! i) (take (Suc i) xs) = take (Suc i) xs"
    using assms by (auto simp: filter_id_conv in_set_conv_nth sorted_iff_nth_mono)
  then have "length (filter (\<lambda>x. x \<le> xs ! i) (take (Suc i) xs @ drop (Suc i) xs)) \<ge> Suc i"
    using assms(2) by (simp only: filter_append length_append) simp
  then show "i < length (filter (\<lambda>x. x \<le> xs ! i) xs)" by simp
  have "filter (\<lambda>x. xs ! i \<le> x) (drop i xs) = drop i xs"
    using assms by (auto simp: filter_id_conv in_set_conv_nth sorted_iff_nth_mono)
  then have "length (filter (\<lambda>x. xs ! i \<le> x) (take i xs @ drop i xs)) \<ge> length xs - i"
    by (simp only: filter_append length_append) simp
  then show "length xs - i \<le> length (filter (\<lambda>x. xs ! i \<le> x) xs)" by simp
qed

lemma sort_Nil_iff [simp]: "sort xs = [] \<longleftrightarrow> xs = []"
  by (metis length_0_conv length_sort)

lemma length_filter_sort: "length (filter P (sort xs)) = length (filter P xs)"
  by (metis mset_filter mset_sort size_mset)

section \<open>The median\<close>

text \<open>
  The median block is bounded by correct nodes: when fewer than half of the values come from
  faulty nodes, the median of block keys is a block key itself, not below the block of some
  correct node and not above the block of another.
\<close>

lemma median_between_honest:
  assumes "\<forall>v\<in>set obs. snd v < 2 ^ 64"
    and "2 * length (filter (\<lambda>v. faulty (fst v)) obs) < length obs"
  shows "\<exists>m a b. GetMedian (map (\<lambda>v. format_d (snd v)) obs) = Inr (format_d m) \<and> m \<in> snd ` set obs \<and>
    a \<in> set obs \<and> \<not> faulty (fst a) \<and> snd a \<le> m \<and> b \<in> set obs \<and> \<not> faulty (fst b) \<and> m \<le> snd b"
proof -
  let ?xs = "map snd obs"
  let ?i = "length obs div 2"
  let ?m = "sort ?xs ! ?i"
  have i: "?i < length (sort ?xs)" using assms(2) by (cases obs) auto
  have med: "GetMedian (map (\<lambda>v. format_d (snd v)) obs) = Inr (format_d ?m)"
  proof -
    have "map (\<lambda>v. the (big_SetString v)) (map (\<lambda>v. format_d (snd v)) obs) = map int ?xs" by simp
    moreover have "sort (map int ?xs) = map int (sort ?xs)"
      by (rule properties_for_sort) (simp_all add: sorted_map mono_def multiset.map_comp)
    ultimately show ?thesis
      using i by (auto simp: GetMedian_def Let_def big_String_def o_def)
  qed
  have "length (filter (\<lambda>v. faulty (fst v)) obs) < length (filter (\<lambda>v. snd v \<le> ?m) obs)"
    using sorted_filter_le(1) [OF sorted_sort i] assms(2)
    by (simp add: length_filter_sort filter_map o_def)
  from filter_pigeonhole [OF this] obtain a where a: "a \<in> set obs" "snd a \<le> ?m" "\<not> faulty (fst a)"
    by blast
  have "length (filter (\<lambda>v. faulty (fst v)) obs) < length (filter (\<lambda>v. ?m \<le> snd v) obs)"
    using sorted_filter_le(2) [OF sorted_sort i] assms(2)
    by (simp add: length_filter_sort filter_map o_def)
  from filter_pigeonhole [OF this] obtain b where b: "b \<in> set obs" "?m \<le> snd b" "\<not> faulty (fst b)"
    by blast
  have "?m \<in> set (sort ?xs)" using i by (rule nth_mem)
  then have "?m \<in> snd ` set obs" by simp
  with med a b show ?thesis by blast
qed

end
