(* ===== verification/V2_Coordinator.thy ===== *)
theory V2_Coordinator
  imports V2_Encoding Util_Cache Interfaces "HOL-Library.Product_Lexorder"
    "HOL-Library.Option_ord"
begin

text \<open>
  \<open>pkg/v2/coordinator\<close>: the in-flight status of upkeeps in version 2. A cache says of an upkeep
  key whether a log confirmed it; another says of an identifier at which check block it was last
  accepted and up to which block it is filtered out. The encoder is \<open>BasicEncoder\<close> (theory
  \<open>V2_Encoding\<close>); the clock and the answers of the log provider are arguments, the logger is left
  out. The last section relates the caches to an abstract state without clocks: a set of accepted
  keys and a rank per identifier that only grows.
\<close>

definition DefaultLockoutWindow :: duration where "DefaultLockoutWindow = 20 * minute"
definition DefaultCacheClean :: duration where "DefaultCacheClean = 30 * second"
definition IndefiniteBlockingKey :: BlockKey2 where
  "IndefiniteBlockingKey = ''18446744073709551616''"

record PerformLog =
  pl_Key :: UpkeepKey
  pl_TransmitBlock :: BlockKey2
  pl_Confirmations :: int
  pl_TransactionHash :: string

record StaleReportLog =
  sl_Key :: UpkeepKey
  sl_TransmitBlock :: BlockKey2
  sl_Confirmations :: int
  sl_TransactionHash :: string

record idBlocker =
  CheckBlockNumber :: BlockKey2
  TransmitBlockNumber :: BlockKey2

record reportCoordinator =
  rc_idBlocks :: "idBlocker Cache"
  rc_activeKeys :: "bool Cache"
  rc_cacheCleaner :: IntervalCacheCleaner
  rc_idCacheCleaner :: IntervalCacheCleaner
  rc_minConfs :: int
  rc_running :: bool
  rc_chStop :: bool

definition NewReportCoordinator :: "duration \<Rightarrow> duration \<Rightarrow> int \<Rightarrow> reportCoordinator" where
  "NewReportCoordinator lockoutWindow cacheClean minConfs =
     (let lockoutWindow = (if lockoutWindow < 1 then DefaultLockoutWindow else lockoutWindow);
          cacheClean = (if cacheClean < 1 then DefaultCacheClean else cacheClean)
      in \<lparr>rc_idBlocks = NewCache lockoutWindow, rc_activeKeys = NewCache hour,
          rc_cacheCleaner = NewIntervalCacheCleaner cacheClean,
          rc_idCacheCleaner = NewIntervalCacheCleaner cacheClean,
          rc_minConfs = minConfs, rc_running = False, rc_chStop = False\<rparr>)"

text \<open>\<open>NewCoordinator\<close> of the factory: the lockout window is a 64-bit product of milliseconds.\<close>

definition NewCoordinator_v2 :: "duration \<Rightarrow> int \<Rightarrow> int \<Rightarrow> reportCoordinator" where
  "NewCoordinator_v2 cacheClean conf_PerformLockoutWindow conf_MinConfirmations =
     NewReportCoordinator (int64 (conf_PerformLockoutWindow * millisecond)) cacheClean
       conf_MinConfirmations"

text \<open>The pair of a status and an error; on an error the status is that of a pending key.\<close>

definition IsPending :: "time \<Rightarrow> UpkeepKey \<Rightarrow> reportCoordinator \<Rightarrow> bool \<times> go_error option" where
  "IsPending now key rc =
     (case SplitUpkeepKey key of
        Inl err \<Rightarrow> (True, Some (Wrapped ''key parse error'' err))
      | Inr (blockKey, ident) \<Rightarrow>
          (case Cache_Get now ident (rc_idBlocks rc) of
             Some bl \<Rightarrow>
               (case After blockKey (TransmitBlockNumber bl) of
                  Inl err \<Rightarrow> (True, Some (Wrapped ''not after transmit number'' err))
                | Inr isAfter \<Rightarrow> (\<not> isAfter, None))
           | None \<Rightarrow> (False, None)))"

definition shouldUpdate :: "idBlocker \<Rightarrow> idBlocker \<Rightarrow> bool result" where
  "shouldUpdate val b =
     (case After (CheckBlockNumber val) (CheckBlockNumber b) of
        Inl err \<Rightarrow> Inl err
      | Inr isAfter \<Rightarrow>
          if isAfter then Inr True
          else case After (CheckBlockNumber b) (CheckBlockNumber val) of
            Inl err \<Rightarrow> Inl err
          | Inr isAfter \<Rightarrow>
              if isAfter then Inr False
              else if TransmitBlockNumber b = IndefiniteBlockingKey then Inr True
              else if TransmitBlockNumber val = IndefiniteBlockingKey then Inr False
              else After (TransmitBlockNumber val) (TransmitBlockNumber b))"

definition updateIdBlock :: "time \<Rightarrow> string \<Rightarrow> idBlocker \<Rightarrow> reportCoordinator \<Rightarrow> reportCoordinator" where
  "updateIdBlock now key val rc =
     (let store = rc\<lparr>rc_idBlocks := Cache_Set now key val DefaultCacheExpiration (rc_idBlocks rc)\<rparr>
      in case Cache_Get now key (rc_idBlocks rc) of
           None \<Rightarrow> store
         | Some idBlock \<Rightarrow>
             (case shouldUpdate val idBlock of
                Inl err \<Rightarrow> rc
              | Inr update \<Rightarrow> if \<not> update then rc else store))"

definition set_activeKey :: "time \<Rightarrow> UpkeepKey \<Rightarrow> bool \<Rightarrow> reportCoordinator \<Rightarrow> reportCoordinator" where
  "set_activeKey now key confirmed rc =
     rc\<lparr>rc_activeKeys := Cache_Set now key confirmed DefaultCacheExpiration (rc_activeKeys rc)\<rparr>"

definition Accept_v2 ::
    "time \<Rightarrow> UpkeepKey \<Rightarrow> reportCoordinator \<Rightarrow> go_error option \<times> reportCoordinator" where
  "Accept_v2 now key rc =
     (case SplitUpkeepKey key of
        Inl err \<Rightarrow> (Some err, rc)
      | Inr (blockKey, ident) \<Rightarrow>
          (case Cache_Get now key (rc_activeKeys rc) of
             Some _ \<Rightarrow> (None, rc)
           | None \<Rightarrow>
               (None, updateIdBlock now ident
                  \<lparr>CheckBlockNumber = blockKey, TransmitBlockNumber = IndefiniteBlockingKey\<rparr>
                  (set_activeKey now key False rc))))"

definition IsTransmissionConfirmed :: "time \<Rightarrow> UpkeepKey \<Rightarrow> reportCoordinator \<Rightarrow> bool" where
  "IsTransmissionConfirmed now key rc =
     (case Cache_Get now key (rc_activeKeys rc) of None \<Rightarrow> True | Some confirmed \<Rightarrow> confirmed)"

text \<open>
  What \<open>checkLogs\<close> does with a log of an accepted key, the same for both kinds of logs: the first
  one confirms the key; a later one moves the block on when it differs and the identifier was not
  accepted for another check block since.
\<close>

definition log_of_key ::
    "time \<Rightarrow> UpkeepKey \<Rightarrow> string \<Rightarrow> idBlocker \<Rightarrow> reportCoordinator \<Rightarrow> reportCoordinator" where
  "log_of_key now key ident val rc =
     (case Cache_Get now key (rc_activeKeys rc) of
        None \<Rightarrow> rc
      | Some confirmed \<Rightarrow>
          if \<not> confirmed then updateIdBlock now ident val (set_activeKey now key True rc)
          else (case Cache_Get now ident (rc_idBlocks rc) of
                  None \<Rightarrow> rc
                | Some idBlock \<Rightarrow>
                    if CheckBlockNumber idBlock = CheckBlockNumber val \<and>
                       TransmitBlockNumber idBlock \<noteq> TransmitBlockNumber val
                    then updateIdBlock now ident val rc else rc))"

definition perform_log :: "time \<Rightarrow> PerformLog \<Rightarrow> reportCoordinator \<Rightarrow> reportCoordinator" where
  "perform_log now l rc =
     (if pl_Confirmations l < rc_minConfs rc then rc
      else case SplitUpkeepKey (pl_Key l) of
        Inl _ \<Rightarrow> rc
      | Inr (logCheckBlockKey, ident) \<Rightarrow>
          log_of_key now (pl_Key l) ident
            \<lparr>CheckBlockNumber = logCheckBlockKey, TransmitBlockNumber = pl_TransmitBlock l\<rparr> rc)"

definition stale_report_log :: "time \<Rightarrow> StaleReportLog \<Rightarrow> reportCoordinator \<Rightarrow> reportCoordinator" where
  "stale_report_log now l rc =
     (if sl_Confirmations l < rc_minConfs rc then rc
      else case SplitUpkeepKey (sl_Key l) of
        Inl _ \<Rightarrow> rc
      | Inr (logCheckBlockKey, ident) \<Rightarrow>
          (case Increment logCheckBlockKey of
             Inl _ \<Rightarrow> rc
           | Inr nextKey \<Rightarrow>
               log_of_key now (sl_Key l) ident
                 \<lparr>CheckBlockNumber = logCheckBlockKey, TransmitBlockNumber = nextKey\<rparr> rc))"

text \<open>
  The stale report logs are processed whatever error comes with them; that error is returned.
\<close>

definition checkLogs ::
    "time \<Rightarrow> PerformLog list result \<Rightarrow> StaleReportLog list \<times> go_error option \<Rightarrow> reportCoordinator \<Rightarrow>
     go_error option \<times> reportCoordinator" where
  "checkLogs now performLogs staleReportLogs rc =
     (case performLogs of
        Inl err \<Rightarrow> (Some err, rc)
      | Inr ls \<Rightarrow>
          (snd staleReportLogs,
           fold (stale_report_log now) (fst staleReportLogs) (fold (perform_log now) ls rc)))"

text \<open>
  \<open>Start\<close> and \<open>Close\<close>. The stop channel of the polling loop has room for one signal; sending a
  second one waits. The goroutines \<open>Start\<close> launches are \<open>run_v2\<close> and the two cleaners.
\<close>

definition Start_v2 :: "reportCoordinator \<Rightarrow> reportCoordinator" where
  "Start_v2 rc = (if \<not> rc_running rc then rc\<lparr>rc_running := True\<rparr> else rc)"

definition Close_v2 :: "reportCoordinator \<Rightarrow> reportCoordinator result" where
  "Close_v2 rc =
     (if rc_running rc
      then if rc_chStop rc then Inl Blocked
           else Inr (rc\<lparr>rc_chStop := True, rc_idCacheCleaner := cleaner_Stop (rc_idCacheCleaner rc),
                         rc_cacheCleaner := cleaner_Stop (rc_cacheCleaner rc), rc_running := False\<rparr>)
      else Inr rc)"

definition poll_cadence :: duration where "poll_cadence = second"

text \<open>How long the loop waits after a poll that took \<open>diff\<close>\<close>

definition next_poll :: "duration \<Rightarrow> duration" where
  "next_poll diff = (if diff > poll_cadence then 1000 else poll_cadence - diff)"

datatype run_signal =
    TimerFires time "PerformLog list result" "StaleReportLog list \<times> go_error option"
  | StopReceived

fun run_v2 :: "run_signal list \<Rightarrow> reportCoordinator \<Rightarrow> reportCoordinator" where
  "run_v2 [] rc = rc"
| "run_v2 (TimerFires now performLogs staleReportLogs # sigs) rc =
     run_v2 sigs (snd (checkLogs now performLogs staleReportLogs rc))"
| "run_v2 (StopReceived # sigs) rc = rc\<lparr>rc_chStop := False\<rparr>"

section \<open>Valid keys and the rank of an entry\<close>

text \<open>
  Block keys are 64-bit and identifiers 256-bit numbers. An entry of \<open>idBlocks\<close> is ranked by its
  check block and then by its transmit block, an entry without one lowest.
\<close>

type_synonym rank = "64 word \<times> 64 word option"

definition block_of :: "64 word \<Rightarrow> BlockKey2" where
  "block_of n = format_d (unat n)"

definition ident_of :: "256 word \<Rightarrow> UpkeepIdentifier2" where
  "ident_of i = format_d (unat i)"

definition key_of :: "64 word \<times> 256 word \<Rightarrow> UpkeepKey" where
  "key_of k = MakeUpkeepKey (block_of (fst k)) (ident_of (snd k))"

definition blocker_of :: "rank \<Rightarrow> idBlocker" where
  "blocker_of r =
     \<lparr>CheckBlockNumber = block_of (fst r),
      TransmitBlockNumber = (case snd r of None \<Rightarrow> IndefiniteBlockingKey | Some w \<Rightarrow> block_of w)\<rparr>"

lemma blocker_of_sel [simp]:
  "CheckBlockNumber (blocker_of r) = block_of (fst r)"
  "TransmitBlockNumber (blocker_of (n, None)) = IndefiniteBlockingKey"
  "TransmitBlockNumber (blocker_of (n, Some w)) = block_of w"
  by (simp_all add: blocker_of_def)

lemma format_d_inject [simp]: "format_d m = format_d n \<longleftrightarrow> m = n"
  using parse_format_d by (metis option.inject)

lemma IndefiniteBlockingKey_eq: "IndefiniteBlockingKey = format_d (2 ^ 64)"
  by (simp add: IndefiniteBlockingKey_def format_d.simps [of "numeral k" for k]
      format_d.simps [of "Suc 0"] dec_digit_def) code_simp

lemma block_of_inject [simp]: "block_of m = block_of n \<longleftrightarrow> m = n"
  by (simp add: block_of_def word_unat_eq_iff)

lemma ident_of_inject [simp]: "ident_of m = ident_of n \<longleftrightarrow> m = n"
  by (simp add: ident_of_def word_unat_eq_iff)

lemma block_of_not_indefinite [simp]:
  "block_of n \<noteq> IndefiniteBlockingKey" "IndefiniteBlockingKey \<noteq> block_of n"
  using unsigned_less [of n, where 'a = nat] by (auto simp: block_of_def IndefiniteBlockingKey_eq)

lemma After_block_of [simp]:
  "After (block_of m) (block_of n) = Inr (n < m)"
  "After (block_of m) IndefiniteBlockingKey = Inr False"
  using unsigned_less [of m, where 'a = int]
  by (simp_all add: After_def block_of_def IndefiniteBlockingKey_eq word_less_def)

lemma SplitUpkeepKey_key_of [simp]: "SplitUpkeepKey (key_of k) = Inr (block_of (fst k), ident_of (snd k))"
  using format_d_no_sign(3)
  by (simp add: key_of_def SplitUpkeepKey_Make block_of_def ident_of_def separator_def)

lemma key_of_inject [simp]: "key_of a = key_of b \<longleftrightarrow> a = b"
proof
  assume "key_of a = key_of b"
  then have "SplitUpkeepKey (key_of a) = SplitUpkeepKey (key_of b)" by (rule arg_cong)
  then show "a = b" by (simp add: prod_eq_iff)
qed simp

lemma Increment_block_of [simp]: "n \<noteq> - 1 \<Longrightarrow> Increment (block_of n) = Inr (block_of (n + 1))"
proof -
  assume "n \<noteq> - 1"
  then have "1 + n \<noteq> 0" by (metis add.inverse_unique)
  then have "unat (1 + n) = Suc (unat n)" by (rule unatSuc)
  moreover have "\<not> 1 + uint n < 0" using unsigned_greater_eq [of n, where 'a = int] by linarith
  ultimately show ?thesis
    by (simp add: Increment_def block_of_def big_String_def nat_add_distrib add.commute)
qed

lemma shouldUpdate_blocker_of:
  "shouldUpdate (blocker_of r') (blocker_of r) = Inr (r < r' \<or> r = r' \<and> snd r = None)"
proof -
  obtain n t n' t' where r: "r = (n, t)" "r' = (n', t')" by (cases r, cases r') auto
  show ?thesis
    unfolding r by (cases t; cases t') (auto simp: shouldUpdate_def less_prod_def)
qed

text \<open>The numbers of a key; the inverse of \<open>key_of\<close> and \<open>block_of\<close> on valid keys\<close>

definition block_num :: "BlockKey2 \<Rightarrow> 64 word" where
  "block_num b = (case big_SetString b of None \<Rightarrow> 0 | Some n \<Rightarrow> word_of_int n)"

definition key_nums :: "UpkeepKey \<Rightarrow> 64 word \<times> 256 word" where
  "key_nums k =
     (case SplitUpkeepKey k of
        Inl _ \<Rightarrow> (0, 0)
      | Inr (b, i) \<Rightarrow>
          (block_num b, case big_SetString i of None \<Rightarrow> 0 | Some n \<Rightarrow> word_of_int n))"

lemma block_num_block_of [simp]: "block_num (block_of n) = n"
  by (simp add: block_num_def block_of_def)

lemma key_nums_key_of [simp]: "key_nums (key_of k) = k"
  unfolding key_nums_def SplitUpkeepKey_key_of by (simp add: ident_of_def)

lemma valid_block_of: "ValidateBlockKey b = Inr True \<Longrightarrow> b = block_of (block_num b)"
proof -
  assume "ValidateBlockKey b = Inr True"
  then obtain n where "n < 2 ^ 64" "b = format_d n" by (auto simp: ValidateBlockKey_iff)
  then have "b = block_of (word_of_nat n)" by (simp add: block_of_def unsigned_of_nat take_bit_nat_eq_self)
  then show ?thesis by simp
qed

lemma valid_key_of: "ValidateUpkeepKey k = Inr True \<Longrightarrow> k = key_of (key_nums k)"
proof -
  assume "ValidateUpkeepKey k = Inr True"
  then obtain b i where bi: "SplitUpkeepKey k = Inr (b, i)" "ValidateBlockKey b = Inr True"
      "ValidateUpkeepIdentifier i = Inr True"
    by (auto simp: ValidateUpkeepKey_def ValidateBlockKey_iff ValidateUpkeepIdentifier_iff
        split: sum.splits)
  from bi(3) obtain m where "m < 2 ^ 256" "i = format_d m" by (auto simp: ValidateUpkeepIdentifier_iff)
  then have "i = ident_of (word_of_nat m)" by (simp add: ident_of_def unsigned_of_nat take_bit_nat_eq_self)
  with valid_block_of [OF bi(2)] SplitUpkeepKey_Inr [OF bi(1)]
  have "k = key_of (block_num b, word_of_nat m)" by (simp add: key_of_def)
  then show ?thesis by simp
qed

section \<open>The abstract coordinator\<close>

text \<open>
  Which keys were accepted and whether a log confirmed them, and the rank of every identifier,
  which is the greatest of its accepted and logged blocks: no clock, no cache, no strings.
\<close>

type_synonym spec = "(64 word \<times> 256 word \<rightharpoonup> bool) \<times> (256 word \<rightharpoonup> rank)"

definition rank_put :: "256 word \<times> rank \<Rightarrow> (256 word \<rightharpoonup> rank) \<Rightarrow> (256 word \<rightharpoonup> rank)" where
  "rank_put e R =
     (case R (fst e) of
        None \<Rightarrow> R(fst e \<mapsto> snd e)
      | Some r \<Rightarrow> if r < snd e then R(fst e \<mapsto> snd e) else R)"

interpretation rank: newest_wins rank_put "\<lambda>R. R" fst snd
  by unfold_locales (simp add: rank_put_def)

definition spec_accept :: "64 word \<times> 256 word \<Rightarrow> spec \<Rightarrow> spec" where
  "spec_accept k s =
     (case fst s k of
        None \<Rightarrow> ((fst s)(k \<mapsto> False), rank_put (snd k, (fst k, None)) (snd s))
      | Some _ \<Rightarrow> s)"

definition spec_log :: "(64 word \<times> 256 word) \<times> 64 word \<Rightarrow> spec \<Rightarrow> spec" where
  "spec_log l s =
     (case fst s (fst l) of
        None \<Rightarrow> s
      | Some _ \<Rightarrow>
          ((fst s)(fst l \<mapsto> True),
           rank_put (snd (fst l), (fst (fst l), Some (snd l))) (snd s)))"

text \<open>The logs of a poll that count, with the block they unblock the identifier after\<close>

definition counted_logs ::
    "int \<Rightarrow> PerformLog list \<Rightarrow> StaleReportLog list \<Rightarrow> ((64 word \<times> 256 word) \<times> 64 word) list" where
  "counted_logs minConfs ps ss =
     map (\<lambda>l. (key_nums (pl_Key l), block_num (pl_TransmitBlock l)))
       (filter (\<lambda>l. minConfs \<le> pl_Confirmations l) ps) @
     map (\<lambda>l. (key_nums (sl_Key l), fst (key_nums (sl_Key l)) + 1))
       (filter (\<lambda>l. minConfs \<le> sl_Confirmations l) ss)"

datatype coord_event =
    AcceptKey UpkeepKey
  | PollLogs "PerformLog list result" "StaleReportLog list \<times> go_error option"
  | Collect "string list" "string list"

fun coord_step :: "time \<times> coord_event \<Rightarrow> reportCoordinator \<Rightarrow> reportCoordinator" where
  "coord_step (t, AcceptKey k) rc = snd (Accept_v2 t k rc)"
| "coord_step (t, PollLogs ps ss) rc = snd (checkLogs t ps ss rc)"
| "coord_step (t, Collect ks ids) rc =
     rc\<lparr>rc_activeKeys := ClearExpired t ks (rc_activeKeys rc),
        rc_idBlocks := ClearExpired t ids (rc_idBlocks rc)\<rparr>"

fun spec_step :: "int \<Rightarrow> coord_event \<Rightarrow> spec \<Rightarrow> spec" where
  "spec_step minConfs (AcceptKey k) s = spec_accept (key_nums k) s"
| "spec_step minConfs (PollLogs (Inl err) ss) s = s"
| "spec_step minConfs (PollLogs (Inr ps) ss) s = fold spec_log (counted_logs minConfs ps (fst ss)) s"
| "spec_step minConfs (Collect ks ids) s = s"

text \<open>
  Events with valid keys. The last block number has no successor that is a block number: a stale
  report log of that block is left out.
\<close>

fun valid_event :: "coord_event \<Rightarrow> bool" where
  "valid_event (AcceptKey k) \<longleftrightarrow> ValidateUpkeepKey k = Inr True"
| "valid_event (PollLogs ps ss) \<longleftrightarrow>
     (case ps of Inl _ \<Rightarrow> True | Inr ls \<Rightarrow>
        (\<forall>l\<in>set ls. ValidateUpkeepKey (pl_Key l) = Inr True \<and>
           ValidateBlockKey (pl_TransmitBlock l) = Inr True)) \<and>
     (\<forall>l\<in>set (fst ss). ValidateUpkeepKey (sl_Key l) = Inr True \<and> fst (key_nums (sl_Key l)) \<noteq> - 1)"
| "valid_event (Collect ks ids) \<longleftrightarrow> True"

section \<open>The caches implement it\<close>

text \<open>
  \<open>reads_as T f c m\<close>: at every time up to \<open>T\<close> the cache holds what \<open>m\<close> says.
\<close>

definition reads_as :: "time \<Rightarrow> ('x \<Rightarrow> string) \<Rightarrow> 'v Cache \<Rightarrow> ('x \<rightharpoonup> 'v) \<Rightarrow> bool" where
  "reads_as T f c m \<longleftrightarrow> (\<forall>t\<le>T. \<forall>x. Cache_Get t (f x) c = m x)"

lemma reads_as_get: "reads_as T f c m \<Longrightarrow> t \<le> T \<Longrightarrow> Cache_Get t (f x) c = m x"
  by (simp add: reads_as_def)

lemma reads_as_set:
  "reads_as T f c m \<Longrightarrow> inj f \<Longrightarrow> 0 < t \<Longrightarrow> T \<le> t + c_defaultExpiration c \<Longrightarrow>
     reads_as T f (Cache_Set t (f x) v DefaultCacheExpiration c) (m(x \<mapsto> v))"
  unfolding reads_as_def
  by (auto simp: util_cache.get_set util_cache.get_set_other inj_eq)

lemma reads_as_gc: "reads_as T f c m \<Longrightarrow> t \<le> T \<Longrightarrow> reads_as T f (ClearExpired t ks c) m"
  unfolding reads_as_def
  by (metis Cache_Get_ClearExpired Cache_Get_ClearExpired_visible Cache_Get_gc_None not_None_eq)

definition spec_inv :: "spec \<Rightarrow> bool" where
  "spec_inv s \<longleftrightarrow> (\<forall>k c. fst s k = Some c \<longrightarrow> (\<exists>r. snd s (snd k) = Some r \<and> (fst k, None) \<le> r))"

lemma rank_put_le: "\<exists>r. rank_put (i, r0) R i = Some r \<and> r0 \<le> r"
  using rank.look_put_same [of "(i, r0)" R] by (auto split: option.splits simp del: split_paired_Ex)

lemma rank_put_lower: "R i = Some r \<Longrightarrow> r0 \<le> r \<Longrightarrow> rank_put (i, r0) R = R"
  using leD by (auto simp: rank_put_def)

lemma spec_inv_put:
  "spec_inv s \<Longrightarrow> (fst k, None) \<le> r \<Longrightarrow> spec_inv ((fst s)(k \<mapsto> c), rank_put (snd k, r) (snd s))"
proof -
  assume inv: "spec_inv s" and r: "(fst k, None) \<le> r"
  show ?thesis
    unfolding spec_inv_def
  proof (intro allI impI)
    fix k' c' assume k': "fst ((fst s)(k \<mapsto> c), rank_put (snd k, r) (snd s)) k' = Some c'"
    let ?R = "rank_put (snd k, r) (snd s)"
    have "\<exists>r'. ?R (snd k') = Some r' \<and> (fst k', None) \<le> r'"
    proof (cases "k' = k")
      case True
      with r show ?thesis using rank_put_le [of "snd k" r "snd s"] order_trans by blast
    next
      case False
      with k' have "fst s k' = Some c'" by simp
      with inv obtain r0 where "snd s (snd k') = Some r0" "(fst k', None) \<le> r0"
        unfolding spec_inv_def by blast
      with rank.look_put_mono [of "snd s" "snd k'" r0 "(snd k, r)"] show ?thesis
        using order_trans by blast
    qed
    then show "\<exists>r'. snd ((fst s)(k \<mapsto> c), ?R) (snd k') = Some r' \<and> (fst k', None) \<le> r'" by simp
  qed
qed

definition coord_rel :: "time \<Rightarrow> time \<Rightarrow> int \<Rightarrow> reportCoordinator \<Rightarrow> spec \<Rightarrow> bool" where
  "coord_rel t0 T minConfs rc s \<longleftrightarrow>
     reads_as T key_of (rc_activeKeys rc) (fst s) \<and>
     reads_as T ident_of (rc_idBlocks rc) (\<lambda>i. map_option blocker_of (snd s i)) \<and>
     T \<le> t0 + c_defaultExpiration (rc_activeKeys rc) \<and>
     T \<le> t0 + c_defaultExpiration (rc_idBlocks rc) \<and>
     rc_minConfs rc = minConfs"

lemma inj_keys [simp]: "inj key_of" "inj ident_of"
  by (simp_all add: inj_def)

lemma set_activeKey_rel:
  "coord_rel t0 T mc rc s \<Longrightarrow> 0 < t0 \<Longrightarrow> t0 \<le> t \<Longrightarrow>
     coord_rel t0 T mc (set_activeKey t (key_of k) c rc) ((fst s)(k \<mapsto> c), snd s)"
  by (auto simp: coord_rel_def set_activeKey_def util_cache.ttl_set intro!: reads_as_set)

lemma store_idBlock_rel:
  assumes "coord_rel t0 T mc rc s" "0 < t0" "t0 \<le> t"
  shows "coord_rel t0 T mc
    (rc\<lparr>rc_idBlocks := Cache_Set t (ident_of i) (blocker_of r) DefaultCacheExpiration (rc_idBlocks rc)\<rparr>)
    (fst s, (snd s)(i \<mapsto> r))"
proof -
  have "(\<lambda>j. map_option blocker_of (((snd s)(i \<mapsto> r)) j)) =
      (\<lambda>j. map_option blocker_of (snd s j))(i \<mapsto> blocker_of r)" by auto
  then show ?thesis
    using assms by (simp add: coord_rel_def util_cache.ttl_set) (auto intro: reads_as_set)
qed

lemma updateIdBlock_rel:
  assumes rel: "coord_rel t0 T mc rc s" and t: "0 < t0" "t0 \<le> t" "t \<le> T"
  shows "coord_rel t0 T mc (updateIdBlock t (ident_of i) (blocker_of r) rc)
    (fst s, rank_put (i, r) (snd s))"
proof -
  from rel t(3) have get: "Cache_Get t (ident_of i) (rc_idBlocks rc) = map_option blocker_of (snd s i)"
    by (auto simp: coord_rel_def dest: reads_as_get)
  show ?thesis
  proof (cases "snd s i")
    case None
    with store_idBlock_rel [OF rel t(1,2)] get show ?thesis
      by (simp add: updateIdBlock_def rank_put_def)
  next
    case (Some b)
    moreover have "(snd s)(i \<mapsto> b) = snd s" using Some by auto
    ultimately show ?thesis
      using store_idBlock_rel [OF rel t(1,2), of i r] get rel
      by (auto simp: updateIdBlock_def rank_put_def shouldUpdate_blocker_of)
  qed
qed

lemma blocker_of_pair:
  "\<lparr>CheckBlockNumber = block_of n, TransmitBlockNumber = IndefiniteBlockingKey\<rparr> = blocker_of (n, None)"
  "\<lparr>CheckBlockNumber = block_of n, TransmitBlockNumber = block_of w\<rparr> = blocker_of (n, Some w)"
  by (simp_all add: blocker_of_def)

lemma Accept_rel:
  assumes rel: "coord_rel t0 T mc rc s" and t: "0 < t0" "t0 \<le> t" "t \<le> T"
  shows "coord_rel t0 T mc (snd (Accept_v2 t (key_of k) rc)) (spec_accept k s)"
proof -
  from rel t(3) have get: "Cache_Get t (key_of k) (rc_activeKeys rc) = fst s k"
    by (auto simp: coord_rel_def dest: reads_as_get)
  from updateIdBlock_rel [OF set_activeKey_rel [OF rel t(1,2)] t] rel show ?thesis
    by (auto simp: Accept_v2_def spec_accept_def get blocker_of_pair split: option.split)
qed

lemma log_of_key_rel:
  assumes rel: "coord_rel t0 T mc rc s" and inv: "spec_inv s" and t: "0 < t0" "t0 \<le> t" "t \<le> T"
  shows "coord_rel t0 T mc (log_of_key t (key_of k) (ident_of (snd k)) (blocker_of (fst k, Some w)) rc)
    (spec_log (k, w) s)"
proof -
  from rel t(3) have get: "Cache_Get t (key_of k) (rc_activeKeys rc) = fst s k"
      "Cache_Get t (ident_of (snd k)) (rc_idBlocks rc) = map_option blocker_of (snd s (snd k))"
    by (auto simp: coord_rel_def dest: reads_as_get)
  show ?thesis
  proof (cases "fst s k")
    case None
    with rel show ?thesis by (simp add: log_of_key_def spec_log_def get)
  next
    case (Some c)
    with inv obtain r where r: "snd s (snd k) = Some r" "(fst k, None) \<le> r"
      unfolding spec_inv_def by blast
    show ?thesis
    proof (cases c)
      case True
      with Some have [simp]: "(fst s)(k \<mapsto> True) = fst s" by auto
      from Some True r show ?thesis
        using updateIdBlock_rel [OF rel t, of "snd k" "(fst k, Some w)"] rel
        by (cases r; cases "snd r")
          (auto simp: log_of_key_def spec_log_def get rank_put_def less_prod_def less_eq_prod_def)
    next
      case False
      with Some show ?thesis
        using updateIdBlock_rel [OF set_activeKey_rel [OF rel t(1,2)] t, of "snd k" "(fst k, Some w)" k True]
        by (simp add: log_of_key_def spec_log_def get)
    qed
  qed
qed

lemma spec_inv_steps [inv_intros]:
  "spec_inv s \<Longrightarrow> spec_inv (spec_accept k s)"
  "spec_inv s \<Longrightarrow> spec_inv (spec_log l s)"
  "spec_inv s \<Longrightarrow> spec_inv (fold spec_log ls s)"
proof -
  show accept: "spec_inv s \<Longrightarrow> spec_inv (spec_accept k s)" for s
    by (auto simp: spec_accept_def split: option.split intro: spec_inv_put)
  show log: "spec_inv s \<Longrightarrow> spec_inv (spec_log l s)" for s l
    by (auto simp: spec_log_def less_eq_prod_def split: option.split intro!: spec_inv_put)
  show "spec_inv s \<Longrightarrow> spec_inv (fold spec_log ls s)"
    by (induction ls arbitrary: s) (simp_all add: log)
qed

lemma spec_inv_step [inv_intros]: "spec_inv s \<Longrightarrow> spec_inv (spec_step mc e s)"
  by (cases "(mc, e, s)" rule: spec_step.cases) (simp_all add: inv_intros)

lemma perform_logs_rel:
  assumes "coord_rel t0 T mc rc s" "spec_inv s" "0 < t0" "t0 \<le> t" "t \<le> T"
    and "\<forall>l\<in>set ls. ValidateUpkeepKey (pl_Key l) = Inr True \<and> ValidateBlockKey (pl_TransmitBlock l) = Inr True"
  shows "coord_rel t0 T mc (fold (perform_log t) ls rc) (fold spec_log (counted_logs mc ls []) s)"
  using assms
proof (induction ls arbitrary: rc s)
  case (Cons l ls)
  obtain k w where kw: "pl_Key l = key_of k" "pl_TransmitBlock l = block_of w"
    using Cons.prems(6) valid_key_of valid_block_of by (metis list.set_intros(1))
  from Cons.prems(1) have mc: "rc_minConfs rc = mc" by (simp add: coord_rel_def)
  show ?case
  proof (cases "mc \<le> pl_Confirmations l")
    case True
    with mc kw have "coord_rel t0 T mc (perform_log t l rc) (spec_log (k, w) s)"
      using log_of_key_rel [OF Cons.prems(1-5), of k w] by (simp add: perform_log_def blocker_of_pair)
    from Cons.IH [OF this] Cons.prems True kw show ?thesis
      by (simp add: counted_logs_def inv_intros)
  next
    case False
    with mc have "perform_log t l rc = rc" by (simp add: perform_log_def)
    with False Cons.IH [OF Cons.prems(1-5)] Cons.prems(6) show ?thesis by (simp add: counted_logs_def)
  qed
qed (simp add: counted_logs_def)

lemma stale_logs_rel:
  assumes "coord_rel t0 T mc rc s" "spec_inv s" "0 < t0" "t0 \<le> t" "t \<le> T"
    and "\<forall>l\<in>set ls. ValidateUpkeepKey (sl_Key l) = Inr True \<and> fst (key_nums (sl_Key l)) \<noteq> - 1"
  shows "coord_rel t0 T mc (fold (stale_report_log t) ls rc) (fold spec_log (counted_logs mc [] ls) s)"
  using assms
proof (induction ls arbitrary: rc s)
  case (Cons l ls)
  obtain k where k: "sl_Key l = key_of k" "fst k \<noteq> - 1"
    using Cons.prems(6) valid_key_of by (metis list.set_intros(1) key_nums_key_of)
  from Cons.prems(1) have mc: "rc_minConfs rc = mc" by (simp add: coord_rel_def)
  show ?case
  proof (cases "mc \<le> sl_Confirmations l")
    case True
    with mc k have "coord_rel t0 T mc (stale_report_log t l rc) (spec_log (k, fst k + 1) s)"
      using log_of_key_rel [OF Cons.prems(1-5), of k "fst k + 1"]
      by (simp add: stale_report_log_def blocker_of_pair)
    from Cons.IH [OF this] Cons.prems True k show ?thesis
      by (simp add: counted_logs_def inv_intros)
  next
    case False
    with mc have "stale_report_log t l rc = rc" by (simp add: stale_report_log_def)
    with False Cons.IH [OF Cons.prems(1-5)] Cons.prems(6) show ?thesis by (simp add: counted_logs_def)
  qed
qed (simp add: counted_logs_def)

lemma counted_logs_append: "counted_logs mc ps ss = counted_logs mc ps [] @ counted_logs mc [] ss"
  by (simp add: counted_logs_def)

lemma coord_step_rel:
  assumes rel: "coord_rel t0 T mc rc s" "spec_inv s" and t: "0 < t0" "t0 \<le> t" "t \<le> T"
    and valid: "valid_event e"
  shows "coord_rel t0 T mc (coord_step (t, e) rc) (spec_step mc e s)"
proof (cases e)
  case (AcceptKey k)
  with valid have "k = key_of (key_nums k)" by (simp add: valid_key_of)
  with AcceptKey Accept_rel [OF rel(1) t, of "key_nums k"] show ?thesis by simp
next
  case (PollLogs ps ss)
  show ?thesis
  proof (cases ps)
    case (Inl err)
    with PollLogs rel show ?thesis by (simp add: checkLogs_def)
  next
    case (Inr ls)
    with PollLogs valid have "coord_rel t0 T mc (fold (perform_log t) ls rc)
        (fold spec_log (counted_logs mc ls []) s)"
      by (intro perform_logs_rel [OF rel t]) simp
    from stale_logs_rel [OF this _ t, of "fst ss"] PollLogs Inr valid rel(2) show ?thesis
      by (simp add: checkLogs_def inv_intros counted_logs_append [of mc ls "fst ss"])
  qed
next
  case (Collect ks ids)
  with rel(1) t(3) show ?thesis
    by (simp add: coord_rel_def reads_as_gc util_cache.ttl_gc)
qed

definition empty_spec :: spec where "empty_spec = (Map.empty, Map.empty)"

lemma coord_run_rel:
  assumes "coord_rel t0 T mc rc s" "spec_inv s" "0 < t0"
    and "\<forall>e\<in>set evs. t0 \<le> fst e \<and> fst e \<le> T \<and> valid_event (snd e)"
  shows "coord_rel t0 T mc (fold coord_step evs rc) (fold (\<lambda>e. spec_step mc (snd e)) evs s)"
  using assms
proof (induction evs arbitrary: rc s)
  case (Cons e evs)
  then show ?case
    using coord_step_rel [of t0 T mc rc s "fst e" "snd e"] by (simp add: inv_intros)
qed simp

text \<open>What the abstract state says of the two questions the plugin asks\<close>

definition spec_confirmed :: "64 word \<times> 256 word \<Rightarrow> spec \<Rightarrow> bool" where
  "spec_confirmed k s \<longleftrightarrow> fst s k \<noteq> Some False"

definition spec_pending :: "64 word \<times> 256 word \<Rightarrow> spec \<Rightarrow> bool" where
  "spec_pending k s \<longleftrightarrow>
     (case snd s (snd k) of
        None \<Rightarrow> False
      | Some r \<Rightarrow> (case snd r of None \<Rightarrow> True | Some w \<Rightarrow> fst k \<le> w))"

lemma answers_rel:
  assumes "coord_rel t0 T mc rc s"
  shows "IsTransmissionConfirmed T (key_of k) rc = spec_confirmed k s"
    and "IsPending T (key_of k) rc = (spec_pending k s, None)"
proof -
  from assms have get: "Cache_Get T (key_of k) (rc_activeKeys rc) = fst s k"
      "Cache_Get T (ident_of (snd k)) (rc_idBlocks rc) = map_option blocker_of (snd s (snd k))"
    by (auto simp: coord_rel_def dest: reads_as_get)
  then show "IsTransmissionConfirmed T (key_of k) rc = spec_confirmed k s"
    by (auto simp: IsTransmissionConfirmed_def spec_confirmed_def split: option.split)
  from get show "IsPending T (key_of k) rc = (spec_pending k s, None)"
    by (cases "snd s (snd k)")
      (auto simp: IsPending_def spec_pending_def blocker_of_def not_less split: option.split)
qed

definition effective_lockout :: "duration \<Rightarrow> duration" where
  "effective_lockout w = (if w < 1 then DefaultLockoutWindow else w)"

lemma coord_rel_new:
  "T \<le> t0 + hour \<Longrightarrow> T \<le> t0 + effective_lockout w \<Longrightarrow>
     coord_rel t0 T mc (NewReportCoordinator w cl mc) empty_spec"
  by (simp add: coord_rel_def NewReportCoordinator_def effective_lockout_def empty_spec_def
      reads_as_def Let_def)

lemma spec_inv_empty [simp]: "spec_inv empty_spec"
  by (simp add: spec_inv_def empty_spec_def)

section \<open>Properties\<close>

text \<open>
  C10: The version 2 coordinator implements its abstract specification. Within one lockout window,
  whatever sequence of acceptances, log polls and cache collections it went through, the node
  answers whether a valid key is pending and whether its transmission is confirmed exactly as the
  state without clocks, caches and strings does, and without an error.
\<close>

theorem v2_coordinator_refines:
  assumes "0 < t0" and "T \<le> t0 + hour" and "T \<le> t0 + effective_lockout w"
    and "\<forall>e\<in>set evs. t0 \<le> fst e \<and> fst e \<le> T \<and> valid_event (snd e)"
  shows "IsTransmissionConfirmed T (key_of k) (fold coord_step evs (NewReportCoordinator w cl mc)) =
      spec_confirmed k (fold (\<lambda>e. spec_step mc (snd e)) evs empty_spec)
    \<and> IsPending T (key_of k) (fold coord_step evs (NewReportCoordinator w cl mc)) =
      (spec_pending k (fold (\<lambda>e. spec_step mc (snd e)) evs empty_spec), None)"
  using answers_rel [OF coord_run_rel [OF coord_rel_new [OF assms(2,3)] _ assms(1,4)]] by simp

lemma ValidateBlockKey_block_of [simp]: "ValidateBlockKey (block_of n) = Inr True"
  using unsigned_less [of n, where 'a = nat] by (simp add: block_of_def format_d_valid)

lemma ValidateUpkeepIdentifier_ident_of [simp]: "ValidateUpkeepIdentifier (ident_of i) = Inr True"
  using unsigned_less [of i, where 'a = nat] by (simp add: ident_of_def format_d_valid)

lemma ValidateUpkeepKey_key_of [simp]: "ValidateUpkeepKey (key_of k) = Inr True"
  by (simp add: ValidateUpkeepKey_def)

definition sample_events :: "(time \<times> coord_event) list" where
  "sample_events =
     [(10, AcceptKey (key_of (100, 7))),
      (20, PollLogs (Inr [\<lparr>pl_Key = key_of (100, 7), pl_TransmitBlock = block_of 104,
                          pl_Confirmations = 3, pl_TransactionHash = ''ab''\<rparr>]) ([], None)),
      (30, Collect [] [])]"

theorem v2_coordinator_refines_witness:
  "IsPending 40 (key_of (104, 7)) (fold coord_step sample_events (NewReportCoordinator 0 0 1)) = (True, None)
   \<and> IsPending 40 (key_of (105, 7)) (fold coord_step sample_events (NewReportCoordinator 0 0 1)) = (False, None)
   \<and> IsTransmissionConfirmed 40 (key_of (100, 7)) (fold coord_step sample_events (NewReportCoordinator 0 0 1))"
proof -
  have ok: "\<forall>e\<in>set sample_events. 10 \<le> fst e \<and> fst e \<le> 40 \<and> valid_event (snd e)"
    by (simp add: sample_events_def)
  note run = v2_coordinator_refines [of 10 40 0 sample_events _ 0 1, OF _ _ _ ok]
  have "fold (\<lambda>e. spec_step 1 (snd e)) sample_events empty_spec =
      ([(100, 7) \<mapsto> True], [7 \<mapsto> (100, Some 104)])"
    by (simp add: sample_events_def empty_spec_def spec_accept_def rank_put_def counted_logs_def spec_log_def
        less_prod_def)
  with run [of "(104, 7)"] run [of "(105, 7)"] run [of "(100, 7)"] show ?thesis
    by (simp add: hour_def effective_lockout_def DefaultLockoutWindow_def minute_def spec_pending_def
        spec_confirmed_def)
qed

text \<open>
  The life of an accepted key, on the abstract state: \<open>ws\<close> are the blocks of the logs seen for it.
\<close>

definition logs_of :: "int \<Rightarrow> coord_event \<Rightarrow> ((64 word \<times> 256 word) \<times> 64 word) list" where
  "logs_of mc e =
     (case e of PollLogs (Inr ps) ss \<Rightarrow> counted_logs mc ps (fst ss) | _ \<Rightarrow> [])"

definition blocks_logged :: "64 word \<times> 256 word \<Rightarrow> ((64 word \<times> 256 word) \<times> 64 word) list \<Rightarrow> 64 word list" where
  "blocks_logged k ls = map snd (filter (\<lambda>l. fst l = k) ls)"

definition logged_after :: "64 word list \<Rightarrow> 64 word option" where
  "logged_after ws = (if ws = [] then None else Some (Max (set ws)))"

definition not_yet :: "64 word \<times> 256 word \<Rightarrow> spec \<Rightarrow> bool" where
  "not_yet k s \<longleftrightarrow> (\<forall>n\<ge>fst k. fst s (n, snd k) = None) \<and> (\<forall>r. snd s (snd k) = Some r \<longrightarrow> fst r < fst k)"

definition in_flight :: "64 word \<times> 256 word \<Rightarrow> 64 word list \<Rightarrow> spec \<Rightarrow> bool" where
  "in_flight k ws s \<longleftrightarrow>
     (\<forall>n>fst k. fst s (n, snd k) = None) \<and> fst s k = Some (ws \<noteq> []) \<and>
     snd s (snd k) = Some (fst k, logged_after ws)"

lemma logged_after_snoc:
  "logged_after (ws @ [w]) = (case logged_after ws of None \<Rightarrow> Some w | Some v \<Rightarrow> Some (max w v))"
  by (auto simp: logged_after_def)

lemma spec_log_not_yet: "not_yet k s \<Longrightarrow> not_yet k (spec_log l s)"
proof -
  assume ny: "not_yet k s"
  then have "fst (fst l) < fst k" if "fst s (fst l) \<noteq> None" "snd (fst l) = snd k"
    using that by (cases "fst l") (force simp: not_yet_def not_less)
  with ny show ?thesis
    by (auto simp: not_yet_def spec_log_def rank_put_def split: option.splits if_splits)
qed

lemma spec_log_in_flight:
  "in_flight k ws s \<Longrightarrow> in_flight k (ws @ blocks_logged k [l]) (spec_log l s)"
proof (cases "fst l = k")
  case True
  moreover assume "in_flight k ws s"
  ultimately show ?thesis
    by (cases "logged_after ws")
      (auto simp: in_flight_def spec_log_def blocks_logged_def rank_put_def less_prod_def
        logged_after_snoc max_def)
next
  case False
  assume flight: "in_flight k ws s"
  have "rank_put (snd (fst l), (fst (fst l), Some (snd l))) (snd s) (snd k) = snd s (snd k)"
    if "fst s (fst l) \<noteq> None"
  proof (cases "snd (fst l) = snd k")
    case True
    with flight that False have "fst (fst l) < fst k"
      by (cases "fst l") (force simp: in_flight_def not_less order_le_less)
    with True flight show ?thesis by (auto simp: in_flight_def rank_put_def less_prod_def)
  next
    case False
    then show ?thesis by (simp add: rank.look_put_other)
  qed
  with flight False show ?thesis
    by (auto simp: in_flight_def spec_log_def blocks_logged_def split: option.split)
qed

lemma spec_logs_life:
  "not_yet k s \<Longrightarrow> not_yet k (fold spec_log ls s)"
  "in_flight k ws s \<Longrightarrow> in_flight k (ws @ blocks_logged k ls) (fold spec_log ls s)"
proof -
  show "not_yet k s \<Longrightarrow> not_yet k (fold spec_log ls s)"
    by (induction ls arbitrary: s) (simp_all add: spec_log_not_yet)
  show "in_flight k ws s \<Longrightarrow> in_flight k (ws @ blocks_logged k ls) (fold spec_log ls s)"
  proof (induction ls arbitrary: s ws)
    case (Cons l ls)
    from Cons.IH [OF spec_log_in_flight [OF Cons.prems, of l]] show ?case
      by (simp add: blocks_logged_def split: if_splits)
  qed (simp add: blocks_logged_def)
qed

lemma spec_accept_life:
  "not_yet k s \<Longrightarrow> in_flight k [] (spec_accept k s)"
  "not_yet k s \<Longrightarrow> snd k' = snd k \<longrightarrow> fst k' < fst k \<Longrightarrow> not_yet k (spec_accept k' s)"
  "in_flight k ws s \<Longrightarrow> snd k' = snd k \<longrightarrow> fst k' \<le> fst k \<Longrightarrow> in_flight k ws (spec_accept k' s)"
proof -
  show "in_flight k [] (spec_accept k s)" if "not_yet k s"
    using that
    by (cases k) (auto simp: in_flight_def not_yet_def spec_accept_def logged_after_def rank_put_def
        less_prod_def split: option.splits)
  show "not_yet k (spec_accept k' s)" if "not_yet k s" "snd k' = snd k \<longrightarrow> fst k' < fst k"
    using that rank.look_put_other [of "snd k" "(snd k', (fst k', None))"]
    by (cases "snd k' = snd k")
      (auto simp: not_yet_def spec_accept_def rank_put_def split: option.splits)
  show "in_flight k ws (spec_accept k' s)"
    if flight: "in_flight k ws s" and k': "snd k' = snd k \<longrightarrow> fst k' \<le> fst k"
  proof (cases "snd k' = snd k")
    case True
    with k' have "(fst k', None) \<le> (fst k, logged_after ws)" by (auto simp: less_eq_prod_def)
    with True flight have "rank_put (snd k', (fst k', None)) (snd s) = snd s"
      by (intro rank_put_lower) (auto simp: in_flight_def)
    with True flight k' show ?thesis
      by (cases "k' = k") (auto simp: in_flight_def spec_accept_def split: option.split)
  next
    case False
    with flight rank.look_put_other [of "snd k" "(snd k', (fst k', None))"] show ?thesis
      by (auto simp: in_flight_def spec_accept_def split: option.splits)
  qed
qed

definition accepts_below :: "64 word \<times> 256 word \<Rightarrow> bool \<Rightarrow> coord_event \<Rightarrow> bool" where
  "accepts_below k strict e \<longleftrightarrow>
     (case e of
        AcceptKey k' \<Rightarrow>
          snd (key_nums k') = snd k \<longrightarrow>
            (if strict then fst (key_nums k') < fst k else fst (key_nums k') \<le> fst k)
      | _ \<Rightarrow> True)"

lemma spec_step_logs:
  "spec_step mc e s =
     (case e of AcceptKey k \<Rightarrow> spec_accept (key_nums k) s | _ \<Rightarrow> fold spec_log (logs_of mc e) s)"
  by (cases "(mc, e, s)" rule: spec_step.cases) (simp_all add: logs_of_def)

lemma spec_run_not_yet:
  "not_yet k s \<Longrightarrow> \<forall>e\<in>set evs. accepts_below k True e \<Longrightarrow> not_yet k (fold (spec_step mc) evs s)"
proof (induction evs arbitrary: s)
  case (Cons e evs)
  then have "not_yet k (spec_step mc e s)"
    by (cases e) (auto simp: spec_step_logs accepts_below_def intro: spec_logs_life spec_accept_life)
  with Cons show ?case by simp
qed simp

lemma spec_run_in_flight:
  "in_flight k ws s \<Longrightarrow> \<forall>e\<in>set evs. accepts_below k False e \<Longrightarrow>
     in_flight k (ws @ blocks_logged k (concat (map (logs_of mc) evs))) (fold (spec_step mc) evs s)"
proof (induction evs arbitrary: s ws)
  case (Cons e evs)
  have "in_flight k (ws @ blocks_logged k (logs_of mc e)) (spec_step mc e s)"
  proof (cases e)
    case (AcceptKey k')
    with Cons.prems show ?thesis
      by (auto simp: spec_step_logs accepts_below_def logs_of_def blocks_logged_def
          intro: spec_accept_life)
  qed (use Cons.prems in \<open>simp_all add: spec_step_logs spec_logs_life\<close>)
  from Cons.IH [OF this] Cons.prems(2) show ?case by (simp add: blocks_logged_def)
qed (simp add: blocks_logged_def)

lemma not_yet_empty [simp]: "not_yet k empty_spec"
  by (simp add: not_yet_def empty_spec_def)

lemma fold_snd: "fold (\<lambda>e. f (snd e)) evs s = fold f (map snd evs) s"
  by (simp add: fold_map o_def)

text \<open>
  C11: An accepted upkeep stays in flight until its log is seen. A key is accepted and no report at
  a higher block is; whatever else the coordinator does within the lockout window, the key counts
  as not transmitted, and its identifier is pending at every block, until a log with enough
  confirmations names the key. From then on the key is confirmed and the identifier is pending
  exactly up to the highest block such a log gave.
\<close>

theorem v2_in_flight_until_logged:
  assumes "0 < t0" and "T \<le> t0 + hour" and "T \<le> t0 + effective_lockout w"
    and evs: "evs = before @ (t, AcceptKey (key_of k)) # after"
    and "\<forall>e\<in>set evs. t0 \<le> fst e \<and> fst e \<le> T \<and> valid_event (snd e)"
    and "\<forall>e\<in>set before. accepts_below k True (snd e)"
    and "\<forall>e\<in>set after. accepts_below k False (snd e)"
  shows "let ws = blocks_logged k (concat (map (\<lambda>e. logs_of mc (snd e)) after))
    in IsTransmissionConfirmed T (key_of k) (fold coord_step evs (NewReportCoordinator w cl mc)) =
        (ws \<noteq> [])
      \<and> IsPending T (key_of (m, snd k)) (fold coord_step evs (NewReportCoordinator w cl mc)) =
        (ws = [] \<or> m \<le> Max (set ws), None)"
proof -
  let ?ws = "blocks_logged k (concat (map (\<lambda>e. logs_of mc (snd e)) after))"
  let ?s = "fold (\<lambda>e. spec_step mc (snd e)) evs empty_spec"
  let ?ls = "map snd before" and ?rs = "map snd after"
  have "not_yet k (fold (spec_step mc) ?ls empty_spec)"
    using assms(6) by (intro spec_run_not_yet) auto
  from spec_run_in_flight [OF spec_accept_life(1) [OF this], of ?rs mc] assms(7)
  have flight: "in_flight k ?ws ?s"
    by (simp add: evs fold_snd o_def)
  from answers_rel [OF coord_run_rel [OF coord_rel_new [OF assms(2,3)] _ assms(1,5)]] flight
  show ?thesis
    by (simp add: in_flight_def spec_confirmed_def spec_pending_def logged_after_def)
qed

theorem v2_in_flight_until_logged_witness:
  "\<not> IsTransmissionConfirmed 15 (key_of (100, 7))
       (fold coord_step (take 1 sample_events) (NewReportCoordinator 0 0 1))
   \<and> IsPending 15 (key_of (5000, 7))
       (fold coord_step (take 1 sample_events) (NewReportCoordinator 0 0 1)) = (True, None)"
proof -
  have ok: "\<forall>e\<in>set (take 1 sample_events). 10 \<le> fst e \<and> fst e \<le> 15 \<and> valid_event (snd e)"
    by (simp add: sample_events_def)
  have ev: "take 1 sample_events = [] @ (10, AcceptKey (key_of (100, 7))) # []"
    by (simp add: sample_events_def)
  from v2_in_flight_until_logged [of 10 15 0, OF _ _ _ ev ok, of 1 0 5000] show ?thesis
    by (simp add: hour_def effective_lockout_def DefaultLockoutWindow_def minute_def blocks_logged_def)
qed

lemma updateIdBlocks_rel:
  assumes "coord_rel t0 T mc rc s" "0 < t0" "\<forall>e\<in>set ups. t0 \<le> fst e \<and> fst e \<le> T"
  shows "coord_rel t0 T mc
    (fold (\<lambda>e. updateIdBlock (fst e) (ident_of (fst (snd e))) (blocker_of (snd (snd e)))) ups rc)
    (fst s, fold rank_put (map snd ups) (snd s))"
  using assms
proof (induction ups arbitrary: rc s)
  case (Cons e ups)
  then have "coord_rel t0 T mc (updateIdBlock (fst e) (ident_of (fst (snd e))) (blocker_of (snd (snd e))) rc)
      (fst s, rank_put (snd e) (snd s))"
    using updateIdBlock_rel [of t0 T mc rc s "fst e" "fst (snd e)" "snd (snd e)"] by simp
  from Cons.IH [OF this] Cons.prems show ?case by simp
qed simp

text \<open>
  Updates of the blocked identifiers may come in any order. Two nodes that go through the same
  updates at different times and in different orders within the lockout window hold the same
  entry for every identifier, and it is the one of the highest check block and, at that block,
  of the highest transmit block.
\<close>

lemma v2_id_blocks_converge:
  assumes "0 < t0" and "T \<le> t0 + hour" and "T \<le> t0 + effective_lockout w"
    and "\<forall>e\<in>set ups. t0 \<le> fst e \<and> fst e \<le> T" and "\<forall>e\<in>set ups'. t0 \<le> fst e \<and> fst e \<le> T"
    and "mset (map snd ups) = mset (map snd ups')"
  shows "let upd = \<lambda>e. updateIdBlock (fst e) (ident_of (fst (snd e))) (blocker_of (snd (snd e)));
             node = fold upd ups (NewReportCoordinator w cl mc);
             node' = fold upd ups' (NewReportCoordinator w cl' mc');
             rs = map (\<lambda>e. snd (snd e)) (filter (\<lambda>e. fst (snd e) = i) ups)
    in Cache_Get T (ident_of i) (rc_idBlocks node) = Cache_Get T (ident_of i) (rc_idBlocks node')
     \<and> Cache_Get T (ident_of i) (rc_idBlocks node) =
         (if rs = [] then None else Some (blocker_of (Max (set rs))))"
proof -
  let ?upd = "\<lambda>e. updateIdBlock (fst e) (ident_of (fst (snd e))) (blocker_of (snd (snd e)))"
  have look: "Cache_Get T (ident_of i) (rc_idBlocks (fold ?upd us (NewReportCoordinator w c m))) =
      map_option blocker_of (fold rank_put (map snd us) Map.empty i)"
    if "\<forall>e\<in>set us. t0 \<le> fst e \<and> fst e \<le> T" for us c m
    using updateIdBlocks_rel [OF coord_rel_new [OF assms(2,3)] assms(1) that, of m c]
    by (auto simp: coord_rel_def empty_spec_def dest: reads_as_get)
  have "fold rank_put (map snd ups) Map.empty = fold rank_put (map snd ups') Map.empty"
    using assms(6) by (rule rank.look_fold_order)
  with look [OF assms(4)] look [OF assms(5)] rank.look_fold [of "map snd ups" Map.empty i] show ?thesis
    by (simp add: Let_def filter_map o_def)
qed

lemma v2_id_blocks_converge_witness:
  "let upd = \<lambda>e. updateIdBlock (fst e) (ident_of (fst (snd e))) (blocker_of (snd (snd e)));
       ups = [(10, (7, (100, None))), (20, (7, (100, Some 104))), (30, (7, (90, Some 110)))]
   in Cache_Get 40 (ident_of 7) (rc_idBlocks (fold upd ups (NewReportCoordinator 0 0 1))) =
        Some (blocker_of (100, Some 104))
    \<and> Cache_Get 40 (ident_of 7) (rc_idBlocks (fold upd (rev ups) (NewReportCoordinator 0 0 1))) =
        Some (blocker_of (100, Some 104))"
proof -
  let ?ups = "[(10, (7, (100, None))), (20, (7, (100, Some 104))), (30, (7, (90, Some 110)))]
    :: (time \<times> 256 word \<times> rank) list"
  have "Max {(100, None), (100, Some 104), (90, Some 110)} = ((100, Some 104) :: rank)"
    by (simp add: max_def less_eq_prod_def)
  moreover have "\<forall>e\<in>set ?ups. 10 \<le> fst e \<and> fst e \<le> 40" by simp
  moreover have "\<forall>e\<in>set (rev ?ups). 10 \<le> fst e \<and> fst e \<le> 40" by simp
  moreover have "mset (map snd ?ups) = mset (map snd (rev ?ups))" by (simp only: rev_map [symmetric] mset_rev)
  ultimately show ?thesis
    using v2_id_blocks_converge [of 10 40 0 ?ups "rev ?ups" 0 1 0 1 7]
    by (auto simp: Let_def hour_def effective_lockout_def DefaultLockoutWindow_def minute_def)
qed

end
