(* ===== verification/V2_Observation.thy ===== *)
theory V2_Observation
  imports V2_Coordinator Go_Random
begin

text \<open>
  \<open>pkg/v2/observation.go\<close>, \<open>shuffle.go\<close> and \<open>encode.go\<close>: what the nodes of version 2 tell each
  other and how the leader turns it into upkeep keys. The JSON text of an observation is written
  out for the strings the model has (bytes below 128 are escaped as \<open>encoding/json\<close> does; a nil
  identifier is not told from an empty one). Decoding an observation is an argument: a faulty
  node may send any bytes.
\<close>

section \<open>Observations\<close>

record Observation_v2 =
  ob_BlockKey :: BlockKey2
  ob_UpkeepIdentifiers :: "UpkeepIdentifier2 list"

text \<open>The errors of \<open>observation.go\<close> for a validator that answers no without one\<close>

definition ErrInvalidBlockKey_v2 :: go_error where
  "ErrInvalidBlockKey_v2 = External ''invalid block key''"

definition ErrInvalidUpkeepIdentifier_v2 :: go_error where
  "ErrInvalidUpkeepIdentifier_v2 = External ''invalid upkeep identifier''"

fun validate_identifiers :: "UpkeepIdentifier2 list \<Rightarrow> go_error option" where
  "validate_identifiers [] = None"
| "validate_identifiers (ui # uis) =
     (case ValidateUpkeepIdentifier ui of
        Inl err \<Rightarrow> Some err
      | Inr ok \<Rightarrow> if \<not> ok then Some ErrInvalidUpkeepIdentifier_v2 else validate_identifiers uis)"

definition Validate_v2 :: "Observation_v2 \<Rightarrow> go_error option" where
  "Validate_v2 u =
     (case ValidateBlockKey (ob_BlockKey u) of
        Inl err \<Rightarrow> Some err
      | Inr ok \<Rightarrow> if \<not> ok then Some ErrInvalidBlockKey_v2
                 else validate_identifiers (ob_UpkeepIdentifiers u))"

definition ObservationUpkeepsLimit :: nat where "ObservationUpkeepsLimit = 1"
definition ReportKeysLimit :: nat where "ReportKeysLimit = 10"
definition MaxObservationLength_v2 :: nat where "MaxObservationLength_v2 = 1000"

text \<open>
  The loop of \<open>ObservationsToUpkeepKeys\<close>: the number of observations that failed, the block keys
  and the lists of identifiers of the others.
\<close>

fun collect_observations ::
    "(bytes \<Rightarrow> Observation_v2 result) \<Rightarrow> bytes list \<Rightarrow> nat \<times> BlockKey2 list \<times> UpkeepIdentifier2 list list \<Rightarrow>
     nat \<times> BlockKey2 list \<times> UpkeepIdentifier2 list list" where
  "collect_observations decode [] s = s"
| "collect_observations decode (obs # attr) (parseErrors, allBlockKeys, upkeepIDs) =
     collect_observations decode attr
       (case decode obs of
          Inl _ \<Rightarrow> (parseErrors + 1, allBlockKeys, upkeepIDs)
        | Inr u \<Rightarrow>
            if Validate_v2 u \<noteq> None then (parseErrors + 1, allBlockKeys, upkeepIDs)
            else (parseErrors, allBlockKeys @ [ob_BlockKey u],
                  if length (ob_UpkeepIdentifiers u) > 0
                  then upkeepIDs @
                    [if length (ob_UpkeepIdentifiers u) > ObservationUpkeepsLimit
                     then take ObservationUpkeepsLimit (ob_UpkeepIdentifiers u)
                     else ob_UpkeepIdentifiers u]
                  else upkeepIDs))"

definition createKeysWithMedianBlock ::
    "BlockKey2 \<Rightarrow> UpkeepIdentifier2 list list \<Rightarrow> UpkeepKey list list" where
  "createKeysWithMedianBlock medianBlock upkeepIDLists =
     map (\<lambda>upkeepIDs. map (MakeUpkeepKey medianBlock) upkeepIDs) upkeepIDLists"

definition ErrTooManyErrors_v2 :: go_error where
  "ErrTooManyErrors_v2 = External ''too many errors in parallel worker process''"

definition ObservationsToUpkeepKeys ::
    "(bytes \<Rightarrow> Observation_v2 result) \<Rightarrow> bytes list \<Rightarrow> UpkeepKey list list result" where
  "ObservationsToUpkeepKeys decode attr =
     (case collect_observations decode attr (0, [], []) of
        (parseErrors, allBlockKeys, upkeepIDs) \<Rightarrow>
          if parseErrors = length attr
          then Inl (Wrapped ''cannot prepare sorted key list; observations not properly encoded''
                      ErrTooManyErrors_v2)
          else case GetMedian allBlockKeys of
            Inl panic \<Rightarrow> Inl panic
          | Inr medianBlock \<Rightarrow> Inr (createKeysWithMedianBlock medianBlock upkeepIDs))"

section \<open>Filtering and shuffling\<close>

text \<open>A key is left out when a filter says so or fails on it.\<close>

fun dedupe_loop :: "(UpkeepKey \<Rightarrow> bool \<times> go_error option) \<Rightarrow> UpkeepKey list \<Rightarrow> string set \<times> UpkeepKey list \<Rightarrow>
    string set \<times> UpkeepKey list" where
  "dedupe_loop filt [] s = s"
| "dedupe_loop filt (v # vs) (matched, output) =
     dedupe_loop filt vs
       (if fst (filt v) \<or> snd (filt v) \<noteq> None then (matched, output)
        else if v \<in> matched then (matched, output)
        else (insert v matched, output @ [v]))"

definition filterAndDedupe ::
    "(UpkeepKey \<Rightarrow> bool \<times> go_error option) \<Rightarrow> UpkeepKey list list \<Rightarrow> UpkeepKey list" where
  "filterAndDedupe filt inputs = snd (fold (dedupe_loop filt) inputs ({}, []))"

definition filterDedupeShuffleObservations ::
    "rand_draw \<Rightarrow> key16 \<Rightarrow> (UpkeepKey \<Rightarrow> bool \<times> go_error option) \<Rightarrow> UpkeepKey list list \<Rightarrow> UpkeepKey list" where
  "filterDedupeShuffleObservations draw keyRandSource filt upkeepKeys =
     (let uniqueKeys = filterAndDedupe filt upkeepKeys
      in Shuffle (draw keyRandSource (length uniqueKeys)) uniqueKeys)"

definition shuffleObservations :: "rand_draw \<Rightarrow> UpkeepIdentifier2 list \<Rightarrow> key16 \<Rightarrow> UpkeepIdentifier2 list" where
  "shuffleObservations draw upkeepIdentifiers source =
     Shuffle (draw source (length upkeepIdentifiers)) upkeepIdentifiers"

section \<open>Encoding\<close>

definition base64_digit :: "nat \<Rightarrow> char" where
  "base64_digit n =
     ''ABCDEFGHIJKLMNOPQRSTUVWXYZabcdefghijklmnopqrstuvwxyz0123456789+/'' ! (n mod 64)"

fun base64 :: "bytes \<Rightarrow> string" where
  "base64 [] = []"
| "base64 [a] = (let n = of_char a * 16 in [base64_digit (n div 64), base64_digit n, CHR ''='', CHR ''=''])"
| "base64 [a, b] =
     (let n = (of_char a * 256 + of_char b) * 4
      in [base64_digit (n div 4096), base64_digit (n div 64), base64_digit n, CHR ''=''])"
| "base64 (a # b # c # cs) =
     (let n = (of_char a * 256 + of_char b) * 256 + of_char c
      in [base64_digit (n div 262144), base64_digit (n div 4096), base64_digit (n div 64), base64_digit n] @
         base64 cs)"

definition json_escape :: "char \<Rightarrow> string" where
  "json_escape c =
     (let n = of_char c :: nat
      in if c = CHR 0x22 then [CHR 0x5C, CHR 0x22]
         else if c = CHR 0x5C then [CHR 0x5C, CHR 0x5C]
         else if n = 8 then [CHR 0x5C, CHR ''b'']
         else if n = 12 then [CHR 0x5C, CHR ''f'']
         else if n = 10 then [CHR 0x5C, CHR ''n'']
         else if n = 13 then [CHR 0x5C, CHR ''r'']
         else if n = 9 then [CHR 0x5C, CHR ''t'']
         else if n < 32 \<or> c = CHR ''<'' \<or> c = CHR ''>'' \<or> c = CHR ''&''
         then CHR 0x5C # ''u'' @ format_x 4 n
         else [c])"

definition json_quote :: "string \<Rightarrow> string" where
  "json_quote s = CHR 0x22 # s @ [CHR 0x22]"

definition json_string :: "string \<Rightarrow> string" where
  "json_string s = json_quote (concat (map json_escape s))"

text \<open>\<open>encode\<close> of an \<open>Observation\<close>; the JSON encoder ends its output with a newline.\<close>

definition encode_v2 :: "Observation_v2 \<Rightarrow> bytes" where
  "encode_v2 obs =
     CHR ''{'' # json_quote ''1'' @ '':'' @ json_string (ob_BlockKey obs) @ '','' @
     json_quote ''2'' @ '':['' @
     strings_Join '','' (map (\<lambda>ident. json_quote (base64 ident)) (ob_UpkeepIdentifiers obs)) @
     '']}'' @ [CHR 0x0A]"

text \<open>The loop of \<open>limitedLengthEncode\<close>; a nil result is the empty one.\<close>

function encode_loop :: "Observation_v2 \<Rightarrow> nat \<Rightarrow> nat \<Rightarrow> bytes \<Rightarrow> bytes" where
  "encode_loop obs limit i res =
     (if i < length (ob_UpkeepIdentifiers obs)
      then let b = encode_v2 (obs\<lparr>ob_UpkeepIdentifiers := take (i + 1) (ob_UpkeepIdentifiers obs)\<rparr>)
           in if length b > limit then res else encode_loop obs limit (i + 1) b
      else res)"
  by pat_completeness auto
termination by (relation "measure (\<lambda>(obs, limit, i, res). length (ob_UpkeepIdentifiers obs) - i)") auto

declare encode_loop.simps [simp del]

definition limitedLengthEncode :: "Observation_v2 \<Rightarrow> nat \<Rightarrow> bytes" where
  "limitedLengthEncode obs limit =
     (if length (ob_UpkeepIdentifiers obs) = 0 then encode_v2 obs else encode_loop obs limit 0 [])"

section \<open>What the observations of a round give\<close>

definition valid_v2 :: "(bytes \<Rightarrow> Observation_v2 result) \<Rightarrow> bytes \<Rightarrow> bool" where
  "valid_v2 decode b \<longleftrightarrow> (case decode b of Inl _ \<Rightarrow> False | Inr u \<Rightarrow> Validate_v2 u = None)"

definition decoded_v2 :: "(bytes \<Rightarrow> Observation_v2 result) \<Rightarrow> bytes \<Rightarrow> Observation_v2" where
  "decoded_v2 decode b = projr (decode b)"

lemma validate_identifiers_None:
  "validate_identifiers uis = None \<longleftrightarrow> (\<forall>ui\<in>set uis. ValidateUpkeepIdentifier ui = Inr True)"
  by (induction uis) (auto split: sum.splits)

lemma Validate_v2_None:
  "Validate_v2 u = None \<longleftrightarrow>
     ValidateBlockKey (ob_BlockKey u) = Inr True \<and>
     (\<forall>ui\<in>set (ob_UpkeepIdentifiers u). ValidateUpkeepIdentifier ui = Inr True)"
  by (auto simp: Validate_v2_def validate_identifiers_None split: sum.splits)

lemma valid_v2_block:
  "valid_v2 decode b \<Longrightarrow> ob_BlockKey (decoded_v2 decode b) = block_of (block_num (ob_BlockKey (decoded_v2 decode b)))"
  by (auto simp: valid_v2_def decoded_v2_def Validate_v2_None split: sum.splits intro: valid_block_of)

lemma collect_observations_step:
  "collect_observations decode (b # attr) (e, bs, ids) =
     (let u = decoded_v2 decode b
      in collect_observations decode attr
        (if valid_v2 decode b
         then (e, bs @ [ob_BlockKey u],
               if ob_UpkeepIdentifiers u = [] then ids
               else ids @ [take ObservationUpkeepsLimit (ob_UpkeepIdentifiers u)])
         else (e + 1, bs, ids)))"
  by (cases "decode b") (auto simp: valid_v2_def decoded_v2_def)

lemma collect_observations_eq:
  "collect_observations decode attr (e, bs, ids) =
     (let us = map (decoded_v2 decode) (filter (valid_v2 decode) attr)
      in (e + length (filter (\<lambda>b. \<not> valid_v2 decode b) attr), bs @ map ob_BlockKey us,
          ids @ map (take ObservationUpkeepsLimit) (filter (\<lambda>l. l \<noteq> []) (map ob_UpkeepIdentifiers us))))"
  by (induction attr arbitrary: e bs ids)
    (simp_all add: collect_observations_step Let_def del: collect_observations.simps(2))

lemma ObservationsToUpkeepKeys_eq:
  "ObservationsToUpkeepKeys decode attr =
     (let us = map (decoded_v2 decode) (filter (valid_v2 decode) attr)
      in if us = [] then Inl (Wrapped ''cannot prepare sorted key list; observations not properly encoded''
                      ErrTooManyErrors_v2)
         else case GetMedian (map ob_BlockKey us) of
            Inl panic \<Rightarrow> Inl panic
          | Inr m \<Rightarrow> Inr (map (\<lambda>l. map (MakeUpkeepKey m) (take ObservationUpkeepsLimit l))
                        (filter (\<lambda>l. l \<noteq> []) (map ob_UpkeepIdentifiers us))))"
proof -
  have "length (filter (\<lambda>b. \<not> valid_v2 decode b) attr) = length attr \<longleftrightarrow> filter (valid_v2 decode) attr = []"
    by (metis (no_types, lifting) filter_empty_conv length_filter_all)
  then show ?thesis
    by (auto simp: ObservationsToUpkeepKeys_def collect_observations_eq Let_def
        createKeysWithMedianBlock_def o_def split: sum.split)
qed

definition passes :: "(UpkeepKey \<Rightarrow> bool \<times> go_error option) \<Rightarrow> UpkeepKey \<Rightarrow> bool" where
  "passes filt k \<longleftrightarrow> filt k = (False, None)"

lemma dedupe_loop_inv:
  "distinct out \<Longrightarrow> \<exists>out'. dedupe_loop filt vs (set out, out) = (set out', out') \<and> distinct out' \<and>
     set out' = set out \<union> {k \<in> set vs. passes filt k}"
proof (induction vs arbitrary: out)
  case (Cons v vs)
  let ?out = "if passes filt v \<and> v \<notin> set out then out @ [v] else out"
  have step: "dedupe_loop filt (v # vs) (set out, out) = dedupe_loop filt vs (set ?out, ?out)"
    by (cases "filt v") (auto simp: passes_def)
  from Cons have "distinct ?out" by simp
  from Cons.IH [OF this] obtain out' where "dedupe_loop filt vs (set ?out, ?out) = (set out', out')"
    "distinct out'" "set out' = set ?out \<union> {k \<in> set vs. passes filt k}" by blast
  then show ?case unfolding step by auto
qed auto

lemma filterAndDedupe_props:
  "distinct (filterAndDedupe filt inputs)"
  "set (filterAndDedupe filt inputs) = {k \<in> set (concat inputs). passes filt k}"
proof -
  have "distinct out \<Longrightarrow> \<exists>out'. fold (dedupe_loop filt) inputs (set out, out) = (set out', out') \<and>
      distinct out' \<and> set out' = set out \<union> {k \<in> set (concat inputs). passes filt k}" for out
  proof (induction inputs arbitrary: out)
    case (Cons vs inputs)
    from dedupe_loop_inv [OF Cons.prems, of filt vs] obtain out1
      where 1: "dedupe_loop filt vs (set out, out) = (set out1, out1)" "distinct out1"
        "set out1 = set out \<union> {k \<in> set vs. passes filt k}" by blast
    from Cons.IH [OF 1(2)] 1 show ?case by auto
  qed auto
  from this [of "[]"] show "distinct (filterAndDedupe filt inputs)"
    "set (filterAndDedupe filt inputs) = {k \<in> set (concat inputs). passes filt k}"
    by (auto simp: filterAndDedupe_def)
qed

lemma filterDedupeShuffle_props:
  "distinct (filterDedupeShuffleObservations draw src filt inputs)"
  "set (filterDedupeShuffleObservations draw src filt inputs) = {k \<in> set (concat inputs). passes filt k}"
  using distinct_map_Shuffle [of "\<lambda>k :: UpkeepKey. k"] filterAndDedupe_props [of filt inputs]
  by (simp_all add: filterDedupeShuffleObservations_def Let_def)

section \<open>Properties\<close>

definition block_at :: "(bytes \<Rightarrow> Observation_v2 result) \<Rightarrow> bytes \<Rightarrow> nat" where
  "block_at decode b = unat (block_num (ob_BlockKey (decoded_v2 decode b)))"

lemma block_at_bound: "block_at decode b < 2 ^ 64"
  using unsigned_less [of "block_num (ob_BlockKey (decoded_v2 decode b))", where 'a = nat]
  by (simp add: block_at_def)

lemma valid_v2_block_at:
  "valid_v2 decode b \<Longrightarrow> ob_BlockKey (decoded_v2 decode b) = format_d (block_at decode b)"
  using valid_v2_block by (simp add: block_at_def block_of_def)

lemma correct_majority_valid:
  assumes "\<forall>a\<in>set attr. \<not> faulty (fst a) \<longrightarrow> valid (snd a)"
    and "2 * length (filter (\<lambda>a. faulty (fst a)) attr) < length attr"
  shows "2 * length (filter (\<lambda>a. faulty (fst a)) (filter (\<lambda>a. valid (snd a)) attr)) <
    length (filter (\<lambda>a. valid (snd a)) attr)"
proof -
  let ?v = "filter (\<lambda>a. valid (snd a)) attr"
  have "filter (\<lambda>a. \<not> faulty (fst a)) ?v = filter (\<lambda>a. \<not> faulty (fst a)) attr"
    using assms(1) by (auto intro: filter_cong)
  moreover have "length (filter (\<lambda>a. faulty (fst a)) ?v) \<le> length (filter (\<lambda>a. faulty (fst a)) attr)"
    by (induction attr) auto
  ultimately show ?thesis
    using assms(2) sum_length_filter_compl [of "\<lambda>a. faulty (fst a)" attr]
      sum_length_filter_compl [of "\<lambda>a. faulty (fst a)" ?v] by simp
qed

text \<open>
  C12: The leader of version 2 builds its keys at a block correct nodes bound. When fewer than half of
  the observations come from faulty nodes and the correct ones are valid, building the keys
  succeeds, without the panic of the median; the block of all keys is not below the block of some
  correct node and not above that of another; every key is valid and carries an identifier
  that an observation named, and no observation contributes more than one.
\<close>

theorem v2_keys_at_honest_block:
  assumes "\<forall>a\<in>set attr. \<not> faulty (fst a) \<longrightarrow> valid_v2 decode (snd a)"
    and "2 * length (filter (\<lambda>a. faulty (fst a)) attr) < length attr"
  shows "\<exists>keys m a b. ObservationsToUpkeepKeys decode (map snd attr) = Inr keys
    \<and> a \<in> set attr \<and> \<not> faulty (fst a) \<and> block_at decode (snd a) \<le> m
    \<and> b \<in> set attr \<and> \<not> faulty (fst b) \<and> m \<le> block_at decode (snd b)
    \<and> length keys \<le> length attr
    \<and> (\<forall>ks\<in>set keys. length ks = 1 \<and> (\<forall>k\<in>set ks. ValidateUpkeepKey k = Inr True \<and>
        (\<exists>c\<in>set attr. \<exists>ident\<in>set (ob_UpkeepIdentifiers (decoded_v2 decode (snd c))).
          valid_v2 decode (snd c) \<and> k = MakeUpkeepKey (format_d m) ident)))"
proof -
  let ?v = "filter (\<lambda>a. valid_v2 decode (snd a)) attr"
  let ?obs = "map (\<lambda>a. (fst a, block_at decode (snd a))) ?v"
  let ?us = "map (decoded_v2 decode) (filter (valid_v2 decode) (map snd attr))"
  have us: "?us = map (\<lambda>a. decoded_v2 decode (snd a)) ?v" by (simp add: filter_map o_def)
  have bound: "\<forall>x\<in>set ?obs. snd x < 2 ^ 64"
    by (auto simp: block_at_bound simp del: power_numeral)
  have few: "2 * length (filter (\<lambda>x. faulty (fst x)) ?obs) < length ?obs"
    using correct_majority_valid [OF assms] by (simp add: filter_map o_def)
  obtain m a b where m: "GetMedian (map (\<lambda>x. format_d (snd x)) ?obs) = Inr (format_d m)" "m \<in> snd ` set ?obs"
      and a: "a \<in> set ?obs" "\<not> faulty (fst a)" "snd a \<le> m"
      and b: "b \<in> set ?obs" "\<not> faulty (fst b)" "m \<le> snd b"
    using median_between_honest [OF bound few] by blast
  have blocks: "map ob_BlockKey ?us = map (\<lambda>x. format_d (snd x)) ?obs"
    unfolding us by (auto simp: valid_v2_block_at)
  let ?keys = "map (\<lambda>l. map (MakeUpkeepKey (format_d m)) (take ObservationUpkeepsLimit l))
    (filter (\<lambda>l. l \<noteq> []) (map ob_UpkeepIdentifiers ?us))"
  have keys: "ObservationsToUpkeepKeys decode (map snd attr) = Inr ?keys"
  proof -
    have "0 < length ?obs" using few by linarith
    then have "?us \<noteq> []" unfolding us by auto
    moreover have "GetMedian (map ob_BlockKey ?us) = Inr (format_d m)" unfolding blocks by (rule m(1))
    ultimately show ?thesis unfolding ObservationsToUpkeepKeys_eq Let_def by (simp only: if_False sum.case)
  qed
  have "length (filter (\<lambda>l. l \<noteq> []) (map ob_UpkeepIdentifiers ?us)) \<le> length ?us"
    by (metis length_filter_le length_map)
  also have "\<dots> \<le> length attr" by (metis length_filter_le length_map)
  finally have len: "length ?keys \<le> length attr" by simp
  have "m < 2 ^ 64" using m(2) bound by auto
  then have vb: "ValidateBlockKey (format_d m) = Inr True" by (rule format_d_valid)
  have "length ks = 1 \<and> (\<forall>k\<in>set ks. ValidateUpkeepKey k = Inr True \<and>
      (\<exists>c\<in>set attr. \<exists>ident\<in>set (ob_UpkeepIdentifiers (decoded_v2 decode (snd c))).
        valid_v2 decode (snd c) \<and> k = MakeUpkeepKey (format_d m) ident))" if "ks \<in> set ?keys" for ks
  proof -
    from that obtain c ident rest where c: "c \<in> set attr" "valid_v2 decode (snd c)"
        "ob_UpkeepIdentifiers (decoded_v2 decode (snd c)) = ident # rest" "ks = [MakeUpkeepKey (format_d m) ident]"
      by (auto simp: us ObservationUpkeepsLimit_def neq_Nil_conv)
    then have "ValidateUpkeepIdentifier ident = Inr True"
      by (auto simp: valid_v2_def decoded_v2_def Validate_v2_None split: sum.splits)
    with c vb show ?thesis by (force simp: ValidateUpkeepKey_Make)
  qed
  moreover from a b obtain a' b' where "a' \<in> set attr" "\<not> faulty (fst a')" "block_at decode (snd a') \<le> m"
      "b' \<in> set attr" "\<not> faulty (fst b')" "m \<le> block_at decode (snd b')" by auto
  ultimately show ?thesis using keys len by blast
qed

text \<open>Two correct nodes and a faulty one, whose bytes do not decode\<close>

definition sample_decode :: "bytes \<Rightarrow> Observation_v2 result" where
  "sample_decode b =
     (if b = ''p'' then Inr \<lparr>ob_BlockKey = block_of 100, ob_UpkeepIdentifiers = [ident_of 7]\<rparr>
      else if b = ''q'' then Inr \<lparr>ob_BlockKey = block_of 104, ob_UpkeepIdentifiers = []\<rparr>
      else Inl (External ''bad''))"

theorem v2_keys_at_honest_block_witness:
  "\<exists>keys m. ObservationsToUpkeepKeys sample_decode [''p'', ''x'', ''q''] = Inr keys \<and> 100 \<le> m \<and> m \<le> (104 :: nat)"
proof -
  let ?attr = "[(0, ''p''), (1, ''x''), (2, ''q'')] :: (nat \<times> bytes) list"
  have 1: "\<forall>a\<in>set ?attr. fst a \<noteq> 1 \<longrightarrow> valid_v2 sample_decode (snd a)"
    by (simp add: valid_v2_def sample_decode_def Validate_v2_None)
  have 2: "2 * length (filter (\<lambda>a. fst a = 1) ?attr) < length ?attr" by simp
  have at: "block_at sample_decode ''p'' = 100" "block_at sample_decode ''q'' = 104"
    by (simp_all add: block_at_def decoded_v2_def sample_decode_def)
  obtain keys m a b where "ObservationsToUpkeepKeys sample_decode (map snd ?attr) = Inr keys"
      "a \<in> set ?attr" "fst a \<noteq> 1" "block_at sample_decode (snd a) \<le> m"
      "b \<in> set ?attr" "fst b \<noteq> 1" "m \<le> block_at sample_decode (snd b)"
    using v2_keys_at_honest_block [OF 1 2] by blast
  then show ?thesis using at by auto
qed

section \<open>The size of an observation\<close>

lemma length_format_d: "n < 10 ^ k \<Longrightarrow> 0 < k \<Longrightarrow> length (format_d n) \<le> k"
proof (induction n arbitrary: k rule: format_d.induct)
  case (1 n)
  show ?case
  proof (cases "n < 10")
    case True
    with 1 show ?thesis by (simp add: format_d.simps [of n])
  next
    case False
    with 1(2) obtain k' where k': "k = Suc k'" "0 < k'" by (cases k; cases "k - 1") auto
    with 1(2) have "n div 10 < 10 ^ k'" by (simp add: less_mult_imp_div_less mult.commute)
    with 1(1) [OF False this k'(2)] False k' show ?thesis by (simp add: format_d.simps [of n])
  qed
qed

lemma json_escape_digit: "digit_val c \<noteq> None \<Longrightarrow> json_escape c = [c]"
  by (auto simp: json_escape_def digit_val_def Let_def split: if_splits)

lemma json_string_format_d: "json_string (format_d n) = json_quote (format_d n)"
proof -
  have "map json_escape (format_d n) = map (\<lambda>c. [c]) (format_d n)"
    using digit_of_format_d by (auto intro: json_escape_digit)
  then have "concat (map json_escape (format_d n)) = concat (map (\<lambda>c. [c]) (format_d n))" by (rule arg_cong)
  then show ?thesis unfolding json_string_def by simp
qed

lemma length_base64: "length (base64 s) = 4 * ((length s + 2) div 3)"
proof (induction s rule: base64.induct)
  case (4 a b c cs)
  have "(5 + length cs) div 3 = Suc ((2 + length cs) div 3)" by (simp add: div_add_self1 [symmetric])
  with 4 show ?case by (simp add: Let_def)
qed (simp_all add: Let_def)

text \<open>
  An observation of version 2 always fits and is never empty: for a valid block and at most one
  valid identifier the encoded observation is the full one, of less than 150 bytes, so the limit
  of a thousand never cuts an identifier off.
\<close>

lemma v2_observation_fits:
  assumes "Validate_v2 obs = None" and "length (ob_UpkeepIdentifiers obs) \<le> ObservationUpkeepsLimit"
  shows "limitedLengthEncode obs MaxObservationLength_v2 = encode_v2 obs \<and>
    0 < length (encode_v2 obs) \<and> length (encode_v2 obs) < 150"
proof -
  from assms(1) obtain n where n: "n < 2 ^ 64" "ob_BlockKey obs = format_d n"
    by (auto simp: Validate_v2_None ValidateBlockKey_iff)
  have "n < 10 ^ 20" using n(1) by simp
  then have lb: "length (format_d n) \<le> 20" by (rule length_format_d) simp
  consider (none) "ob_UpkeepIdentifiers obs = []"
    | (one) i where "ob_UpkeepIdentifiers obs = [format_d i]" "i < 2 ^ 256"
    using assms
    by (cases "ob_UpkeepIdentifiers obs")
      (auto simp: ObservationUpkeepsLimit_def Validate_v2_None ValidateUpkeepIdentifier_iff)
  then show ?thesis
  proof cases
    case none
    with n lb show ?thesis
      by (simp add: limitedLengthEncode_def encode_v2_def json_string_format_d json_quote_def)
  next
    case one
    from one(2) have "i < 10 ^ 78" by simp
    then have li: "length (format_d i) \<le> 78" by (rule length_format_d) simp
    then have "length (base64 (format_d i)) \<le> 104" by (simp add: length_base64)
    with one n lb have len: "length (encode_v2 obs) < 150"
      by (simp add: encode_v2_def json_string_format_d json_quote_def)
    have same: "encode_v2 (obs\<lparr>ob_UpkeepIdentifiers := [format_d i]\<rparr>) = encode_v2 obs"
      using one(1) by (simp add: encode_v2_def)
    from len one(1) have "encode_loop obs 1000 0 [] = encode_v2 obs"
      by (subst encode_loop.simps, subst encode_loop.simps) (simp add: Let_def same)
    with len one(1) show ?thesis
      by (auto simp: limitedLengthEncode_def MaxObservationLength_v2_def encode_v2_def)
  qed
qed

lemma v2_observation_fits_witness:
  "limitedLengthEncode \<lparr>ob_BlockKey = block_of 100, ob_UpkeepIdentifiers = [ident_of 7]\<rparr> 1000 =
   encode_v2 \<lparr>ob_BlockKey = block_of 100, ob_UpkeepIdentifiers = [ident_of 7]\<rparr>"
  using v2_observation_fits [of "\<lparr>ob_BlockKey = block_of 100, ob_UpkeepIdentifiers = [ident_of 7]\<rparr>"]
  by (simp add: Validate_v2_None ObservationUpkeepsLimit_def MaxObservationLength_v2_def)

end
