(* ===== verification/V2_Runner.thy ===== *)
theory V2_Runner
  imports V2_Coordinator Runner
begin

text \<open>
  \<open>pkg/v2/runner\<close>: the parallel, caching check of version 2. It differs from the runner of version
  3 (theory \<open>Runner\<close>, whose accumulated result, batches and job loop it shares) in its cache: a
  result is stored under the upkeep key, which names the block, and every delivered result is
  stored. A result is opaque to the code (\<open>interface{}\<close>): the type variable \<open>'r\<close>. The registry and
  the encoder's \<open>Detail\<close>, which yields key, gas and error, are arguments.
\<close>

record 'r Runner_v2 =
  rv2_workers :: "(UpkeepKey list, 'r list) WorkerGroup"
  rv2_cache :: "'r Cache"
  rv2_cacheCleaner :: IntervalCacheCleaner
  rv2_workerBatchLimit :: nat
  rv2_running :: bool

type_synonym 'r detail = "'r \<Rightarrow> UpkeepKey \<times> 32 word \<times> go_error option"

definition NewRunner_v2 :: "nat \<Rightarrow> duration \<Rightarrow> duration \<Rightarrow> 'r Runner_v2" where
  "NewRunner_v2 workers cacheExpire cacheClean =
     \<lparr>rv2_workers = NewWorkerGroup workers, rv2_cache = NewCache cacheExpire,
      rv2_cacheCleaner = NewIntervalCacheCleaner cacheClean, rv2_workerBatchLimit = 10,
      rv2_running = False\<rparr>"

definition Runner_Start_v2 :: "'r Runner_v2 \<Rightarrow> 'r Runner_v2" where
  "Runner_Start_v2 o1 = (if \<not> rv2_running o1 then o1\<lparr>rv2_running := True\<rparr> else o1)"

definition Runner_Close_v2 :: "'r Runner_v2 \<Rightarrow> 'r Runner_v2" where
  "Runner_Close_v2 o1 =
     (if rv2_running o1
      then o1\<lparr>rv2_cacheCleaner := cleaner_Stop (rv2_cacheCleaner o1),
              rv2_workers := wg_Stop (rv2_workers o1), rv2_running := False\<rparr>
      else o1)"

text \<open>The worker function; the eligibility it looks up is only logged.\<close>

definition wrapWorkerFunc_v2 ::
    "(UpkeepKey list \<Rightarrow> 'r list result) \<Rightarrow> UpkeepKey list \<Rightarrow> 'r list result" where
  "wrapWorkerFunc_v2 registry keys =
     (case registry keys of
        Inl err \<Rightarrow> Inl (Wrapped (''failed to check upkeep keys: ['' @ strings_Join '' '' keys @ '']'') err)
      | Inr checkResults \<Rightarrow> Inr checkResults)"

definition aggregate_one ::
    "'r detail \<Rightarrow> time \<Rightarrow> 'r \<Rightarrow> 'r run_result \<times> 'r Runner_v2 \<Rightarrow> 'r run_result \<times> 'r Runner_v2" where
  "aggregate_one Detail now res s =
     (result_Add res (fst s),
      (snd s)\<lparr>rv2_cache := Cache_Set now (fst (Detail res)) res DefaultCacheExpiration (rv2_cache (snd s))\<rparr>)"

definition wrapAggregate_v2 ::
    "'r detail \<Rightarrow> time \<Rightarrow> 'r list result \<Rightarrow> 'r run_result \<times> 'r Runner_v2 \<Rightarrow>
     'r run_result \<times> 'r Runner_v2" where
  "wrapAggregate_v2 Detail now delivered s =
     (case delivered of
        Inr results \<Rightarrow> fold (aggregate_one Detail now) results (AddSuccesses 1 (fst s), snd s)
      | Inl err \<Rightarrow> (AddFailures 1 (SetErr err (fst s)), snd s))"

fun split_cached_v2 ::
    "time \<Rightarrow> 'r Cache \<Rightarrow> UpkeepKey list \<Rightarrow> 'r run_result \<Rightarrow> 'r run_result \<times> UpkeepKey list" where
  "split_cached_v2 now c [] result = (result, [])"
| "split_cached_v2 now c (key # keys) result =
     (case Cache_Get now key c of
        Some res \<Rightarrow> split_cached_v2 now c keys (result_Add res result)
      | None \<Rightarrow> (let rest = split_cached_v2 now c keys result in (fst rest, key # snd rest)))"

definition parallelCheck_v2 ::
    "'r detail \<Rightarrow> (UpkeepKey list \<Rightarrow> 'r list result) \<Rightarrow> nat list \<Rightarrow> time \<Rightarrow> UpkeepKey list \<Rightarrow> 'r Runner_v2 \<Rightarrow>
     'r run_result result \<times> 'r Runner_v2" where
  "parallelCheck_v2 Detail registry order now keys o1 =
     (if length keys = 0 then (Inr newResult, o1)
      else let split = split_cached_v2 now (rv2_cache o1) keys newResult; toRun = snd split
           in if length toRun = 0 then (Inr (fst split), o1)
              else case Unflatten toRun (rv2_workerBatchLimit o1) of
                None \<Rightarrow> (Inl Blocked, o1)
              | Some batches \<Rightarrow>
                  (let st = RunJobs order batches (wrapWorkerFunc_v2 registry)
                              (wrapAggregate_v2 Detail now) (fst split, o1);
                       result = fst st
                   in if Total result > 0 \<and> Total result = rr_failures result \<and> rr_err result \<noteq> None
                      then (Inl (ErrTooManyErrors (the (rr_err result))), snd st)
                      else (Inr result, snd st)))"

definition CheckUpkeep_v2 ::
    "'r detail \<Rightarrow> (UpkeepKey list \<Rightarrow> 'r list result) \<Rightarrow> nat list \<Rightarrow> time \<Rightarrow> UpkeepKey list \<Rightarrow> 'r Runner_v2 \<Rightarrow>
     'r list result \<times> 'r Runner_v2" where
  "CheckUpkeep_v2 Detail registry order now keys o1 =
     (let r = parallelCheck_v2 Detail registry order now keys o1
      in (case fst r of Inl err \<Rightarrow> Inl err | Inr result \<Rightarrow> Inr (rr_values result), snd r))"

section \<open>What a check returns\<close>

lemma split_cached_v2:
  "snd (split_cached_v2 now c ks res) = filter (\<lambda>k. Cache_Get now k c = None) ks"
  "rr_values (fst (split_cached_v2 now c ks res)) =
     rr_values res @ map (\<lambda>k. the (Cache_Get now k c)) (filter (\<lambda>k. Cache_Get now k c \<noteq> None) ks)"
  "rr_successes (fst (split_cached_v2 now c ks res)) = rr_successes res"
  "rr_failures (fst (split_cached_v2 now c ks res)) = rr_failures res"
  "rr_err (fst (split_cached_v2 now c ks res)) = rr_err res"
  by (induction ks arbitrary: res) (auto simp: result_Add_def Let_def split: option.splits)

text \<open>
  The cache invariant: what is stored under a key is a result of that key. Every delivered result
  keeps it, so the runner never answers for a key with the result of another.
\<close>

definition cache_keyed :: "'r detail \<Rightarrow> 'r Runner_v2 \<Rightarrow> bool" where
  "cache_keyed Detail o1 \<longleftrightarrow> (\<forall>k item. c_data (rv2_cache o1) k = Some item \<longrightarrow> fst (Detail (ci_Item item)) = k)"

lemma cache_keyed_New [simp]: "cache_keyed Detail (NewRunner_v2 w e cl)"
  by (simp add: cache_keyed_def NewRunner_v2_def NewCache_def)

lemma cache_keyed_get: "cache_keyed Detail o1 \<Longrightarrow> Cache_Get now k (rv2_cache o1) = Some r \<Longrightarrow> fst (Detail r) = k"
  by (auto simp: cache_keyed_def Cache_Get_def split: option.splits if_splits)

lemma aggregate_fold:
  "cache_keyed Detail (snd s) \<Longrightarrow>
     cache_keyed Detail (snd (fold (aggregate_one Detail now) rs s)) \<and>
     rr_values (fst (fold (aggregate_one Detail now) rs s)) = rr_values (fst s) @ rs"
proof (induction rs arbitrary: s)
  case (Cons r rs)
  have "cache_keyed Detail (snd (aggregate_one Detail now r s))"
    using Cons.prems by (simp add: aggregate_one_def cache_keyed_def Cache_Set_def Let_def)
  moreover have "rr_values (fst (aggregate_one Detail now r s)) = rr_values (fst s) @ [r]"
    by (simp add: aggregate_one_def result_Add_def)
  ultimately show ?case using Cons.IH [of "aggregate_one Detail now r s"] by simp
qed simp

lemma RunJobs_v2:
  assumes "\<forall>i\<in>set order. i < length jobs" "cache_keyed Detail (snd s)"
  shows "cache_keyed Detail (snd (RunJobs order jobs (wrapWorkerFunc_v2 reg) (wrapAggregate_v2 Detail now) s)) \<and>
    rr_values (fst (RunJobs order jobs (wrapWorkerFunc_v2 reg) (wrapAggregate_v2 Detail now) s)) =
      rr_values (fst s) @
      concat (map (\<lambda>i. case reg (jobs ! i) of Inl _ \<Rightarrow> [] | Inr rs \<Rightarrow> rs) order)"
  using assms
proof (induction order arbitrary: s)
  case (Cons i order)
  let ?s = "wrapAggregate_v2 Detail now (wrapWorkerFunc_v2 reg (jobs ! i)) s"
  have "cache_keyed Detail (snd ?s) \<and>
      rr_values (fst ?s) = rr_values (fst s) @ (case reg (jobs ! i) of Inl _ \<Rightarrow> [] | Inr rs \<Rightarrow> rs)"
    using aggregate_fold [of Detail "(AddSuccesses 1 (fst s), snd s)" now] Cons.prems(2)
    by (cases "reg (jobs ! i)")
      (auto simp: wrapAggregate_v2_def wrapWorkerFunc_v2_def AddSuccesses_def AddFailures_def SetErr_def)
  with Cons.IH [of ?s] Cons.prems(1) show ?case by (simp add: RunJobs_def)
qed (simp add: RunJobs_def)

definition uncached_v2 :: "time \<Rightarrow> 'r Runner_v2 \<Rightarrow> UpkeepKey list \<Rightarrow> UpkeepKey list" where
  "uncached_v2 now o1 keys = filter (\<lambda>k. Cache_Get now k (rv2_cache o1) = None) keys"

definition batches_v2 :: "time \<Rightarrow> 'r Runner_v2 \<Rightarrow> UpkeepKey list \<Rightarrow> UpkeepKey list list" where
  "batches_v2 now o1 keys = unflatten_from (rv2_workerBatchLimit o1) (uncached_v2 now o1 keys) 0"

lemma split_cached_v2_values:
  assumes "cache_keyed Detail o1"
  shows "map (fst \<circ> Detail) (rr_values (fst (split_cached_v2 now (rv2_cache o1) keys newResult))) =
    filter (\<lambda>k. Cache_Get now k (rv2_cache o1) \<noteq> None) keys"
proof -
  have "map (\<lambda>k. fst (Detail (the (Cache_Get now k (rv2_cache o1)))))
      (filter (\<lambda>k. Cache_Get now k (rv2_cache o1) \<noteq> None) keys) =
      map (\<lambda>k. k) (filter (\<lambda>k. Cache_Get now k (rv2_cache o1) \<noteq> None) keys)"
    using cache_keyed_get [OF assms] by (intro map_cong) auto
  then show ?thesis by (simp add: split_cached_v2 newResult_def o_def)
qed

text \<open>
  A check whose registry answers every key of a batch in order gives every key exactly one answer
  of its own, from the cache or from the registry, and keeps the cache keyed.
\<close>

lemma CheckUpkeep_v2_answers:
  assumes keyed: "cache_keyed Detail o1" and limit: "0 < rv2_workerBatchLimit o1"
    and order: "complete_order order (batches_v2 now o1 keys)"
    and reg: "\<And>ks. \<exists>rs. registry ks = Inr rs \<and> map (fst \<circ> Detail) rs = ks"
    and run: "CheckUpkeep_v2 Detail registry order now keys o1 = (Inr rs, o2)"
  shows "mset (map (fst \<circ> Detail) rs) = mset keys \<and> cache_keyed Detail o2"
proof (cases "uncached_v2 now o1 keys = []")
  case True
  then have "filter (\<lambda>k. Cache_Get now k (rv2_cache o1) \<noteq> None) keys = keys"
    by (auto simp: uncached_v2_def filter_empty_conv filter_id_conv)
  with True run keyed split_cached_v2_values [OF keyed, of now keys] show ?thesis
    by (auto simp: CheckUpkeep_v2_def parallelCheck_v2_def Let_def split_cached_v2(1) uncached_v2_def
        newResult_def simp del: mset_map split: if_splits)
next
  case False
  let ?split = "split_cached_v2 now (rv2_cache o1) keys newResult"
  let ?bs = "batches_v2 now o1 keys"
  let ?st = "RunJobs order ?bs (wrapWorkerFunc_v2 registry) (wrapAggregate_v2 Detail now) (fst ?split, o1)"
  have "keys \<noteq> []" using False by (auto simp: uncached_v2_def)
  with False limit run have out: "rs = rr_values (fst ?st)" "o2 = snd ?st"
    by (auto simp: CheckUpkeep_v2_def parallelCheck_v2_def Let_def split_cached_v2(1) Unflatten_def
        batches_v2_def uncached_v2_def split: if_splits)
  let ?got = "\<lambda>ks. case registry ks of Inl _ \<Rightarrow> [] | Inr rs \<Rightarrow> rs"
  have got: "map (fst \<circ> Detail) (?got ks) = ks" for ks
    using reg [of ks] by auto
  note jobs = RunJobs_v2 [OF complete_order_bound [OF order], of Detail "(fst ?split, o1)" registry now]
  have "mset (map (fst \<circ> Detail) (concat (map (\<lambda>i. ?got (?bs ! i)) order))) =
      image_mset (fst \<circ> Detail) (mset (concat (map ?got ?bs)))"
    using complete_order_image [OF order, of ?got] by simp
  also have "\<dots> = mset (concat (map (\<lambda>ks. map (fst \<circ> Detail) (?got ks)) ?bs))"
    by (simp add: map_concat o_def flip: mset_map)
  also have "\<dots> = mset (uncached_v2 now o1 keys)"
    using concat_unflatten_from [OF limit, of "uncached_v2 now o1 keys" 0] by (simp add: got batches_v2_def)
  finally have new: "mset (map (fst \<circ> Detail) (concat (map (\<lambda>i. ?got (?bs ! i)) order))) =
      mset (uncached_v2 now o1 keys)" .
  have "mset (map (fst \<circ> Detail) rs) =
      mset (filter (\<lambda>k. Cache_Get now k (rv2_cache o1) \<noteq> None) keys) + mset (uncached_v2 now o1 keys)"
    using jobs keyed out(1) new split_cached_v2_values [OF keyed, of now keys]
    by (simp del: mset_map)
  with jobs keyed out(2) show ?thesis by (simp add: uncached_v2_def)
qed

end
