(* ===== verification/V2_Observer.thy ===== *)
theory V2_Observer
  imports V2_Coordinator V2_Runner Go_Random Config
begin

text \<open>
  \<open>pkg/v2/observer/polling\<close>: the observer that samples the active upkeeps at every new head and
  stages the eligible ones. The upkeep provider's answer, the runner's check, the indices the
  shuffle draws and the encoder's \<open>Eligible\<close> and \<open>Detail\<close> are arguments; keys are made and split
  by \<open>BasicEncoder\<close>. The sampling ratio is a rational number, as in theory \<open>Config\<close>.
\<close>

section \<open>The stager\<close>

record stager =
  sg_currentIDs :: "UpkeepIdentifier2 list"
  sg_currentBlock :: BlockKey2
  sg_nextIDs :: "UpkeepIdentifier2 list"
  sg_nextBlock :: BlockKey2

definition new_stager :: stager where
  "new_stager = \<lparr>sg_currentIDs = [], sg_currentBlock = [], sg_nextIDs = [], sg_nextBlock = []\<rparr>"

definition prepareBlock :: "BlockKey2 \<Rightarrow> stager \<Rightarrow> stager" where
  "prepareBlock block s = s\<lparr>sg_nextBlock := block\<rparr>"

definition prepareIdentifier :: "UpkeepIdentifier2 \<Rightarrow> stager \<Rightarrow> stager" where
  "prepareIdentifier ident s = s\<lparr>sg_nextIDs := sg_nextIDs s @ [ident]\<rparr>"

definition advance :: "stager \<Rightarrow> stager" where
  "advance s = s\<lparr>sg_currentBlock := sg_nextBlock s, sg_currentIDs := sg_nextIDs s, sg_nextIDs := []\<rparr>"

definition stager_get :: "stager \<Rightarrow> BlockKey2 \<times> UpkeepIdentifier2 list" where
  "stager_get s = (sg_currentBlock s, sg_currentIDs s)"

section \<open>The ratio\<close>

text \<open>
  \<open>sampleFromProbability\<close> rounds the ratio to hundredths and converts it to \<open>float32\<close>; the complex
  power and the conversion are arguments.
\<close>

definition sampleFromProbability_v2 ::
    "(rat \<Rightarrow> rat) \<Rightarrow> (int \<Rightarrow> int \<Rightarrow> rat \<Rightarrow> rat) \<Rightarrow> int \<Rightarrow> int \<Rightarrow> rat \<Rightarrow> rat result" where
  "sampleFromProbability_v2 float32 cpow rounds nodes probability =
     (if rounds \<le> 0 then Inl (External ''number of rounds must be greater than 0'')
      else if nodes \<le> 0 then Inl (External ''number of nodes must be greater than 0'')
      else if probability > 1 \<or> probability \<le> 0
      then Inl (External ''probability must be less than 1 and greater than 0'')
      else let ratio = cpow rounds nodes probability
           in Inr (float32 (rat_of_int (math_Round (ratio / (1 / 100))) * (1 / 100))))"

definition sampleRatio_OfInt_v2 :: "rat \<Rightarrow> nat \<Rightarrow> int" where
  "sampleRatio_OfInt_v2 r cnt = math_Round (r * rat_of_nat cnt)"

section \<open>The observer\<close>

record PollingObserver =
  po_stager :: stager
  po_startOnce :: bool
  po_stopOnce :: bool

definition NewPollingObserver :: PollingObserver where
  "NewPollingObserver = \<lparr>po_stager = new_stager, po_startOnce = False, po_stopOnce = False\<rparr>"

text \<open>\<open>Observe\<close>: an identifier that is pending, or whose status fails to be read, is left out.\<close>

fun observe_loop :: "time \<Rightarrow> reportCoordinator \<Rightarrow> BlockKey2 \<Rightarrow> UpkeepIdentifier2 list \<Rightarrow> UpkeepIdentifier2 list" where
  "observe_loop now rc bl [] = []"
| "observe_loop now rc bl (ident # ids) =
     (let p = IsPending now (MakeUpkeepKey bl ident) rc
      in if fst p \<or> snd p \<noteq> None then observe_loop now rc bl ids
         else ident # observe_loop now rc bl ids)"

definition Observe ::
    "time \<Rightarrow> reportCoordinator \<Rightarrow> PollingObserver \<Rightarrow> (BlockKey2 \<times> UpkeepIdentifier2 list) result" where
  "Observe now rc ob =
     (let st = stager_get (po_stager ob) in Inr (fst st, observe_loop now rc (fst st) (snd st)))"

text \<open>A nil slice is \<^const>\<open>None\<close>; slicing past the end panics.\<close>

definition shuffleAndSliceKeysToRatio ::
    "(nat \<Rightarrow> nat \<Rightarrow> nat) \<Rightarrow> (nat \<Rightarrow> int) \<Rightarrow> UpkeepKey list \<Rightarrow> UpkeepKey list option result" where
  "shuffleAndSliceKeysToRatio draw OfInt keys =
     (let keys = Shuffle (draw (length keys)) keys; sz = OfInt (length keys)
      in if length keys = 0 \<or> sz \<le> 0 then Inr None
         else if sz > int (length keys) then Inl (Panic ''slice bounds out of range'')
         else Inr (Some (take (nat sz) keys)))"

text \<open>The loop over the results; when the key of a result does not split, an empty identifier is staged.\<close>

definition stage_result ::
    "('r \<Rightarrow> bool \<times> go_error option) \<Rightarrow> 'r detail \<Rightarrow> 'r \<Rightarrow> stager \<Rightarrow> stager" where
  "stage_result Eligible Detail res s =
     (if snd (Eligible res) \<noteq> None then s
      else if \<not> fst (Eligible res) then s
      else if snd (snd (Detail res)) \<noteq> None then s
      else case SplitUpkeepKey (fst (Detail res)) of
        Inl _ \<Rightarrow> prepareIdentifier [] s
      | Inr (_, ident) \<Rightarrow> prepareIdentifier ident s)"

definition processLatestHead ::
    "(nat \<Rightarrow> nat \<Rightarrow> nat) \<Rightarrow> (nat \<Rightarrow> int) \<Rightarrow> ('r \<Rightarrow> bool \<times> go_error option) \<Rightarrow> 'r detail \<Rightarrow>
     UpkeepIdentifier2 list result \<Rightarrow> (UpkeepKey list \<Rightarrow> 'r list result) \<Rightarrow> BlockKey2 \<Rightarrow>
     PollingObserver \<Rightarrow> PollingObserver result" where
  "processLatestHead draw OfInt Eligible Detail activeIDs check blockKey ob =
     (case activeIDs of
        Inl err \<Rightarrow> Inr ob
      | Inr ids \<Rightarrow>
          (case shuffleAndSliceKeysToRatio draw OfInt (map (MakeUpkeepKey blockKey) ids) of
             Inl panic \<Rightarrow> Inl panic
           | Inr None \<Rightarrow> Inr ob
           | Inr (Some keys) \<Rightarrow>
               (let s = prepareBlock blockKey (po_stager ob)
                in case check keys of
                     Inl err \<Rightarrow> Inr (ob\<lparr>po_stager := s\<rparr>)
                   | Inr results \<Rightarrow>
                       Inr (ob\<lparr>po_stager := advance (fold (stage_result Eligible Detail) results s)\<rparr>))))"

text \<open>\<open>Start\<close> and \<open>Close\<close> act once.\<close>

definition observer_Start :: "PollingObserver \<Rightarrow> PollingObserver" where
  "observer_Start ob = (if po_startOnce ob then ob else ob\<lparr>po_startOnce := True\<rparr>)"

definition observer_Close :: "PollingObserver \<Rightarrow> PollingObserver" where
  "observer_Close ob = (if po_stopOnce ob then ob else ob\<lparr>po_stopOnce := True\<rparr>)"

text \<open>
  \<open>runHeadTasks\<close> over the heads it receives. A panic of \<open>processLatestHead\<close> comes before it changes
  anything; the recoverable service then starts the loop again with the same observer.
\<close>

record 'r head =
  hd_block :: BlockKey2
  hd_activeIDs :: "UpkeepIdentifier2 list result"
  hd_check :: "UpkeepKey list \<Rightarrow> 'r list result"
  hd_draw :: "nat \<Rightarrow> nat \<Rightarrow> nat"

definition head_step ::
    "(nat \<Rightarrow> int) \<Rightarrow> ('r \<Rightarrow> bool \<times> go_error option) \<Rightarrow> 'r detail \<Rightarrow> 'r head \<Rightarrow> PollingObserver \<Rightarrow>
     PollingObserver" where
  "head_step OfInt Eligible Detail h ob =
     (case processLatestHead (hd_draw h) OfInt Eligible Detail (hd_activeIDs h) (hd_check h) (hd_block h) ob of
        Inl panic \<Rightarrow> ob
      | Inr ob' \<Rightarrow> ob')"

definition runHeadTasks ::
    "(nat \<Rightarrow> int) \<Rightarrow> ('r \<Rightarrow> bool \<times> go_error option) \<Rightarrow> 'r detail \<Rightarrow> 'r head list \<Rightarrow> PollingObserver \<Rightarrow>
     PollingObserver" where
  "runHeadTasks OfInt Eligible Detail heads ob = fold (head_step OfInt Eligible Detail) heads ob"

section \<open>What is staged\<close>

definition stageable :: "('r \<Rightarrow> bool \<times> go_error option) \<Rightarrow> 'r detail \<Rightarrow> 'r \<Rightarrow> bool" where
  "stageable Eligible Detail res \<longleftrightarrow> Eligible res = (True, None) \<and> snd (snd (Detail res)) = None"

definition staged_id :: "'r detail \<Rightarrow> 'r \<Rightarrow> UpkeepIdentifier2" where
  "staged_id Detail res = (case SplitUpkeepKey (fst (Detail res)) of Inl _ \<Rightarrow> [] | Inr p \<Rightarrow> snd p)"

lemma stage_results:
  "fold (stage_result Eligible Detail) results s =
     s\<lparr>sg_nextIDs := sg_nextIDs s @ map (staged_id Detail) (filter (stageable Eligible Detail) results)\<rparr>"
proof (induction results arbitrary: s)
  case (Cons r results)
  have "stage_result Eligible Detail r s =
      (if stageable Eligible Detail r then prepareIdentifier (staged_id Detail r) s else s)"
    by (cases "Eligible r") (auto simp: stage_result_def stageable_def staged_id_def split: sum.split prod.split)
  with Cons show ?case by (simp add: prepareIdentifier_def)
qed simp

text \<open>The staged identifiers are those one check found eligible at the staged block.\<close>

definition staged_from ::
    "('r \<Rightarrow> bool \<times> go_error option) \<Rightarrow> 'r detail \<Rightarrow> 'r head \<Rightarrow> BlockKey2 \<times> UpkeepIdentifier2 list \<Rightarrow> bool" where
  "staged_from Eligible Detail h st \<longleftrightarrow>
     (\<exists>ids keys results. hd_activeIDs h = Inr ids \<and> set keys \<subseteq> set (map (MakeUpkeepKey (hd_block h)) ids) \<and>
       hd_check h keys = Inr results \<and>
       st = (hd_block h, map (staged_id Detail) (filter (stageable Eligible Detail) results)))"

definition stager_inv ::
    "('r \<Rightarrow> bool \<times> go_error option) \<Rightarrow> 'r detail \<Rightarrow> 'r head set \<Rightarrow> stager \<Rightarrow> bool" where
  "stager_inv Eligible Detail H s \<longleftrightarrow>
     sg_nextIDs s = [] \<and>
     (stager_get s = ([], []) \<or> (\<exists>h\<in>H. staged_from Eligible Detail h (stager_get s)))"

lemma sliced_keys:
  "shuffleAndSliceKeysToRatio draw OfInt ks = Inr (Some keys) \<Longrightarrow> set keys \<subseteq> set ks"
  by (auto simp: shuffleAndSliceKeysToRatio_def Let_def split: if_splits dest: in_set_takeD)

lemma head_step_inv:
  assumes "stager_inv Eligible Detail H (po_stager ob)"
  shows "stager_inv Eligible Detail (insert h H) (po_stager (head_step OfInt Eligible Detail h ob))"
proof (cases "hd_activeIDs h")
  case (Inl err)
  with assms show ?thesis by (auto simp: head_step_def processLatestHead_def stager_inv_def)
next
  case (Inr ids)
  show ?thesis
  proof (cases "shuffleAndSliceKeysToRatio (hd_draw h) OfInt (map (MakeUpkeepKey (hd_block h)) ids)")
    case (Inl panic)
    with Inr assms show ?thesis by (auto simp: head_step_def processLatestHead_def stager_inv_def)
  next
    case sliced: (Inr sliced)
    show ?thesis
    proof (cases sliced)
      case None
      with Inr sliced assms show ?thesis by (auto simp: head_step_def processLatestHead_def stager_inv_def)
    next
      case (Some keys)
      with sliced sliced_keys have sub: "set keys \<subseteq> set (map (MakeUpkeepKey (hd_block h)) ids)" by blast
      show ?thesis
      proof (cases "hd_check h keys")
        case (Inl err)
        with Inr sliced Some assms show ?thesis
          by (auto simp: head_step_def processLatestHead_def stager_inv_def prepareBlock_def stager_get_def)
      next
        case check: (Inr results)
        let ?st = "(hd_block h, map (staged_id Detail) (filter (stageable Eligible Detail) results))"
        from Inr sub check have "staged_from Eligible Detail h ?st" unfolding staged_from_def by blast
        with Inr sliced Some check assms show ?thesis
          by (simp add: head_step_def processLatestHead_def stager_inv_def stage_results prepareBlock_def
              advance_def stager_get_def)
      qed
    qed
  qed
qed

lemma runHeadTasks_inv:
  "stager_inv Eligible Detail H (po_stager ob) \<Longrightarrow>
     stager_inv Eligible Detail (H \<union> set heads) (po_stager (runHeadTasks OfInt Eligible Detail heads ob))"
proof (induction heads arbitrary: H ob)
  case (Cons h heads)
  from Cons.IH [OF head_step_inv [OF Cons.prems]] show ?case by (simp add: runHeadTasks_def)
qed (simp add: runHeadTasks_def)

lemma observe_loop_eq:
  "observe_loop now rc bl ids = filter (\<lambda>i. IsPending now (MakeUpkeepKey bl i) rc = (False, None)) ids"
  by (induction ids) (auto simp: Let_def prod_eq_iff)

section \<open>Properties\<close>

text \<open>What the heads and the registry behind the check are relied on for\<close>

definition head_ok :: "'r detail \<Rightarrow> 'r head \<Rightarrow> bool" where
  "head_ok Detail h \<longleftrightarrow>
     ValidateBlockKey (hd_block h) = Inr True \<and>
     (\<forall>ids. hd_activeIDs h = Inr ids \<longrightarrow> (\<forall>i\<in>set ids. ValidateUpkeepIdentifier i = Inr True)) \<and>
     (\<forall>keys results. hd_check h keys = Inr results \<longrightarrow> (\<forall>r\<in>set results. fst (Detail r) \<in> set keys))"

text \<open>
  C13: What a node of version 2 observes was found eligible at the block it is observed with. Whatever
  heads came in, with failing or panicking rounds among them: every identifier that \<open>Observe\<close>
  returns was active at one head, the check at that head's block returned an eligible result
  under the very key of block and identifier, and that key is not pending.
\<close>

theorem v2_observed_is_eligible:
  assumes "\<forall>h\<in>set heads. head_ok Detail h"
    and "Observe now rc (runHeadTasks OfInt Eligible Detail heads NewPollingObserver) = Inr (bl, ids)"
    and "ident \<in> set ids"
  shows "\<exists>h\<in>set heads. \<exists>active keys results r. bl = hd_block h \<and> hd_activeIDs h = Inr active \<and>
    ident \<in> set active \<and> hd_check h keys = Inr results \<and> r \<in> set results \<and> Eligible r = (True, None) \<and>
    fst (Detail r) = MakeUpkeepKey bl ident \<and> IsPending now (MakeUpkeepKey bl ident) rc = (False, None)"
proof -
  let ?s = "po_stager (runHeadTasks OfInt Eligible Detail heads NewPollingObserver)"
  have "stager_inv Eligible Detail {} (po_stager NewPollingObserver)"
    by (simp add: stager_inv_def NewPollingObserver_def new_stager_def stager_get_def)
  from runHeadTasks_inv [OF this, of heads OfInt]
  have inv: "stager_inv Eligible Detail (set heads) ?s" by simp
  from assms(2,3) have obs: "bl = fst (stager_get ?s)" "ident \<in> set (snd (stager_get ?s))"
      "IsPending now (MakeUpkeepKey bl ident) rc = (False, None)"
    by (auto simp: Observe_def observe_loop_eq Let_def)
  with inv obtain h where h: "h \<in> set heads" "staged_from Eligible Detail h (stager_get ?s)"
    by (auto simp: stager_inv_def)
  then obtain active keys results where act: "hd_activeIDs h = Inr active"
      "set keys \<subseteq> set (map (MakeUpkeepKey (hd_block h)) active)" "hd_check h keys = Inr results"
      "stager_get ?s = (hd_block h, map (staged_id Detail) (filter (stageable Eligible Detail) results))"
    unfolding staged_from_def by blast
  with obs(2) obtain r where r: "r \<in> set results" "stageable Eligible Detail r" "ident = staged_id Detail r"
    by auto
  from assms(1) h(1) act r(1) have "fst (Detail r) \<in> set (map (MakeUpkeepKey (hd_block h)) active)"
    by (auto simp: head_ok_def)
  then obtain i where i: "i \<in> set active" "fst (Detail r) = MakeUpkeepKey (hd_block h) i" by auto
  with assms(1) h(1) act(1) have "SplitUpkeepKey (fst (Detail r)) = Inr (hd_block h, i)"
    by (auto simp: head_ok_def SplitUpkeepKey_valid)
  with r(3) have "ident = i" by (simp add: staged_id_def)
  moreover have "bl = hd_block h" using obs(1) act(4) by simp
  ultimately show ?thesis
    using act(1,3) h(1) r(1,2) i obs(3) unfolding stageable_def by blast
qed

text \<open>A head at block 100 with one active upkeep, which the registry finds eligible\<close>

definition sample_head :: "UpkeepKey head" where
  "sample_head =
     \<lparr>hd_block = block_of 100, hd_activeIDs = Inr [ident_of 7], hd_check = (\<lambda>keys. Inr keys),
      hd_draw = (\<lambda>n i. 0)\<rparr>"

theorem v2_observed_is_eligible_witness:
  "Observe 1 (NewReportCoordinator 0 0 1)
       (runHeadTasks int (\<lambda>_. (True, None)) (\<lambda>k. (k, 0, None)) [sample_head] NewPollingObserver) =
     Inr (block_of 100, [ident_of 7])
   \<and> IsPending 1 (MakeUpkeepKey (block_of 100) (ident_of 7)) (NewReportCoordinator 0 0 1) = (False, None)"
proof -
  let ?ob = "runHeadTasks int (\<lambda>_. (True, None)) (\<lambda>k. (k, 0, None)) [sample_head] NewPollingObserver"
  have key: "MakeUpkeepKey (block_of 100) (ident_of 7) = key_of (100, 7)" by (simp add: key_of_def)
  have pend: "IsPending 1 (key_of (100, 7)) (NewReportCoordinator 0 0 1) = (False, None)"
    by (simp add: IsPending_def NewReportCoordinator_def Let_def)
  have obs: "Observe 1 (NewReportCoordinator 0 0 1) ?ob = Inr (block_of 100, [ident_of 7])"
    by (simp add: runHeadTasks_def head_step_def processLatestHead_def sample_head_def Let_def Observe_def
        shuffleAndSliceKeysToRatio_def Shuffle_def NewPollingObserver_def new_stager_def prepareBlock_def
        stage_result_def key prepareIdentifier_def advance_def stager_get_def pend)
  have "\<forall>h\<in>set [sample_head]. head_ok (\<lambda>k. (k, 0, None)) h"
    by (simp add: head_ok_def sample_head_def)
  from v2_observed_is_eligible [OF this obs, of "ident_of 7"] obs show ?thesis by auto
qed

end
