(* ===== verification/V2_Config.thy ===== *)
theory V2_Config
  imports Automation_Types
begin

text \<open>
  \<open>pkg/v2/config/config.go\<close>: the off-chain configuration of version 2. Each validator replaces a
  value that was left out or is out of range; none returns an error. Decoding JSON is an argument.
\<close>

record OffchainConfig_v2 =
  oc2_Version :: string
  oc2_PerformLockoutWindow :: int
  oc2_TargetProbability :: string
  oc2_TargetInRounds :: int
  oc2_SamplingJobDuration :: int
  oc2_MinConfirmations :: int
  oc2_GasLimitPerReport :: "32 word"
  oc2_GasOverheadPerUpkeep :: "32 word"
  oc2_MaxUpkeepBatchSize :: int
  oc2_ReportBlockLag :: int
  oc2_MercuryLookup :: bool

type_synonym validator = "OffchainConfig_v2 \<Rightarrow> OffchainConfig_v2 result"

definition validatePerformLockoutWindow :: validator where
  "validatePerformLockoutWindow conf =
     Inr (if oc2_PerformLockoutWindow conf \<le> 0
          then conf\<lparr>oc2_PerformLockoutWindow := 20 * 60 * 1000\<rparr> else conf)"

definition validateTargetProbability :: validator where
  "validateTargetProbability conf =
     Inr (if length (oc2_TargetProbability conf) = 0
          then conf\<lparr>oc2_TargetProbability := ''0.99999''\<rparr> else conf)"

definition validateTargetInRounds :: validator where
  "validateTargetInRounds conf =
     Inr (if oc2_TargetInRounds conf \<le> 0 then conf\<lparr>oc2_TargetInRounds := 1\<rparr> else conf)"

definition validateSamplingJobDuration :: validator where
  "validateSamplingJobDuration conf =
     Inr (if oc2_SamplingJobDuration conf \<le> 0 then conf\<lparr>oc2_SamplingJobDuration := 3000\<rparr> else conf)"

definition validateMinConfirmations :: validator where
  "validateMinConfirmations conf =
     Inr (if oc2_MinConfirmations conf \<le> 0 then conf\<lparr>oc2_MinConfirmations := 0\<rparr> else conf)"

definition validateGasLimitPerReport :: validator where
  "validateGasLimitPerReport conf =
     Inr (if oc2_GasLimitPerReport conf = 0 then conf\<lparr>oc2_GasLimitPerReport := 5300000\<rparr> else conf)"

definition validateGasOverheadPerUpkeep :: validator where
  "validateGasOverheadPerUpkeep conf =
     Inr (if oc2_GasOverheadPerUpkeep conf = 0 then conf\<lparr>oc2_GasOverheadPerUpkeep := 300000\<rparr> else conf)"

definition validateMaxUpkeepBatchSize :: validator where
  "validateMaxUpkeepBatchSize conf =
     Inr (if oc2_MaxUpkeepBatchSize conf \<le> 0 then conf\<lparr>oc2_MaxUpkeepBatchSize := 1\<rparr> else conf)"

definition validateReportBlockLag :: validator where
  "validateReportBlockLag conf =
     Inr (if oc2_ReportBlockLag conf < 0 then conf\<lparr>oc2_ReportBlockLag := 0\<rparr> else conf)"

definition validators :: "validator list" where
  "validators =
     [validatePerformLockoutWindow, validateTargetProbability, validateTargetInRounds,
      validateSamplingJobDuration, validateMinConfirmations, validateGasLimitPerReport,
      validateGasOverheadPerUpkeep, validateMaxUpkeepBatchSize, validateReportBlockLag]"

fun run_validators :: "validator list \<Rightarrow> OffchainConfig_v2 \<Rightarrow> OffchainConfig_v2 result" where
  "run_validators [] config = Inr config"
| "run_validators (v # vs) config =
     (case v config of Inl err \<Rightarrow> Inl err | Inr config' \<Rightarrow> run_validators vs config')"

definition DecodeOffchainConfig_v2 ::
    "(bytes \<Rightarrow> OffchainConfig_v2 result) \<Rightarrow> bytes \<Rightarrow> OffchainConfig_v2 result" where
  "DecodeOffchainConfig_v2 unmarshal b =
     (case unmarshal b of Inl err \<Rightarrow> Inl err | Inr config \<Rightarrow> run_validators validators config)"

lemmas validator_defs = validatePerformLockoutWindow_def validateTargetProbability_def
  validateTargetInRounds_def validateSamplingJobDuration_def validateMinConfirmations_def
  validateGasLimitPerReport_def validateGasOverheadPerUpkeep_def validateMaxUpkeepBatchSize_def
  validateReportBlockLag_def

definition usable_v2 :: "OffchainConfig_v2 \<Rightarrow> bool" where
  "usable_v2 c \<longleftrightarrow> 0 < oc2_PerformLockoutWindow c \<and> oc2_TargetProbability c \<noteq> [] \<and>
     0 < oc2_TargetInRounds c \<and> 0 < oc2_SamplingJobDuration c \<and> 0 \<le> oc2_MinConfirmations c \<and>
     oc2_GasLimitPerReport c \<noteq> 0 \<and> oc2_GasOverheadPerUpkeep c \<noteq> 0 \<and>
     1 \<le> oc2_MaxUpkeepBatchSize c \<and> 0 \<le> oc2_ReportBlockLag c"

text \<open>Validation never fails, gives a usable configuration and leaves a usable one as it is.\<close>

lemma run_validators_usable: "\<exists>c'. run_validators validators c = Inr c' \<and> usable_v2 c'"
  by (simp add: validators_def validator_defs usable_v2_def)

lemma run_validators_id: "usable_v2 c \<Longrightarrow> run_validators validators c = Inr c"
  by (simp add: validators_def validator_defs usable_v2_def not_le not_less)

lemma DecodeOffchainConfig_v2_usable:
  "DecodeOffchainConfig_v2 unmarshal b = Inr c \<Longrightarrow> usable_v2 c"
proof -
  assume "DecodeOffchainConfig_v2 unmarshal b = Inr c"
  then obtain c0 where "run_validators validators c0 = Inr c"
    by (auto simp: DecodeOffchainConfig_v2_def split: sum.splits)
  with run_validators_usable [of c0] show ?thesis by auto
qed

end
