(* ===== verification/V2_Plugin.thy ===== *)
theory V2_Plugin
  imports V2_Observation V2_Observer V2_Config "HOL-Library.Sublist"
begin

text \<open>
  \<open>pkg/v2/ocr.go\<close>, \<open>crypto.go\<close> and \<open>factory.go\<close>: the OCR2 plugin of version 2, which ties observer,
  coordinator and runner together. The encoder's functions that the host chain provides
  (\<open>Eligible\<close>, \<open>Detail\<close>, \<open>EncodeReport\<close>, \<open>KeysFromReport\<close>) form a record of arguments; so do Keccak
  and the indices drawn by \<open>math/rand\<close>. Gas is 32 bits wide and wraps around. Log contexts and counts
  that the error messages end with are left out.
\<close>

record 'r encoder_v2 =
  ec_Eligible :: "'r \<Rightarrow> bool \<times> go_error option"
  ec_Detail :: "'r detail"
  ec_EncodeReport :: "'r list \<Rightarrow> bytes result"
  ec_KeysFromReport :: "bytes \<Rightarrow> UpkeepKey list result"

record ocrPlugin =
  op_coordinator :: reportCoordinator
  op_condObserver :: PollingObserver
  op_conf :: OffchainConfig_v2

record ReportTimestamp =
  rt_ConfigDigest :: bytes
  rt_Epoch :: "32 word"
  rt_Round :: "8 word"

definition getRandomKeySource_v2 :: "(bytes \<Rightarrow> bytes) \<Rightarrow> ReportTimestamp \<Rightarrow> key16" where
  "getRandomKeySource_v2 keccak256 rt =
     (let h = keccak256 (rt_ConfigDigest rt @ PutUint64 (ucast (rt_Epoch rt)) @ PutUint64 (ucast (rt_Round rt)))
      in take 16 h @ replicate (16 - length h) (char_of (0 :: nat)))"

definition ErrNotEnoughInputs :: go_error where
  "ErrNotEnoughInputs = External ''not enough inputs''"

definition Query_v2 :: bytes where "Query_v2 = []"

definition Observation_of ::
    "rand_draw \<Rightarrow> key16 \<Rightarrow> time \<Rightarrow> ocrPlugin \<Rightarrow> bytes result" where
  "Observation_of draw src now p =
     (case Observe now (op_coordinator p) (op_condObserver p) of
        Inl err \<Rightarrow> Inl (Wrapped ''failed to sample upkeeps for observation'' err)
      | Inr (block, ids) \<Rightarrow>
          (let allIDs = shuffleObservations draw ids src;
               allIDs = (if length allIDs > ObservationUpkeepsLimit
                         then take ObservationUpkeepsLimit allIDs else allIDs)
           in Inr (limitedLengthEncode \<lparr>ob_BlockKey = block, ob_UpkeepIdentifiers = allIDs\<rparr>
                     MaxObservationLength_v2)))"

text \<open>The loop that builds the report, with the gas used so far and the results taken so far\<close>

fun report_loop ::
    "'r encoder_v2 \<Rightarrow> OffchainConfig_v2 \<Rightarrow> 'r list \<Rightarrow> 32 word \<Rightarrow> 'r list \<Rightarrow> 'r list" where
  "report_loop ec conf [] totalReportGas toPerform = toPerform"
| "report_loop ec conf (r # results) totalReportGas toPerform =
     (if snd (ec_Eligible ec r) \<noteq> None \<and> fst (ec_Eligible ec r)
      then report_loop ec conf results totalReportGas toPerform
      else if snd (snd (ec_Detail ec r)) \<noteq> None
      then report_loop ec conf results totalReportGas toPerform
      else let upkeepMaxGas = fst (snd (ec_Detail ec r)) + oc2_GasOverheadPerUpkeep conf
           in if totalReportGas + upkeepMaxGas > oc2_GasLimitPerReport conf
              then report_loop ec conf results totalReportGas toPerform
              else if int (length (toPerform @ [r])) \<ge> oc2_MaxUpkeepBatchSize conf
              then toPerform @ [r]
              else report_loop ec conf results (totalReportGas + upkeepMaxGas) (toPerform @ [r]))"

text \<open>
  \<open>Report\<close>; \<open>check\<close> is the runner's answer. The result is whether there is a report, and its bytes.
\<close>

definition keys_to_check ::
    "(bytes \<Rightarrow> Observation_v2 result) \<Rightarrow> rand_draw \<Rightarrow> key16 \<Rightarrow> time \<Rightarrow> bytes list \<Rightarrow> ocrPlugin \<Rightarrow>
     UpkeepKey list result" where
  "keys_to_check decode draw src now attributed p =
     (if length attributed = 0
      then Inl (Wrapped ''must provide at least 1 observation'' ErrNotEnoughInputs)
      else case ObservationsToUpkeepKeys decode attributed of
        Inl err \<Rightarrow> Inl (Wrapped ''failed to build upkeep keys from the given observations'' err)
      | Inr keys \<Rightarrow>
          (let keysToCheck = filterDedupeShuffleObservations draw src
                               (\<lambda>k. IsPending now k (op_coordinator p)) keys
           in Inr (if length keysToCheck > ReportKeysLimit then take ReportKeysLimit keysToCheck
                   else keysToCheck)))"

definition Report ::
    "'r encoder_v2 \<Rightarrow> (bytes \<Rightarrow> Observation_v2 result) \<Rightarrow> rand_draw \<Rightarrow> key16 \<Rightarrow>
     (UpkeepKey list \<Rightarrow> 'r list result) \<Rightarrow> time \<Rightarrow> bytes list \<Rightarrow> ocrPlugin \<Rightarrow> (bool \<times> bytes) result" where
  "Report ec decode draw src check now attributed p =
     (case keys_to_check decode draw src now attributed p of
        Inl err \<Rightarrow> Inl err
      | Inr keysToCheck \<Rightarrow>
          if length keysToCheck = 0 then Inr (False, [])
          else case check keysToCheck of
            Inl err \<Rightarrow> Inl (Wrapped ''failed to check upkeeps from attributed observation'' err)
          | Inr checkedUpkeeps \<Rightarrow>
              if length checkedUpkeeps = 0 then Inr (False, [])
              else if length checkedUpkeeps > length keysToCheck
              then Inl (External ''unexpected number of upkeeps returned'')
              else let toPerform = report_loop ec (op_conf p) checkedUpkeeps 0 []
                   in if length toPerform = 0 then Inr (False, [])
                      else case ec_EncodeReport ec toPerform of
                        Inl err \<Rightarrow> Inl (Wrapped ''failed to encode OCR report'' err)
                      | Inr b \<Rightarrow> Inr (True, b))"

fun accept_keys :: "time \<Rightarrow> UpkeepKey list \<Rightarrow> reportCoordinator \<Rightarrow> go_error option \<times> reportCoordinator" where
  "accept_keys now [] rc = (None, rc)"
| "accept_keys now (key # keys) rc =
     (case Accept_v2 now key rc of
        (Some err, rc') \<Rightarrow> (Some (Wrapped ''failed to accept key'' err), rc')
      | (None, rc') \<Rightarrow> accept_keys now keys rc')"

definition ShouldAcceptFinalizedReport ::
    "'r encoder_v2 \<Rightarrow> time \<Rightarrow> bytes \<Rightarrow> ocrPlugin \<Rightarrow> bool result \<times> ocrPlugin" where
  "ShouldAcceptFinalizedReport ec now r p =
     (if length r = 0 then (Inr False, p)
      else case ec_KeysFromReport ec r of
        Inl err \<Rightarrow> (Inl (Wrapped ''failed to decode report'' err), p)
      | Inr keys \<Rightarrow>
          if length keys = 0 then (Inl (External ''no ids in report''), p)
          else case accept_keys now keys (op_coordinator p) of
            (Some err, rc) \<Rightarrow> (Inl err, p\<lparr>op_coordinator := rc\<rparr>)
          | (None, rc) \<Rightarrow> (Inr True, p\<lparr>op_coordinator := rc\<rparr>))"

fun transmit_keys :: "time \<Rightarrow> UpkeepKey list \<Rightarrow> reportCoordinator \<Rightarrow> bool" where
  "transmit_keys now [] rc = False"
| "transmit_keys now (key # keys) rc =
     (if \<not> IsTransmissionConfirmed now key rc then True else transmit_keys now keys rc)"

definition ShouldTransmitAcceptedReport_v2 ::
    "'r encoder_v2 \<Rightarrow> time \<Rightarrow> bytes \<Rightarrow> ocrPlugin \<Rightarrow> bool result" where
  "ShouldTransmitAcceptedReport_v2 ec now r p =
     (case ec_KeysFromReport ec r of
        Inl err \<Rightarrow> Inl (Wrapped ''failed to get ids from report'' err)
      | Inr keys \<Rightarrow>
          if length keys = 0 then Inl (External ''no ids in report'')
          else Inr (transmit_keys now keys (op_coordinator p)))"

text \<open>\<open>Close\<close> closes every sub-process and joins the errors.\<close>

definition plugin_Close_v2 :: "go_error option list \<Rightarrow> go_error option" where
  "plugin_Close_v2 closeErrs =
     fold (\<lambda>err finalErr. case err of None \<Rightarrow> finalErr | Some e \<Rightarrow>
       (case finalErr of None \<Rightarrow> Some e | Some f \<Rightarrow> Some (Joined f e))) closeErrs None"

text \<open>
  \<open>NewReportingPlugin\<close>, with the observer factory of the polling observer: \<open>parseFloat\<close> reads the
  configured probability.
\<close>

definition NewConditionalObserver ::
    "(string \<Rightarrow> rat result) \<Rightarrow> (rat \<Rightarrow> rat) \<Rightarrow> (int \<Rightarrow> int \<Rightarrow> rat \<Rightarrow> rat) \<Rightarrow> OffchainConfig_v2 \<Rightarrow> int \<Rightarrow> int \<Rightarrow>
     (rat \<times> PollingObserver) result" where
  "NewConditionalObserver parseFloat float32 cpow oc n f =
     (case parseFloat (oc2_TargetProbability oc) of
        Inl err \<Rightarrow> Inl (Wrapped ''failed to parse configured probability'' err)
      | Inr p \<Rightarrow>
          (case sampleFromProbability_v2 float32 cpow (oc2_TargetInRounds oc) (n - f) (float32 p) of
             Inl err \<Rightarrow> Inl (Wrapped ''failed to create plugin'' err)
           | Inr sample \<Rightarrow> Inr (sample, NewPollingObserver)))"

definition NewReportingPlugin_v2 ::
    "(bytes \<Rightarrow> OffchainConfig_v2 result) \<Rightarrow> (string \<Rightarrow> rat result) \<Rightarrow> (rat \<Rightarrow> rat) \<Rightarrow> (int \<Rightarrow> int \<Rightarrow> rat \<Rightarrow> rat) \<Rightarrow>
     duration \<Rightarrow> bytes \<Rightarrow> int \<Rightarrow> int \<Rightarrow> (rat \<times> ocrPlugin) result" where
  "NewReportingPlugin_v2 unmarshal parseFloat float32 cpow cacheClean offchainConfig n f =
     (case DecodeOffchainConfig_v2 unmarshal offchainConfig of
        Inl err \<Rightarrow> Inl (Wrapped ''failed to decode off chain config'' err)
      | Inr offChainCfg \<Rightarrow>
          (let coordinator = NewCoordinator_v2 cacheClean (oc2_PerformLockoutWindow offChainCfg)
                               (oc2_MinConfirmations offChainCfg)
           in case NewConditionalObserver parseFloat float32 cpow offChainCfg n f of
                Inl err \<Rightarrow> Inl err
              | Inr (ratio, condObserver) \<Rightarrow>
                  Inr (ratio, \<lparr>op_coordinator = Start_v2 coordinator,
                               op_condObserver = observer_Start condObserver, op_conf = offChainCfg\<rparr>)))"

section \<open>The loop that builds a report\<close>

lemma if_longer_take: "(if n < length xs then take n xs else xs) = take n xs"
  by simp

definition gas_of_v2 :: "'r encoder_v2 \<Rightarrow> OffchainConfig_v2 \<Rightarrow> 'r \<Rightarrow> nat" where
  "gas_of_v2 ec conf r = unat (fst (snd (ec_Detail ec r))) + unat (oc2_GasOverheadPerUpkeep conf)"

text \<open>No addition of the loop wraps when a result needs less than what is left above the limit.\<close>

definition gas_fits :: "'r encoder_v2 \<Rightarrow> OffchainConfig_v2 \<Rightarrow> 'r \<Rightarrow> bool" where
  "gas_fits ec conf r \<longleftrightarrow> gas_of_v2 ec conf r + unat (oc2_GasLimitPerReport conf) < 2 ^ 32"

lemma unat_plus_exact: "unat a + unat b < 2 ^ LENGTH('a) \<Longrightarrow> unat (a + b) = unat a + unat b"
  for a b :: "'a :: len word"
  by (simp add: unat_word_ariths(1))

lemma report_loop_gas:
  assumes "\<forall>r\<in>set results. gas_fits ec conf r"
    and "unat used = sum_list (map (gas_of_v2 ec conf) acc)"
    and "unat used \<le> unat (oc2_GasLimitPerReport conf)"
  shows "sum_list (map (gas_of_v2 ec conf) (report_loop ec conf results used acc)) \<le>
    unat (oc2_GasLimitPerReport conf)"
  using assms
proof (induction results arbitrary: used acc)
  case (Cons r results)
  let ?gas = "fst (snd (ec_Detail ec r)) + oc2_GasOverheadPerUpkeep conf"
  have fits: "unat (fst (snd (ec_Detail ec r))) + unat (oc2_GasOverheadPerUpkeep conf) +
      unat (oc2_GasLimitPerReport conf) < 2 ^ 32"
    using Cons.prems(1) by (simp add: gas_fits_def gas_of_v2_def)
  then have gas: "unat ?gas = gas_of_v2 ec conf r"
    unfolding gas_of_v2_def by (intro unat_plus_exact) simp
  have used: "unat (used + ?gas) = unat used + gas_of_v2 ec conf r"
    using fits Cons.prems(3) gas by (subst unat_plus_exact) (simp_all add: gas_of_v2_def)
  show ?case
  proof (cases "oc2_GasLimitPerReport conf < used + ?gas")
    case True
    with Cons show ?thesis by (simp add: Let_def)
  next
    case False
    then have le: "unat (used + ?gas) \<le> unat (oc2_GasLimitPerReport conf)"
      by (simp add: word_le_nat_alt not_less)
    have sum: "unat (used + ?gas) = sum_list (map (gas_of_v2 ec conf) (acc @ [r]))"
      using used Cons.prems(2) by simp
    from Cons.IH [OF _ sum le] Cons.IH [OF _ Cons.prems(2,3)] Cons.prems(1) le sum False show ?thesis
      by (simp add: Let_def)
  qed
qed simp

lemma report_loop_subseq:
  "\<exists>chosen. report_loop ec conf results used acc = acc @ chosen \<and> subseq chosen results"
proof (induction results arbitrary: used acc)
  case (Cons r results)
  let ?gas = "fst (snd (ec_Detail ec r)) + oc2_GasOverheadPerUpkeep conf"
  from Cons.IH [of used acc] obtain skip where
    "report_loop ec conf results used acc = acc @ skip" "subseq skip results" by blast
  moreover from Cons.IH [of "used + ?gas" "acc @ [r]"] obtain rest where
    "report_loop ec conf results (used + ?gas) (acc @ [r]) = acc @ r # rest" "subseq rest results" by auto
  ultimately show ?case by (auto simp: Let_def)
qed simp

lemma report_loop_length:
  "int (length acc) < oc2_MaxUpkeepBatchSize conf \<Longrightarrow>
     int (length (report_loop ec conf results used acc)) \<le> oc2_MaxUpkeepBatchSize conf"
proof (induction results arbitrary: used acc)
  case (Cons r results)
  then show ?case by (auto simp: Let_def)
qed simp

lemma report_loop_eligible_irrelevant:
  assumes "\<forall>r. snd (ec_Eligible ec r) = None"
  shows "report_loop (ec\<lparr>ec_Eligible := \<lambda>r. (verdict r, None)\<rparr>) conf results used acc =
    report_loop ec conf results used acc"
  using assms by (induction results arbitrary: used acc) (simp_all add: Let_def)

section \<open>Accepting and transmitting\<close>

lemma activeKeys_updateIdBlock [simp]: "rc_activeKeys (updateIdBlock now i b rc) = rc_activeKeys rc"
  by (simp add: updateIdBlock_def Let_def split: option.split sum.split)

lemma activeKeys_Accept:
  "Accept_v2 now key rc = (None, rc') \<Longrightarrow>
     Cache_Get now k (rc_activeKeys rc') =
       (if k = key \<and> Cache_Get now k (rc_activeKeys rc) = None then Some False
        else Cache_Get now k (rc_activeKeys rc))"
  by (cases "k = key")
    (auto simp: Accept_v2_def set_activeKey_def util_cache.get_set_now util_cache.get_set_other
      split: sum.splits option.splits)

lemma activeKeys_accept_keys:
  "accept_keys now keys rc = (None, rc') \<Longrightarrow>
     Cache_Get now k (rc_activeKeys rc') =
       (if k \<in> set keys \<and> Cache_Get now k (rc_activeKeys rc) = None then Some False
        else Cache_Get now k (rc_activeKeys rc))"
proof (induction keys arbitrary: rc)
  case (Cons key keys)
  from Cons.prems obtain rc1 where rc1: "Accept_v2 now key rc = (None, rc1)" "accept_keys now keys rc1 = (None, rc')"
    by (auto split: prod.splits option.splits)
  from Cons.IH [OF rc1(2)] activeKeys_Accept [OF rc1(1), of k] show ?case by auto
qed simp

lemma transmit_keys_iff:
  "transmit_keys now keys rc \<longleftrightarrow> (\<exists>k\<in>set keys. Cache_Get now k (rc_activeKeys rc) = Some False)"
  by (induction keys) (auto simp: IsTransmissionConfirmed_def split: option.splits)

text \<open>
  A report that is accepted while one of its keys was not known yet is transmitted: the key is active
  and unconfirmed. Only keys that a log confirmed, or that expired, hold a report back.
\<close>

lemma accepted_report_is_transmitted_v2:
  assumes "ShouldAcceptFinalizedReport ec now r p = (Inr True, p')"
    and "ec_KeysFromReport ec r = Inr keys" "k \<in> set keys"
    and "Cache_Get now k (rc_activeKeys (op_coordinator p)) = None"
  shows "ShouldTransmitAcceptedReport_v2 ec now r p' = Inr True"
proof -
  from assms(1,2) obtain rc where rc: "accept_keys now keys (op_coordinator p) = (None, rc)"
      "p' = p\<lparr>op_coordinator := rc\<rparr>"
    by (auto simp: ShouldAcceptFinalizedReport_def split: if_splits prod.splits option.splits)
  from activeKeys_accept_keys [OF rc(1), of k] assms(3,4)
  have "Cache_Get now k (rc_activeKeys rc) = Some False" by simp
  with assms(2,3) rc(2) show ?thesis
    by (auto simp: ShouldTransmitAcceptedReport_v2_def transmit_keys_iff)
qed

section \<open>Properties\<close>

text \<open>
  C30: A report of version 2 keeps its limits. The keys that are checked were built from the
  observations, are distinct and not pending; the report encodes some of the results the check
  returned for them, each at most once and in their order; it holds at most ten results, whatever
  the runner returns and the batch size is, and at most as many as the batch size; and when the
  gas of a result does not bring the 32-bit sums to wrap, the gas of the report, overheads
  included, is within the limit.
\<close>

theorem v2_report_within_limits:
  assumes "Report ec decode draw src check now attributed p = Inr (True, b)"
    and "usable_v2 (op_conf p)"
  shows "\<exists>observed keys results toPerform. ObservationsToUpkeepKeys decode attributed = Inr observed
    \<and> set keys \<subseteq> set (concat observed) \<and> distinct keys
    \<and> (\<forall>k\<in>set keys. IsPending now k (op_coordinator p) = (False, None))
    \<and> check keys = Inr results \<and> subseq toPerform results \<and> toPerform \<noteq> []
    \<and> ec_EncodeReport ec toPerform = Inr b \<and> length toPerform \<le> 10
    \<and> int (length toPerform) \<le> oc2_MaxUpkeepBatchSize (op_conf p)
    \<and> ((\<forall>r\<in>set results. gas_fits ec (op_conf p) r) \<longrightarrow>
        (\<Sum>r\<leftarrow>toPerform. gas_of_v2 ec (op_conf p) r) \<le> unat (oc2_GasLimitPerReport (op_conf p)))"
proof -
  from assms(1) obtain keys results where keys: "keys_to_check decode draw src now attributed p = Inr keys"
    and res: "check keys = Inr results" "length results \<le> length keys"
    and enc: "ec_EncodeReport ec (report_loop ec (op_conf p) results 0 []) = Inr b"
      "report_loop ec (op_conf p) results 0 [] \<noteq> []"
    by (auto simp: Report_def Let_def not_less split: sum.splits if_splits)
  let ?perform = "report_loop ec (op_conf p) results 0 []"
  from keys obtain ks where obs: "ObservationsToUpkeepKeys decode attributed = Inr ks" and ks: "keys =
      take ReportKeysLimit (filterDedupeShuffleObservations draw src (\<lambda>k. IsPending now k (op_coordinator p)) ks)"
    by (auto simp: keys_to_check_def Let_def if_longer_take split: sum.splits if_split_asm)
  have "distinct keys" "length keys \<le> 10"
    unfolding ks by (simp_all add: filterDedupeShuffle_props ReportKeysLimit_def)
  moreover have "set keys \<subseteq> set (concat ks)" "\<forall>k\<in>set keys. IsPending now k (op_coordinator p) = (False, None)"
    unfolding ks by (auto simp: filterDedupeShuffle_props passes_def dest!: in_set_takeD)
  moreover have sub: "subseq ?perform results"
    using report_loop_subseq [of ec "op_conf p" results 0 "[]"] by auto
  moreover have "length ?perform \<le> length results" by (rule list_emb_length [OF sub])
  moreover have "int (length ?perform) \<le> oc2_MaxUpkeepBatchSize (op_conf p)"
    using assms(2) by (intro report_loop_length) (simp add: usable_v2_def)
  moreover note report_loop_gas [of results ec "op_conf p" 0 "[]"]
  ultimately show ?thesis using obs res enc
    by (intro exI [of _ ks] exI [of _ keys] exI [of _ results] exI [of _ ?perform]) auto
qed

text \<open>
  C35: The verdict of \<open>Eligible\<close> has no influence on a report of version 2. The loop skips a result only
  when \<open>Eligible\<close> returns an error and true together, so with an encoder that does not fail the
  report is the same whatever it says of the results: ineligible ones are reported.
\<close>

theorem v2_report_ignores_eligibility:
  assumes "\<forall>r. snd (ec_Eligible ec r) = None"
  shows "Report (ec\<lparr>ec_Eligible := \<lambda>r. (verdict r, None)\<rparr>) decode draw src check now attributed p =
    Report ec decode draw src check now attributed p"
  using report_loop_eligible_irrelevant [OF assms, of verdict]
  by (simp add: Report_def Let_def cong: sum.case_cong if_cong)

definition sample_encoder :: "UpkeepKey encoder_v2" where
  "sample_encoder =
     \<lparr>ec_Eligible = (\<lambda>k. (False, None)), ec_Detail = (\<lambda>k. (k, 500000, None)),
      ec_EncodeReport = (\<lambda>ks. Inr (concat ks)), ec_KeysFromReport = (\<lambda>b. Inr [b])\<rparr>"

definition sample_conf :: OffchainConfig_v2 where
  "sample_conf =
     \<lparr>oc2_Version = [], oc2_PerformLockoutWindow = 1, oc2_TargetProbability = ''0.9'',
      oc2_TargetInRounds = 1, oc2_SamplingJobDuration = 1, oc2_MinConfirmations = 0,
      oc2_GasLimitPerReport = 5300000, oc2_GasOverheadPerUpkeep = 300000,
      oc2_MaxUpkeepBatchSize = 1, oc2_ReportBlockLag = 0, oc2_MercuryLookup = False\<rparr>"

definition sample_plugin_v2 :: ocrPlugin where
  "sample_plugin_v2 =
     \<lparr>op_coordinator = NewReportCoordinator 0 0 1, op_condObserver = NewPollingObserver,
      op_conf = sample_conf\<rparr>"

lemma sample_conf_usable [simp]: "usable_v2 sample_conf"
  by (simp add: usable_v2_def sample_conf_def)

text \<open>One observation, one key; the encoder finds it ineligible and it is reported all the same.\<close>

lemma sample_report:
  "Report sample_encoder sample_decode (\<lambda>_ _ _. 0) [] Inr 1 [''p''] sample_plugin_v2 = Inr (True, key_of (100, 7))"
proof -
  have med: "GetMedian [block_of 100] = Inr (block_of 100)"
    by (simp add: GetMedian_def block_of_def big_String_def)
  have keys: "ObservationsToUpkeepKeys sample_decode [''p''] = Inr [[key_of (100, 7)]]"
    by (simp add: ObservationsToUpkeepKeys_eq valid_v2_def decoded_v2_def sample_decode_def Validate_v2_None
        med ObservationUpkeepsLimit_def key_of_def)
  have pend: "IsPending 1 (key_of (100, 7)) (NewReportCoordinator 0 0 1) = (False, None)"
    by (simp add: IsPending_def NewReportCoordinator_def Let_def)
  have "keys_to_check sample_decode (\<lambda>_ _ _. 0) [] 1 [''p''] sample_plugin_v2 = Inr [key_of (100, 7)]"
    by (simp add: keys_to_check_def keys filterDedupeShuffleObservations_def filterAndDedupe_def Let_def
        sample_plugin_v2_def pend Shuffle_def ReportKeysLimit_def)
  then show ?thesis
    by (simp add: Report_def sample_encoder_def sample_plugin_v2_def sample_conf_def)
qed

theorem v2_report_within_limits_witness:
  "\<exists>toPerform. ec_EncodeReport sample_encoder toPerform = Inr (key_of (100, 7)) \<and> length toPerform \<le> 1"
  using v2_report_within_limits [OF sample_report] by (auto simp: sample_plugin_v2_def)
    (auto simp: sample_conf_def)

theorem v2_report_ignores_eligibility_witness:
  "Report (sample_encoder\<lparr>ec_Eligible := \<lambda>r. (True, None)\<rparr>) sample_decode (\<lambda>_ _ _. 0) [] Inr 1 [''p'']
     sample_plugin_v2 = Inr (True, key_of (100, 7))"
  using v2_report_ignores_eligibility [of sample_encoder "\<lambda>_. True"] sample_report
  by (simp add: sample_encoder_def)

text \<open>
  The sums of gas wrap: a result that asks for almost all of the 32 bits passes the check against
  the limit, because gas and overhead together wrap to a small number.
\<close>

lemma report_gas_wraps:
  "report_loop (sample_encoder\<lparr>ec_Detail := \<lambda>k. (k, 4294967295, None)\<rparr>) sample_conf [k] 0 [] = [k] \<and>
   unat (oc2_GasLimitPerReport sample_conf) <
     gas_of_v2 (sample_encoder\<lparr>ec_Detail := \<lambda>k. (k, 4294967295, None)\<rparr>) sample_conf k"
  by (simp add: sample_encoder_def sample_conf_def gas_of_v2_def)

end
