(* ===== verification/V2_Service.thy ===== *)
theory V2_Service
  imports Automation_Types
begin

text \<open>
  \<open>internal/util/recoverable.go\<close>: the wrapper that keeps the polling observer of version 2 running.
  Goroutines: the watcher (\<open>serviceStart\<close>), the runs of the service (\<open>run\<close>) and the callers of
  \<open>Start\<close> and \<open>Stop\<close>. Unlike the wrapper of version 3 (theory \<open>Recoverer\<close>) it has no error results
  and ends its watcher by closing a channel, so every \<open>Start\<close> launches another watcher and a second
  close panics. The record counts starts, panics and returns of the service for the statements.
\<close>

datatype service_signal = ServiceStopped | DoReturned "go_error option"

record RecoverableService =
  rs_running :: bool
  rs_stopped :: "service_signal option"
  rs_stopCh :: bool
  rs_watching :: nat
  rs_cooling :: nat
  rs_active :: nat
  rs_sending :: "service_signal list"
  rs_starts :: nat
  rs_panics :: nat
  rs_returns :: nat

definition NewRecoverableService :: RecoverableService where
  "NewRecoverableService =
     \<lparr>rs_running = False, rs_stopped = None, rs_stopCh = False, rs_watching = 0, rs_cooling = 0,
      rs_active = 0, rs_sending = [], rs_starts = 0, rs_panics = 0, rs_returns = 0\<rparr>"

definition rs_run :: "RecoverableService \<Rightarrow> RecoverableService" where
  "rs_run m = m\<lparr>rs_active := rs_active m + 1, rs_starts := rs_starts m + 1\<rparr>"

definition rs_Start :: "RecoverableService \<Rightarrow> RecoverableService" where
  "rs_Start m =
     (if rs_running m then m
      else (rs_run (m\<lparr>rs_watching := rs_watching m + 1\<rparr>))\<lparr>rs_running := True\<rparr>)"

text \<open>\<open>Stop\<close>; what the service's own \<open>Stop\<close> does to the service shows in when its runs return.\<close>

definition rs_Stop :: "RecoverableService \<Rightarrow> RecoverableService result" where
  "rs_Stop m =
     (if \<not> rs_running m then Inr m
      else if rs_stopCh m then Inl (Panic ''close of closed channel'')
      else Inr (m\<lparr>rs_stopCh := True, rs_running := False\<rparr>))"

text \<open>A run ends, normally or with a panic; its goroutine then waits to send its signal.\<close>

definition do_returns :: "go_error option \<Rightarrow> RecoverableService \<Rightarrow> RecoverableService option" where
  "do_returns err m =
     (if rs_active m = 0 then None
      else Some (m\<lparr>rs_active := rs_active m - 1, rs_returns := rs_returns m + 1,
                   rs_sending := rs_sending m @ [DoReturned err]\<rparr>))"

definition do_panics :: "RecoverableService \<Rightarrow> RecoverableService option" where
  "do_panics m =
     (if rs_active m = 0 then None
      else Some (m\<lparr>rs_active := rs_active m - 1, rs_panics := rs_panics m + 1,
                   rs_sending := rs_sending m @ [ServiceStopped]\<rparr>))"

definition rs_send :: "RecoverableService \<Rightarrow> RecoverableService option" where
  "rs_send m =
     (case rs_sending m of
        [] \<Rightarrow> None
      | s # ss \<Rightarrow> if rs_stopped m = None then Some (m\<lparr>rs_stopped := Some s, rs_sending := ss\<rparr>) else None)"

text \<open>A watcher in its \<open>select\<close> takes a signal or sees the closed channel; a cooled one runs the service.\<close>

definition watcher_takes :: "RecoverableService \<Rightarrow> RecoverableService option" where
  "watcher_takes m =
     (if rs_watching m = 0 then None
      else case rs_stopped m of
        None \<Rightarrow> None
      | Some ServiceStopped \<Rightarrow>
          Some (m\<lparr>rs_stopped := None, rs_watching := rs_watching m - 1, rs_cooling := rs_cooling m + 1\<rparr>)
      | Some (DoReturned err) \<Rightarrow> Some (m\<lparr>rs_stopped := None\<rparr>))"

definition watcher_cooled :: "RecoverableService \<Rightarrow> RecoverableService option" where
  "watcher_cooled m =
     (if rs_cooling m = 0 then None
      else Some (rs_run (m\<lparr>rs_cooling := rs_cooling m - 1, rs_watching := rs_watching m + 1\<rparr>)))"

definition watcher_leaves :: "RecoverableService \<Rightarrow> RecoverableService option" where
  "watcher_leaves m =
     (if rs_watching m = 0 \<or> \<not> rs_stopCh m then None else Some (m\<lparr>rs_watching := rs_watching m - 1\<rparr>))"

section \<open>Steps\<close>

inductive rs_step :: "RecoverableService \<Rightarrow> RecoverableService \<Rightarrow> bool" where
  returns: "do_returns err m = Some m' \<Longrightarrow> rs_step m m'"
| panics: "do_panics m = Some m' \<Longrightarrow> rs_step m m'"
| sends: "rs_send m = Some m' \<Longrightarrow> rs_step m m'"
| takes: "watcher_takes m = Some m' \<Longrightarrow> rs_step m m'"
| cooled: "watcher_cooled m = Some m' \<Longrightarrow> rs_step m m'"
| leaves: "watcher_leaves m = Some m' \<Longrightarrow> rs_step m m'"
| stops: "rs_Stop m = Inr m' \<Longrightarrow> rs_step m m'"
| starts_again: "rs_running m \<Longrightarrow> rs_Start m = m' \<Longrightarrow> rs_step m m'"

abbreviation rs_reachable :: "RecoverableService \<Rightarrow> bool" where
  "rs_reachable m \<equiv> rs_step\<^sup>*\<^sup>* (rs_Start NewRecoverableService) m"

lemmas rs_defs = do_returns_def do_panics_def rs_send_def watcher_takes_def watcher_cooled_def
  watcher_leaves_def rs_Stop_def rs_Start_def rs_run_def

definition unsent :: "RecoverableService \<Rightarrow> service_signal list" where
  "unsent m = rs_sending m @ (case rs_stopped m of None \<Rightarrow> [] | Some s \<Rightarrow> [s])"

definition unseen_panics :: "RecoverableService \<Rightarrow> nat" where
  "unseen_panics m = count_list (unsent m) ServiceStopped"

text \<open>
  The service has one token: a run, its normal end, a panic on its way to the watcher, or a watcher
  that is about to restart it.
\<close>

definition rs_inv :: "RecoverableService \<Rightarrow> bool" where
  "rs_inv m \<longleftrightarrow>
     rs_active m + rs_returns m + unseen_panics m + rs_cooling m = 1 \<and>
     rs_starts m = rs_active m + rs_panics m + rs_returns m \<and>
     rs_watching m + rs_cooling m \<le> 1 \<and>
     (rs_running m \<longleftrightarrow> \<not> rs_stopCh m) \<and>
     (rs_running m \<longrightarrow> rs_watching m + rs_cooling m = 1)"

lemma rs_inv_start: "rs_inv (rs_Start NewRecoverableService)"
  by (simp add: rs_inv_def rs_Start_def NewRecoverableService_def rs_run_def unseen_panics_def unsent_def)

lemma rs_inv_step: "rs_step m m' \<Longrightarrow> rs_inv m \<Longrightarrow> rs_inv m'"
proof (induction rule: rs_step.induct)
  case (takes m m')
  then show ?case
    by (auto simp: rs_inv_def watcher_takes_def unseen_panics_def unsent_def
        split: if_splits option.splits service_signal.splits)
next
  case (sends m m')
  then show ?case
    by (auto simp: rs_inv_def rs_send_def unseen_panics_def unsent_def split: if_splits list.splits)
qed (auto simp: rs_inv_def rs_defs unseen_panics_def unsent_def split: if_splits)

lemma rs_inv_reachable: "rs_reachable m \<Longrightarrow> rs_inv m"
  by (induction rule: rtranclp_induct) (auto intro: rs_inv_start rs_inv_step)

text \<open>One instance at a time, and no start without a panic before it\<close>

lemma rs_single_instance: "rs_reachable m \<Longrightarrow> rs_active m \<le> 1 \<and> rs_starts m \<le> rs_panics m + 1"
  using rs_inv_reachable [of m] by (auto simp: rs_inv_def)

text \<open>While it is not stopped it comes to rest only when every panic was answered by a restart.\<close>

definition rs_at_rest :: "RecoverableService \<Rightarrow> bool" where
  "rs_at_rest m \<longleftrightarrow> rs_send m = None \<and> watcher_takes m = None \<and> watcher_cooled m = None"

lemma rs_restarts_after_panic:
  assumes "rs_reachable m" "rs_running m" "rs_at_rest m"
  shows "rs_starts m = rs_panics m + 1 \<and> rs_active m + rs_returns m = 1"
proof -
  have inv: "rs_inv m" using assms(1) by (rule rs_inv_reachable)
  then have "unsent m = []" "rs_cooling m = 0"
    using assms(2,3)
    by (auto simp: rs_inv_def rs_at_rest_def rs_defs unsent_def
        split: option.splits list.splits if_splits service_signal.splits)
  with inv show ?thesis by (simp add: rs_inv_def unseen_panics_def)
qed

text \<open>
  Two ways in which stopping goes wrong. A stop during the cool-down does not prevent the restart:
  the service runs although the wrapper was stopped. And a wrapper that is stopped and started again
  runs a second instance beside one that has not returned yet, and panics at the next stop.
\<close>

lemma stop_during_cooldown_restarts:
  "\<exists>m. rs_reachable m \<and> \<not> rs_running m \<and> rs_active m = 1 \<and> rs_starts m = 2"
proof -
  let ?m0 = "rs_Start NewRecoverableService"
  obtain m1 where 1: "do_panics ?m0 = Some m1" by (simp add: rs_defs NewRecoverableService_def)
  obtain m2 where 2: "rs_send m1 = Some m2" using 1 by (auto simp: rs_defs NewRecoverableService_def)
  obtain m3 where 3: "watcher_takes m2 = Some m3" using 1 2 by (auto simp: rs_defs NewRecoverableService_def)
  obtain m4 where 4: "rs_Stop m3 = Inr m4" using 1 2 3 by (auto simp: rs_defs NewRecoverableService_def)
  obtain m5 where 5: "watcher_cooled m4 = Some m5" using 1 2 3 4 by (auto simp: rs_defs NewRecoverableService_def)
  have "rs_reachable m5"
    using panics [OF 1] sends [OF 2] takes [OF 3] stops [OF 4] cooled [OF 5]
    by (meson rtranclp.rtrancl_into_rtrancl rtranclp.rtrancl_refl)
  moreover have "\<not> rs_running m5 \<and> rs_active m5 = 1 \<and> rs_starts m5 = 2"
    using 1 2 3 4 5 by (auto simp: rs_defs NewRecoverableService_def)
  ultimately show ?thesis by blast
qed

lemma restart_doubles_service:
  assumes "rs_Stop (rs_Start NewRecoverableService) = Inr m"
  shows "rs_active (rs_Start m) = 2 \<and> rs_Stop (rs_Start m) = Inl (Panic ''close of closed channel'')"
  using assms by (auto simp: rs_defs NewRecoverableService_def)

end
