(* ===== verification/Sim_Util.thy ===== *)
theory Sim_Util
  imports Automation_Types Go_Format
begin

text \<open>
  \<open>tools/simulator/util\<close>: the identifiers and work ids of the simulated upkeeps (\<open>encode.go\<close>) and the
  map with sorted keys that the simulated chain and the report tracker keep their blocks in
  (\<open>sort.go\<close>). SHA-256, Keccak, the JSON codec and \<open>LogTriggerExtension.LogIdentifier\<close> are
  arguments. A \<open>*big.Int\<close> is an \<^typ>\<open>int\<close>; the pointers of a simulation plan are present.
\<close>

unbundle bit_operations_syntax

section \<open>\<open>big.Int\<close>\<close>

text \<open>\<open>Uint64\<close> and \<open>Int64\<close> take the low 64 bits of the magnitude; \<open>Int64\<close> restores the sign.\<close>

definition bigInt_Uint64 :: "int \<Rightarrow> 64 word" where
  "bigInt_Uint64 z = word_of_int \<bar>z\<bar>"

definition bigInt_Int64 :: "int \<Rightarrow> int" where
  "bigInt_Int64 z = int64 z"

lemma big_String_inj: "big_String a = big_String b \<longleftrightarrow> a = b"
  by (metis big_SetString_String option.inject)

lemma Uint64_nonneg [simp]: "0 \<le> z \<Longrightarrow> z < 2 ^ 64 \<Longrightarrow> uint (bigInt_Uint64 z) = z"
  by (simp add: bigInt_Uint64_def unsigned_of_int take_bit_int_eq_self)

section \<open>Identifiers\<close>

text \<open>Byte \<open>i\<close> of a \<open>[32]byte\<close>, reading and writing\<close>

definition byte_at :: "256 word \<Rightarrow> nat \<Rightarrow> 8 word" where
  "byte_at u i = ucast (drop_bit (8 * (31 - i)) u)"

definition set_byte :: "nat \<Rightarrow> 8 word \<Rightarrow> 256 word \<Rightarrow> 256 word" where
  "set_byte i b u =
     (u AND NOT (push_bit (8 * (31 - i)) (mask 8))) OR push_bit (8 * (31 - i)) (ucast b)"

lemma bit_byte_at: "bit (byte_at u i) n \<longleftrightarrow> n < 8 \<and> bit u (8 * (31 - i) + n)"
  by (auto simp: byte_at_def bit_simps ac_simps dest: bit_imp_le_length)

lemma bit_set_byte:
  "i \<le> 31 \<Longrightarrow> bit (set_byte i b u) n \<longleftrightarrow>
     (if 8 * (31 - i) \<le> n \<and> n < 8 * (31 - i) + 8 then bit b (n - 8 * (31 - i)) else bit u n)"
  by (auto simp: set_byte_def bit_simps not_less dest: bit_imp_le_length)

lemma byte_at_set_byte:
  assumes "i \<le> 31" "j \<le> 31"
  shows "byte_at (set_byte i b u) j = (if i = j then b else byte_at u j)"
proof (rule bit_eqI)
  fix n
  assume "possible_bit TYPE(8 word) n"
  then have n: "n < 8" by simp
  have "8 * (31 - i) \<le> 8 * (31 - j) + n \<and> 8 * (31 - j) + n < 8 * (31 - i) + 8 \<longleftrightarrow> i = j"
    using n assms by auto
  with n assms show "bit (byte_at (set_byte i b u) j) n \<longleftrightarrow> bit (if i = j then b else byte_at u j) n"
    by (auto simp: bit_byte_at bit_set_byte)
qed

lemma word_eq_bytes:
  assumes "\<And>i. i \<le> 31 \<Longrightarrow> byte_at u i = byte_at v i"
  shows "u = v"
proof (rule bit_eqI)
  fix n
  assume "possible_bit TYPE(256 word) n"
  then have n: "n < 256" by simp
  let ?i = "31 - n div 8"
  have "n div 8 \<le> 31" using n by simp
  then have pos: "8 * (31 - ?i) + n mod 8 = n" by simp
  have "bit (byte_at u ?i) (n mod 8) = bit (byte_at v ?i) (n mod 8)"
    using assms [of ?i] by simp
  then show "bit u n \<longleftrightarrow> bit v n" using pos by (simp add: bit_byte_at)
qed

definition upkeepTypeStartIndex :: nat where "upkeepTypeStartIndex = 4"
definition upkeepTypeByteIndex :: nat where "upkeepTypeByteIndex = 15"

definition GetUpkeepType :: "UpkeepIdentifier \<Rightarrow> UpkeepType" where
  "GetUpkeepType u =
     (if list_ex (\<lambda>i. byte_at u i \<noteq> 0) [upkeepTypeStartIndex..<upkeepTypeByteIndex] then ConditionTrigger
      else byte_at u upkeepTypeByteIndex)"

definition NewUpkeepID :: "(bytes \<Rightarrow> 256 word) \<Rightarrow> bytes \<Rightarrow> 8 word \<Rightarrow> UpkeepIdentifier" where
  "NewUpkeepID sha256 entropy uType =
     set_byte 15 uType (fold (\<lambda>x. set_byte x 0) [4..<15] (sha256 entropy))"

lemma byte_at_fold_zero:
  "\<forall>x\<in>set xs. x \<le> 31 \<Longrightarrow> j \<le> 31 \<Longrightarrow>
     byte_at (fold (\<lambda>x. set_byte x 0) xs u) j = (if j \<in> set xs then 0 else byte_at u j)"
  by (induction xs arbitrary: u) (auto simp: byte_at_set_byte)

lemma byte_at_NewUpkeepID:
  "j \<le> 31 \<Longrightarrow> byte_at (NewUpkeepID sha e t) j =
     (if j = 15 then t else if 4 \<le> j \<and> j < 15 then 0 else byte_at (sha e) j)"
  using byte_at_fold_zero [of "[4..<15]" j "sha e"]
  unfolding NewUpkeepID_def by (auto simp: byte_at_set_byte simp del: upt_rec_numeral)

lemma GetUpkeepType_NewUpkeepID [simp]: "GetUpkeepType (NewUpkeepID sha entropy t) = t"
  by (simp add: GetUpkeepType_def byte_at_NewUpkeepID upkeepTypeStartIndex_def
      upkeepTypeByteIndex_def list_ex_iff)

text \<open>Two identifiers of one type differ as soon as the entropy that is kept does.\<close>

lemma NewUpkeepID_inj:
  assumes "NewUpkeepID sha e t = NewUpkeepID sha e' t'"
  shows "t = t' \<and> (\<forall>j. j < 4 \<or> 15 < j \<and> j \<le> 31 \<longrightarrow> byte_at (sha e) j = byte_at (sha e') j)"
proof (intro conjI allI impI)
  show "t = t'" using assms GetUpkeepType_NewUpkeepID by metis
next
  fix j :: nat
  assume j: "j < 4 \<or> 15 < j \<and> j \<le> 31"
  have "byte_at (NewUpkeepID sha e t) j = byte_at (NewUpkeepID sha e' t') j"
    using assms by simp
  with j show "byte_at (sha e) j = byte_at (sha e') j"
    by (auto simp: byte_at_NewUpkeepID)
qed

section \<open>Work ids\<close>

definition array_bytes :: "256 word \<Rightarrow> bytes" where
  "array_bytes u = map (\<lambda>i. char_of (unat (byte_at u i))) [0..<32]"

definition hex_EncodeToString :: "256 word \<Rightarrow> string" where
  "hex_EncodeToString h = format_x 64 (unat h)"

definition UpkeepWorkID ::
    "(bytes \<Rightarrow> 256 word) \<Rightarrow> (LogTriggerExtension \<Rightarrow> bytes) \<Rightarrow> WorkIDGenerator" where
  "UpkeepWorkID keccak logIdentifier uid trigger =
     (let triggerExtBytes =
        (case tr_LogTriggerExtension trigger of None \<Rightarrow> [] | Some e \<Rightarrow> logIdentifier e)
      in hex_EncodeToString (keccak (array_bytes uid @ triggerExtBytes)))"

lemma length_array_bytes [simp]: "length (array_bytes u) = 32"
  by (simp add: array_bytes_def)

lemma array_bytes_inj: "array_bytes u = array_bytes v \<longleftrightarrow> u = v"
proof
  assume eq: "array_bytes u = array_bytes v"
  show "u = v"
  proof (rule word_eq_bytes)
    fix i :: nat
    assume "i \<le> 31"
    then have "(char_of (unat (byte_at u i)) :: char) = char_of (unat (byte_at v i))"
      using arg_cong [OF eq, of "\<lambda>bs. bs ! i"] by (simp add: array_bytes_def)
    then have "unat (byte_at u i) mod 256 = unat (byte_at v i) mod 256"
      by (metis of_char_of)
    then show "byte_at u i = byte_at v i"
      using unsigned_less [where 'a = nat, of "byte_at u i"] unsigned_less [where 'a = nat, of "byte_at v i"] by (simp add: word_unat_eq_iff)
  qed
qed simp

lemma hex_EncodeToString_inj: "hex_EncodeToString a = hex_EncodeToString b \<longleftrightarrow> a = b"
proof
  assume "hex_EncodeToString a = hex_EncodeToString b"
  moreover have "unat x < 16 ^ 64" for x :: "256 word"
    using unsigned_less [where 'a = nat, of x] by simp
  ultimately have "unat a = unat b"
    unfolding hex_EncodeToString_def using format_x_inj by blast
  then show "a = b" by (simp add: word_unat_eq_iff)
qed simp

text \<open>
  What the code relies on of \<open>LogIdentifier\<close>: it names the log by its transaction and block hash, not
  by the block number. What it relies on of Keccak: no two of the inputs it meets collide.
\<close>

definition log_identifier_ok :: "(LogTriggerExtension \<Rightarrow> bytes) \<Rightarrow> bool" where
  "log_identifier_ok lid \<longleftrightarrow> (\<forall>e n. lid (e\<lparr>lte_BlockNumber := n\<rparr>) = lid e)"

definition preimage :: "(LogTriggerExtension \<Rightarrow> bytes) \<Rightarrow> UpkeepIdentifier \<Rightarrow> Trigger \<Rightarrow> bytes" where
  "preimage lid u t =
     array_bytes u @ (case tr_LogTriggerExtension t of None \<Rightarrow> [] | Some e \<Rightarrow> lid e)"

lemma UpkeepWorkID_preimage:
  "UpkeepWorkID keccak lid u t = hex_EncodeToString (keccak (preimage lid u t))"
  by (simp add: UpkeepWorkID_def preimage_def)

lemma preimage_tells_upkeep: "preimage lid u t = preimage lid u' t' \<Longrightarrow> u = u'"
  by (simp add: preimage_def array_bytes_inj)

lemma simulated_workID_ignores_block:
  assumes "log_identifier_ok lid"
  shows "workID_ignores_block (UpkeepWorkID keccak lid)"
  unfolding workID_ignores_block_def UpkeepWorkID_def rebind_def
  using assms by (auto simp: log_identifier_ok_def Let_def split: option.splits)

text \<open>Without collisions a work id names the upkeep and the log it was made for.\<close>

lemma UpkeepWorkID_inj:
  assumes "inj_on keccak A" "preimage lid u t \<in> A" "preimage lid u' t' \<in> A"
    and "UpkeepWorkID keccak lid u t = UpkeepWorkID keccak lid u' t'"
  shows "u = u' \<and> preimage lid u t = preimage lid u' t'"
proof -
  have "preimage lid u t = preimage lid u' t'"
    using assms by (simp add: UpkeepWorkID_preimage hex_EncodeToString_inj inj_on_eq_iff)
  with preimage_tells_upkeep show ?thesis by blast
qed

section \<open>Reports\<close>

definition EncodeCheckResultsToReportBytes ::
    "(CheckResult list \<Rightarrow> bytes result) \<Rightarrow> CheckResult list \<Rightarrow> bytes result" where
  "EncodeCheckResultsToReportBytes marshal results =
     (if results = [] then Inr []
      else case marshal results of
        Inl err \<Rightarrow> Inl (Wrapped ''failed to marshal check results'' err)
      | Inr bts \<Rightarrow> Inr bts)"

definition DecodeCheckResultsFromReportBytes ::
    "(bytes \<Rightarrow> CheckResult list result) \<Rightarrow> bytes \<Rightarrow> CheckResult list result" where
  "DecodeCheckResultsFromReportBytes unmarshal bts =
     (if bts = [] then Inr []
      else case unmarshal bts of
        Inl err \<Rightarrow> Inl (Wrapped ''failed to unmarshal check results from bytes'' err)
      | Inr results \<Rightarrow> Inr results)"

text \<open>Decoding inverts encoding, and JSON is never the empty string.\<close>

definition json_results :: "(CheckResult list \<Rightarrow> bytes result) \<Rightarrow> (bytes \<Rightarrow> CheckResult list result) \<Rightarrow> bool" where
  "json_results marshal unmarshal \<longleftrightarrow>
     (\<forall>rs b. marshal rs = Inr b \<longrightarrow> b \<noteq> [] \<and> unmarshal b = Inr rs)"

lemma decode_encode:
  assumes "json_results marshal unmarshal" "EncodeCheckResultsToReportBytes marshal rs = Inr b"
  shows "DecodeCheckResultsFromReportBytes unmarshal b = Inr rs"
  using assms
  by (auto simp: json_results_def EncodeCheckResultsToReportBytes_def
      DecodeCheckResultsFromReportBytes_def split: if_splits sum.splits)

end
