(* ===== verification/Sim_Plan.thy ===== *)
theory Sim_Plan
  imports Complex_Main Sim_Util
begin

text \<open>
  \<open>tools/simulator/config\<close>: the plan of a simulation (\<open>simulation.go\<close>, \<open>event.go\<close>) and its JSON form.
  The JSON codec is an argument; an element of the encoded list of events that was never set is the
  JSON value \<open>null\<close>.
\<close>

section \<open>Events and plans\<close>

record Event =
  ev_Type :: string
  ev_TriggerBlock :: int
  ev_Comment :: string

record OCR3ConfigEvent = Event +
  oe_MaxFaultyNodesF :: int
  oe_Offchain :: string
  oe_Rmax :: "64 word"
  oe_DeltaProgress :: duration
  oe_DeltaResend :: duration
  oe_DeltaInitial :: duration
  oe_DeltaRound :: duration
  oe_DeltaGrace :: duration
  oe_DeltaRequest :: duration
  oe_DeltaStage :: duration
  oe_MaxQuery :: duration
  oe_MaxObservation :: duration
  oe_MaxAccept :: duration
  oe_MaxTransmit :: duration

record GenerateUpkeepEvent = Event +
  ge_Count :: int
  ge_StartID :: int
  ge_EligibilityFunc :: string
  ge_OffsetFunc :: string
  ge_UpkeepType :: string
  ge_LogTriggeredBy :: string
  ge_Expected :: string

record LogTriggerEvent = Event +
  le_TriggerValue :: string

definition AllExpected :: string where "AllExpected = ''all''"
definition NoneExpected :: string where "NoneExpected = ''none''"

definition OCR3ConfigEventType :: string where "OCR3ConfigEventType = ''ocr3config''"
definition GenerateUpkeepEventType :: string where "GenerateUpkeepEventType = ''generateUpkeeps''"
definition LogTriggerEventType :: string where "LogTriggerEventType = ''logTrigger''"

definition ConditionalUpkeepType :: string where "ConditionalUpkeepType = ''conditional''"
definition LogTriggerUpkeepType :: string where "LogTriggerUpkeepType = ''logTrigger''"

lemmas event_types = OCR3ConfigEventType_def GenerateUpkeepEventType_def LogTriggerEventType_def

record SimNode =
  no_Count :: int
  no_MaxServiceWorkers :: int
  no_MaxQueueSize :: int

record RPC =
  rpc_MaxBlockDelay :: int
  rpc_AverageLatency :: int
  rpc_ErrorRate :: rat
  rpc_RateLimitThreshold :: int

record Blocks =
  bl_Genesis :: int
  bl_Cadence :: duration
  bl_Jitter :: duration
  bl_Duration :: int
  bl_EndPadding :: int

record SimulationPlan =
  sp_Node :: SimNode
  sp_MaxLatency :: duration
  sp_RPC :: RPC
  sp_Blocks :: Blocks
  sp_ConfigEvents :: "OCR3ConfigEvent list"
  sp_GenerateUpkeeps :: "GenerateUpkeepEvent list"
  sp_LogEvents :: "LogTriggerEvent list"

section \<open>Encoding\<close>

text \<open>An element of \<open>[]interface{}\<close>: nil, or one of the three kinds of event\<close>

datatype encodable_event =
    NilEvent
  | ConfigEvent OCR3ConfigEvent
  | GenerateEvent GenerateUpkeepEvent
  | LogEvent LogTriggerEvent

record encodedOutput =
  eo_SimulationPlan :: SimulationPlan
  eo_Events :: "encodable_event list"

definition encodable :: "SimulationPlan \<Rightarrow> encodedOutput" where
  "encodable p =
     \<lparr>eo_SimulationPlan = p,
      eo_Events =
        replicate (length (sp_ConfigEvents p) + length (sp_GenerateUpkeeps p)) NilEvent @
        map (\<lambda>e. ConfigEvent (e\<lparr>ev_Type := OCR3ConfigEventType\<rparr>)) (sp_ConfigEvents p) @
        map (\<lambda>e. GenerateEvent (e\<lparr>ev_Type := GenerateUpkeepEventType\<rparr>)) (sp_GenerateUpkeeps p) @
        map (\<lambda>e. LogEvent (e\<lparr>ev_Type := LogTriggerEventType\<rparr>)) (sp_LogEvents p)\<rparr>"

text \<open>The calls of \<open>encoding/json\<close>, one per type that is decoded into\<close>

record plan_codec =
  pc_Marshal :: "encodedOutput \<Rightarrow> bytes result"
  pc_Plan :: "bytes \<Rightarrow> SimulationPlan result"
  pc_Events :: "bytes \<Rightarrow> bytes list result"
  pc_Event :: "bytes \<Rightarrow> Event result"
  pc_OCR3ConfigEvent :: "bytes \<Rightarrow> OCR3ConfigEvent result"
  pc_GenerateUpkeepEvent :: "bytes \<Rightarrow> GenerateUpkeepEvent result"
  pc_LogTriggerEvent :: "bytes \<Rightarrow> LogTriggerEvent result"

definition plan_Encode :: "plan_codec \<Rightarrow> SimulationPlan \<Rightarrow> bytes result" where
  "plan_Encode c p = pc_Marshal c (encodable p)"

section \<open>Decoding\<close>

text \<open>The loop over the raw events; \<open>idx\<close> is the index of the next one.\<close>

fun decode_events :: "plan_codec \<Rightarrow> nat \<Rightarrow> bytes list \<Rightarrow> SimulationPlan \<Rightarrow> SimulationPlan result" where
  "decode_events c idx [] plan = Inr plan"
| "decode_events c idx (rawEvent # raws) plan =
     (case pc_Event c rawEvent of
        Inl err \<Rightarrow> Inl (EncodingFailure ''failed to decode event in simulation plan'' err)
      | Inr event \<Rightarrow>
          if ev_Type event = OCR3ConfigEventType then
            (case pc_OCR3ConfigEvent c rawEvent of
               Inl err \<Rightarrow> Inl (EncodingFailure ''failed to decode ocr3config event in simulation plan'' err)
             | Inr e \<Rightarrow> decode_events c (Suc idx) raws
                 (plan\<lparr>sp_ConfigEvents := sp_ConfigEvents plan @ [e]\<rparr>))
          else if ev_Type event = GenerateUpkeepEventType then
            (case pc_GenerateUpkeepEvent c rawEvent of
               Inl err \<Rightarrow> Inl (EncodingFailure ''failed to decode generateUpkeep event in simulation plan'' err)
             | Inr e \<Rightarrow>
                 (let e' = (if ge_Expected e = [] then e\<lparr>ge_Expected := AllExpected\<rparr> else e)
                  in decode_events c (Suc idx) raws
                       (plan\<lparr>sp_GenerateUpkeeps := sp_GenerateUpkeeps plan @ [e']\<rparr>)))
          else if ev_Type event = LogTriggerEventType then
            (case pc_LogTriggerEvent c rawEvent of
               Inl err \<Rightarrow> Inl (EncodingFailure ''failed to decode logTrigger event in simulation plan'' err)
             | Inr e \<Rightarrow> decode_events c (Suc idx) raws
                 (plan\<lparr>sp_LogEvents := sp_LogEvents plan @ [e]\<rparr>))
          else Inl (UnrecognizedEvent idx))"

definition DecodeSimulationPlan :: "plan_codec \<Rightarrow> bytes \<Rightarrow> SimulationPlan result" where
  "DecodeSimulationPlan c encoded =
     (case pc_Plan c encoded of
        Inl err \<Rightarrow> Inl (EncodingFailure ''failed to decode simulation plan'' err)
      | Inr plan \<Rightarrow>
          (let plan = plan\<lparr>sp_ConfigEvents := [], sp_GenerateUpkeeps := [], sp_LogEvents := []\<rparr>
           in case pc_Events c encoded of
                Inl err \<Rightarrow> Inl (EncodingFailure ''failed to decode events in simulation plan'' err)
              | Inr events \<Rightarrow> decode_events c 0 events plan))"

text \<open>Nothing is lost: a decoded plan has one event per raw event, and every expectation is filled in.\<close>

lemma decode_events_counts:
  "decode_events c idx raws plan = Inr plan' \<Longrightarrow>
     length (sp_ConfigEvents plan') + length (sp_GenerateUpkeeps plan') + length (sp_LogEvents plan') =
       length (sp_ConfigEvents plan) + length (sp_GenerateUpkeeps plan) + length (sp_LogEvents plan) +
       length raws \<and>
     sp_Blocks plan' = sp_Blocks plan \<and>
     (list_all (\<lambda>e. ge_Expected e \<noteq> []) (sp_GenerateUpkeeps plan) \<longrightarrow>
        list_all (\<lambda>e. ge_Expected e \<noteq> []) (sp_GenerateUpkeeps plan'))"
proof (induction raws arbitrary: idx plan)
  case (Cons r raws)
  from Cons.prems show ?case
    by (auto simp: Let_def AllExpected_def split: sum.splits if_splits dest!: Cons.IH)
qed simp

section \<open>The round trip\<close>

text \<open>
  What JSON promises of the parts of an encoded plan: the plan itself decodes without its lists of
  events, the list of raw events has one entry per element, and each entry decodes to its event;
  decoding \<open>null\<close> into a struct leaves the zero value.
\<close>

definition zero_event :: Event where
  "zero_event = \<lparr>ev_Type = [], ev_TriggerBlock = 0, ev_Comment = []\<rparr>"

fun event_decodes :: "plan_codec \<Rightarrow> encodable_event \<Rightarrow> bytes \<Rightarrow> bool" where
  "event_decodes c NilEvent raw \<longleftrightarrow> pc_Event c raw = Inr zero_event"
| "event_decodes c (ConfigEvent e) raw \<longleftrightarrow>
     pc_Event c raw = Inr (Event.truncate e) \<and> pc_OCR3ConfigEvent c raw = Inr e"
| "event_decodes c (GenerateEvent e) raw \<longleftrightarrow>
     pc_Event c raw = Inr (Event.truncate e) \<and> pc_GenerateUpkeepEvent c raw = Inr e"
| "event_decodes c (LogEvent e) raw \<longleftrightarrow>
     pc_Event c raw = Inr (Event.truncate e) \<and> pc_LogTriggerEvent c raw = Inr e"

definition json_plan :: "plan_codec \<Rightarrow> bool" where
  "json_plan c \<longleftrightarrow>
     (\<forall>x b. pc_Marshal c x = Inr b \<longrightarrow>
        pc_Plan c b = Inr ((eo_SimulationPlan x)\<lparr>sp_ConfigEvents := [], sp_GenerateUpkeeps := [], sp_LogEvents := []\<rparr>) \<and>
        (\<exists>raws. pc_Events c b = Inr raws \<and> list_all2 (event_decodes c) (eo_Events x) raws))"

lemma encoded_events_rejected:
  assumes "json_plan c" "plan_Encode c p = Inr b"
    and "sp_ConfigEvents p \<noteq> [] \<or> sp_GenerateUpkeeps p \<noteq> []"
  shows "DecodeSimulationPlan c b = Inl (UnrecognizedEvent 0)"
proof -
  let ?x = "encodable p"
  have "eo_Events ?x = NilEvent # tl (eo_Events ?x)"
    using assms(3) by (cases "length (sp_ConfigEvents p) + length (sp_GenerateUpkeeps p)")
      (auto simp: encodable_def)
  moreover obtain raws where raws: "pc_Events c b = Inr raws" "list_all2 (event_decodes c) (eo_Events ?x) raws"
    using assms(1,2) unfolding json_plan_def plan_Encode_def by blast
  ultimately obtain r rs where "raws = r # rs" "pc_Event c r = Inr zero_event"
    by (metis event_decodes.simps(1) list_all2_Cons1)
  moreover obtain q where "pc_Plan c b = Inr q"
    using assms(1,2) unfolding json_plan_def plan_Encode_def by blast
  ultimately show ?thesis
    using raws(1) by (simp add: DecodeSimulationPlan_def zero_event_def event_types Let_def)
qed

text \<open>With log events only, the plan survives.\<close>

lemma decode_log_events:
  "list_all2 (event_decodes c) (map (\<lambda>e. LogEvent (e\<lparr>ev_Type := LogTriggerEventType\<rparr>)) es) raws \<Longrightarrow>
     decode_events c idx raws plan = Inr (plan\<lparr>sp_LogEvents := sp_LogEvents plan @
       map (\<lambda>e. e\<lparr>ev_Type := LogTriggerEventType\<rparr>) es\<rparr>)"
proof (induction es arbitrary: raws idx plan)
  case (Cons e es)
  then obtain r rs where "raws = r # rs" "pc_Event c r = Inr (Event.truncate (e\<lparr>ev_Type := LogTriggerEventType\<rparr>))"
      "pc_LogTriggerEvent c r = Inr (e\<lparr>ev_Type := LogTriggerEventType\<rparr>)"
      "list_all2 (event_decodes c) (map (\<lambda>e. LogEvent (e\<lparr>ev_Type := LogTriggerEventType\<rparr>)) es) rs"
    by (auto simp: list_all2_Cons1)
  with Cons.IH [of rs "Suc idx"] show ?case
    by (simp add: event_types Event.truncate_def)
qed simp

lemma encoded_log_plan_decodes:
  assumes "json_plan c" "plan_Encode c p = Inr b" "sp_ConfigEvents p = []" "sp_GenerateUpkeeps p = []"
  shows "DecodeSimulationPlan c b =
    Inr (p\<lparr>sp_LogEvents := map (\<lambda>e. e\<lparr>ev_Type := LogTriggerEventType\<rparr>) (sp_LogEvents p)\<rparr>)"
proof -
  obtain raws where raws: "pc_Events c b = Inr raws" "list_all2 (event_decodes c) (eo_Events (encodable p)) raws"
      "pc_Plan c b = Inr (p\<lparr>sp_ConfigEvents := [], sp_GenerateUpkeeps := [], sp_LogEvents := []\<rparr>)"
    using assms(1,2) unfolding json_plan_def plan_Encode_def
    by (metis encodable_def encodedOutput.select_convs(1))
  then show ?thesis
    using assms(3,4) decode_log_events [of c "sp_LogEvents p" raws 0]
    by (simp add: DecodeSimulationPlan_def encodable_def Let_def)
qed

text \<open>
  C40: An encoded plan decodes to itself (with the types of its events set) only if it has no OCR
  configuration and no upkeep generation. Otherwise the list of events starts with one \<open>null\<close> for
  each of those, and the decoder rejects its own encoder's output as an unrecognized event.
\<close>

theorem encoded_plan_decodes:
  assumes "json_plan c" "plan_Encode c p = Inr b"
  shows "DecodeSimulationPlan c b =
    (if sp_ConfigEvents p = [] \<and> sp_GenerateUpkeeps p = []
     then Inr (p\<lparr>sp_LogEvents := map (\<lambda>e. e\<lparr>ev_Type := LogTriggerEventType\<rparr>) (sp_LogEvents p)\<rparr>)
     else Inl (UnrecognizedEvent 0))"
  using encoded_events_rejected [OF assms] encoded_log_plan_decodes [OF assms] by auto

definition sample_plan :: SimulationPlan where
  "sample_plan =
     \<lparr>sp_Node = \<lparr>no_Count = 4, no_MaxServiceWorkers = 10, no_MaxQueueSize = 1000\<rparr>,
      sp_MaxLatency = 100 * millisecond,
      sp_RPC = \<lparr>rpc_MaxBlockDelay = 0, rpc_AverageLatency = 5, rpc_ErrorRate = 0, rpc_RateLimitThreshold = 1000\<rparr>,
      sp_Blocks = \<lparr>bl_Genesis = 100, bl_Cadence = second, bl_Jitter = 0, bl_Duration = 10, bl_EndPadding = 5\<rparr>,
      sp_ConfigEvents = [],
      sp_GenerateUpkeeps =
        [\<lparr>ev_Type = GenerateUpkeepEventType, ev_TriggerBlock = 101, ev_Comment = [], ge_Count = 2,
          ge_StartID = 200, ge_EligibilityFunc = ''4x + 5'', ge_OffsetFunc = ''1'',
          ge_UpkeepType = ConditionalUpkeepType, ge_LogTriggeredBy = [], ge_Expected = AllExpected\<rparr>],
      sp_LogEvents = []\<rparr>"

definition sample_codec :: plan_codec where
  "sample_codec =
     \<lparr>pc_Marshal = (\<lambda>x. if x = encodable sample_plan then Inr ''plan'' else Inl (External ''json'')),
      pc_Plan = (\<lambda>b. Inr (sample_plan\<lparr>sp_GenerateUpkeeps := []\<rparr>)),
      pc_Events = (\<lambda>b. Inr [''null'', ''event'']),
      pc_Event = (\<lambda>b. if b = ''null'' then Inr zero_event
        else Inr (Event.truncate (hd (sp_GenerateUpkeeps sample_plan)))),
      pc_OCR3ConfigEvent = (\<lambda>b. Inl (External ''json'')),
      pc_GenerateUpkeepEvent = (\<lambda>b. Inr (hd (sp_GenerateUpkeeps sample_plan))),
      pc_LogTriggerEvent = (\<lambda>b. Inl (External ''json''))\<rparr>"

lemma sample_codec_ok: "json_plan sample_codec"
  unfolding json_plan_def
proof (intro allI impI conjI)
  fix x b
  assume "pc_Marshal sample_codec x = Inr b"
  then have x: "x = encodable sample_plan" by (simp add: sample_codec_def split: if_splits)
  show "pc_Plan sample_codec b = Inr ((eo_SimulationPlan x)\<lparr>sp_ConfigEvents := [], sp_GenerateUpkeeps := [], sp_LogEvents := []\<rparr>)"
    by (simp add: x sample_codec_def encodable_def sample_plan_def)
  show "\<exists>raws. pc_Events sample_codec b = Inr raws \<and> list_all2 (event_decodes sample_codec) (eo_Events x) raws"
    by (simp add: x sample_codec_def encodable_def sample_plan_def)
qed

theorem encoded_plan_decodes_witness:
  "DecodeSimulationPlan sample_codec ''plan'' = Inl (UnrecognizedEvent 0)"
proof -
  have "plan_Encode sample_codec sample_plan = Inr ''plan''"
    by (simp add: plan_Encode_def sample_codec_def)
  from encoded_plan_decodes [OF sample_codec_ok this] show ?thesis
    by (simp add: sample_plan_def)
qed

end
