(* ===== verification/Sim_Generate.thy ===== *)
theory Sim_Generate
  imports Sim_Plan
begin

text \<open>
  \<open>tools/simulator/simulate/chain\<close>: the data of simulated blocks (\<open>block.go\<close>) and the generation of
  upkeeps and logs from a plan (\<open>generate.go\<close>). The parser of the eligibility functions
  (\<open>mathparse\<close>) is an argument that returns what the code reads of it; \<open>decimal.Decimal\<close> is exact
  under \<open>Add\<close>, \<open>Sub\<close> and \<open>Mul\<close>, hence a rational. The loop that lists the eligible blocks ends only if
  the function reaches the limit: it is a partial function whose value \<^const>\<open>None\<close> means that it
  does not return.
\<close>

section \<open>Blocks and their transactions\<close>

text \<open>\<open>types.ContractConfig\<close> of libocr\<close>

record ContractConfig =
  cc_ConfigDigest :: "256 word"
  cc_ConfigCount :: "64 word"
  cc_Signers :: "bytes list"
  cc_Transmitters :: "string list"
  cc_F :: "8 word"
  cc_OnchainConfig :: bytes
  cc_OffchainConfigVersion :: "64 word"
  cc_OffchainConfig :: bytes

datatype SimUpkeepType = ConditionalType | LogTriggerType

record SimulatedUpkeep =
  su_ID :: int
  su_CreateInBlock :: int
  su_UpkeepID :: "256 word"
  su_Type :: SimUpkeepType
  su_AlwaysEligible :: bool
  su_EligibleAt :: "int list"
  su_TriggeredBy :: string
  su_CheckData :: bytes
  su_Expected :: bool

record SimulatedLog =
  sl_TriggerAt :: int
  sl_TriggerValue :: string

text \<open>The block number of a transmit is nil until the transmit is loaded into a block.\<close>

record ChainTransmit =
  ct_SendingAddress :: string
  ct_Report :: bytes
  ct_Hash :: "256 word"
  ct_Round :: "64 word"
  ct_BlockNumber :: "int option"
  ct_BlockHash :: "256 word"

record ChainLog =
  cl_TxHash :: "256 word"
  cl_BlockNumber :: int
  cl_BlockHash :: "256 word"
  cl_Idx :: "32 word"
  cl_TriggerValue :: string

text \<open>What the loaders put into \<open>Transactions []interface{}\<close>\<close>

datatype transaction =
    LogTransaction ChainLog
  | OCR3ConfigTransaction ContractConfig
  | PerformUpkeepTransaction "ChainTransmit list"
  | UpkeepCreatedTransaction SimulatedUpkeep

record Block =
  b_Hash :: "256 word"
  b_Number :: int
  b_Transactions :: "transaction list"

section \<open>Functions of the plan\<close>

record Token =
  tk_Type :: nat
  tk_Value :: string
  tk_ParseValue :: rat

record Parser =
  mp_FoundResult :: bool
  mp_ValueResult :: int
  mp_Tokens :: "Token list"

type_synonym mathparse = "string \<Rightarrow> Parser"

definition operate :: "rat \<Rightarrow> rat \<Rightarrow> string \<Rightarrow> rat" where
  "operate a b op =
     (if op = ''+'' then a + b else if op = ''*'' then a * b else if op = ''-'' then a - b else 0)"

fun calc_step :: "int \<Rightarrow> Token \<Rightarrow> rat \<times> string \<Rightarrow> rat \<times> string" where
  "calc_step x token (v, action) =
     (if tk_Type token = 2 \<or> tk_Type token = 3 then
        (operate v (if tk_Value token = ''x'' then of_int x else tk_ParseValue token) action, action)
      else if tk_Type token = 4 then (v, tk_Value token)
      else (v, action))"

definition calcFromTokens :: "Token list \<Rightarrow> int \<Rightarrow> rat" where
  "calcFromTokens tokens x = fst (fold (calc_step x) tokens (0, ''+''))"

text \<open>\<open>Decimal.Round(0)\<close> rounds half away from zero; \<open>BigInt\<close> takes the integer part.\<close>

definition decimal_Round :: "rat \<Rightarrow> int" where
  "decimal_Round q = (if q < 0 then - \<lfloor>1 / 2 - q\<rfloor> else \<lfloor>q + 1 / 2\<rfloor>)"

definition decimal_BigInt :: "rat \<Rightarrow> int" where
  "decimal_BigInt q = (if q < 0 then - \<lfloor>- q\<rfloor> else \<lfloor>q\<rfloor>)"

section \<open>Eligible blocks\<close>

partial_function (option) eligibles_loop ::
    "(int \<Rightarrow> int) \<Rightarrow> int \<Rightarrow> int \<Rightarrow> int \<Rightarrow> int \<Rightarrow> int list \<Rightarrow> int list option" where
  [code]: "eligibles_loop r genesis limit nextValue i acc =
     (if nextValue < limit then
        eligibles_loop r genesis limit (genesis + r i) (int64 (i + 1))
          (if nextValue \<ge> genesis then acc @ [nextValue] else acc)
      else Some acc)"

definition generateEligibles ::
    "mathparse \<Rightarrow> int \<Rightarrow> int \<Rightarrow> string \<Rightarrow> SimulatedUpkeep \<Rightarrow> SimulatedUpkeep result option" where
  "generateEligibles parse genesis limit f upkeep =
     (let p = parse f
      in if mp_FoundResult p then Some (Inl SimpleValueUnsupported)
         else map_option (\<lambda>es. Inr (upkeep\<lparr>su_EligibleAt := es\<rparr>))
           (eligibles_loop (\<lambda>i. decimal_Round (calcFromTokens (mp_Tokens p) i)) genesis limit 0 0
              (su_EligibleAt upkeep)))"

section \<open>Upkeeps\<close>

definition getTriggerType :: "string \<Rightarrow> (SimUpkeepType \<times> 8 word) result" where
  "getTriggerType configType =
     (if configType = ConditionalUpkeepType then Inr (ConditionalType, ConditionTrigger)
      else if configType = LogTriggerUpkeepType then Inr (LogTriggerType, LogTrigger)
      else Inl (UnrecognizedTriggerType configType))"

text \<open>\<open>newUpkeepID\<close> repeats \<open>util.NewUpkeepID\<close>.\<close>

definition newUpkeepID :: "(bytes \<Rightarrow> 256 word) \<Rightarrow> bytes \<Rightarrow> 8 word \<Rightarrow> UpkeepIdentifier" where
  "newUpkeepID sha256 entropy uType =
     set_byte 15 uType (fold (\<lambda>x. set_byte x 0) [4..<15] (sha256 entropy))"

text \<open>\<open>big.Int.Bytes\<close>: the magnitude, big-endian, without leading zeros\<close>

fun nat_bytes :: "nat \<Rightarrow> bytes" where
  "nat_bytes n = (if n = 0 then [] else nat_bytes (n div 256) @ [char_of (n mod 256)])"

declare nat_bytes.simps [simp del]

definition bigInt_Bytes :: "int \<Rightarrow> bytes" where
  "bigInt_Bytes z = nat_bytes (nat \<bar>z\<bar>)"

text \<open>The struct literal both loops build for the \<open>y\<close>-th upkeep of an event\<close>

definition simulated_upkeep ::
    "(bytes \<Rightarrow> 256 word) \<Rightarrow> GenerateUpkeepEvent \<Rightarrow> SimUpkeepType \<Rightarrow> 8 word \<Rightarrow> bool \<Rightarrow> int \<Rightarrow> SimulatedUpkeep" where
  "simulated_upkeep sha event simulationType pluginTriggerType alwaysEligible y =
     (let upkeepID = ge_StartID event + y
      in \<lparr>su_ID = upkeepID, su_CreateInBlock = ev_TriggerBlock event,
          su_UpkeepID = newUpkeepID sha (bigInt_Bytes upkeepID) pluginTriggerType, su_Type = simulationType,
          su_AlwaysEligible = alwaysEligible, su_EligibleAt = [], su_TriggeredBy = ge_LogTriggeredBy event,
          su_CheckData = [], su_Expected = (ge_Expected event = AllExpected)\<rparr>)"

definition generateBasicSimulatedUpkeeps ::
    "(bytes \<Rightarrow> 256 word) \<Rightarrow> GenerateUpkeepEvent \<Rightarrow> bool \<Rightarrow> SimulatedUpkeep list result" where
  "generateBasicSimulatedUpkeeps sha event alwaysEligible =
     (case getTriggerType (ge_UpkeepType event) of
        Inl err \<Rightarrow> Inl err
      | Inr (simulationType, pluginTriggerType) \<Rightarrow>
          Inr (map (simulated_upkeep sha event simulationType pluginTriggerType alwaysEligible)
            [1..ge_Count event]))"

definition upkeep_genesis :: "Parser \<Rightarrow> int \<Rightarrow> int \<Rightarrow> int" where
  "upkeep_genesis offset start y =
     (if mp_FoundResult offset then mp_ValueResult offset
      else start + decimal_BigInt (calcFromTokens (mp_Tokens offset) y))"

fun eligibility_loop ::
    "mathparse \<Rightarrow> string \<Rightarrow> Parser \<Rightarrow> int \<Rightarrow> int \<Rightarrow> (int \<Rightarrow> SimulatedUpkeep) \<Rightarrow> int list \<Rightarrow>
     SimulatedUpkeep list \<Rightarrow> SimulatedUpkeep list result option" where
  "eligibility_loop parse f offset start limit mk [] generated = Some (Inr generated)"
| "eligibility_loop parse f offset start limit mk (y # ys) generated =
     (case generateEligibles parse (upkeep_genesis offset start y) limit f (mk y) of
        None \<Rightarrow> None
      | Some (Inl err) \<Rightarrow> Some (Inl err)
      | Some (Inr u) \<Rightarrow> eligibility_loop parse f offset start limit mk ys (generated @ [u]))"

definition generateEligibilityFuncSimulatedUpkeeps ::
    "mathparse \<Rightarrow> (bytes \<Rightarrow> 256 word) \<Rightarrow> GenerateUpkeepEvent \<Rightarrow> int \<Rightarrow> int \<Rightarrow> SimulatedUpkeep list result option" where
  "generateEligibilityFuncSimulatedUpkeeps parse sha event start limit =
     (case getTriggerType (ge_UpkeepType event) of
        Inl err \<Rightarrow> Some (Inl err)
      | Inr (simulationType, pluginTriggerType) \<Rightarrow>
          eligibility_loop parse (ge_EligibilityFunc event) (parse (ge_OffsetFunc event)) start limit
            (simulated_upkeep sha event simulationType pluginTriggerType False) [1..ge_Count event] [])"

definition generateSimulatedUpkeeps ::
    "mathparse \<Rightarrow> (bytes \<Rightarrow> 256 word) \<Rightarrow> GenerateUpkeepEvent \<Rightarrow> int \<Rightarrow> int \<Rightarrow> SimulatedUpkeep list result option" where
  "generateSimulatedUpkeeps parse sha event start limit =
     (let applyFunctions = (ge_EligibilityFunc event \<noteq> ''always'' \<and> ge_EligibilityFunc event \<noteq> ''never'')
      in if \<not> applyFunctions
         then Some (generateBasicSimulatedUpkeeps sha event (ge_EligibilityFunc event = ''always''))
         else generateEligibilityFuncSimulatedUpkeeps parse sha event start limit)"

fun generate_loop ::
    "mathparse \<Rightarrow> (bytes \<Rightarrow> 256 word) \<Rightarrow> int \<Rightarrow> int \<Rightarrow> GenerateUpkeepEvent list \<Rightarrow> SimulatedUpkeep list \<Rightarrow>
     SimulatedUpkeep list result option" where
  "generate_loop parse sha genesis limit [] generated = Some (Inr generated)"
| "generate_loop parse sha genesis limit (event # events) generated =
     (case generateSimulatedUpkeeps parse sha event genesis limit of
        None \<Rightarrow> None
      | Some (Inl err) \<Rightarrow> Some (Inl (Wrapped ''at index'' err))
      | Some (Inr simulated) \<Rightarrow> generate_loop parse sha genesis limit events (generated @ simulated))"

definition GenerateAllUpkeeps ::
    "mathparse \<Rightarrow> (bytes \<Rightarrow> 256 word) \<Rightarrow> SimulationPlan \<Rightarrow> SimulatedUpkeep list result option" where
  "GenerateAllUpkeeps parse sha plan =
     (let genesis = bl_Genesis (sp_Blocks plan); limit = genesis + bl_Duration (sp_Blocks plan)
      in generate_loop parse sha genesis limit (sp_GenerateUpkeeps plan) [])"

definition GenerateLogTriggers :: "SimulationPlan \<Rightarrow> SimulatedLog list" where
  "GenerateLogTriggers plan =
     map (\<lambda>event. \<lparr>sl_TriggerAt = ev_TriggerBlock event, sl_TriggerValue = le_TriggerValue event\<rparr>)
       (sp_LogEvents plan)"

section \<open>The loop over eligible blocks\<close>

text \<open>The offset of the \<open>i\<close>-th eligible block from the upkeep's genesis\<close>

definition eligible_offset :: "mathparse \<Rightarrow> string \<Rightarrow> int \<Rightarrow> int" where
  "eligible_offset parse f i = decimal_Round (calcFromTokens (mp_Tokens (parse f)) i)"

lemma generateEligibles_eq:
  "\<not> mp_FoundResult (parse f) \<Longrightarrow> generateEligibles parse genesis limit f upkeep =
     map_option (\<lambda>es. Inr (upkeep\<lparr>su_EligibleAt := es\<rparr>))
       (eligibles_loop (eligible_offset parse f) genesis limit 0 0 (su_EligibleAt upkeep))"
  by (simp add: generateEligibles_def eligible_offset_def [abs_def])

lemma int64_int64 [simp]: "int64 (int64 a + b) = int64 (a + b)"
  by (simp add: int64_def mod_simps algebra_simps)

lemma eligibles_loop_ends:
  assumes "v < limit" and "\<And>k. k < n \<Longrightarrow> g + r (int64 (i + int k)) < limit"
    and "limit \<le> g + r (int64 (i + int n))"
  shows "eligibles_loop r g limit v (int64 i) acc =
    Some (acc @ filter (\<lambda>b. g \<le> b) (v # map (\<lambda>k. g + r (int64 (i + int k))) [0..<n]))"
  using assms
proof (induction n arbitrary: v i acc)
  case 0
  then have "eligibles_loop r g limit (g + r (int64 i)) j acc = Some acc" for j acc
    by (subst eligibles_loop.simps) simp
  with 0 show ?case by (subst eligibles_loop.simps) simp
next
  case (Suc n)
  have first: "g + r (int64 i) < limit" using Suc.prems(2) [of 0] by simp
  have rest: "g + r (int64 (i + 1 + int k)) < limit" if "k < n" for k
    using Suc.prems(2) [of "Suc k"] that by (simp add: add.assoc)
  have upt: "[0..<Suc n] = 0 # map Suc [0..<n]" by (subst upt_conv_Cons) (simp_all add: map_Suc_upt del: upt_Suc)
  have "eligibles_loop r g limit v (int64 i) acc =
      eligibles_loop r g limit (g + r (int64 i)) (int64 (i + 1)) (if g \<le> v then acc @ [v] else acc)"
    using Suc.prems(1) by (subst eligibles_loop.simps) simp
  also have "\<dots> = Some ((if g \<le> v then acc @ [v] else acc) @
      filter (\<lambda>b. g \<le> b) ((g + r (int64 i)) # map (\<lambda>k. g + r (int64 (i + 1 + int k))) [0..<n]))"
    using Suc.IH [OF first rest] Suc.prems(3) by (simp add: add.assoc)
  finally show ?case unfolding upt by (simp add: o_def add.assoc)
qed

lemma eligibles_loop_result:
  assumes "eligibles_loop r g limit v i acc = Some es"
  shows "(\<forall>b\<in>set es. b \<in> set acc \<or> g \<le> b \<and> b < limit) \<and>
    (v < limit \<longrightarrow> - (2 ^ 63) \<le> i \<longrightarrow> i < 2 ^ 63 \<longrightarrow>
      (\<exists>j. - (2 ^ 63) \<le> j \<and> j < 2 ^ 63 \<and> limit \<le> g + r j))"
proof (rule eligibles_loop.raw_induct [OF _ assms, where P = "\<lambda>r g limit v i acc es.
      (\<forall>b\<in>set es. b \<in> set acc \<or> g \<le> b \<and> b < limit) \<and>
      (v < limit \<longrightarrow> - (2 ^ 63) \<le> i \<longrightarrow> i < 2 ^ 63 \<longrightarrow>
        (\<exists>j. - (2 ^ 63) \<le> j \<and> j < 2 ^ 63 \<and> limit \<le> g + r j))"], goal_cases)
  case step: (1 loop r g limit v i acc es)
  show ?case
  proof (cases "v < limit")
    case True
    then have "loop r g limit (g + r i) (int64 (i + 1)) (if g \<le> v then acc @ [v] else acc) = Some es"
      using step(2) by simp
    note IH = step(1) [OF this]
    have "limit \<le> g + r i \<or> g + r i < limit" by auto
    with IH True show ?thesis
      using int64_bounds [of "i + 1"] by (auto split: if_splits)
  next
    case False
    with step(2) show ?thesis by simp
  qed
qed

lemma int64_covers:
  assumes "- (2 ^ 63) \<le> i" "i < 2 ^ 63"
  shows "\<exists>k :: nat. int64 (int k) = i"
proof (intro exI)
  show "int64 (int (nat (i mod 2 ^ 64))) = i"
    using assms by (simp add: int64_def mod_simps)
qed

text \<open>
  C16: The loop that lists the blocks at which an upkeep is eligible returns exactly when the
  eligibility function reaches the end of the simulation for some value of its 64-bit counter.
\<close>

theorem eligibles_termination:
  assumes "\<not> mp_FoundResult (parse f)" "0 < limit"
  shows "generateEligibles parse genesis limit f upkeep \<noteq> None \<longleftrightarrow>
    (\<exists>i. - (2 ^ 63) \<le> i \<and> i < 2 ^ 63 \<and> limit \<le> genesis + eligible_offset parse f i)"
proof
  assume "generateEligibles parse genesis limit f upkeep \<noteq> None"
  then obtain es where "eligibles_loop (eligible_offset parse f) genesis limit 0 0 (su_EligibleAt upkeep) = Some es"
    using assms(1) by (auto simp: generateEligibles_eq)
  from eligibles_loop_result [OF this] assms(2)
  show "\<exists>i. - (2 ^ 63) \<le> i \<and> i < 2 ^ 63 \<and> limit \<le> genesis + eligible_offset parse f i" by simp
next
  assume "\<exists>i. - (2 ^ 63) \<le> i \<and> i < 2 ^ 63 \<and> limit \<le> genesis + eligible_offset parse f i"
  then obtain k :: nat where k: "limit \<le> genesis + eligible_offset parse f (int64 (int k))"
    using int64_covers by metis
  define n where "n = (LEAST k :: nat. limit \<le> genesis + eligible_offset parse f (int64 (int k)))"
  have n: "limit \<le> genesis + eligible_offset parse f (int64 (0 + int n))"
    using LeastI [of "\<lambda>k :: nat. limit \<le> genesis + eligible_offset parse f (int64 (int k))", OF k]
    by (simp add: n_def)
  have below: "genesis + eligible_offset parse f (int64 (0 + int j)) < limit" if "j < n" for j
    using not_less_Least [of j "\<lambda>k :: nat. limit \<le> genesis + eligible_offset parse f (int64 (int k))"] that
    by (simp add: n_def)
  have "int64 0 = 0" by simp
  then show "generateEligibles parse genesis limit f upkeep \<noteq> None"
    using assms eligibles_loop_ends [of 0 limit n genesis "eligible_offset parse f" 0, OF assms(2) below n]
    by (simp add: generateEligibles_eq)
qed

text \<open>
  When the function first reaches the limit at counter \<open>n\<close>, the eligible blocks are its values
  before that, counted from the upkeep's genesis, in order and without those before the genesis.
\<close>

lemma eligible_blocks_listed:
  assumes "\<not> mp_FoundResult (parse f)" "0 < limit" "0 < genesis" "int n < 2 ^ 63"
    and "\<And>k. k < n \<Longrightarrow> genesis + eligible_offset parse f (int k) < limit"
    and "limit \<le> genesis + eligible_offset parse f (int n)"
  shows "generateEligibles parse genesis limit f upkeep =
    Some (Inr (upkeep\<lparr>su_EligibleAt := su_EligibleAt upkeep @
      filter (\<lambda>b. genesis \<le> b) (map (\<lambda>k. genesis + eligible_offset parse f (int k)) [0..<n])\<rparr>))"
proof -
  have small: "int64 (int k) = int k" if "k \<le> n" for k
    using assms(4) that by (intro int64_id) auto
  have "eligibles_loop (eligible_offset parse f) genesis limit 0 (int64 0) (su_EligibleAt upkeep) =
      Some (su_EligibleAt upkeep @ filter (\<lambda>b. genesis \<le> b)
        (0 # map (\<lambda>k. genesis + eligible_offset parse f (int64 (0 + int k))) [0..<n]))"
    using assms(2,5,6) small by (intro eligibles_loop_ends) auto
  moreover have "map (\<lambda>k. genesis + eligible_offset parse f (int64 (0 + int k))) [0..<n] =
      map (\<lambda>k. genesis + eligible_offset parse f (int k)) [0..<n]"
    using small by simp
  ultimately have "eligibles_loop (eligible_offset parse f) genesis limit 0 0 (su_EligibleAt upkeep) =
      Some (su_EligibleAt upkeep @ filter (\<lambda>b. genesis \<le> b)
        (map (\<lambda>k. genesis + eligible_offset parse f (int k)) [0..<n]))"
    using assms(3) by (simp only:) simp
  then show ?thesis
    using assms(1) by (simp add: generateEligibles_eq)
qed

text \<open>The example of the repository's tests: \<open>4x + 5\<close> from block 9, up to block 50\<close>

definition tk :: "nat \<Rightarrow> string \<Rightarrow> rat \<Rightarrow> Token" where
  "tk t s v = \<lparr>tk_Type = t, tk_Value = s, tk_ParseValue = v\<rparr>"

definition sample_parse :: mathparse where
  "sample_parse f =
     (if f = ''4x + 5'' then
        \<lparr>mp_FoundResult = False, mp_ValueResult = 0,
         mp_Tokens = [tk 3 ''4'' 4, tk 4 ''*'' 0, tk 2 ''x'' 0, tk 4 ''+'' 0, tk 3 ''5'' 5]\<rparr>
      else if f = ''0 * x'' then
        \<lparr>mp_FoundResult = False, mp_ValueResult = 0,
         mp_Tokens = [tk 3 ''0'' 0, tk 4 ''*'' 0, tk 2 ''x'' 0]\<rparr>
      else \<lparr>mp_FoundResult = True, mp_ValueResult = 1, mp_Tokens = []\<rparr>)"

lemma decimal_Round_of_int [simp]: "decimal_Round (of_int z) = z"
proof (cases "(of_int z :: rat) < 0")
  case True
  have "\<lfloor>1 / 2 - (of_int z :: rat)\<rfloor> = - z" by (rule floor_unique) simp_all
  with True show ?thesis by (simp add: decimal_Round_def)
next
  case False
  have "\<lfloor>(of_int z :: rat) + 1 / 2\<rfloor> = z" by (rule floor_unique) simp_all
  with False show ?thesis by (simp add: decimal_Round_def)
qed

lemma sample_offset: "eligible_offset sample_parse ''4x + 5'' i = 4 * i + 5"
proof -
  have "calcFromTokens (mp_Tokens (sample_parse ''4x + 5'')) i = of_int (4 * i + 5)"
    by (simp add: calcFromTokens_def sample_parse_def tk_def operate_def)
  then show ?thesis by (simp only: eligible_offset_def decimal_Round_of_int)
qed

definition sample_upkeep :: SimulatedUpkeep where
  "sample_upkeep = \<lparr>su_ID = 201, su_CreateInBlock = 101, su_UpkeepID = 7, su_Type = ConditionalType,
     su_AlwaysEligible = False, su_EligibleAt = [], su_TriggeredBy = [], su_CheckData = [],
     su_Expected = True\<rparr>"

lemma eligible_blocks_listed_witness:
  "generateEligibles sample_parse 9 50 ''4x + 5'' sample_upkeep =
     Some (Inr (sample_upkeep\<lparr>su_EligibleAt := [14, 18, 22, 26, 30, 34, 38, 42, 46]\<rparr>))"
proof -
  have "generateEligibles sample_parse 9 50 ''4x + 5'' sample_upkeep =
      Some (Inr (sample_upkeep\<lparr>su_EligibleAt := su_EligibleAt sample_upkeep @
        filter (\<lambda>b. 9 \<le> b) (map (\<lambda>k. 9 + eligible_offset sample_parse ''4x + 5'' (int k)) [0..<9])\<rparr>))"
    by (rule eligible_blocks_listed) (auto simp: sample_offset, simp add: sample_parse_def)
  then show ?thesis
    by (simp add: sample_offset sample_upkeep_def upt_rec)
qed

theorem eligibles_termination_witness:
  "generateEligibles sample_parse 9 50 ''4x + 5'' sample_upkeep \<noteq> None \<and>
   generateEligibles sample_parse 9 50 ''0 * x'' sample_upkeep = None"
proof
  have "(\<exists>i. - (2 ^ 63) \<le> i \<and> i < 2 ^ 63 \<and> 50 \<le> 9 + eligible_offset sample_parse ''4x + 5'' i)"
    by (rule exI [of _ 20]) (simp add: sample_offset)
  then show "generateEligibles sample_parse 9 50 ''4x + 5'' sample_upkeep \<noteq> None"
    by (subst eligibles_termination) (simp_all add: sample_parse_def)
  have "eligible_offset sample_parse ''0 * x'' i = 0" for i
    using decimal_Round_of_int [of 0]
    by (simp add: eligible_offset_def calcFromTokens_def sample_parse_def tk_def operate_def)
  then show "generateEligibles sample_parse 9 50 ''0 * x'' sample_upkeep = None"
    using eligibles_termination [of sample_parse "''0 * x''" 50 9 sample_upkeep]
    by (simp add: sample_parse_def)
qed

section \<open>Generated upkeeps\<close>

definition type_byte :: "SimUpkeepType \<Rightarrow> UpkeepType" where
  "type_byte t = (case t of ConditionalType \<Rightarrow> ConditionTrigger | LogTriggerType \<Rightarrow> LogTrigger)"

definition typed_id :: "SimulatedUpkeep \<Rightarrow> bool" where
  "typed_id u \<longleftrightarrow> GetUpkeepType (su_UpkeepID u) = type_byte (su_Type u)"

definition generated_ok :: "int \<Rightarrow> SimulatedUpkeep \<Rightarrow> bool" where
  "generated_ok limit u \<longleftrightarrow> typed_id u \<and> (\<forall>b\<in>set (su_EligibleAt u). b < limit) \<and>
     (su_AlwaysEligible u \<longrightarrow> su_EligibleAt u = [])"

definition planned_ids :: "GenerateUpkeepEvent \<Rightarrow> int list" where
  "planned_ids event = map (\<lambda>y. ge_StartID event + y) [1..ge_Count event]"

lemma newUpkeepID_eq: "newUpkeepID = NewUpkeepID"
  by (simp add: fun_eq_iff newUpkeepID_def NewUpkeepID_def)

lemma getTriggerType_byte: "getTriggerType s = Inr (t, b) \<Longrightarrow> b = type_byte t"
  by (auto simp: getTriggerType_def type_byte_def split: if_splits)

lemma simulated_upkeep_simps [simp]:
  "su_ID (simulated_upkeep sha event t b always y) = ge_StartID event + y"
  "su_AlwaysEligible (simulated_upkeep sha event t b always y) = always"
  "su_CreateInBlock (simulated_upkeep sha event t b always y) = ev_TriggerBlock event"
  by (simp_all add: simulated_upkeep_def Let_def)

lemma simulated_upkeep_ok:
  "getTriggerType (ge_UpkeepType event) = Inr (t, b) \<Longrightarrow> generated_ok limit (simulated_upkeep sha event t b always y)"
  by (simp add: generated_ok_def typed_id_def simulated_upkeep_def Let_def newUpkeepID_eq getTriggerType_byte)

lemma generateEligibles_ok:
  assumes "generateEligibles parse genesis limit f u = Some (Inr u')" "generated_ok limit u" "\<not> su_AlwaysEligible u"
  shows "generated_ok limit u' \<and> su_ID u' = su_ID u"
proof -
  from assms(1) have "\<not> mp_FoundResult (parse f)"
    by (auto simp: generateEligibles_def Let_def)
  with assms(1) obtain es where
    "eligibles_loop (eligible_offset parse f) genesis limit 0 0 (su_EligibleAt u) = Some es"
    "u' = u\<lparr>su_EligibleAt := es\<rparr>"
    by (auto simp: generateEligibles_eq)
  with eligibles_loop_result [OF this(1)] assms(2,3) show ?thesis
    by (auto simp: generated_ok_def typed_id_def)
qed

lemma eligibility_loop_ok:
  assumes "eligibility_loop parse f offset start limit mk ys gen = Some (Inr us)"
    and "\<forall>y. generated_ok limit (mk y) \<and> \<not> su_AlwaysEligible (mk y)"
    and "\<forall>u\<in>set gen. generated_ok limit u"
  shows "(\<forall>u\<in>set us. generated_ok limit u) \<and> map su_ID us = map su_ID gen @ map (\<lambda>y. su_ID (mk y)) ys"
  using assms
proof (induction ys arbitrary: gen)
  case (Cons y ys)
  from Cons.prems(1) obtain u where u: "generateEligibles parse (upkeep_genesis offset start y) limit f (mk y) = Some (Inr u)"
      and rest: "eligibility_loop parse f offset start limit mk ys (gen @ [u]) = Some (Inr us)"
    by (auto split: option.splits sum.splits)
  have "generated_ok limit u \<and> su_ID u = su_ID (mk y)"
    using Cons.prems(2) by (intro generateEligibles_ok [OF u]) simp_all
  with Cons.IH [OF rest Cons.prems(2)] Cons.prems(3) show ?case by simp
qed simp

lemma generateSimulatedUpkeeps_ok:
  assumes "generateSimulatedUpkeeps parse sha event start limit = Some (Inr us)"
  shows "(\<forall>u\<in>set us. generated_ok limit u) \<and> map su_ID us = planned_ids event"
proof (cases "ge_EligibilityFunc event = ''always'' \<or> ge_EligibilityFunc event = ''never''")
  case True
  with assms show ?thesis
    by (auto simp: generateSimulatedUpkeeps_def generateBasicSimulatedUpkeeps_def simulated_upkeep_ok
        planned_ids_def Let_def split: sum.splits)
next
  case False
  with assms obtain t b where tb: "getTriggerType (ge_UpkeepType event) = Inr (t, b)"
      and loop: "eligibility_loop parse (ge_EligibilityFunc event) (parse (ge_OffsetFunc event)) start limit
        (simulated_upkeep sha event t b False) [1..ge_Count event] [] = Some (Inr us)"
    by (auto simp: generateSimulatedUpkeeps_def generateEligibilityFuncSimulatedUpkeeps_def Let_def
        split: sum.splits)
  from eligibility_loop_ok [OF loop] simulated_upkeep_ok [OF tb] show ?thesis
    by (simp add: planned_ids_def)
qed

lemma generate_loop_ok:
  assumes "generate_loop parse sha genesis limit events gen = Some (Inr us)"
    and "\<forall>u\<in>set gen. generated_ok limit u"
  shows "(\<forall>u\<in>set us. generated_ok limit u) \<and> map su_ID us = map su_ID gen @ concat (map planned_ids events)"
  using assms
proof (induction events arbitrary: gen)
  case (Cons e events)
  from Cons.prems(1) obtain vs where vs: "generateSimulatedUpkeeps parse sha e genesis limit = Some (Inr vs)"
      and rest: "generate_loop parse sha genesis limit events (gen @ vs) = Some (Inr us)"
    by (auto split: option.splits sum.splits)
  from generateSimulatedUpkeeps_ok [OF vs] Cons.IH [OF rest] Cons.prems(2) show ?case by auto
qed simp

text \<open>
  C15: The upkeeps generated from a plan are those the plan asks for, in its order; the type of each
  can be read from its identifier, its eligible blocks lie before the end of the simulation, and one
  that is always eligible has none listed.
\<close>

theorem generated_upkeeps_typed:
  assumes "GenerateAllUpkeeps parse sha plan = Some (Inr us)"
  shows "map su_ID us = concat (map planned_ids (sp_GenerateUpkeeps plan)) \<and>
    (\<forall>u\<in>set us. GetUpkeepType (su_UpkeepID u) = type_byte (su_Type u) \<and>
      (\<forall>b\<in>set (su_EligibleAt u). b < bl_Genesis (sp_Blocks plan) + bl_Duration (sp_Blocks plan)) \<and>
      (su_AlwaysEligible u \<longrightarrow> su_EligibleAt u = []))"
  using generate_loop_ok [of parse sha _ _ _ "[]" us] assms
  by (auto simp: GenerateAllUpkeeps_def Let_def generated_ok_def typed_id_def)

definition always_plan :: SimulationPlan where
  "always_plan = sample_plan\<lparr>sp_GenerateUpkeeps :=
     [(hd (sp_GenerateUpkeeps sample_plan))\<lparr>ge_EligibilityFunc := ''always'', ge_UpkeepType := LogTriggerUpkeepType,
        ge_LogTriggeredBy := ''event''\<rparr>],
     sp_LogEvents := [\<lparr>ev_Type = LogTriggerEventType, ev_TriggerBlock = 103, ev_Comment = [],
        le_TriggerValue = ''event''\<rparr>]\<rparr>"

definition sample_sha :: "bytes \<Rightarrow> 256 word" where
  "sample_sha b = of_nat (sum_list (map of_char b))"

lemma always_plan_generates:
  "GenerateAllUpkeeps sample_parse sample_sha always_plan =
     Some (Inr (map (simulated_upkeep sample_sha (hd (sp_GenerateUpkeeps always_plan)) LogTriggerType LogTrigger True) [1, 2]))"
  by (simp add: GenerateAllUpkeeps_def always_plan_def sample_plan_def generateSimulatedUpkeeps_def
      generateBasicSimulatedUpkeeps_def getTriggerType_def LogTriggerUpkeepType_def ConditionalUpkeepType_def
      upto.simps)

theorem generated_upkeeps_typed_witness:
  "\<exists>us. GenerateAllUpkeeps sample_parse sample_sha always_plan = Some (Inr us) \<and> map su_ID us = [201, 202] \<and>
     (\<forall>u\<in>set us. GetUpkeepType (su_UpkeepID u) = LogTrigger)"
proof (intro exI conjI)
  note typed = generated_upkeeps_typed [OF always_plan_generates]
  let ?us = "map (simulated_upkeep sample_sha (hd (sp_GenerateUpkeeps always_plan)) LogTriggerType LogTrigger True) [1, 2]"
  show "GenerateAllUpkeeps sample_parse sample_sha always_plan = Some (Inr ?us)"
    by (rule always_plan_generates)
  show "map su_ID ?us = [201, 202]"
    by (simp add: always_plan_def sample_plan_def)
  show "\<forall>u\<in>set ?us. GetUpkeepType (su_UpkeepID u) = LogTrigger"
    using typed by (simp add: type_byte_def simulated_upkeep_def Let_def)
qed

end
