(* ===== verification/Sim_Sort.thy ===== *)
theory Sim_Sort
  imports Sim_Util
begin

text \<open>
  \<open>tools/simulator/util/sort.go\<close>: a map whose keys can be listed from the highest to the lowest. The
  locale \<open>sorted_map\<close> states what the block history and the report tracker rely on; the keys are
  compared as strings, so for block numbers it matters when the order of the decimal strings is the
  order of the numbers.
\<close>

section \<open>The interface\<close>

locale sorted_map =
  fixes put :: "'k :: linorder \<Rightarrow> 'v \<Rightarrow> 'm \<Rightarrow> 'm"
    and look :: "'m \<Rightarrow> 'k \<Rightarrow> 'v option"
    and top :: "nat \<Rightarrow> 'm \<Rightarrow> 'k list"
    and inv :: "'m \<Rightarrow> bool"
  assumes inv_put: "inv m \<Longrightarrow> inv (put k v m)"
    and look_put: "inv m \<Longrightarrow> look (put k v m) = (look m)(k \<mapsto> v)"
    and look_finite: "inv m \<Longrightarrow> finite (dom (look m))"
    and top_look: "inv m \<Longrightarrow> top n m = take n (rev (sorted_list_of_set (dom (look m))))"
begin

lemma inv_fold: "inv m \<Longrightarrow> inv (fold (\<lambda>(k, v). put k v) es m)"
  by (induction es arbitrary: m) (auto simp: inv_put)

lemma look_fold: "inv m \<Longrightarrow> look (fold (\<lambda>(k, v). put k v) es m) = look m ++ map_of (rev es)"
proof (induction es arbitrary: m)
  case (Cons e es)
  then show ?case
    by (cases e) (simp add: look_put inv_put map_add_upd_left fun_eq_iff map_add_def split: option.splits)
qed simp

text \<open>The listing is descending and leaves out only lower keys.\<close>

lemma top_descending: "inv m \<Longrightarrow> sorted_wrt (>) (top n m)"
  by (simp add: top_look sorted_wrt_take sorted_wrt_rev)

lemma top_highest:
  assumes "inv m" "k \<in> set (top n m)" "k' \<in> dom (look m)" "k' \<notin> set (top n m)"
  shows "k' < k"
proof -
  let ?ks = "rev (sorted_list_of_set (dom (look m)))"
  have desc: "sorted_wrt (>) ?ks" by (simp add: sorted_wrt_rev)
  have "k' \<in> set (drop n ?ks)"
    using assms by (metis Un_iff append_take_drop_id look_finite set_append set_rev set_sorted_list_of_set top_look)
  moreover have "k \<in> set (take n ?ks)" using assms(1,2) top_look by metis
  ultimately show ?thesis
    using desc by (metis append_take_drop_id sorted_wrt_append)
qed

text \<open>Keys that encode numbers in their order are listed in the order of the numbers.\<close>

lemma top_numbers:
  assumes "inv m" "dom (look m) = f ` S" "strict_mono_on S (f :: int \<Rightarrow> 'k)"
  shows "top n m = map f (take n (rev (sorted_list_of_set S)))"
proof -
  have fin: "finite S"
    using assms look_finite [OF assms(1)] by (metis finite_imageD strict_mono_on_imp_inj_on)
  have "sorted_list_of_set (f ` S) = map f (sorted_list_of_set S)"
  proof (rule sorted_distinct_set_unique)
    have "sorted_wrt (\<lambda>a b. f a \<le> f b) (sorted_list_of_set S)"
      using fin assms(3)
      by (intro sorted_wrt_mono_rel [OF _ sorted_list_of_set.strict_sorted_key_list_of_set])
        (auto simp: strict_mono_on_def less_imp_le)
    then show "sorted (map f (sorted_list_of_set S))" by (simp add: sorted_wrt_map)
  qed (use fin assms(3) in \<open>auto simp: distinct_map strict_mono_on_imp_inj_on\<close>)
  with assms show ?thesis by (simp add: top_look rev_map take_map)
qed

end

section \<open>\<open>SortedKeyMap\<close>\<close>

record 'a SortedKeyMap =
  skm_values :: "string \<Rightarrow> 'a option"
  skm_keys :: "string list"

definition NewSortedKeyMap :: "'a SortedKeyMap" where
  "NewSortedKeyMap = \<lparr>skm_values = Map.empty, skm_keys = []\<rparr>"

definition skm_Set :: "string \<Rightarrow> 'a \<Rightarrow> 'a SortedKeyMap \<Rightarrow> 'a SortedKeyMap" where
  "skm_Set key v m =
     (let m1 = (if skm_values m key = None then m\<lparr>skm_keys := sort (skm_keys m @ [key])\<rparr> else m)
      in m1\<lparr>skm_values := (skm_values m1)(key \<mapsto> v)\<rparr>)"

text \<open>\<open>Get\<close>; \<^const>\<open>None\<close> is the zero value with \<open>false\<close>.\<close>

definition skm_Get :: "string \<Rightarrow> 'a SortedKeyMap \<Rightarrow> 'a option" where
  "skm_Get key m = skm_values m key"

definition skm_Keys :: "int \<Rightarrow> 'a SortedKeyMap \<Rightarrow> string list result" where
  "skm_Keys c m =
     (let keysLen = length (skm_keys m); c' = (if c > int keysLen then int keysLen else c)
      in if c' < 0 then Inl (Panic ''makeslice: len out of range'')
         else Inr (map (\<lambda>i. skm_keys m ! (keysLen - i)) [1..<nat c' + 1]))"

definition skm_inv :: "'a SortedKeyMap \<Rightarrow> bool" where
  "skm_inv m \<longleftrightarrow> sorted (skm_keys m) \<and> distinct (skm_keys m) \<and> set (skm_keys m) = dom (skm_values m)"

lemma skm_inv_New: "skm_inv NewSortedKeyMap"
  by (simp add: skm_inv_def NewSortedKeyMap_def)

lemma skm_inv_Set: "skm_inv m \<Longrightarrow> skm_inv (skm_Set k v m)"
  by (auto simp: skm_inv_def skm_Set_def Let_def)

lemma skm_keys_sorted_list: "skm_inv m \<Longrightarrow> skm_keys m = sorted_list_of_set (dom (skm_values m))"
  unfolding skm_inv_def by (metis List.finite_set sorted_list_of_set_sort_remdups distinct_remdups_id sorted_sort_id)

lemma map_nth_back: "n \<le> length xs \<Longrightarrow> map (\<lambda>i. xs ! (length xs - i)) [1..<n + 1] = take n (rev xs)"
  by (rule nth_equalityI) (auto simp: rev_nth simp del: upt_Suc)

lemma skm_Keys_take: "0 \<le> c \<Longrightarrow> skm_Keys c m = Inr (take (nat c) (rev (skm_keys m)))"
  using map_nth_back [of "length (skm_keys m)" "skm_keys m"] map_nth_back [of "nat c" "skm_keys m"]
  by (cases "int (length (skm_keys m)) < c") (simp_all add: skm_Keys_def Let_def del: upt_Suc)

definition skm_top :: "nat \<Rightarrow> 'a SortedKeyMap \<Rightarrow> string list" where
  "skm_top n m = projr (skm_Keys (int n) m)"

interpretation skm: sorted_map skm_Set skm_values skm_top skm_inv
proof unfold_locales
  show "skm_inv m \<Longrightarrow> skm_inv (skm_Set k v m)" for m :: "'a SortedKeyMap" and k v
    by (rule skm_inv_Set)
  show "skm_values (skm_Set k v m) = (skm_values m)(k \<mapsto> v)" for m :: "'a SortedKeyMap" and k v
    by (simp add: skm_Set_def Let_def)
  show "skm_inv m \<Longrightarrow> finite (dom (skm_values m))" for m :: "'a SortedKeyMap"
    unfolding skm_inv_def by (metis List.finite_set)
  show "skm_inv m \<Longrightarrow> skm_top n m = take n (rev (sorted_list_of_set (dom (skm_values m))))"
    for m :: "'a SortedKeyMap" and n
    by (simp add: skm_top_def skm_Keys_take skm_keys_sorted_list)
qed

section \<open>Decimal strings\<close>

lemma dec_digit_less: "d < 10 \<Longrightarrow> e < 10 \<Longrightarrow> dec_digit d < dec_digit e \<longleftrightarrow> d < e"
  by (simp add: dec_digit_def less_char_def)

lemma list_less_snoc:
  "length xs = length ys \<Longrightarrow>
     xs @ [a] < ys @ [b] \<longleftrightarrow> xs < ys \<or> xs = ys \<and> (a :: 'a :: linorder) < b"
  by (induction xs ys rule: list_induct2) auto

lemma less_div_mod_10: "(a :: nat) div 10 < b div 10 \<or> a div 10 = b div 10 \<and> a mod 10 < b mod 10 \<longleftrightarrow> a < b"
proof -
  have "10 * qa + ra < 10 * qb + rb \<longleftrightarrow> qa < qb \<or> qa = qb \<and> ra < rb"
    if "ra < 10" "rb < 10" for qa qb ra rb :: nat
    using that by linarith
  from this [of "a mod 10" "b mod 10" "a div 10" "b div 10"] show ?thesis by simp
qed

lemma format_d_less:
  "length (format_d a) = length (format_d b) \<Longrightarrow> format_d a < format_d b \<longleftrightarrow> a < b"
proof (induction a arbitrary: b rule: format_d.induct)
  case (1 a)
  show ?case
  proof (cases "a < 10"; cases "b < 10")
    assume "a < 10" "b < 10"
    then show ?thesis by (simp add: format_d.simps [of a] format_d.simps [of b] dec_digit_less)
  next
    assume big: "\<not> a < 10" "\<not> b < 10"
    then have len: "length (format_d (a div 10)) = length (format_d (b div 10))"
      using "1.prems" by (simp add: format_d.simps [of a] format_d.simps [of b])
    have fa: "format_d a = format_d (a div 10) @ [dec_digit (a mod 10)]"
      and fb: "format_d b = format_d (b div 10) @ [dec_digit (b mod 10)]"
      using big by (simp_all add: format_d.simps [of a] format_d.simps [of b])
    have inj: "format_d (a div 10) = format_d (b div 10) \<longleftrightarrow> a div 10 = b div 10"
      by (metis format_d_inj)
    have "format_d a < format_d b \<longleftrightarrow> a div 10 < b div 10 \<or> a div 10 = b div 10 \<and> a mod 10 < b mod 10"
      unfolding fa fb list_less_snoc [OF len] "1.IH" [OF big(1) len] inj
      by (simp add: dec_digit_less)
    also have "\<dots> \<longleftrightarrow> a < b" by (rule less_div_mod_10)
    finally show ?thesis .
  qed (use "1.prems" in \<open>simp_all add: format_d.simps [of a] format_d.simps [of b]\<close>)
qed

text \<open>Block numbers with the same number of digits\<close>

definition same_width :: "int set \<Rightarrow> bool" where
  "same_width S \<longleftrightarrow> (\<forall>a\<in>S. 0 \<le> a) \<and> (\<forall>a\<in>S. \<forall>b\<in>S. length (big_String a) = length (big_String b))"

lemma big_String_mono: "same_width S \<Longrightarrow> strict_mono_on S big_String"
  unfolding strict_mono_on_def
proof (intro allI impI)
  fix a b
  assume "same_width S" "a \<in> S \<and> b \<in> S \<and> a < b"
  then have "length (big_String a) = length (big_String b)" "0 \<le> a" "0 \<le> b" "a < b"
    unfolding same_width_def by auto
  then show "big_String a < big_String b"
    by (simp add: big_String_def format_d_less)
qed

end
