(* ===== verification/Sim_Chain.thy ===== *)
theory Sim_Chain
  imports Sim_Generate Sim_Sort
begin

text \<open>
  \<open>tools/simulator/simulate/chain\<close>: what a node sees of the simulated chain. The listener
  (\<open>listener.go\<close>) splits a block into events for its subscribers; each event is sent by a goroutine of
  its own, so a subscriber receives them in any order. The block history (\<open>history.go\<close>) lists the
  latest blocks for the plugin.
\<close>

section \<open>Listener\<close>

datatype EventChannel = BlockChannel | LogTriggerChannel | OCR3ConfigChannel | PerformUpkeepChannel | CreateUpkeepChannel

datatype chain_event = BlockEvent Block | TransactionEvent transaction

record ChainEvent =
  ce_BlockNumber :: int
  ce_BlockHash :: "256 word"
  ce_Event :: chain_event

text \<open>A channel made by \<open>Subscribe\<close> is a number; \<open>li_channels\<close> counts them.\<close>

record Listener =
  li_lastBlock :: "int option"
  li_blocks :: "string \<Rightarrow> Block option"
  li_subscriptions :: "EventChannel \<Rightarrow> nat list"
  li_channels :: nat

definition NewListener :: Listener where
  "NewListener = \<lparr>li_lastBlock = None, li_blocks = Map.empty, li_subscriptions = (\<lambda>_. []), li_channels = 0\<rparr>"

definition add_subscription :: "nat \<Rightarrow> EventChannel \<Rightarrow> (EventChannel \<Rightarrow> nat list) \<Rightarrow> EventChannel \<Rightarrow> nat list" where
  "add_subscription chNew channel subs = subs(channel := subs channel @ [chNew])"

definition li_Subscribe :: "EventChannel list \<Rightarrow> Listener \<Rightarrow> nat \<times> Listener" where
  "li_Subscribe channels cl =
     (let chNew = li_channels cl
      in (chNew, cl\<lparr>li_channels := chNew + 1,
            li_subscriptions := fold (add_subscription chNew) channels (li_subscriptions cl)\<rparr>))"

definition saveBlock :: "Block \<Rightarrow> Listener \<Rightarrow> Listener" where
  "saveBlock block cl =
     cl\<lparr>li_blocks := (li_blocks cl)(hex_EncodeToString (b_Hash block) \<mapsto> block), li_lastBlock := Some (b_Number block)\<rparr>"

text \<open>The sends that \<open>broadcastTransaction\<close> starts\<close>

definition broadcastTransaction :: "EventChannel \<Rightarrow> ChainEvent \<Rightarrow> Listener \<Rightarrow> (nat \<times> ChainEvent) list" where
  "broadcastTransaction channel event cl = map (\<lambda>chSub. (chSub, event)) (li_subscriptions cl channel)"

definition channelName :: "transaction \<Rightarrow> EventChannel" where
  "channelName t =
     (case t of
        LogTransaction _ \<Rightarrow> LogTriggerChannel
      | OCR3ConfigTransaction _ \<Rightarrow> OCR3ConfigChannel
      | PerformUpkeepTransaction _ \<Rightarrow> PerformUpkeepChannel
      | UpkeepCreatedTransaction _ \<Rightarrow> CreateUpkeepChannel)"

definition chain_event_of :: "Block \<Rightarrow> chain_event \<Rightarrow> ChainEvent" where
  "chain_event_of block e = \<lparr>ce_BlockNumber = b_Number block, ce_BlockHash = b_Hash block, ce_Event = e\<rparr>"

definition receive_block :: "Block \<Rightarrow> Listener \<Rightarrow> (nat \<times> ChainEvent) list \<times> Listener" where
  "receive_block block cl =
     (let cl = saveBlock block cl
      in (broadcastTransaction BlockChannel (chain_event_of block (BlockEvent block)) cl @
          concat (map (\<lambda>t. broadcastTransaction (channelName t) (chain_event_of block (TransactionEvent t)) cl)
            (b_Transactions block)), cl))"

text \<open>A subscriber of distinct channels is sent every event of those channels once and nothing else.\<close>

lemma subscriptions_fold:
  "fold (add_subscription n) channels m ch = m ch @ replicate (count_list channels ch) n"
  by (induction channels arbitrary: m) (auto simp: add_subscription_def replicate_app_Cons_same)

definition received_by :: "nat \<Rightarrow> (nat \<times> ChainEvent) list \<Rightarrow> ChainEvent list" where
  "received_by n sends = map snd (filter (\<lambda>s. fst s = n) sends)"

lemma received_broadcast:
  "received_by n (broadcastTransaction ch e cl) = replicate (count_list (li_subscriptions cl ch) n) e"
proof -
  have "map snd (filter (\<lambda>s. fst s = n) (map (\<lambda>c. (c, e)) xs)) = replicate (count_list xs n) e" for xs
    by (induction xs) auto
  then show ?thesis by (simp add: received_by_def broadcastTransaction_def)
qed

definition fresh_channels :: "Listener \<Rightarrow> bool" where
  "fresh_channels cl \<longleftrightarrow> (\<forall>ch. \<forall>n\<in>set (li_subscriptions cl ch). n < li_channels cl)"

lemma fresh_channels_Subscribe: "fresh_channels cl \<Longrightarrow> fresh_channels (snd (li_Subscribe chs cl))"
  by (auto simp: fresh_channels_def li_Subscribe_def Let_def subscriptions_fold less_SucI)

text \<open>
  A subscriber is sent the block if it subscribed to blocks and each transaction whose channel it
  subscribed to, once, in the order of the block, whatever others subscribe to.
\<close>

lemma subscriber_receives_its_events:
  assumes "fresh_channels cl" "distinct channels" "li_Subscribe channels cl = (n, cl')"
  shows "received_by n (fst (receive_block block cl')) =
    (if BlockChannel \<in> set channels then [chain_event_of block (BlockEvent block)] else []) @
    map (\<lambda>t. chain_event_of block (TransactionEvent t)) (filter (\<lambda>t. channelName t \<in> set channels) (b_Transactions block))"
proof -
  have n: "n = li_channels cl" and cl': "li_subscriptions cl' = fold (add_subscription n) channels (li_subscriptions cl)"
    using assms(3) by (auto simp: li_Subscribe_def Let_def)
  have "n \<notin> set (li_subscriptions cl ch)" for ch
    using assms(1) n by (auto simp: fresh_channels_def)
  then have cnt: "count_list (li_subscriptions cl' ch) n = (if ch \<in> set channels then 1 else 0)" for ch
    by (simp add: cl' subscriptions_fold count_list_distinct [OF assms(2)] count_notin)
  have "received_by n (concat (map f ts)) = concat (map (\<lambda>t. received_by n (f t)) ts)"
    for f :: "transaction \<Rightarrow> (nat \<times> ChainEvent) list" and ts
    by (induction ts) (simp_all add: received_by_def)
  moreover have "concat (map (\<lambda>t. replicate (if P t then 1 else 0) (g t)) ts) = map g (filter P ts)"
    for P and g :: "transaction \<Rightarrow> ChainEvent" and ts
    by (induction ts) auto
  moreover have "received_by n (xs @ ys) = received_by n xs @ received_by n ys" for xs ys
    by (simp add: received_by_def)
  ultimately show ?thesis
    by (simp add: receive_block_def Let_def received_broadcast cnt saveBlock_def)
qed

lemma subscriber_receives_its_events_witness:
  "received_by 0 (fst (receive_block \<lparr>b_Hash = 1, b_Number = 5, b_Transactions = [PerformUpkeepTransaction []]\<rparr>
     (snd (li_Subscribe [BlockChannel, CreateUpkeepChannel] NewListener)))) =
   [chain_event_of \<lparr>b_Hash = 1, b_Number = 5, b_Transactions = [PerformUpkeepTransaction []]\<rparr>
     (BlockEvent \<lparr>b_Hash = 1, b_Number = 5, b_Transactions = [PerformUpkeepTransaction []]\<rparr>)]"
proof -
  have sub: "li_Subscribe [BlockChannel, CreateUpkeepChannel] NewListener =
      (0, snd (li_Subscribe [BlockChannel, CreateUpkeepChannel] NewListener))"
    by (simp add: li_Subscribe_def NewListener_def)
  have "fresh_channels NewListener" by (simp add: fresh_channels_def NewListener_def)
  from subscriber_receives_its_events [OF this _ sub] show ?thesis by (simp add: channelName_def)
qed

section \<open>Block history\<close>

definition defaultBlockHistoryChannelDepth :: nat where "defaultBlockHistoryChannelDepth = 100"
definition defaultHistoryDepth :: int where "defaultHistoryDepth = 256"

text \<open>A channel of histories is the list of histories not yet received from it.\<close>

record BlockHistoryTracker =
  ht_channels :: "int \<Rightarrow> BlockHistory list option"
  ht_history :: "Block SortedKeyMap"
  ht_count :: int

definition NewBlockHistoryTracker :: BlockHistoryTracker where
  "NewBlockHistoryTracker = \<lparr>ht_channels = Map.empty, ht_history = NewSortedKeyMap, ht_count = 0\<rparr>"

definition ht_Subscribe :: "BlockHistoryTracker \<Rightarrow> int \<times> BlockHistoryTracker" where
  "ht_Subscribe ht =
     (let n = ht_count ht + 1 in (n, ht\<lparr>ht_count := n, ht_channels := (ht_channels ht)(n \<mapsto> [])\<rparr>))"

definition ht_Unsubscribe :: "int \<Rightarrow> BlockHistoryTracker \<Rightarrow> BlockHistoryTracker" where
  "ht_Unsubscribe channelID ht = ht\<lparr>ht_channels := (ht_channels ht)(channelID := None)\<rparr>"

definition history_keys :: "BlockHistoryTracker \<Rightarrow> BlockHistory" where
  "history_keys ht =
     (let ks = projr (skm_Keys defaultHistoryDepth (ht_history ht))
      in map (\<lambda>k. let block = the (skm_Get k (ht_history ht))
                  in BlockKey (bigInt_Uint64 (b_Number block)) (b_Hash block)) ks)"

text \<open>The send blocks while a channel is full.\<close>

definition ht_broadcast :: "BlockHistoryTracker \<Rightarrow> BlockHistoryTracker result" where
  "ht_broadcast ht =
     (if \<exists>n\<in>dom (ht_channels ht). length (the (ht_channels ht n)) \<ge> defaultBlockHistoryChannelDepth then Inl Blocked
      else Inr (ht\<lparr>ht_channels := (\<lambda>n. map_option (\<lambda>hs. hs @ [history_keys ht]) (ht_channels ht n))\<rparr>))"

definition ht_receive :: "Block \<Rightarrow> BlockHistoryTracker \<Rightarrow> BlockHistoryTracker result" where
  "ht_receive evt ht = ht_broadcast (ht\<lparr>ht_history := skm_Set (big_String (b_Number evt)) evt (ht_history ht)\<rparr>)"

text \<open>The history after a list of blocks\<close>

definition tracked :: "Block list \<Rightarrow> Block SortedKeyMap" where
  "tracked bs = fold (\<lambda>b. skm_Set (big_String (b_Number b)) b) bs NewSortedKeyMap"

definition history_of :: "Block list \<Rightarrow> BlockHistory" where
  "history_of bs = history_keys (NewBlockHistoryTracker\<lparr>ht_history := tracked bs\<rparr>)"

lemma tracked_fold: "tracked bs = fold (\<lambda>(k, v). skm_Set k v) (map (\<lambda>b. (big_String (b_Number b), b)) bs) NewSortedKeyMap"
  by (simp add: tracked_def fold_map o_def)

lemma tracked_inv: "skm_inv (tracked bs)"
  unfolding tracked_fold by (rule skm.inv_fold) (rule skm_inv_New)

lemma tracked_values: "skm_values (tracked bs) = map_of (rev (map (\<lambda>b. (big_String (b_Number b), b)) bs))"
  unfolding tracked_fold by (subst skm.look_fold [OF skm_inv_New]) (simp add: NewSortedKeyMap_def)

lemma tracked_look:
  assumes "skm_values (tracked bs) (big_String n) = Some b"
  shows "b \<in> set bs \<and> b_Number b = n"
  using map_of_SomeD [OF assms [unfolded tracked_values]] by (auto simp: big_String_inj)

lemma tracked_dom: "dom (skm_values (tracked bs)) = big_String ` b_Number ` set bs"
  unfolding tracked_values by (force simp: dom_map_of_conv_image_fst)

lemma history_of_top:
  "history_of bs = map (\<lambda>k. let block = the (skm_values (tracked bs) k)
     in BlockKey (bigInt_Uint64 (b_Number block)) (b_Hash block)) (skm_top 256 (tracked bs))"
  by (simp add: history_of_def history_keys_def skm_top_def skm_Get_def defaultHistoryDepth_def Let_def)

text \<open>
  C25: While all block numbers have the same number of decimal digits, the history a node is given lists
  the newest 256 blocks, the newest first.
\<close>

theorem history_newest_first:
  assumes "same_width (b_Number ` set bs)" "\<forall>b\<in>set bs. b_Number b < 2 ^ 64"
  shows "map (\<lambda>k. uint (bk_Number k)) (history_of bs) = take 256 (rev (sorted_list_of_set (b_Number ` set bs)))"
proof -
  let ?S = "b_Number ` set bs"
  have "skm_top 256 (tracked bs) = map big_String (take 256 (rev (sorted_list_of_set ?S)))"
    using tracked_inv tracked_dom big_String_mono [OF assms(1)]
    by (intro skm.top_numbers) auto
  moreover have "uint (bigInt_Uint64 (b_Number (the (skm_values (tracked bs) (big_String n))))) = n"
    if "n \<in> set (take 256 (rev (sorted_list_of_set ?S)))" for n
  proof -
    have "n \<in> ?S" using that set_take_subset by fastforce
    then obtain b where b: "skm_values (tracked bs) (big_String n) = Some b"
      using tracked_dom by (metis domD imageI)
    moreover have "0 \<le> n" "n < 2 ^ 64"
      using \<open>n \<in> ?S\<close> assms by (auto simp: same_width_def)
    ultimately show ?thesis using tracked_look [OF b] by simp
  qed
  ultimately show ?thesis by (simp add: history_of_top Let_def map_idI)
qed

definition numbered :: "int \<Rightarrow> Block" where
  "numbered n = \<lparr>b_Hash = word_of_int n, b_Number = n, b_Transactions = []\<rparr>"

theorem history_newest_first_witness:
  "map (\<lambda>k. uint (bk_Number k)) (history_of [numbered 10, numbered 12, numbered 11]) = [12, 11, 10]"
proof -
  have "same_width (b_Number ` set [numbered 10, numbered 12, numbered 11])"
    by (simp add: same_width_def numbered_def big_String_def format_d.simps)
  from history_newest_first [OF this] show ?thesis
    by (simp add: numbered_def insort_remove1)
qed

text \<open>When the numbers gain a digit, the history starts with an old block for a long time.\<close>

lemma history_across_digits:
  "map (\<lambda>k. uint (bk_Number k)) (history_of [numbered 9, numbered 10]) = [9, 10]"
proof -
  have strings: "big_String 9 = ''9''" "big_String 10 = ''10''"
    by (simp_all add: big_String_def format_d.simps dec_digit_def char_of_def bit_Suc_0_iff)
  have less: "(''10'' :: string) < ''9''" by (simp add: less_char_def)
  have "skm_keys (tracked [numbered 9, numbered 10]) = [''10'', ''9'']"
    using less by (simp add: tracked_def numbered_def strings skm_Set_def NewSortedKeyMap_def)
  moreover have "skm_values (tracked [numbered 9, numbered 10]) = [''9'' \<mapsto> numbered 9, ''10'' \<mapsto> numbered 10]"
    by (simp add: tracked_def numbered_def strings skm_Set_def NewSortedKeyMap_def)
  ultimately show ?thesis
    by (simp add: history_of_def history_keys_def skm_Keys_take defaultHistoryDepth_def skm_Get_def numbered_def
        Let_def bigInt_Uint64_def)
qed

text \<open>In every case the numbers of a history differ, which is what the node requires of it.\<close>

lemma history_distinct:
  assumes "\<forall>b\<in>set bs. 0 \<le> b_Number b \<and> b_Number b < 2 ^ 64"
  shows "distinct (map bk_Number (history_of bs))"
proof -
  let ?n = "\<lambda>k. bigInt_Uint64 (b_Number (the (skm_values (tracked bs) k)))"
  have str: "k = big_String (uint (?n k))" if "k \<in> set (skm_top 256 (tracked bs))" for k
  proof -
    have "k \<in> dom (skm_values (tracked bs))"
      using that set_take_subset by (fastforce simp: skm.top_look [OF tracked_inv] skm.look_finite [OF tracked_inv])
    then obtain n where n: "k = big_String n" "n \<in> b_Number ` set bs" using tracked_dom by auto
    then obtain b where b: "skm_values (tracked bs) k = Some b" using tracked_dom by (metis domD imageI)
    with n tracked_look [of bs n b] assms show ?thesis by auto
  qed
  have "distinct (skm_top 256 (tracked bs))"
    by (simp add: skm.top_look [OF tracked_inv] distinct_take)
  moreover have "inj_on ?n (set (skm_top 256 (tracked bs)))"
    by (rule inj_onI) (metis str)
  ultimately have "distinct (map ?n (skm_top 256 (tracked bs)))" by (simp add: distinct_map)
  then show ?thesis by (simp add: history_of_top Let_def o_def)
qed

end
