(* ===== verification/Sim_Upkeep.thy ===== *)
theory Sim_Upkeep
  imports Sim_Chain Observation
begin

text \<open>
  \<open>tools/simulator/simulate/upkeep\<close>: the providers and the check pipeline a simulated node runs on. The
  trackers of active upkeeps (\<open>active.go\<close>), of logs (\<open>log.go\<close>) and of performs (\<open>perform.go\<close>) follow the
  chain; the source (\<open>source.go\<close>) makes payloads of them; the pipeline (\<open>pipeline.go\<close>) checks payloads;
  \<open>util.go\<close> encodes reports. Keccak, \<open>LogIdentifier\<close>, \<open>UpkeepIdentifier.String\<close> and the JSON codec are
  arguments, as are the outcomes of the two simulated RPC calls.
\<close>

section \<open>Active upkeeps\<close>

record ActiveTracker =
  at_active :: "SimUpkeepType \<Rightarrow> string list option"
  at_idLookup :: "string \<Rightarrow> SimulatedUpkeep option"
  at_latest :: Block

definition NewActiveTracker :: ActiveTracker where
  "NewActiveTracker = \<lparr>at_active = Map.empty, at_idLookup = Map.empty,
     at_latest = \<lparr>b_Hash = 0, b_Number = 0, b_Transactions = []\<rparr>\<rparr>"

definition GetAllByType :: "SimUpkeepType \<Rightarrow> ActiveTracker \<Rightarrow> SimulatedUpkeep list" where
  "GetAllByType upkeepType atr =
     (case at_active atr upkeepType of
        None \<Rightarrow> []
      | Some ids \<Rightarrow> List.map_filter (at_idLookup atr) ids)"

definition GetByUpkeepID :: "256 word \<Rightarrow> ActiveTracker \<Rightarrow> SimulatedUpkeep option" where
  "GetByUpkeepID uniqueID atr = at_idLookup atr (hex_EncodeToString uniqueID)"

definition GetLatestBlock :: "ActiveTracker \<Rightarrow> Block" where
  "GetLatestBlock atr = at_latest atr"

definition addSimulatedUpkeep :: "SimulatedUpkeep \<Rightarrow> ActiveTracker \<Rightarrow> ActiveTracker" where
  "addSimulatedUpkeep upkeep atr =
     (let upkeepIDs = (case at_active atr (su_Type upkeep) of None \<Rightarrow> [] | Some ids \<Rightarrow> ids);
          key = hex_EncodeToString (su_UpkeepID upkeep)
      in atr\<lparr>at_active := (at_active atr)(su_Type upkeep \<mapsto> upkeepIDs @ [key]),
             at_idLookup := (at_idLookup atr)(key \<mapsto> upkeep)\<rparr>)"

definition setLatestBlock :: "Block \<Rightarrow> ActiveTracker \<Rightarrow> ActiveTracker" where
  "setLatestBlock block atr = atr\<lparr>at_latest := block\<rparr>"

definition active_receive :: "ChainEvent \<Rightarrow> ActiveTracker \<Rightarrow> ActiveTracker" where
  "active_receive event atr =
     (case ce_Event event of
        TransactionEvent (UpkeepCreatedTransaction u) \<Rightarrow> addSimulatedUpkeep u atr
      | BlockEvent b \<Rightarrow> setLatestBlock b atr
      | _ \<Rightarrow> atr)"

text \<open>
  The invariant: an identifier is looked up under its own key, the type of an upkeep is that of its
  identifier, and the list of a type names upkeeps of that type.
\<close>

definition active_ids :: "ActiveTracker \<Rightarrow> SimUpkeepType \<Rightarrow> string list" where
  "active_ids atr t = (case at_active atr t of None \<Rightarrow> [] | Some ids \<Rightarrow> ids)"

definition active_inv :: "ActiveTracker \<Rightarrow> bool" where
  "active_inv atr \<longleftrightarrow>
     (\<forall>k u. at_idLookup atr k = Some u \<longrightarrow> k = hex_EncodeToString (su_UpkeepID u) \<and> typed_id u) \<and>
     (\<forall>t. \<forall>k\<in>set (active_ids atr t). \<exists>u. at_idLookup atr k = Some u \<and> su_Type u = t)"

lemma active_inv_New: "active_inv NewActiveTracker"
  by (simp add: active_inv_def active_ids_def NewActiveTracker_def)

lemma type_byte_inj: "type_byte s = type_byte t \<longleftrightarrow> s = t"
  by (cases s; cases t) (simp_all add: type_byte_def)

lemma active_inv_add:
  assumes "active_inv atr" "typed_id u"
  shows "active_inv (addSimulatedUpkeep u atr)"
proof -
  let ?k = "hex_EncodeToString (su_UpkeepID u)"
  have ids: "active_ids (addSimulatedUpkeep u atr) t = active_ids atr t @ (if t = su_Type u then [?k] else [])" for t
    by (simp add: active_ids_def addSimulatedUpkeep_def Let_def)
  have look: "at_idLookup (addSimulatedUpkeep u atr) = (at_idLookup atr)(?k \<mapsto> u)"
    by (simp add: addSimulatedUpkeep_def Let_def)
  have same: "su_Type v = su_Type u" if "at_idLookup atr ?k = Some v" for v
    using that assms unfolding active_inv_def typed_id_def by (metis type_byte_inj hex_EncodeToString_inj)
  show ?thesis
    unfolding active_inv_def ids look
  proof (intro conjI allI ballI impI)
    fix t k
    assume k: "k \<in> set (active_ids atr t @ (if t = su_Type u then [?k] else []))"
    show "\<exists>v. ((at_idLookup atr)(?k \<mapsto> u)) k = Some v \<and> su_Type v = t"
    proof (cases "k = ?k")
      case True
      with k assms(1) same show ?thesis by (force simp: active_inv_def split: if_splits)
    next
      case False
      with k assms(1) show ?thesis by (simp add: active_inv_def split: if_splits)
    qed
  qed (use assms in \<open>auto simp: active_inv_def split: if_splits\<close>)
qed

definition creates_typed :: "ChainEvent \<Rightarrow> bool" where
  "creates_typed e \<longleftrightarrow> (\<forall>u. ce_Event e = TransactionEvent (UpkeepCreatedTransaction u) \<longrightarrow> typed_id u)"

lemma active_inv_block [simp]: "active_inv (setLatestBlock b atr) = active_inv atr"
  by (simp add: active_inv_def active_ids_def setLatestBlock_def)

lemma active_inv_receive: "active_inv atr \<Longrightarrow> creates_typed e \<Longrightarrow> active_inv (active_receive e atr)"
  unfolding active_receive_def creates_typed_def
  by (auto simp: active_inv_add split: chain_event.splits transaction.splits)

lemma active_inv_fold: "active_inv atr \<Longrightarrow> \<forall>e\<in>set es. creates_typed e \<Longrightarrow> active_inv (fold active_receive es atr)"
  by (induction es arbitrary: atr) (simp_all add: active_inv_receive)

lemma GetAllByType_typed:
  assumes "active_inv atr" "u \<in> set (GetAllByType t atr)"
  shows "su_Type u = t \<and> typed_id u \<and> GetByUpkeepID (su_UpkeepID u) atr = Some u"
proof -
  from assms(2) obtain k where "k \<in> set (active_ids atr t)" "at_idLookup atr k = Some u"
    by (cases "at_active atr t") (auto simp: GetAllByType_def List.map_filter_def active_ids_def)
  with assms(1) show ?thesis unfolding active_inv_def GetByUpkeepID_def by fastforce
qed

section \<open>Performs\<close>

record PerformTracker =
  pt_conditionals :: "string \<Rightarrow> int list option"
  pt_performed :: "string \<Rightarrow> bool option"

definition NewPerformTracker :: PerformTracker where
  "NewPerformTracker = \<lparr>pt_conditionals = Map.empty, pt_performed = Map.empty\<rparr>"

definition PerformsForUpkeepID :: "string \<Rightarrow> PerformTracker \<Rightarrow> int list" where
  "PerformsForUpkeepID upkeepID pt = (case pt_conditionals pt upkeepID of Some performs \<Rightarrow> performs | None \<Rightarrow> [])"

definition IsWorkIDPerformed :: "string \<Rightarrow> PerformTracker \<Rightarrow> bool" where
  "IsWorkIDPerformed workID pt = (case pt_performed pt workID of Some ok \<Rightarrow> ok | None \<Rightarrow> False)"

text \<open>A transmit that was loaded into a block has a block number.\<close>

definition register_result ::
    "(UpkeepIdentifier \<Rightarrow> string) \<Rightarrow> ChainTransmit \<Rightarrow> CheckResult \<Rightarrow> PerformTracker \<Rightarrow> PerformTracker" where
  "register_result uidString transmit result pt =
     (let key = uidString (cr_UpkeepID result);
          pt = pt\<lparr>pt_performed := (pt_performed pt)(cr_WorkID result \<mapsto> True)\<rparr>
      in if GetUpkeepType (cr_UpkeepID result) = ConditionTrigger then
           (let performs = (case pt_conditionals pt key of None \<Rightarrow> [] | Some ps \<Rightarrow> ps)
            in pt\<lparr>pt_conditionals := (pt_conditionals pt)(key \<mapsto> performs @ [the (ct_BlockNumber transmit)])\<rparr>)
         else pt)"

definition registerTransmitted ::
    "(UpkeepIdentifier \<Rightarrow> string) \<Rightarrow> (bytes \<Rightarrow> CheckResult list result) \<Rightarrow> ChainTransmit list \<Rightarrow>
     PerformTracker \<Rightarrow> PerformTracker" where
  "registerTransmitted uidString unmarshal transmits pt =
     fold (\<lambda>transmit pt.
       case DecodeCheckResultsFromReportBytes unmarshal (ct_Report transmit) of
         Inl err \<Rightarrow> pt
       | Inr trResults \<Rightarrow> fold (register_result uidString transmit) trResults pt) transmits pt"

definition perform_receive ::
    "(UpkeepIdentifier \<Rightarrow> string) \<Rightarrow> (bytes \<Rightarrow> CheckResult list result) \<Rightarrow> ChainEvent \<Rightarrow> PerformTracker \<Rightarrow> PerformTracker" where
  "perform_receive uidString unmarshal event pt =
     (case ce_Event event of
        TransactionEvent (PerformUpkeepTransaction transmits) \<Rightarrow> registerTransmitted uidString unmarshal transmits pt
      | _ \<Rightarrow> pt)"

text \<open>The performed work of a list of transmits, as the reports list it\<close>

definition reported :: "(bytes \<Rightarrow> CheckResult list result) \<Rightarrow> ChainTransmit \<Rightarrow> CheckResult list" where
  "reported unmarshal transmit =
     (case DecodeCheckResultsFromReportBytes unmarshal (ct_Report transmit) of Inl err \<Rightarrow> [] | Inr rs \<Rightarrow> rs)"

lemma register_performed: "IsWorkIDPerformed w (register_result us tr r pt) \<longleftrightarrow> w = cr_WorkID r \<or> IsWorkIDPerformed w pt"
  by (simp add: register_result_def IsWorkIDPerformed_def Let_def)

lemma register_performs:
  "PerformsForUpkeepID k (register_result us tr r pt) =
     PerformsForUpkeepID k pt @
     (if k = us (cr_UpkeepID r) \<and> GetUpkeepType (cr_UpkeepID r) = ConditionTrigger then [the (ct_BlockNumber tr)] else [])"
  by (simp add: register_result_def PerformsForUpkeepID_def Let_def split: option.splits)

lemma register_results:
  "IsWorkIDPerformed w (fold (register_result us tr) rs pt) \<longleftrightarrow> w \<in> cr_WorkID ` set rs \<or> IsWorkIDPerformed w pt"
  "PerformsForUpkeepID k (fold (register_result us tr) rs pt) = PerformsForUpkeepID k pt @
     map (\<lambda>r. the (ct_BlockNumber tr)) (filter (\<lambda>r. us (cr_UpkeepID r) = k \<and> GetUpkeepType (cr_UpkeepID r) = ConditionTrigger) rs)"
  by (induction rs arbitrary: pt) (auto simp: register_performed register_performs)

lemma registerTransmitted_fold:
  "registerTransmitted us um trs pt = fold (\<lambda>tr. fold (register_result us tr) (reported um tr)) trs pt"
  unfolding registerTransmitted_def reported_def
  by (rule fold_cong) (auto simp: fun_eq_iff split: sum.splits)

text \<open>
  After a list of transmits, a work id counts as performed exactly when one of their reports (or an
  earlier one) contains it, and the performs of a conditional upkeep are the blocks of the transmits
  that reported it, in order.
\<close>

lemma performs_follow_transmits:
  "(IsWorkIDPerformed w (registerTransmitted us um trs pt) \<longleftrightarrow>
      IsWorkIDPerformed w pt \<or> (\<exists>tr\<in>set trs. \<exists>r\<in>set (reported um tr). cr_WorkID r = w)) \<and>
   PerformsForUpkeepID k (registerTransmitted us um trs pt) = PerformsForUpkeepID k pt @
     concat (map (\<lambda>tr. map (\<lambda>r. the (ct_BlockNumber tr))
       (filter (\<lambda>r. us (cr_UpkeepID r) = k \<and> GetUpkeepType (cr_UpkeepID r) = ConditionTrigger) (reported um tr))) trs)"
  unfolding registerTransmitted_fold
  by (induction trs arbitrary: pt) (auto simp: register_results)

end
