(* ===== verification/Sim_Pipeline.thy ===== *)
theory Sim_Pipeline
  imports Sim_Upkeep
begin

text \<open>
  \<open>tools/simulator/simulate/upkeep\<close>, continued: the payloads the source hands to the plugin
  (\<open>log.go\<close>, \<open>source.go\<close>), the check pipeline (\<open>pipeline.go\<close>) and the encoder (\<open>util.go\<close>).
\<close>

section \<open>Payloads\<close>

record triggeredUpkeep =
  tu_upkeep :: SimulatedUpkeep
  tu_blockNumber :: int
  tu_blockHash :: "256 word"
  tu_chainLog :: ChainLog

definition makePayloadFromUpkeep :: "WorkIDGenerator \<Rightarrow> SimulatedUpkeep \<Rightarrow> Block \<Rightarrow> UpkeepPayload" where
  "makePayloadFromUpkeep wg upkeep block =
     (let uid = su_UpkeepID upkeep;
          trigger = \<lparr>tr_BlockNumber = bigInt_Uint64 (b_Number block), tr_BlockHash = b_Hash block,
            tr_LogTriggerExtension = None\<rparr>
      in \<lparr>up_UpkeepID = uid, up_Trigger = trigger, up_WorkID = wg uid trigger, up_CheckData = su_CheckData upkeep\<rparr>)"

definition makeLogPayloadFromUpkeep :: "WorkIDGenerator \<Rightarrow> triggeredUpkeep \<Rightarrow> Block \<Rightarrow> UpkeepPayload" where
  "makeLogPayloadFromUpkeep wg triggered block =
     (let uid = su_UpkeepID (tu_upkeep triggered); chainLog = tu_chainLog triggered;
          trigger = \<lparr>tr_BlockNumber = bigInt_Uint64 (b_Number block), tr_BlockHash = b_Hash block,
            tr_LogTriggerExtension = Some \<lparr>lte_TxHash = cl_TxHash chainLog, lte_Index = cl_Idx chainLog,
              lte_BlockHash = cl_BlockHash chainLog, lte_BlockNumber = bigInt_Uint64 (cl_BlockNumber chainLog)\<rparr>\<rparr>
      in \<lparr>up_UpkeepID = uid, up_Trigger = trigger, up_WorkID = wg uid trigger,
          up_CheckData = su_CheckData (tu_upkeep triggered)\<rparr>)"

section \<open>Log triggers\<close>

record LogTriggerTracker =
  lt_triggered :: "triggeredUpkeep list"
  lt_read :: "triggeredUpkeep list"

definition NewLogTriggerTracker :: LogTriggerTracker where
  "NewLogTriggerTracker = \<lparr>lt_triggered = [], lt_read = []\<rparr>"

definition GetOnce :: "LogTriggerTracker \<Rightarrow> triggeredUpkeep list \<times> LogTriggerTracker" where
  "GetOnce ltt = (lt_triggered ltt, ltt\<lparr>lt_read := lt_read ltt @ lt_triggered ltt, lt_triggered := []\<rparr>)"

definition GetAfter ::
    "WorkIDGenerator \<Rightarrow> int \<Rightarrow> ActiveTracker \<Rightarrow> PerformTracker \<Rightarrow> LogTriggerTracker \<Rightarrow> triggeredUpkeep list" where
  "GetAfter wg number atr performs ltt =
     filter (\<lambda>tu. tu_blockNumber tu < number \<and>
         \<not> IsWorkIDPerformed (up_WorkID (makeLogPayloadFromUpkeep wg tu (GetLatestBlock atr))) performs)
       (rev (lt_read ltt))"

text \<open>\<open>logTriggersUpkeep\<close> of \<open>log.go\<close>; the loader has a function of the same name.\<close>

definition log_triggers_upkeep :: "ChainLog \<Rightarrow> SimulatedUpkeep \<Rightarrow> bool" where
  "log_triggers_upkeep chainLog upkeep \<longleftrightarrow> cl_TriggerValue chainLog = su_TriggeredBy upkeep"

definition triggered_by :: "int \<Rightarrow> 256 word \<Rightarrow> ChainLog \<Rightarrow> ActiveTracker \<Rightarrow> triggeredUpkeep list" where
  "triggered_by number hash chainLog atr =
     map (\<lambda>upkeep. \<lparr>tu_upkeep = upkeep, tu_blockNumber = number, tu_blockHash = hash, tu_chainLog = chainLog\<rparr>)
       (filter (log_triggers_upkeep chainLog) (GetAllByType LogTriggerType atr))"

definition createLogUpkeeps ::
    "int \<Rightarrow> 256 word \<Rightarrow> ChainLog \<Rightarrow> ActiveTracker \<Rightarrow> LogTriggerTracker \<Rightarrow> LogTriggerTracker" where
  "createLogUpkeeps number hash chainLog atr ltt =
     ltt\<lparr>lt_triggered := lt_triggered ltt @ triggered_by number hash chainLog atr\<rparr>"

definition log_receive :: "ActiveTracker \<Rightarrow> ChainEvent \<Rightarrow> LogTriggerTracker \<Rightarrow> LogTriggerTracker" where
  "log_receive atr event ltt =
     (case ce_Event event of
        TransactionEvent (LogTransaction l) \<Rightarrow>
          createLogUpkeeps (ce_BlockNumber event) (ce_BlockHash event) l atr ltt
      | _ \<Rightarrow> ltt)"

section \<open>Source\<close>

definition GetActiveUpkeeps :: "WorkIDGenerator \<Rightarrow> ActiveTracker \<Rightarrow> UpkeepPayload list" where
  "GetActiveUpkeeps wg atr =
     map (\<lambda>u. makePayloadFromUpkeep wg u (GetLatestBlock atr)) (GetAllByType ConditionalType atr)"

definition GetLatestPayloads ::
    "WorkIDGenerator \<Rightarrow> ActiveTracker \<Rightarrow> LogTriggerTracker \<Rightarrow> UpkeepPayload list \<times> LogTriggerTracker" where
  "GetLatestPayloads wg atr ltt =
     (let (upkeeps, ltt') = GetOnce ltt
      in (map (\<lambda>u. makeLogPayloadFromUpkeep wg u (GetLatestBlock atr)) upkeeps, ltt'))"

text \<open>The look-back itself is passed as the block number.\<close>

definition GetRecoveryProposals ::
    "WorkIDGenerator \<Rightarrow> int \<Rightarrow> ActiveTracker \<Rightarrow> PerformTracker \<Rightarrow> LogTriggerTracker \<Rightarrow> UpkeepPayload list" where
  "GetRecoveryProposals wg recoveryLookback atr performs ltt =
     map (\<lambda>u. makeLogPayloadFromUpkeep wg u (GetLatestBlock atr)) (GetAfter wg recoveryLookback atr performs ltt)"

definition BuildPayloads :: "WorkIDGenerator \<Rightarrow> ActiveTracker \<Rightarrow> CoordinatedBlockProposal list \<Rightarrow> UpkeepPayload list" where
  "BuildPayloads wg atr proposals =
     List.map_filter (\<lambda>proposal.
       case GetByUpkeepID (cbp_UpkeepID proposal) atr of
         None \<Rightarrow> None
       | Some simulated \<Rightarrow>
           Some \<lparr>up_UpkeepID = cbp_UpkeepID proposal, up_Trigger = cbp_Trigger proposal,
                 up_WorkID = wg (su_UpkeepID simulated) (cbp_Trigger proposal),
                 up_CheckData = su_CheckData simulated\<rparr>) proposals"

section \<open>Check pipeline\<close>

text \<open>The scan of the eligible blocks from the last one down\<close>

fun eligible_scan :: "int list \<Rightarrow> int \<Rightarrow> int list \<Rightarrow> bool" where
  "eligible_scan performs block [] = False"
| "eligible_scan performs block (eligibleBlock # es) =
     (if block \<ge> eligibleBlock then
        (let blockRange = bigInt_Int64 (block - eligibleBlock)
         in \<not> list_ex (\<lambda>rangePoint. list_ex (\<lambda>performBlock. performBlock = eligibleBlock + rangePoint) performs)
              [0..blockRange])
      else eligible_scan performs block es)"

definition isEligible :: "int list \<Rightarrow> int list \<Rightarrow> int \<Rightarrow> bool" where
  "isEligible eligibles performs block = eligible_scan performs block (rev eligibles)"

definition check_one :: "(UpkeepIdentifier \<Rightarrow> string) \<Rightarrow> ActiveTracker \<Rightarrow> PerformTracker \<Rightarrow> UpkeepPayload \<Rightarrow> CheckResult" where
  "check_one uidString atr pt key =
     (let block = sint (tr_BlockNumber (up_Trigger key));
          performs = PerformsForUpkeepID (uidString (up_UpkeepID key)) pt;
          result = \<lparr>cr_PipelineExecutionState = 0, cr_Retryable = False, cr_Eligible = False,
            cr_IneligibilityReason = 0, cr_UpkeepID = up_UpkeepID key, cr_Trigger = up_Trigger key,
            cr_WorkID = up_WorkID key, cr_GasAllocated = 5000000, cr_PerformData = [],
            cr_FastGasWei = Some 1000000, cr_LinkNative = Some 1000000, cr_RetryInterval = 0\<rparr>
      in case GetByUpkeepID (up_UpkeepID key) atr of
           Some simulated \<Rightarrow>
             result\<lparr>cr_Eligible := (if su_AlwaysEligible simulated then True
               else isEligible (su_EligibleAt simulated) performs block)\<rparr>
         | None \<Rightarrow> result)"

text \<open>
  \<open>CheckUpkeeps\<close>: every goroutine writes its own element of the results; \<open>rpc1\<close> and \<open>rpc2\<close> are the errors of
  the simulated calls \<open>checkUpkeep\<close> and \<open>simulatePerform\<close>.
\<close>

definition pipeline_CheckUpkeeps ::
    "(UpkeepIdentifier \<Rightarrow> string) \<Rightarrow> go_error option \<Rightarrow> go_error option \<Rightarrow> ActiveTracker \<Rightarrow> PerformTracker \<Rightarrow>
     UpkeepPayload list \<Rightarrow> CheckResult list result" where
  "pipeline_CheckUpkeeps uidString rpc1 rpc2 atr pt payloads =
     (let results = map (check_one uidString atr pt) payloads
      in case rpc1 of
           Some err \<Rightarrow> Inl err
         | None \<Rightarrow> (case rpc2 of Some err \<Rightarrow> Inl err | None \<Rightarrow> Inr results))"

section \<open>Encoder\<close>

definition util_Encode :: "(CheckResult list \<Rightarrow> bytes result) \<Rightarrow> CheckResult list \<Rightarrow> bytes result" where
  "util_Encode marshal results = EncodeCheckResultsToReportBytes marshal results"

definition util_Extract :: "(bytes \<Rightarrow> CheckResult list result) \<Rightarrow> bytes \<Rightarrow> ReportedUpkeep list result" where
  "util_Extract unmarshal b =
     (case DecodeCheckResultsFromReportBytes unmarshal b of
        Inl err \<Rightarrow> Inl err
      | Inr results \<Rightarrow>
          Inr (map (\<lambda>r. \<lparr>ru_UpkeepID = cr_UpkeepID r, ru_Trigger = cr_Trigger r, ru_WorkID = cr_WorkID r\<rparr>) results))"

definition GetType :: "UpkeepIdentifier \<Rightarrow> UpkeepType" where
  "GetType u = GetUpkeepType u"

definition GenerateWorkID :: "(bytes \<Rightarrow> 256 word) \<Rightarrow> (LogTriggerExtension \<Rightarrow> bytes) \<Rightarrow> WorkIDGenerator" where
  "GenerateWorkID keccak lid u trigger = UpkeepWorkID keccak lid u trigger"

section \<open>Eligibility\<close>

lemma eligible_scan_first:
  "eligible_scan performs block es =
     (case filter (\<lambda>e. e \<le> block) es of
        [] \<Rightarrow> False
      | e # _ \<Rightarrow> \<not> (\<exists>p\<in>set performs. e \<le> p \<and> p \<le> e + bigInt_Int64 (block - e)))"
proof (induction es)
  case (Cons e es)
  have "list_ex (\<lambda>rp. list_ex (\<lambda>p. p = e + rp) performs) [0..r] \<longleftrightarrow> (\<exists>p\<in>set performs. e \<le> p \<and> p \<le> e + r)" for r
  proof
    assume "\<exists>p\<in>set performs. e \<le> p \<and> p \<le> e + r"
    then obtain p where "p \<in> set performs" "p - e \<in> {0..r}" "p = e + (p - e)" by auto
    then show "list_ex (\<lambda>rp. list_ex (\<lambda>p. p = e + rp) performs) [0..r]"
      unfolding list_ex_iff set_upto by blast
  next
    assume "list_ex (\<lambda>rp. list_ex (\<lambda>p. p = e + rp) performs) [0..r]"
    then obtain rp where "e + rp \<in> set performs" "e \<le> e + rp" "e + rp \<le> e + r"
      by (auto simp: list_ex_iff)
    then show "\<exists>p\<in>set performs. e \<le> p \<and> p \<le> e + r" by blast
  qed
  with Cons show ?case by simp
qed simp

lemma sorted_last_greatest: "sorted xs \<Longrightarrow> x \<in> set xs \<Longrightarrow> x \<le> last xs"
  by (induction xs) auto

lemma filter_rev_Max:
  assumes "sorted es" "\<exists>e\<in>set es. e \<le> (block :: int)"
  shows "\<exists>xs. filter (\<lambda>e. e \<le> block) (rev es) = Max {e \<in> set es. e \<le> block} # xs"
proof -
  let ?f = "filter (\<lambda>e. e \<le> block) es"
  have ne: "?f \<noteq> []" using assms(2) by (auto simp: filter_empty_conv)
  have "sorted ?f" using assms(1) by (rule sorted_filter [of "\<lambda>x. x", simplified])
  then have "Max (set ?f) = last ?f"
    using ne sorted_last_greatest by (intro Max_eqI) (auto simp del: set_filter)
  moreover have "set ?f = {e \<in> set es. e \<le> block}" by auto
  moreover have "rev ?f = last ?f # rev (butlast ?f)" using ne by (metis append_butlast_last_id rev_eq_Cons_iff rev_rev_ident)
  ultimately show ?thesis by (metis rev_filter)
qed

text \<open>
  C27: With its eligible blocks in ascending order, an upkeep is eligible at a block exactly when it has
  become eligible by then and was not performed since the latest block at which it did.
\<close>

theorem eligible_since_last:
  assumes "sorted eligibles" "\<forall>e\<in>set eligibles. 0 \<le> e" "block < 2 ^ 63"
  shows "isEligible eligibles performs block \<longleftrightarrow>
    (\<exists>e\<in>set eligibles. e \<le> block) \<and>
    (\<forall>p\<in>set performs. \<not> (Max {e \<in> set eligibles. e \<le> block} \<le> p \<and> p \<le> block))"
proof (cases "\<exists>e\<in>set eligibles. e \<le> block")
  case True
  let ?m = "Max {e \<in> set eligibles. e \<le> block}"
  have "?m \<in> {e \<in> set eligibles. e \<le> block}" using True by (intro Max_in) auto
  then have "bigInt_Int64 (block - ?m) = block - ?m"
    using assms(2,3) unfolding bigInt_Int64_def by (intro int64_id) auto
  with filter_rev_Max [OF assms(1) True] True show ?thesis
    by (auto simp: isEligible_def eligible_scan_first)
next
  case False
  then have "filter (\<lambda>e. e \<le> block) (rev eligibles) = []" by (auto simp: filter_empty_conv)
  with False show ?thesis by (simp add: isEligible_def eligible_scan_first)
qed

theorem eligible_since_last_witness:
  "isEligible [14, 18] [15] 17 = False \<and> isEligible [14, 18] [15] 18 = True"
proof
  have "Max {e \<in> set [14, 18 :: int]. e \<le> 17} = 14" "Max {e \<in> set [14, 18 :: int]. e \<le> 18} = 18"
    by (rule Max_eqI; auto)+
  then show "isEligible [14, 18] [15] 17 = False" and "isEligible [14, 18] [15] 18 = True"
    using eligible_since_last [of "[14, 18]" 17 "[15]"] eligible_since_last [of "[14, 18]" 18 "[15]"] by simp_all
qed

section \<open>Log triggers are delivered once\<close>

text \<open>
  Logs that arrive and calls of \<open>GetOnce\<close>, in any order: everything that was triggered, and everything
  that was delivered
\<close>

inductive log_run :: "LogTriggerTracker \<Rightarrow> triggeredUpkeep list \<Rightarrow> triggeredUpkeep list \<Rightarrow> bool" where
  no_logs: "log_run NewLogTriggerTracker [] []"
| log_arrives: "log_run ltt triggered delivered \<Longrightarrow>
    log_run (createLogUpkeeps number hash chainLog atr ltt) (triggered @ triggered_by number hash chainLog atr) delivered"
| delivers: "log_run ltt triggered delivered \<Longrightarrow> GetOnce ltt = (us, ltt') \<Longrightarrow> log_run ltt' triggered (delivered @ us)"

text \<open>
  C23: Whatever the order of logs and calls, \<open>GetOnce\<close> has delivered every triggered upkeep exactly once, in
  the order in which they were triggered, up to those that wait for the next call; and the delivered
  ones are the ones kept for recovery.
\<close>

theorem triggers_delivered_once:
  assumes "log_run ltt triggered delivered"
  shows "triggered = delivered @ lt_triggered ltt \<and> lt_read ltt = delivered"
  using assms by induction (auto simp: NewLogTriggerTracker_def createLogUpkeeps_def GetOnce_def)

theorem triggers_delivered_once_witness:
  "\<exists>ltt triggered. log_run ltt triggered triggered \<and> length triggered = 1 \<and> lt_triggered ltt = []"
proof -
  define l where "l = \<lparr>cl_TxHash = 3, cl_BlockNumber = 103, cl_BlockHash = 0, cl_Idx = 0, cl_TriggerValue = ''event''\<rparr>"
  define u where "u = sample_upkeep\<lparr>su_Type := LogTriggerType, su_TriggeredBy := ''event''\<rparr>"
  define atr where "atr = addSimulatedUpkeep u NewActiveTracker"
  let ?ts = "triggered_by 103 0 l atr"
  have len: "length ?ts = 1"
    by (simp add: triggered_by_def GetAllByType_def atr_def addSimulatedUpkeep_def NewActiveTracker_def u_def l_def
        List.map_filter_def log_triggers_upkeep_def Let_def)
  have one: "log_run (createLogUpkeeps 103 0 l atr NewLogTriggerTracker) ?ts []"
    using log_arrives [OF no_logs, of 103 0 l atr] by simp
  obtain us ltt where once: "GetOnce (createLogUpkeeps 103 0 l atr NewLogTriggerTracker) = (us, ltt)" by fastforce
  have run: "log_run ltt ?ts us" using delivers [OF one once] by simp
  have "lt_triggered ltt = []" using once by (auto simp: GetOnce_def)
  with triggers_delivered_once [OF run] run len show ?thesis by auto
qed

text \<open>
  The look-back is compared with absolute block numbers: when the simulation starts at or after the
  look-back, no trigger is ever proposed for recovery.
\<close>

lemma recovery_never_proposes:
  assumes "\<forall>tu\<in>set (lt_read ltt). recoveryLookback \<le> tu_blockNumber tu"
  shows "GetRecoveryProposals wg recoveryLookback atr performs ltt = []"
  using assms by (auto simp: GetRecoveryProposals_def GetAfter_def filter_empty_conv)

lemma read_block_numbers:
  assumes "log_run ltt triggered delivered" "\<forall>tu\<in>set triggered. genesis \<le> tu_blockNumber tu"
  shows "\<forall>tu\<in>set (lt_read ltt). genesis \<le> tu_blockNumber tu"
proof -
  have "triggered = delivered @ lt_triggered ltt \<and> lt_read ltt = delivered"
    using assms(1) by induction (auto simp: NewLogTriggerTracker_def createLogUpkeeps_def GetOnce_def)
  with assms(2) show ?thesis by auto
qed

text \<open>What is proposed for recovery was delivered and has not been performed.\<close>

lemma recovery_not_performed:
  "p \<in> set (GetRecoveryProposals wg lb atr performs ltt) \<Longrightarrow>
     \<not> IsWorkIDPerformed (up_WorkID p) performs \<and>
     (\<exists>tu\<in>set (lt_read ltt). p = makeLogPayloadFromUpkeep wg tu (GetLatestBlock atr))"
  by (auto simp: GetRecoveryProposals_def GetAfter_def)

text \<open>The round trip of a report through the simulator's encoder\<close>

lemma util_roundtrip:
  assumes "json_results marshal unmarshal" "util_Encode marshal rs = Inr b"
  shows "util_Extract unmarshal b =
    Inr (map (\<lambda>r. \<lparr>ru_UpkeepID = cr_UpkeepID r, ru_Trigger = cr_Trigger r, ru_WorkID = cr_WorkID r\<rparr>) rs)"
  using decode_encode [OF assms(1)] assms(2) by (simp add: util_Encode_def util_Extract_def)

end
