(* ===== verification/Node_Payloads.thy ===== *)
theory Node_Payloads
  imports Node
begin

text \<open>
  What travels through a node: payloads of the providers, payloads built from the proposals of an
  outcome, payloads waiting to be retried. If the providers and the payload builder make well-formed
  payloads, the check pipeline is only ever asked about well-formed payloads, and it suffices that it
  answers those properly. The node of theory \<open>Node\<close>, whose pipeline is trusted on every batch, has then
  the same runs.
\<close>

definition payload_ok :: "UpkeepTypeGetter \<Rightarrow> WorkIDGenerator \<Rightarrow> UpkeepPayload \<Rightarrow> bool" where
  "payload_ok utg wg p \<longleftrightarrow>
     trigger_fits utg (up_UpkeepID p) (up_Trigger p) \<and> wg (up_UpkeepID p) (up_Trigger p) = up_WorkID p"

definition provides :: "(UpkeepPayload \<Rightarrow> bool) \<Rightarrow> UpkeepPayload list result \<Rightarrow> bool" where
  "provides ok r \<longleftrightarrow> (\<forall>vs. r = Inr vs \<longrightarrow> (\<forall>v\<in>set vs. ok v))"

definition environment_fine :: "UpkeepTypeGetter \<Rightarrow> WorkIDGenerator \<Rightarrow> pipeline_ext \<Rightarrow> bool" where
  "environment_fine utg wg ext \<longleftrightarrow>
     (\<forall>b rs. (\<forall>p\<in>set b. payload_ok utg wg p) \<longrightarrow> pe_runnable ext b = Inr rs \<longrightarrow> (\<forall>r\<in>set rs. result_fine utg wg r)) \<and>
     (\<forall>ps. (\<forall>p\<in>set ps. proposal_ok utg wg p) \<longrightarrow> provides (payload_ok utg wg) (pe_BuildPayloads ext ps)) \<and>
     provides (payload_ok utg wg) (pe_GetActiveUpkeeps ext) \<and>
     (\<forall>r. pe_GetLatestPayloads ext = Some r \<longrightarrow> provides (payload_ok utg wg) r) \<and>
     (\<forall>r. pe_GetRecoveryProposals ext = Some r \<longrightarrow> provides (payload_ok utg wg) r)"

section \<open>Queues\<close>

definition retries_ok :: "(UpkeepPayload \<Rightarrow> bool) \<Rightarrow> retryQueue \<Rightarrow> bool" where
  "retries_ok ok q \<longleftrightarrow> (\<forall>k r. rq_records q k = Some r \<longrightarrow> ok (rqr_payload r))"

definition queued_ok :: "(CoordinatedBlockProposal \<Rightarrow> bool) \<Rightarrow> (WorkID \<rightharpoonup> proposalQueueRecord) \<Rightarrow> bool" where
  "queued_ok ok m \<longleftrightarrow>
     (\<forall>k r. m k = Some r \<longrightarrow> ok (pqr_proposal r) \<and> cbp_WorkID (pqr_proposal r) = k)"

lemma retries_ok_Enqueue:
  "retries_ok ok q \<Longrightarrow> ok (rr_Payload rec) \<Longrightarrow> retries_ok ok (rq_Enqueue now [rec] q)"
  by (auto simp: retries_ok_def rq_Enqueue_def rq_enqueue1_def Let_def split: option.splits if_splits)

lemma retries_ok_loop:
  "retries_ok ok q \<Longrightarrow> retries_ok ok (fst (rq_loop now n ks got q)) \<and> (\<forall>p\<in>set (snd (rq_loop now n ks got q)). ok p)"
proof (induction ks arbitrary: got q)
  case (Cons k ks)
  have keep: "retries_ok ok (q\<lparr>rq_records := (rq_records q)(k := None)\<rparr>)"
    using Cons.prems by (auto simp: retries_ok_def)
  have mark: "retries_ok ok (q\<lparr>rq_records := (rq_records q)(k \<mapsto> r\<lparr>rqr_pending := True\<rparr>)\<rparr>) \<and> ok (rqr_payload r)"
    if "rq_records q k = Some r" for r
    using Cons.prems that by (auto simp: retries_ok_def)
  show ?case
    using Cons.IH [OF Cons.prems] Cons.IH [OF keep] Cons.IH mark Cons.prems
    by (auto simp: Let_def split: option.split)
qed simp

lemma queued_ok_upd: "queued_ok ok m \<Longrightarrow> ok (pqr_proposal r) \<Longrightarrow> cbp_WorkID (pqr_proposal r) = k \<Longrightarrow> queued_ok ok (m(k \<mapsto> r))"
  by (simp add: queued_ok_def)

lemma queued_ok_del: "queued_ok ok m \<Longrightarrow> queued_ok ok (m(k := None))"
  by (simp add: queued_ok_def)

lemma queued_ok_Enqueue:
  "queued_ok ok (pq_records q) \<Longrightarrow> \<forall>p\<in>set ps. ok p \<Longrightarrow> queued_ok ok (pq_records (pq_Enqueue now ps q))"
  unfolding pq_Enqueue_def
proof (induction ps arbitrary: q)
  case (Cons p ps)
  have "queued_ok ok (pq_records (pq_enqueue1 now p q))"
    using Cons.prems by (simp add: pq_enqueue1_def queued_ok_upd Let_def split: option.split)
  with Cons.IH Cons.prems(2) show ?case by simp
qed simp

lemma queued_ok_hook:
  "queued_ok ok (pq_records q) \<Longrightarrow> \<forall>p\<in>set (concat (ac_SurfacedProposals oc)). ok p \<Longrightarrow>
     queued_ok ok (pq_records (AddToProposalQ_RunHook now oc q))"
proof -
  have "queued_ok ok (pq_records (fold (pq_Enqueue now) pss q))"
    if "queued_ok ok (pq_records q)" "\<forall>p\<in>set (concat pss). ok p" for pss
    using that by (induction pss arbitrary: q) (simp_all add: queued_ok_Enqueue)
  then show "queued_ok ok (pq_records q) \<Longrightarrow> \<forall>p\<in>set (concat (ac_SurfacedProposals oc)). ok p \<Longrightarrow>
     queued_ok ok (pq_records (AddToProposalQ_RunHook now oc q))"
    by (simp add: AddToProposalQ_RunHook_def)
qed

lemma pq_collect_keeps:
  "queued_ok ok m \<Longrightarrow> m k = Some r \<Longrightarrow> \<not> pqr_expired r now proposalExpiry \<Longrightarrow>
     fst (pq_collect utg now t ks m) k = Some r"
proof (induction ks arbitrary: m)
  case (Cons j ks)
  show ?case
  proof (cases "\<exists>r'. m j = Some r' \<and> pqr_expired r' now proposalExpiry")
    case True
    then obtain r' where r': "m j = Some r'" "pqr_expired r' now proposalExpiry" by blast
    with Cons.prems have "(m(cbp_WorkID (pqr_proposal r') := None)) k = Some r"
      by (auto simp: queued_ok_def)
    from Cons.IH [OF queued_ok_del [OF Cons.prems(1)] this Cons.prems(3)] r' show ?thesis by (simp add: fun_upd_def)
  next
    case False
    with Cons.IH [OF Cons.prems] show ?thesis by (auto split: option.split prod.split)
  qed
qed simp

lemma pq_collect_ok:
  assumes "queued_ok ok m"
  shows "queued_ok ok (fst (pq_collect utg now t ks m)) \<and>
    (\<forall>p\<in>set (snd (pq_collect utg now t ks m)). ok p \<and>
      (\<exists>r. fst (pq_collect utg now t ks m) (cbp_WorkID p) = Some r \<and> pqr_proposal r = p))"
  using assms
proof (induction ks arbitrary: m)
  case (Cons k ks)
  show ?case
  proof (cases "m k")
    case None
    with Cons.IH [OF Cons.prems] show ?thesis by simp
  next
    case (Some r)
    show ?thesis
    proof (cases "pqr_expired r now proposalExpiry")
      case True
      with Some Cons.IH [OF queued_ok_del [OF Cons.prems]] show ?thesis by (simp add: fun_upd_def)
    next
      case False
      have "ok (pqr_proposal r) \<and> cbp_WorkID (pqr_proposal r) = k \<and> fst (pq_collect utg now t ks m) k = Some r"
        using Some Cons.prems pq_collect_keeps [OF Cons.prems Some False] by (simp add: queued_ok_def)
      with Some False Cons.IH [OF Cons.prems] show ?thesis by (simp split: prod.split) (metis fst_conv snd_conv)
    qed
  qed
qed simp

lemma queued_ok_mark:
  assumes "queued_ok ok m" "\<forall>p\<in>set ps. \<exists>r. m (cbp_WorkID p) = Some r \<and> pqr_proposal r = p"
  shows "queued_ok ok (fold pq_mark_removed ps m)"
  using assms
proof (induction ps arbitrary: m)
  case (Cons p ps)
  from Cons.prems(2) obtain r where r: "m (cbp_WorkID p) = Some r" "pqr_proposal r = p" by auto
  have m': "pq_mark_removed p m = m(cbp_WorkID p \<mapsto> r\<lparr>pqr_removed := True\<rparr>)"
    by (simp add: pq_mark_removed_def r)
  have "queued_ok ok (pq_mark_removed p m)"
    unfolding m' using Cons.prems(1) r by (intro queued_ok_upd) (auto simp: queued_ok_def)
  moreover have "\<forall>q\<in>set ps. \<exists>r. pq_mark_removed p m (cbp_WorkID q) = Some r \<and> pqr_proposal r = q"
  proof
    fix q
    assume "q \<in> set ps"
    with Cons.prems(2) obtain r' where "m (cbp_WorkID q) = Some r'" "pqr_proposal r' = q" by auto
    with r show "\<exists>r. pq_mark_removed p m (cbp_WorkID q) = Some r \<and> pqr_proposal r = q"
      unfolding m' by (cases "cbp_WorkID q = cbp_WorkID p") auto
  qed
  ultimately show ?case using Cons.IH by simp
qed simp

lemma queued_ok_Dequeue:
  assumes "queued_ok ok (pq_records q)"
  shows "queued_ok ok (pq_records (fst (pq_Dequeue utg now ks t n q))) \<and>
    (\<forall>p\<in>set (snd (pq_Dequeue utg now ks t n q)). ok p)"
proof -
  obtain m ps where c: "pq_collect utg now t ks (pq_records q) = (m, ps)" by fastforce
  note ok = pq_collect_ok [OF assms, of utg now t ks, unfolded c, simplified]
  have sub: "set (take n ps) \<subseteq> set ps" by (rule set_take_subset)
  have "queued_ok ok (fold pq_mark_removed (take n ps) m)"
    using ok sub by (intro queued_ok_mark) auto
  with ok sub show ?thesis by (auto simp: pq_Dequeue_def c min_def Let_def)
qed

section \<open>The runner\<close>

lemma set_unflatten_from: "x \<in> set (unflatten_from sz b i) \<Longrightarrow> set x \<subseteq> set b"
proof (induction sz b i rule: unflatten_from.induct)
  case (1 sz b i)
  from "1.prems" show ?case
    using 1 set_take_subset set_drop_subset
    by (subst (asm) unflatten_from.simps) (auto simp: Let_def split: if_splits dest!: in_set_takeD in_set_dropD)
qed

lemma CheckUpkeeps_guarded_cong:
  assumes "\<And>b. set b \<subseteq> set ps \<Longrightarrow> R b = R' b"
  shows "CheckUpkeeps R order now ps o1 = CheckUpkeeps R' order now ps o1"
proof -
  have "RunJobs order bs (wrapWorkerFunc R) f s = RunJobs order bs (wrapWorkerFunc R') f s"
    if "Unflatten (snd (split_cached now o1 ps newResult)) k = Some bs" for bs f s k
  proof -
    have "\<forall>b\<in>set bs. set b \<subseteq> set ps"
      using that set_unflatten_from by (fastforce simp: Unflatten_def split_cached(1) uncached_def split: if_splits)
    then have "wrapWorkerFunc R (bs ! i) = wrapWorkerFunc R' (bs ! i)" if "i < length bs" for i
      using assms that by (simp add: wrapWorkerFunc_def)
    then show ?thesis unfolding RunJobs_def by (intro fold_cong) auto
  qed
  note jobs = this
  have "parallelCheck R order now ps o1 = parallelCheck R' order now ps o1"
  proof (cases "Unflatten (snd (split_cached now o1 ps newResult)) (rn_workerBatchLimit o1)")
    case None
    then show ?thesis by (simp add: parallelCheck_def Let_def)
  next
    case (Some bs)
    then show ?thesis by (simp add: parallelCheck_def jobs [OF Some] Let_def)
  qed
  then show ?thesis by (simp add: CheckUpkeeps_def)
qed

section \<open>Steps\<close>

definition node_payloads :: "UpkeepTypeGetter \<Rightarrow> WorkIDGenerator \<Rightarrow> node \<Rightarrow> bool" where
  "node_payloads utg wg n \<longleftrightarrow>
     pl_UpkeepTypeGetter (nd_plugin n) = utg \<and> pl_WorkIDGenerator (nd_plugin n) = wg \<and>
     retries_ok (payload_ok utg wg) (nd_retryQ n) \<and>
     queued_ok (proposal_ok utg wg) (pq_records (pl_ProposalQ (nd_plugin n)))"

definition activity_payloads :: "(UpkeepPayload \<Rightarrow> bool) \<Rightarrow> activity \<Rightarrow> bool" where
  "activity_payloads ok a \<longleftrightarrow>
     (case snd a of
        Ticked _ \<Rightarrow> True
      | Preprocessing _ v \<Rightarrow> \<forall>p\<in>set v. ok p
      | Postprocessing _ v \<Rightarrow> \<forall>p\<in>set v. ok p)"

definition payloads_inv :: "node_config \<Rightarrow> node \<times> activity list \<Rightarrow> bool" where
  "payloads_inv nc s \<longleftrightarrow>
     node_payloads (nc_utg nc) (nc_wg nc) (fst s) \<and>
     (\<forall>a\<in>set (snd s). activity_payloads (payload_ok (nc_utg nc) (nc_wg nc)) a)"

lemma payloads_Tick:
  assumes "node_payloads utg wg n" "environment_fine utg wg ext" "Tick_Value ext tick n = (r, n')"
  shows "node_payloads utg wg n' \<and> provides (payload_ok utg wg) r"
proof (cases tick)
  case sampler
  have "set (take k (Shuffle d vs)) \<subseteq> set vs" for k d and vs :: "UpkeepPayload list"
    using set_take_subset [of k "Shuffle d vs"] by simp
  with sampler assms show ?thesis
    by (auto simp: sampler_Value_def provides_def environment_fine_def Let_def split: sum.splits if_splits
        dest!: in_set_takeD)
next
  case (coordinatedProposalsTick ty k)
  let ?dq = "pq_Dequeue utg (pe_now ext) (pe_range ext) ty k (pl_ProposalQ (nd_plugin n))"
  have "queued_ok (proposal_ok utg wg) (pq_records (fst ?dq)) \<and> (\<forall>p\<in>set (snd ?dq). proposal_ok utg wg p)"
    using assms(1) by (intro queued_ok_Dequeue) (simp add: node_payloads_def)
  with coordinatedProposalsTick assms show ?thesis
    by (auto simp: coordinatedProposalsTick_Value_def node_payloads_def set_proposalQ_def provides_def
        environment_fine_def Let_def split: sum.splits)
next
  case (retryTick k)
  then show ?thesis
    using assms retries_ok_loop [of "payload_ok utg wg" "nd_retryQ n" "pe_now ext" k "pe_range ext" 0]
    by (auto simp: retryTick_Value_def rq_Dequeue_def node_payloads_def provides_def Let_def)
next
  case logTick
  with assms show ?thesis
    by (auto simp: logTick_Value_def provides_def environment_fine_def split: option.splits)
next
  case logRecoveryTick
  with assms show ?thesis
    by (auto simp: logRecoveryTick_Value_def provides_def environment_fine_def split: option.splits)
qed

lemma payloads_PreProcess:
  assumes "node_payloads utg wg n" "\<forall>p\<in>set v. ok p" "PreProcess now pp v n = (v', n')"
  shows "node_payloads utg wg n' \<and> (\<forall>p\<in>set v'. ok p)"
  using assms
  by (cases pp) (auto simp: coord_PreProcess_filter proposalFilterer_PreProcess_def set_metadata_def
      node_payloads_def Let_def)

lemma payloads_retryable:
  "node_payloads utg wg n \<Longrightarrow> \<forall>p\<in>set v. payload_ok utg wg p \<Longrightarrow> retryable_loop now v irs n = Inr n' \<Longrightarrow>
     node_payloads utg wg n'"
proof (induction now v irs n rule: retryable_loop.induct)
  case (2 now payloads i res rest n)
  have "node_payloads utg wg (n\<lparr>nd_retryQ := rq_Enqueue now
      [\<lparr>rr_Payload = payloads ! i, rr_Interval = cr_RetryInterval res\<rparr>] (nd_retryQ n)\<rparr>)"
    if "i < length payloads"
    using that "2.prems"(1,2) by (simp add: node_payloads_def retries_ok_Enqueue)
  with 2 show ?case by (auto split: if_splits)
qed simp

lemma payloads_PostProcess:
  "node_payloads utg wg n \<Longrightarrow> \<forall>p\<in>set v. payload_ok utg wg p \<Longrightarrow>
     PostProcess ext pp rs v n = Inr (err, n') \<Longrightarrow> node_payloads utg wg n'"
  "node_payloads utg wg n \<Longrightarrow> \<forall>p\<in>set v. payload_ok utg wg p \<Longrightarrow>
     combined_PostProcess ext pps rs v e n = Inr (err, n') \<Longrightarrow> node_payloads utg wg n'"
proof (induction ext pp rs v n and ext pps rs v e n arbitrary: err n' and err n'
    rule: PostProcess_combined_PostProcess.induct)
  case (1 ext results payloads n)
  let ?f = "\<lambda>res n. if cr_PipelineExecutionState res = 0 \<and> cr_Eligible res
    then set_results (resultStore_Add (pe_now ext) [res] (nd_results n)) n else n"
  have "node_payloads utg wg (fold ?f results n)"
    using "1.prems"(1) by (induction results arbitrary: n) (simp_all add: node_payloads_def set_results_def)
  with "1.prems"(3) show ?case by (simp add: eligible_PostProcess_def)
next
  case (2 ext results payloads n)
  then show ?case by (auto simp: retryable_PostProcess_def split: sum.splits dest: payloads_retryable)
next
  case (3 ext results payloads n)
  have "node_payloads utg wg (snd (ineligible_loop f rs merr n))" if "node_payloads utg wg n" for f rs merr n
    using that by (induction f rs merr n rule: ineligible_loop.induct) (auto simp: node_payloads_def split: option.split)
  from this [OF "3.prems"(1), of "pe_SetUpkeepState ext" results None] "3.prems"(3) show ?case
    by (simp add: ineligible_PostProcess_def)
next
  case (4 ext results payloads n)
  let ?f = "\<lambda>r n. if cr_PipelineExecutionState r = 0 \<and> cr_Eligible r
    then set_metadata (AddProposals (nd_utg n) (pe_now ext) [result_proposal r] (nd_metadata n)) n else n"
  have "node_payloads utg wg (fold ?f results n)"
    using "4.prems"(1) by (induction results arbitrary: n) (simp_all add: node_payloads_def set_metadata_def)
  with "4.prems"(3) show ?case by (simp add: metadata_PostProcess_def)
next
  case (5 ext source results payloads n)
  from "5.IH" [OF "5.prems"(1,2)] "5.prems"(3) show ?case by simp
next
  case (6 ext results payloads err n)
  then show ?case by simp
next
  case (7 ext pp source results payloads err0 n)
  from "7.prems"(3) obtain e n1 where pp: "PostProcess ext pp results payloads n = Inr (e, n1)"
    and rest: "combined_PostProcess ext source results payloads (errors_Join err0 e) n1 = Inr (err, n')"
    by (auto split: sum.splits prod.splits)
  from "7.IH"(1) [OF "7.prems"(1,2) pp] have "node_payloads utg wg n1" .
  from "7.IH"(2) [OF pp refl this "7.prems"(2) rest] show ?case .
qed

lemma payloads_Observation:
  assumes "node_payloads utg wg n" "plugin_Observation ex now ks seqNr prev (nd_plugin n) = (r, p)"
  shows "node_payloads utg wg (n\<lparr>nd_plugin := p\<rparr>)"
proof -
  have build: "pl_UpkeepTypeGetter (snd (build_observation ex now ks seqNr q)) = pl_UpkeepTypeGetter q"
      "pl_WorkIDGenerator (snd (build_observation ex now ks seqNr q)) = pl_WorkIDGenerator q"
      "pl_ProposalQ (snd (build_observation ex now ks seqNr q)) = pl_ProposalQ q" for q
    by (auto simp: build_observation_def Let_def split: sum.splits prod.splits)
  have "queued_ok (proposal_ok utg wg) (pq_records (AddToProposalQ_RunHook now oc (pl_ProposalQ (nd_plugin n))))"
    if "outcome_ok utg wg oc" for oc
    using that assms(1) by (intro queued_ok_hook) (auto simp: node_payloads_def outcome_ok_def)
  with assms build show ?thesis
    by (auto simp: plugin_Observation_def node_payloads_def DecodeAutomationOutcome_Inr pre_build_hooks_def
        split: option.splits sum.splits dest!: arg_cong [of _ "(r, p)" snd])
qed

section \<open>The same runs\<close>

text \<open>A pipeline that refuses every batch with an ill-formed payload\<close>

definition guarded :: "UpkeepTypeGetter \<Rightarrow> WorkIDGenerator \<Rightarrow> pipeline_ext \<Rightarrow> pipeline_ext" where
  "guarded utg wg ext = ext\<lparr>pe_runnable :=
     (\<lambda>b. if \<forall>p\<in>set b. payload_ok utg wg p then pe_runnable ext b else Inl (External ''ill-formed payload''))\<rparr>"

lemma guarded_fine: "environment_fine utg wg ext \<Longrightarrow> runnable_fine utg wg (guarded utg wg ext)"
  unfolding environment_fine_def runnable_fine_def guarded_def by (simp split: if_splits)

lemma guarded_fields:
  "pe_now (guarded utg wg ext) = pe_now ext" "pe_order (guarded utg wg ext) = pe_order ext"
  "pe_range (guarded utg wg ext) = pe_range ext" "pe_draw (guarded utg wg ext) = pe_draw ext"
  "pe_SetUpkeepState (guarded utg wg ext) = pe_SetUpkeepState ext"
  "pe_BuildPayloads (guarded utg wg ext) = pe_BuildPayloads ext"
  "pe_IsEmpty (guarded utg wg ext) = pe_IsEmpty ext"
  "pe_GetActiveUpkeeps (guarded utg wg ext) = pe_GetActiveUpkeeps ext"
  "pe_GetLatestPayloads (guarded utg wg ext) = pe_GetLatestPayloads ext"
  "pe_GetRecoveryProposals (guarded utg wg ext) = pe_GetRecoveryProposals ext"
  "pe_OfInt (guarded utg wg ext) = pe_OfInt ext"
  by (simp_all add: guarded_def)

lemma guarded_Tick [simp]: "Tick_Value (guarded utg wg ext) tick n = Tick_Value ext tick n"
  by (cases tick; simp only: Tick_Value.simps sampler_Value_def coordinatedProposalsTick_Value_def
      retryTick_Value_def logTick_Value_def logRecoveryTick_Value_def;
      unfold guarded_fields; rule refl)

lemma guarded_PostProcess [simp]:
  "PostProcess (guarded utg wg ext) pp rs v n = PostProcess ext pp rs v n"
  "combined_PostProcess (guarded utg wg ext) pps rs v e n = combined_PostProcess ext pps rs v e n"
proof (induction ext pp rs v n and ext pps rs v e n rule: PostProcess_combined_PostProcess.induct)
  case (7 ext pp source results payloads err n)
  show ?case
  proof (cases "PostProcess ext pp results payloads n")
    case (Inl e)
    with 7 show ?thesis by simp
  next
    case (Inr r)
    obtain e n' where r: "r = (e, n')" by fastforce
    from 7(1) 7(2) [OF Inr r [symmetric]] Inr r show ?thesis by simp
  qed
qed (simp_all add: guarded_fields ineligible_PostProcess_def)

lemma guarded_check:
  assumes "\<forall>p\<in>set v. payload_ok utg wg p"
  shows "run_check (guarded utg wg ext) v n = run_check ext v n"
proof -
  have "CheckUpkeeps (pe_runnable (guarded utg wg ext)) (pe_order ext) (pe_now ext) v (nd_runner n) =
      CheckUpkeeps (pe_runnable ext) (pe_order ext) (pe_now ext) v (nd_runner n)"
    using assms by (intro CheckUpkeeps_guarded_cong) (auto simp: guarded_def)
  then show ?thesis by (simp add: run_check_def guarded_fields)
qed

lemma payloads_split:
  "payloads_inv nc (n, xs @ a # ys) \<longleftrightarrow>
     payloads_inv nc (n, xs @ ys) \<and> activity_payloads (payload_ok (nc_utg nc) (nc_wg nc)) a"
  by (auto simp: payloads_inv_def)

lemma payloads_node:
  "payloads_inv nc (n, as) \<Longrightarrow> node_payloads (nc_utg nc) (nc_wg nc) n' \<Longrightarrow> payloads_inv nc (n', as)"
  by (simp add: payloads_inv_def)

lemma guarded_step:
  assumes "node_step ex env s s'" "payloads_inv nc s"
    and env: "\<And>ext. env ext \<Longrightarrow> environment_fine (nc_utg nc) (nc_wg nc) ext"
  shows "node_step ex (runnable_fine (nc_utg nc) (nc_wg nc)) s s' \<and> payloads_inv nc s'"
  using assms(1,2)
proof (induction rule: node_step.induct)
  let ?utg = "nc_utg nc" and ?wg = "nc_wg nc"
  case (spawn fl n as)
  then show ?case by (auto simp: payloads_inv_def activity_payloads_def intro: node_step.spawn)
next
  case (fetch ext tick n v n' xs ob ys)
  note np = payloads_Tick [OF _ env [OF fetch(1)] fetch(2)]
  have "payloads_inv nc (n', xs @ (ob, Preprocessing (ob_Preprocessors ob) v) # ys)"
    using fetch.prems np unfolding payloads_split
    by (auto simp: payloads_inv_def provides_def activity_payloads_def)
  moreover have "node_step ex (runnable_fine (nc_utg nc) (nc_wg nc)) (n, xs @ (ob, Ticked tick) # ys)
      (n', xs @ (ob, Preprocessing (ob_Preprocessors ob) v) # ys)"
    using guarded_fine [OF env [OF fetch(1)]] fetch(2) by (intro node_step.fetch [where ext = "guarded (nc_utg nc) (nc_wg nc) ext"]) simp_all
  ultimately show ?case by simp
next
  case (fetch_fails ext tick n err n' xs ob ys)
  note np = payloads_Tick [OF _ env [OF fetch_fails(1)] fetch_fails(2)]
  have "payloads_inv nc (n', xs @ ys)"
    using fetch_fails.prems np unfolding payloads_split by (auto simp: payloads_inv_def)
  moreover have "node_step ex (runnable_fine (nc_utg nc) (nc_wg nc)) (n, xs @ (ob, Ticked tick) # ys) (n', xs @ ys)"
    using guarded_fine [OF env [OF fetch_fails(1)]] fetch_fails(2) by (intro node_step.fetch_fails [where ext = "guarded (nc_utg nc) (nc_wg nc) ext"]) simp_all
  ultimately show ?case by simp
next
  case (preprocess now p v n v' n' xs ob ps ys)
  then have "node_payloads (nc_utg nc) (nc_wg nc) n' \<and> (\<forall>p\<in>set v'. payload_ok (nc_utg nc) (nc_wg nc) p)"
    by (intro payloads_PreProcess [OF _ _ preprocess(1)]) (auto simp: payloads_inv_def activity_payloads_def)
  with preprocess show ?case
    by (auto simp: payloads_inv_def activity_payloads_def intro: node_step.preprocess)
next
  case (check ext v n rs n' xs ob ys)
  then have ok: "\<forall>p\<in>set v. payload_ok (nc_utg nc) (nc_wg nc) p"
    by (simp add: payloads_inv_def activity_payloads_def)
  have "node_step ex (runnable_fine (nc_utg nc) (nc_wg nc)) (n, xs @ (ob, Preprocessing [] v) # ys)
      (n', xs @ (ob, Postprocessing rs v) # ys)"
    using guarded_fine [OF env [OF check(1)]] check(2) guarded_check [OF ok] by (intro node_step.check [where ext = "guarded (nc_utg nc) (nc_wg nc) ext"]) simp_all
  with check ok show ?case
    by (auto simp: payloads_inv_def activity_payloads_def node_payloads_def run_check_def Let_def)
next
  case (check_fails ext v n err n' xs ob ys)
  then have ok: "\<forall>p\<in>set v. payload_ok (nc_utg nc) (nc_wg nc) p"
    by (simp add: payloads_inv_def activity_payloads_def)
  have "node_step ex (runnable_fine (nc_utg nc) (nc_wg nc)) (n, xs @ (ob, Preprocessing [] v) # ys) (n', xs @ ys)"
    using guarded_fine [OF env [OF check_fails(1)]] check_fails(2) guarded_check [OF ok]
    by (intro node_step.check_fails [where ext = "guarded (nc_utg nc) (nc_wg nc) ext"]) simp_all
  with check_fails show ?case
    by (auto simp: payloads_inv_def node_payloads_def run_check_def Let_def)
next
  case (postprocess ext ob rs v n err n' xs ys)
  have "node_payloads (nc_utg nc) (nc_wg nc) n'"
    using postprocess.prems
    by (intro payloads_PostProcess(1) [OF _ _ postprocess(2)]) (auto simp: payloads_inv_def activity_payloads_def)
  moreover have "node_step ex (runnable_fine (nc_utg nc) (nc_wg nc)) (n, xs @ (ob, Postprocessing rs v) # ys) (n', xs @ ys)"
    using guarded_fine [OF env [OF postprocess(1)]] postprocess(2) by (intro node_step.postprocess [where ext = "guarded (nc_utg nc) (nc_wg nc) ext"]) simp_all
  ultimately show ?case using postprocess.prems by (auto simp: payloads_inv_def)
next
  case (observe now ks seqNr prev n r p as)
  then show ?case
    using payloads_Observation [OF _ observe(1)] by (auto simp: payloads_inv_def intro: node_step.observe)
next
  case (accept now report n r p as)
  then have "node_payloads (nc_utg nc) (nc_wg nc) (n\<lparr>nd_plugin := p\<rparr>)"
    by (auto simp: payloads_inv_def node_payloads_def ShouldAcceptAttestedReport_def Let_def split: sum.splits)
  with accept show ?case by (auto simp: payloads_inv_def intro: node_step.accept)
next
  case (transmit_events now latest n err c as)
  then show ?case
    by (auto simp: payloads_inv_def node_payloads_def intro: node_step.transmit_events)
next
  case (new_blocks bh n as)
  then show ?case
    by (auto simp: payloads_inv_def node_payloads_def set_metadata_def intro: node_step.new_blocks [unfolded set_metadata_def])
next
  case (collect n as now ks)
  then show ?case
    by (auto simp: payloads_inv_def node_payloads_def set_results_def intro: node_step.collect [unfolded set_results_def])
qed

lemma guarded_reachable:
  assumes "node_reachable ex env nc s"
    and env: "\<And>ext. env ext \<Longrightarrow> environment_fine (nc_utg nc) (nc_wg nc) ext"
  shows "node_reachable ex (runnable_fine (nc_utg nc) (nc_wg nc)) nc s \<and> payloads_inv nc s"
  using assms(1)
proof induction
  case (node_init n)
  then have "payloads_inv nc (n, [])"
    by (auto simp: newPlugin_def payloads_inv_def node_payloads_def retries_ok_def queued_ok_def
        NewRetryQueue_def NewProposalQueue_def Let_def split: sum.splits)
  with node_init show ?case by (simp add: node_reachable.node_init)
next
  case (node_next s s')
  with guarded_step [OF node_next(2) _ env] show ?case by (auto intro: node_reachable.node_next)
qed

end
