(* ===== verification/Sim_Node.thy ===== *)
theory Sim_Node
  imports Sim_Pipeline Node_Payloads
begin

text \<open>
  A node in the simulator (\<open>tools/simulator/simulate/hydrator.go\<close>): the plugin of \<open>pkg/v3\<close> on the simulated
  providers, check pipeline, identifiers and encoder. The simulator makes well-formed payloads and
  answers them properly, so what theory \<open>Node_Payloads\<close> asks of an environment holds.
\<close>

section \<open>The trackers of a node\<close>

definition log_inv :: "LogTriggerTracker \<Rightarrow> bool" where
  "log_inv ltt \<longleftrightarrow>
     (\<forall>tu\<in>set (lt_triggered ltt) \<union> set (lt_read ltt). typed_id (tu_upkeep tu) \<and> su_Type (tu_upkeep tu) = LogTriggerType)"

text \<open>
  The trackers receive the events of the chain in any order; the only upkeeps that are created are
  the given ones.
\<close>

inductive tracker_run :: "SimulatedUpkeep set \<Rightarrow> ActiveTracker \<Rightarrow> LogTriggerTracker \<Rightarrow> bool" for us where
  new_trackers: "tracker_run us NewActiveTracker NewLogTriggerTracker"
| active_event: "tracker_run us atr ltt \<Longrightarrow>
    (\<And>u. ce_Event e = TransactionEvent (UpkeepCreatedTransaction u) \<Longrightarrow> u \<in> us) \<Longrightarrow>
    tracker_run us (active_receive e atr) ltt"
| log_event: "tracker_run us atr ltt \<Longrightarrow> tracker_run us atr (log_receive atr e ltt)"
| got_once: "tracker_run us atr ltt \<Longrightarrow> tracker_run us atr (snd (GetOnce ltt))"

lemma log_inv_receive: "active_inv atr \<Longrightarrow> log_inv ltt \<Longrightarrow> log_inv (log_receive atr e ltt)"
  using GetAllByType_typed [of atr _ LogTriggerType]
  by (auto simp: log_inv_def log_receive_def createLogUpkeeps_def triggered_by_def split: chain_event.split transaction.split)

lemma tracker_run_inv:
  assumes "tracker_run us atr ltt" "\<forall>u\<in>us. typed_id u"
  shows "active_inv atr \<and> log_inv ltt"
  using assms(1)
proof induction
  case new_trackers
  show ?case by (simp add: active_inv_New log_inv_def NewLogTriggerTracker_def)
next
  case (active_event atr ltt e)
  with assms(2) show ?case by (auto intro!: active_inv_receive simp: creates_typed_def)
next
  case (log_event atr ltt e)
  then show ?case by (simp add: log_inv_receive)
next
  case (got_once atr ltt)
  then show ?case by (auto simp: log_inv_def GetOnce_def)
qed

section \<open>Payloads are well-formed\<close>

lemma trigger_fits_typed:
  assumes "typed_id u"
  shows "trigger_fits GetType (su_UpkeepID u) t \<longleftrightarrow> (su_Type u = LogTriggerType \<longleftrightarrow> tr_LogTriggerExtension t \<noteq> None)"
  using assms by (cases "su_Type u") (auto simp: typed_id_def type_byte_def trigger_fits_def GetType_def)

lemma active_payload_ok:
  assumes "active_inv atr" "p \<in> set (GetActiveUpkeeps wg atr)"
  shows "payload_ok GetType wg p"
proof -
  from assms(2) obtain u where u: "u \<in> set (GetAllByType ConditionalType atr)"
      "p = makePayloadFromUpkeep wg u (GetLatestBlock atr)"
    by (auto simp: GetActiveUpkeeps_def)
  from GetAllByType_typed [OF assms(1) u(1)] show ?thesis
    by (simp add: u(2) payload_ok_def makePayloadFromUpkeep_def Let_def trigger_fits_typed)
qed

lemma log_payload_ok:
  assumes "typed_id (tu_upkeep tu)" "su_Type (tu_upkeep tu) = LogTriggerType"
  shows "payload_ok GetType wg (makeLogPayloadFromUpkeep wg tu block)"
  using assms by (simp add: payload_ok_def makeLogPayloadFromUpkeep_def Let_def trigger_fits_typed)

lemma built_payload_ok:
  assumes "active_inv atr" "\<forall>p\<in>set proposals. proposal_ok GetType wg p" "v \<in> set (BuildPayloads wg atr proposals)"
  shows "payload_ok GetType wg v"
proof -
  from assms(3) obtain q u where q: "q \<in> set proposals" and u: "GetByUpkeepID (cbp_UpkeepID q) atr = Some u"
      and v: "v = \<lparr>up_UpkeepID = cbp_UpkeepID q, up_Trigger = cbp_Trigger q,
        up_WorkID = wg (su_UpkeepID u) (cbp_Trigger q), up_CheckData = su_CheckData u\<rparr>"
    by (auto simp: BuildPayloads_def List.map_filter_def split: option.splits)
  have "su_UpkeepID u = cbp_UpkeepID q"
    using assms(1) u unfolding active_inv_def GetByUpkeepID_def by (metis hex_EncodeToString_inj)
  with assms(2) q show ?thesis by (auto simp: v payload_ok_def proposal_ok_def)
qed

lemma check_one_fine: "payload_ok GetType wg p \<Longrightarrow> result_fine GetType wg (check_one us atr pt p)"
  by (auto simp: payload_ok_def result_fine_def performable_ok_def check_one_def in_uint256_def Let_def
      split: option.splits)

section \<open>The environment of a simulated node\<close>

definition DefaultLookbackBlocks :: int where "DefaultLookbackBlocks = 100"

text \<open>
  \<open>HydrateConfig\<close>: what a node reads of the simulator at one moment. \<open>base\<close> holds the clock and the
  random draws.
\<close>

definition HydrateConfig ::
    "WorkIDGenerator \<Rightarrow> (UpkeepIdentifier \<Rightarrow> string) \<Rightarrow> go_error option \<Rightarrow> go_error option \<Rightarrow>
     ActiveTracker \<Rightarrow> PerformTracker \<Rightarrow> LogTriggerTracker \<Rightarrow> pipeline_ext \<Rightarrow> pipeline_ext" where
  "HydrateConfig wg uidString rpc1 rpc2 atr pt ltt base =
     base\<lparr>pe_runnable := pipeline_CheckUpkeeps uidString rpc1 rpc2 atr pt,
          pe_BuildPayloads := (\<lambda>ps. Inr (BuildPayloads wg atr ps)),
          pe_GetActiveUpkeeps := Inr (GetActiveUpkeeps wg atr),
          pe_GetLatestPayloads := Some (Inr (fst (GetLatestPayloads wg atr ltt))),
          pe_GetRecoveryProposals := Some (Inr (GetRecoveryProposals wg DefaultLookbackBlocks atr pt ltt))\<rparr>"

definition simulated :: "WorkIDGenerator \<Rightarrow> SimulatedUpkeep set \<Rightarrow> pipeline_ext \<Rightarrow> bool" where
  "simulated wg us ext \<longleftrightarrow>
     (\<exists>uidString rpc1 rpc2 atr pt ltt base. tracker_run us atr ltt \<and>
        ext = HydrateConfig wg uidString rpc1 rpc2 atr pt ltt base)"

lemma simulated_environment:
  assumes "simulated wg us ext" "\<forall>u\<in>us. typed_id u"
  shows "environment_fine GetType wg ext"
proof -
  from assms(1) obtain uidString rpc1 rpc2 atr pt ltt base where run: "tracker_run us atr ltt"
      and ext: "ext = HydrateConfig wg uidString rpc1 rpc2 atr pt ltt base"
    by (auto simp: simulated_def)
  have inv: "active_inv atr" "log_inv ltt" using tracker_run_inv [OF run assms(2)] by auto
  have runnable: "\<forall>r\<in>set rs. result_fine GetType wg r"
    if "\<forall>p\<in>set b. payload_ok GetType wg p" "pipeline_CheckUpkeeps uidString rpc1 rpc2 atr pt b = Inr rs" for b rs
    using that by (auto simp: pipeline_CheckUpkeeps_def check_one_fine split: option.splits)
  have latest: "\<forall>p\<in>set (fst (GetLatestPayloads wg atr ltt)). payload_ok GetType wg p"
    using inv(2) by (auto simp: GetLatestPayloads_def GetOnce_def log_inv_def intro!: log_payload_ok)
  have recovery: "\<forall>p\<in>set (GetRecoveryProposals wg lb atr pt ltt). payload_ok GetType wg p" for lb
    using inv(2) by (auto simp: GetRecoveryProposals_def GetAfter_def log_inv_def intro!: log_payload_ok)
  show ?thesis
    using runnable latest recovery active_payload_ok [OF inv(1)] built_payload_ok [OF inv(1)]
    by (auto simp: environment_fine_def ext HydrateConfig_def provides_def)
qed

text \<open>
  C5: In every run of a node in the simulator, on the upkeeps generated from any plan, the results in the
  node's result store and the proposals in its metadata store pass the validation of the other nodes,
  with the simulator's identifiers, work ids and check pipeline and nothing assumed of hashes.
\<close>

theorem simulated_node_stores_valid:
  assumes "GenerateAllUpkeeps parse sha plan = Some (Inr us)"
    and "nc_utg nc = GetType" "nc_wg nc = GenerateWorkID keccak lid"
    and "node_reachable ex (simulated (GenerateWorkID keccak lid) (set us)) nc (n, as)"
  shows "(\<forall>k r. rs_data (nd_results n) k = Some r \<longrightarrow>
      cr_WorkID (sr_data r) = k \<and> validateCheckResult (sr_data r) GetType (GenerateWorkID keccak lid) = None) \<and>
    (\<forall>k r. om_values (ms_logRecoveryProposals (nd_metadata n)) k = Some r \<or>
        om_values (ms_conditionalProposals (nd_metadata n)) k = Some r \<longrightarrow>
      cbp_WorkID (er_proposal r) = k \<and> validateUpkeepProposal (er_proposal r) GetType (GenerateWorkID keccak lid) = None)"
proof -
  have typed: "\<forall>u\<in>set us. typed_id u"
    using generate_loop_ok [of parse sha _ _ _ "[]" us] assms(1)
    by (auto simp: GenerateAllUpkeeps_def Let_def generated_ok_def)
  have "node_reachable ex (runnable_fine (nc_utg nc) (nc_wg nc)) nc (n, as)"
    using guarded_reachable [OF assms(4)] simulated_environment [OF _ typed] assms(2,3) by auto
  from node_reachable_inv [OF this] assms(2,3) show ?thesis
    by (auto simp: node_inv_def node_wf_def plugin_wf_def results_wf_def metadata_wf_def
        proposals_fit_def om_inv_def resultStore_inv_def validateCheckResult_None
        validateUpkeepProposal_None)
qed

text \<open>A log triggers the first upkeep of the plan \<open>always_plan\<close>; the log trigger flow stages its result.\<close>

definition demo_wg :: WorkIDGenerator where
  "demo_wg = GenerateWorkID sample_sha (\<lambda>e. [])"

definition demo_upkeep :: SimulatedUpkeep where
  "demo_upkeep = simulated_upkeep sample_sha (hd (sp_GenerateUpkeeps always_plan)) LogTriggerType LogTrigger True 1"

definition demo_active :: ActiveTracker where
  "demo_active = active_receive \<lparr>ce_BlockNumber = 101, ce_BlockHash = 0,
     ce_Event = TransactionEvent (UpkeepCreatedTransaction demo_upkeep)\<rparr> NewActiveTracker"

definition demo_log :: ChainLog where
  "demo_log = \<lparr>cl_TxHash = 3, cl_BlockNumber = 103, cl_BlockHash = 0, cl_Idx = 0, cl_TriggerValue = ''event''\<rparr>"

definition demo_logs :: LogTriggerTracker where
  "demo_logs = log_receive demo_active \<lparr>ce_BlockNumber = 103, ce_BlockHash = 0,
     ce_Event = TransactionEvent (LogTransaction demo_log)\<rparr> NewLogTriggerTracker"

definition demo_ext :: pipeline_ext where
  "demo_ext = HydrateConfig demo_wg (\<lambda>u. []) None None demo_active NewPerformTracker demo_logs sample_ext"

definition demo_payload :: UpkeepPayload where
  "demo_payload = makeLogPayloadFromUpkeep demo_wg
     \<lparr>tu_upkeep = demo_upkeep, tu_blockNumber = 103, tu_blockHash = 0, tu_chainLog = demo_log\<rparr> (GetLatestBlock demo_active)"

definition demo_result :: CheckResult where
  "demo_result = check_one (\<lambda>u. []) demo_active NewPerformTracker demo_payload"

lemma demo_trackers: "tracker_run (set [demo_upkeep]) demo_active demo_logs"
  unfolding demo_logs_def demo_active_def by (intro tracker_run.intros) auto

lemma demo_type: "su_Type demo_upkeep = LogTriggerType" "su_TriggeredBy demo_upkeep = ''event''"
  by (simp_all add: demo_upkeep_def simulated_upkeep_def Let_def always_plan_def)

lemma demo_active_eq:
  "at_active demo_active = [LogTriggerType \<mapsto> [hex_EncodeToString (su_UpkeepID demo_upkeep)]]"
  "at_idLookup demo_active = [hex_EncodeToString (su_UpkeepID demo_upkeep) \<mapsto> demo_upkeep]"
  by (simp_all add: demo_active_def active_receive_def addSimulatedUpkeep_def NewActiveTracker_def demo_type Let_def)

lemma demo_latest: "fst (GetLatestPayloads demo_wg demo_active demo_logs) = [demo_payload]"
  by (simp add: GetLatestPayloads_def GetOnce_def demo_logs_def log_receive_def createLogUpkeeps_def triggered_by_def
      NewLogTriggerTracker_def GetAllByType_def demo_active_eq List.map_filter_def log_triggers_upkeep_def
      demo_type demo_log_def demo_payload_def)

lemma demo_checks: "pipeline_CheckUpkeeps (\<lambda>u. []) None None demo_active NewPerformTracker [demo_payload] = Inr [demo_result]"
  by (simp add: pipeline_CheckUpkeeps_def demo_result_def)

lemma demo_result_eligible:
  "cr_PipelineExecutionState demo_result = 0" "cr_Eligible demo_result" "cr_WorkID demo_result = up_WorkID demo_payload"
  by (simp_all add: demo_result_def check_one_def Let_def GetByUpkeepID_def demo_active_eq demo_payload_def
      makeLogPayloadFromUpkeep_def) (simp add: demo_upkeep_def)

definition demo_nc :: node_config where
  "demo_nc = sample_nc\<lparr>nc_utg := GetType, nc_wg := demo_wg\<rparr>"

definition demo_start :: node where
  "demo_start = projr (newPlugin demo_nc None)"

definition demo_staged :: node where
  "demo_staged = snd (projr (Process demo_ext
     (fl_observer (newLogTriggerFlow [coordinatorPreProcessor] LogCheckInterval)) logTick demo_start))"

lemma demo_staged_eval:
  "Process demo_ext (fl_observer (newLogTriggerFlow [coordinatorPreProcessor] LogCheckInterval))
     logTick demo_start = Inr (None, demo_staged) \<and>
   rs_data (nd_results demo_staged) (up_WorkID demo_payload) = Some \<lparr>sr_data = demo_result, sr_addedAt = 110\<rparr>"
  unfolding demo_staged_def
  by (simp add: Process_def logTick_Value_def demo_ext_def HydrateConfig_def sample_ext_def newLogTriggerFlow_def
      demo_latest demo_checks demo_result_eligible demo_start_def demo_nc_def sample_nc_def newPlugin_def NewMetadataStore_def set_metadata_def
      ShouldProcess_def NewCoordinator_def run_check_def CheckUpkeeps_def
      parallelCheck_def NewRunner_def newResult_def Unflatten_def WorkerBatchLimit_def
      unflatten_from.simps RunJobs_def wrapWorkerFunc_def wrapAggregate_def AddSuccesses_def
      result_Add_def Total_def eligible_PostProcess_def retryable_PostProcess_def
      ineligible_PostProcess_def set_results_def resultStore_Add_def
      resultStore_add1_def resultStore_New_def Let_def)

theorem simulated_node_stores_valid_witness:
  "rs_data (nd_results demo_staged) (up_WorkID demo_payload) = Some \<lparr>sr_data = demo_result, sr_addedAt = 110\<rparr> \<and>
   validateCheckResult demo_result GetType (GenerateWorkID sample_sha (\<lambda>e. [])) = None"
proof -
  let ?us = "map (simulated_upkeep sample_sha (hd (sp_GenerateUpkeeps always_plan)) LogTriggerType LogTrigger True) [1, 2]"
  let ?env = "simulated (GenerateWorkID sample_sha (\<lambda>e. [])) (set ?us)"
  let ?fl = "newLogTriggerFlow [coordinatorPreProcessor] LogCheckInterval"
  have "tracker_run (set ?us) demo_active demo_logs"
    unfolding demo_logs_def demo_active_def by (intro tracker_run.intros) (auto simp: demo_upkeep_def)
  then have env: "?env demo_ext" unfolding simulated_def demo_ext_def demo_wg_def by blast
  have start: "node_reachable sample_ex ?env demo_nc (demo_start, [])"
    by (rule node_init) (simp add: demo_start_def newPlugin_def NewMetadataStore_def Let_def)
  have "?fl \<in> set plugin_flows" "fl_tick ?fl = logTick"
    by (simp_all add: plugin_flows_def LogTriggerFlows_def newLogTriggerFlow_def)
  with demo_staged_eval have "node_reachable sample_ex ?env demo_nc (demo_staged, [])"
    using Process_reachable [OF start, of ?fl demo_ext None demo_staged] env by simp
  from simulated_node_stores_valid [OF always_plan_generates _ _ this] demo_staged_eval show ?thesis
    by (fastforce simp: demo_nc_def demo_wg_def)
qed

end
