(* ===== verification/Sim_Broadcaster.thy ===== *)
theory Sim_Broadcaster
  imports Sim_Generate
begin

text \<open>
  \<open>tools/simulator/simulate/chain/broadcaster.go\<close>: the production of simulated blocks. The loaders are
  functions on the block and on the state they share; the hash of the encoded block and the order in
  which the subscriptions are ranged over are arguments. The goroutine that runs the broadcaster, the
  callers of \<open>Start\<close>, \<open>Stop\<close>, \<open>Subscribe\<close> and \<open>Unsubscribe\<close> and the receiver of the done signal
  interleave as steps. The record also keeps the blocks produced so far and the sends that were
  started.
\<close>

text \<open>
  Where \<open>run\<close> is: not called, called, in its \<open>select\<close>, sending the done signal, returned
\<close>

datatype run_phase = NotStarted | Starting | Selecting | Finishing | Returned

record 's BlockBroadcaster =
  bb_loaders :: "(Block \<Rightarrow> 's \<Rightarrow> Block \<times> 's) list"
  bb_loaderState :: 's
  bb_maxDelay :: int
  bb_limit :: int
  bb_cadence :: duration
  bb_jitter :: duration
  bb_nextBlock :: int
  bb_delays :: "int \<Rightarrow> bool option"
  bb_subCount :: int
  bb_activeSubs :: int
  bb_doneClosed :: bool
  bb_phase :: run_phase
  bb_blocks :: "Block list"
  bb_sends :: "(int \<times> Block) list"

definition NewBlockBroadcaster ::
    "Blocks \<Rightarrow> int \<Rightarrow> (Block \<Rightarrow> 's \<Rightarrow> Block \<times> 's) list \<Rightarrow> 's \<Rightarrow> 's BlockBroadcaster" where
  "NewBlockBroadcaster conf maxDelay loaders s =
     (let limit = bl_Genesis conf + bl_Duration conf; limit = limit + bl_EndPadding conf
      in \<lparr>bb_loaders = loaders, bb_loaderState = s, bb_maxDelay = maxDelay, bb_limit = limit,
          bb_cadence = bl_Cadence conf, bb_jitter = bl_Jitter conf, bb_nextBlock = bl_Genesis conf,
          bb_delays = Map.empty, bb_subCount = 0, bb_activeSubs = 0, bb_doneClosed = False,
          bb_phase = NotStarted, bb_blocks = [], bb_sends = []\<rparr>)"

text \<open>The total registered with the progress telemetry\<close>

definition progress_total :: "Blocks \<Rightarrow> int" where
  "progress_total conf = bl_Duration conf + bl_EndPadding conf"

text \<open>
  \<open>Subscribe\<close>. A subscription is its entry in \<open>delays\<close>: the maps \<open>subscriptions\<close> and \<open>delays\<close> are
  always changed together.
\<close>

definition bb_Subscribe :: "bool \<Rightarrow> 's BlockBroadcaster \<Rightarrow> int \<times> 's BlockBroadcaster" where
  "bb_Subscribe delay bb =
     (let n = bb_subCount bb + 1
      in (n, bb\<lparr>bb_subCount := n, bb_activeSubs := bb_activeSubs bb + 1, bb_delays := (bb_delays bb)(n \<mapsto> delay)\<rparr>))"

definition bb_unsubscribe :: "int \<Rightarrow> 's BlockBroadcaster \<Rightarrow> 's BlockBroadcaster" where
  "bb_unsubscribe subscriptionId bb =
     (let bb1 = (if bb_delays bb subscriptionId \<noteq> None then bb\<lparr>bb_activeSubs := bb_activeSubs bb - 1\<rparr> else bb)
      in bb1\<lparr>bb_delays := (bb_delays bb1)(subscriptionId := None)\<rparr>)"

definition load_block :: "'s BlockBroadcaster \<Rightarrow> Block \<times> 's" where
  "load_block bb =
     fold (\<lambda>loader (msg, s). loader msg s) (bb_loaders bb)
       (\<lparr>b_Hash = 0, b_Number = bb_nextBlock bb, b_Transactions = []\<rparr>, bb_loaderState bb)"

definition bb_broadcast :: "(Block \<Rightarrow> 256 word) \<Rightarrow> int list \<Rightarrow> 's BlockBroadcaster \<Rightarrow> 's BlockBroadcaster" where
  "bb_broadcast sum256 subs bb =
     (let (msg, s) = load_block bb; msg = msg\<lparr>b_Hash := sum256 msg\<rparr>
      in bb\<lparr>bb_loaderState := s, bb_blocks := bb_blocks bb @ [msg],
            bb_sends := bb_sends bb @ map (\<lambda>i. (i, msg)) subs\<rparr>)"

text \<open>\<open>math.Round\<close> of the jitter, which is exact in \<open>float64\<close>; \<open>draw\<close> is the random integer.\<close>

definition cadenceWithJitter :: "int \<Rightarrow> 's BlockBroadcaster \<Rightarrow> duration" where
  "cadenceWithJitter draw bb =
     (if bb_jitter bb > 0 then
        (let half = of_int (bb_jitter bb) / 2; applied = decimal_Round (of_int draw - half)
         in bb_cadence bb + applied)
      else bb_cadence bb)"

definition bb_Start :: "'s BlockBroadcaster \<Rightarrow> 's BlockBroadcaster" where
  "bb_Start bb = (if bb_phase bb = NotStarted then bb\<lparr>bb_phase := Starting\<rparr> else bb)"

text \<open>\<open>Stop\<close> closes the channel; a send that is blocked on it panics, as does a second close.\<close>

definition bb_Stop :: "'s BlockBroadcaster \<Rightarrow> 's BlockBroadcaster result" where
  "bb_Stop bb =
     (if bb_doneClosed bb then Inl (Panic ''close of closed channel'')
      else if bb_phase bb = Finishing then Inl (Panic ''send on closed channel'')
      else Inr (bb\<lparr>bb_doneClosed := True\<rparr>))"

text \<open>\<open>run\<close>: the first block, the timer, the end of the send, the closed channel\<close>

definition run_begins :: "(Block \<Rightarrow> 256 word) \<Rightarrow> int list \<Rightarrow> 's BlockBroadcaster \<Rightarrow> 's BlockBroadcaster" where
  "run_begins sum256 subs bb = (bb_broadcast sum256 subs bb)\<lparr>bb_phase := Selecting\<rparr>"

definition timer_fires ::
    "(Block \<Rightarrow> 256 word) \<Rightarrow> int list \<Rightarrow> 's BlockBroadcaster \<Rightarrow> 's BlockBroadcaster result" where
  "timer_fires sum256 subs bb =
     (let bb = bb\<lparr>bb_nextBlock := bb_nextBlock bb + 1\<rparr>
      in if bb_nextBlock bb > bb_limit bb then
           (if bb_doneClosed bb then Inl (Panic ''send on closed channel'') else Inr (bb\<lparr>bb_phase := Finishing\<rparr>))
         else Inr (bb_broadcast sum256 subs bb))"

inductive bb_step :: "(Block \<Rightarrow> 256 word) \<Rightarrow> 's BlockBroadcaster \<Rightarrow> 's BlockBroadcaster \<Rightarrow> bool" for sum256 where
  subscribes: "bb_Subscribe delay bb = (n, bb') \<Longrightarrow> bb_step sum256 bb bb'"
| unsubscribes: "bb_step sum256 bb (bb_unsubscribe i bb)"
| starts: "bb_step sum256 bb (bb_Start bb)"
| begins: "bb_phase bb = Starting \<Longrightarrow> range_order (bb_delays bb) subs \<Longrightarrow>
    bb_step sum256 bb (run_begins sum256 subs bb)"
| ticks: "bb_phase bb = Selecting \<Longrightarrow> range_order (bb_delays bb) subs \<Longrightarrow>
    timer_fires sum256 subs bb = Inr bb' \<Longrightarrow> bb_step sum256 bb bb'"
| finishes: "bb_phase bb = Finishing \<Longrightarrow> bb_step sum256 bb (bb\<lparr>bb_phase := Selecting\<rparr>)"
| stops: "bb_Stop bb = Inr bb' \<Longrightarrow> bb_step sum256 bb bb'"
| leaves: "bb_phase bb = Selecting \<Longrightarrow> bb_doneClosed bb \<Longrightarrow> bb_step sum256 bb (bb\<lparr>bb_phase := Returned\<rparr>)"

abbreviation bb_reachable where
  "bb_reachable sum256 conf maxDelay loaders s \<equiv> (bb_step sum256)\<^sup>*\<^sup>* (NewBlockBroadcaster conf maxDelay loaders s)"

section \<open>The blocks of a simulation\<close>

text \<open>A loader adds transactions and leaves the number of the block alone.\<close>

definition loaders_keep_number :: "(Block \<Rightarrow> 's \<Rightarrow> Block \<times> 's) list \<Rightarrow> bool" where
  "loaders_keep_number loaders \<longleftrightarrow> (\<forall>l\<in>set loaders. \<forall>b s. b_Number (fst (l b s)) = b_Number b)"

lemma loaded_number:
  "loaders_keep_number ls \<Longrightarrow> b_Number (fst (fold (\<lambda>loader (msg, s). loader msg s) ls (b, s))) = b_Number b"
proof (induction ls arbitrary: b s)
  case (Cons l ls)
  then show ?case by (cases "l b s") (auto simp: loaders_keep_number_def, metis fst_conv)
qed simp

lemma broadcast_number:
  assumes "loaders_keep_number (bb_loaders bb)"
  shows "map b_Number (bb_blocks (bb_broadcast sum256 subs bb)) = map b_Number (bb_blocks bb) @ [bb_nextBlock bb]"
  using loaded_number [OF assms, of "\<lparr>b_Hash = 0, b_Number = bb_nextBlock bb, b_Transactions = []\<rparr>" "bb_loaderState bb"]
  by (auto simp: bb_broadcast_def load_block_def Let_def split: prod.splits)

definition produced :: "int \<Rightarrow> 's BlockBroadcaster \<Rightarrow> int list" where
  "produced genesis bb =
     (if bb_phase bb = NotStarted \<or> bb_phase bb = Starting then []
      else [genesis..min (bb_nextBlock bb) (max genesis (bb_limit bb))])"

definition bb_inv :: "int \<Rightarrow> int \<Rightarrow> 's BlockBroadcaster \<Rightarrow> bool" where
  "bb_inv genesis limit bb \<longleftrightarrow>
     bb_limit bb = limit \<and> loaders_keep_number (bb_loaders bb) \<and> genesis \<le> bb_nextBlock bb \<and>
     (bb_phase bb = NotStarted \<or> bb_phase bb = Starting \<longrightarrow> bb_nextBlock bb = genesis) \<and>
     (bb_phase bb = Finishing \<longrightarrow> limit < bb_nextBlock bb) \<and>
     map b_Number (bb_blocks bb) = produced genesis bb"

lemma broadcast_simps [simp]:
  "bb_limit (bb_broadcast h subs bb) = bb_limit bb" "bb_loaders (bb_broadcast h subs bb) = bb_loaders bb"
  "bb_nextBlock (bb_broadcast h subs bb) = bb_nextBlock bb" "bb_phase (bb_broadcast h subs bb) = bb_phase bb"
  "bb_doneClosed (bb_broadcast h subs bb) = bb_doneClosed bb"
  by (simp_all add: bb_broadcast_def Let_def split: prod.splits)

lemma bb_inv_step: "bb_step sum256 bb bb' \<Longrightarrow> bb_inv genesis limit bb \<Longrightarrow> bb_inv genesis limit bb'"
proof (induction rule: bb_step.induct)
  case (subscribes delay bb n bb')
  then show ?case by (auto simp: bb_Subscribe_def Let_def bb_inv_def produced_def)
next
  case (unsubscribes bb i)
  then show ?case by (auto simp: bb_unsubscribe_def Let_def bb_inv_def produced_def)
next
  case (starts bb)
  then show ?case by (auto simp: bb_Start_def bb_inv_def produced_def)
next
  case (begins bb subs)
  then show ?case
    by (auto simp: run_begins_def bb_inv_def produced_def broadcast_number)
next
  case (ticks bb subs bb')
  show ?case
  proof (cases "bb_nextBlock bb + 1 > bb_limit bb")
    case True
    with ticks have "bb' = bb\<lparr>bb_nextBlock := bb_nextBlock bb + 1, bb_phase := Finishing\<rparr>"
      by (simp add: timer_fires_def Let_def split: if_splits)
    with True ticks show ?thesis by (auto simp: bb_inv_def produced_def min_def max_def)
  next
    case False
    with ticks have bb': "bb' = bb_broadcast sum256 subs (bb\<lparr>bb_nextBlock := bb_nextBlock bb + 1\<rparr>)"
      by (simp add: timer_fires_def Let_def)
    have "[genesis..bb_nextBlock bb + 1] = [genesis..bb_nextBlock bb] @ [bb_nextBlock bb + 1]"
      using ticks.prems by (simp add: bb_inv_def upto_rec2)
    with False ticks show ?thesis
      unfolding bb' by (simp add: bb_inv_def produced_def broadcast_number min_def max_def)
  qed
next
  case (finishes bb)
  then show ?case by (auto simp: bb_inv_def produced_def)
next
  case (stops bb bb')
  then show ?case by (auto simp: bb_Stop_def bb_inv_def produced_def split: if_splits)
next
  case (leaves bb)
  then show ?case by (auto simp: bb_inv_def produced_def)
qed

lemma bb_inv_reachable:
  assumes "bb_reachable sum256 conf maxDelay loaders s bb" "loaders_keep_number loaders"
  shows "bb_inv (bl_Genesis conf) (bl_Genesis conf + bl_Duration conf + bl_EndPadding conf) bb"
  using assms(1)
proof (induction rule: rtranclp_induct)
  case base
  show ?case using assms(2) by (simp add: bb_inv_def NewBlockBroadcaster_def produced_def Let_def)
qed (rule bb_inv_step)

text \<open>
  Whatever the interleaving, the blocks produced are the consecutive numbers from the genesis
  block on, each once, and none beyond the limit; when the broadcaster signals the end, every number up to the
  limit was produced.
\<close>

lemma blocks_consecutive:
  assumes "bb_reachable sum256 conf maxDelay loaders s bb" "loaders_keep_number loaders"
    and "0 \<le> bl_Duration conf + bl_EndPadding conf"
  shows "(\<exists>last \<le> bl_Genesis conf + bl_Duration conf + bl_EndPadding conf.
      map b_Number (bb_blocks bb) = [bl_Genesis conf..last]) \<and>
    (bb_phase bb = Finishing \<longrightarrow>
      map b_Number (bb_blocks bb) = [bl_Genesis conf..bl_Genesis conf + bl_Duration conf + bl_EndPadding conf])"
proof (intro conjI impI)
  let ?limit = "bl_Genesis conf + bl_Duration conf + bl_EndPadding conf"
  note inv = bb_inv_reachable [OF assms(1,2)]
  show "\<exists>last \<le> ?limit. map b_Number (bb_blocks bb) = [bl_Genesis conf..last]"
  proof (cases "bb_phase bb = NotStarted \<or> bb_phase bb = Starting")
    case True
    then show ?thesis
      using inv assms(3) by (intro exI [of _ "bl_Genesis conf - 1"]) (auto simp: bb_inv_def produced_def)
  next
    case False
    then show ?thesis
      using inv assms(3) by (intro exI [of _ "min (bb_nextBlock bb) ?limit"]) (auto simp: bb_inv_def produced_def max_def)
  qed
next
  let ?limit = "bl_Genesis conf + bl_Duration conf + bl_EndPadding conf"
  note inv = bb_inv_reachable [OF assms(1,2)]
  assume "bb_phase bb = Finishing"
  then show "map b_Number (bb_blocks bb) = [bl_Genesis conf..?limit]"
    using inv assms(3) by (auto simp: bb_inv_def produced_def min_def max_def)
qed

definition tiny_blocks :: Blocks where
  "tiny_blocks = \<lparr>bl_Genesis = 5, bl_Cadence = second, bl_Jitter = 0, bl_Duration = 0, bl_EndPadding = 0\<rparr>"

definition tiny_end :: "unit BlockBroadcaster" where
  "tiny_end = projr (timer_fires (\<lambda>b. 7) [] (run_begins (\<lambda>b. 7) [] (bb_Start (NewBlockBroadcaster tiny_blocks 0 [] ()))))"

lemma tiny_end_reached: "bb_reachable (\<lambda>b. 7) tiny_blocks 0 [] () tiny_end"
proof -
  let ?new = "NewBlockBroadcaster tiny_blocks 0 [] () :: unit BlockBroadcaster"
  let ?sel = "run_begins (\<lambda>b. 7) [] (bb_Start ?new)"
  have start: "bb_step (\<lambda>b. 7) ?new (bb_Start ?new)" by (rule bb_step.starts)
  have begins: "bb_step (\<lambda>b. 7) (bb_Start ?new) ?sel"
    by (rule bb_step.begins) (simp_all add: bb_Start_def NewBlockBroadcaster_def)
  have tick: "bb_step (\<lambda>b. 7) ?sel tiny_end"
    by (rule bb_step.ticks [of _ "[]"])
      (simp_all add: tiny_end_def run_begins_def bb_Start_def NewBlockBroadcaster_def tiny_blocks_def timer_fires_def
        bb_broadcast_def load_block_def)
  show ?thesis
    by (rule rtranclp.rtrancl_into_rtrancl [OF rtranclp.rtrancl_into_rtrancl [OF r_into_rtranclp]], rule start, rule begins, rule tick)
qed

lemma blocks_consecutive_witness:
  "bb_phase tiny_end = Finishing \<and> map b_Number (bb_blocks tiny_end) = [5]"
proof -
  have "bb_phase tiny_end = Finishing"
    by (simp add: tiny_end_def run_begins_def bb_Start_def NewBlockBroadcaster_def tiny_blocks_def timer_fires_def)
  with blocks_consecutive [OF tiny_end_reached] show ?thesis
    by (simp add: tiny_blocks_def loaders_keep_number_def)
qed

text \<open>
  The simulation produces one block more than the progress telemetry was told to expect, and than
  the duration and the padding of the plan add up to.
\<close>

lemma blocks_one_more_than_planned:
  assumes "bb_reachable sum256 conf maxDelay loaders s bb" "loaders_keep_number loaders"
    and "0 \<le> bl_Duration conf + bl_EndPadding conf" "bb_phase bb = Finishing"
  shows "int (length (bb_blocks bb)) = progress_total conf + 1"
proof -
  from bb_inv_reachable [OF assms(1,2)] assms(3,4)
  have "map b_Number (bb_blocks bb) = [bl_Genesis conf..bl_Genesis conf + bl_Duration conf + bl_EndPadding conf]"
    by (auto simp: bb_inv_def produced_def min_def max_def)
  then have "length (bb_blocks bb) = length [bl_Genesis conf..bl_Genesis conf + bl_Duration conf + bl_EndPadding conf]"
    by (metis length_map)
  with assms(3) show ?thesis by (simp add: progress_total_def)
qed

text \<open>
  After the end the broadcaster does not stop: the timer fires again and the signal is sent once
  more, to nobody. A \<open>Stop\<close> at that moment makes the blocked send panic.
\<close>

lemma signals_again:
  assumes "bb_phase bb = Finishing" "bb_limit bb < bb_nextBlock bb" "\<not> bb_doneClosed bb"
  shows "timer_fires sum256 subs (bb\<lparr>bb_phase := Selecting\<rparr>) = Inr (bb\<lparr>bb_nextBlock := bb_nextBlock bb + 1\<rparr>) \<and>
    bb_Stop bb = Inl (Panic ''send on closed channel'')"
  using assms by (simp add: timer_fires_def bb_Stop_def Let_def)

text \<open>Every block goes to each subscription there is, once.\<close>

lemma broadcast_reaches_all:
  assumes "range_order (bb_delays bb) subs"
  shows "\<exists>msg. bb_blocks (bb_broadcast h subs bb) = bb_blocks bb @ [msg] \<and>
    bb_sends (bb_broadcast h subs bb) = bb_sends bb @ map (\<lambda>i. (i, msg)) subs \<and>
    distinct subs \<and> set subs = dom (bb_delays bb)"
  using assms by (auto simp: bb_broadcast_def Let_def range_order_def split: prod.splits)

text \<open>The jitter moves the cadence by at most half of its size, rounded.\<close>

lemma cadence_bounds:
  assumes "0 \<le> draw" "draw < bb_jitter bb"
  shows "\<bar>2 * (cadenceWithJitter draw bb - bb_cadence bb)\<bar> \<le> bb_jitter bb + 1"
proof -
  have "\<bar>2 * decimal_Round q\<bar> \<le> j + 1" if "\<bar>2 * q\<bar> \<le> of_int j" for q :: rat and j :: int
  proof (cases "q < 0")
    case True
    have "of_int \<lfloor>1 / 2 - q\<rfloor> \<le> 1 / 2 - q" by (rule of_int_floor_le)
    then have "of_int (2 * \<lfloor>1 / 2 - q\<rfloor>) \<le> (of_int (j + 1) :: rat)"
      using that unfolding of_int_mult of_int_add of_int_numeral of_int_1 abs_le_iff by linarith
    moreover have "0 \<le> \<lfloor>1 / 2 - q\<rfloor>" using True by simp
    ultimately show ?thesis using True by (simp only: of_int_le_iff decimal_Round_def) simp
  next
    case False
    have "of_int \<lfloor>q + 1 / 2\<rfloor> \<le> q + 1 / 2" by (rule of_int_floor_le)
    then have "of_int (2 * \<lfloor>q + 1 / 2\<rfloor>) \<le> (of_int (j + 1) :: rat)"
      using that unfolding of_int_mult of_int_add of_int_numeral of_int_1 abs_le_iff by linarith
    moreover have "0 \<le> \<lfloor>q + 1 / 2\<rfloor>" using False by simp
    ultimately show ?thesis using False by (simp only: of_int_le_iff decimal_Round_def) simp
  qed
  moreover have "\<bar>2 * (of_int draw - of_int (bb_jitter bb) / 2)\<bar> \<le> (of_int (bb_jitter bb) :: rat)"
  proof -
    have "2 * (of_int draw - of_int (bb_jitter bb) / 2) = (of_int (2 * draw - bb_jitter bb) :: rat)" by simp
    moreover have "\<bar>2 * draw - bb_jitter bb\<bar> \<le> bb_jitter bb" using assms by simp
    ultimately show ?thesis by (metis of_int_abs of_int_le_iff)
  qed
  ultimately have "\<bar>2 * decimal_Round (of_int draw - of_int (bb_jitter bb) / 2)\<bar> \<le> bb_jitter bb + 1" by blast
  then show ?thesis using assms by (simp add: cadenceWithJitter_def Let_def)
qed

end
