(* ===== verification/Sim_Loader.thy ===== *)
theory Sim_Loader
  imports Sim_Generate
begin

text \<open>
  \<open>tools/simulator/simulate/loader\<close>: the four loaders that put transactions into the next block. A
  loader's \<open>Load\<close> takes the block and returns it with the loader updated. Clocks, hashes, the \<open>gob\<close>
  encoding and libocr's construction of a contract configuration are arguments; progress telemetry
  is left out. The transmit loader shares pointers between its queue and its map of transmitted
  reports, so it has an explicit store of events that both refer to by index.
\<close>

section \<open>Events by block\<close>

text \<open>\<open>existing, ok := m[key]; if !ok { existing = \<dots>{} }; m[key] = append(existing, x)\<close>\<close>

definition append_at :: "'k \<Rightarrow> 'v \<Rightarrow> ('k \<rightharpoonup> 'v list) \<Rightarrow> ('k \<rightharpoonup> 'v list)" where
  "append_at key x m = m(key \<mapsto> (case m key of None \<Rightarrow> [] | Some existing \<Rightarrow> existing) @ [x])"

definition listed :: "('k \<rightharpoonup> 'v list) \<Rightarrow> 'k \<Rightarrow> 'v list" where
  "listed m k = (case m k of None \<Rightarrow> [] | Some xs \<Rightarrow> xs)"

lemma listed_append_at: "listed (append_at k x m) k' = listed m k' @ (if k' = k then [x] else [])"
  by (simp add: listed_def append_at_def split: option.splits)

lemma listed_fold_append_at:
  "listed (fold (\<lambda>x. append_at (key x) (val x)) xs m) k = listed m k @ map val (filter (\<lambda>x. key x = k) xs)"
  by (induction xs arbitrary: m) (simp_all add: listed_append_at)

section \<open>Upkeeps\<close>

record UpkeepConfigLoader =
  ul_create :: "string \<Rightarrow> transaction list option"

definition NewUpkeepConfigLoader ::
    "mathparse \<Rightarrow> (bytes \<Rightarrow> 256 word) \<Rightarrow> SimulationPlan \<Rightarrow> UpkeepConfigLoader result option" where
  "NewUpkeepConfigLoader parse sha plan =
     (case GenerateAllUpkeeps parse sha plan of
        None \<Rightarrow> None
      | Some (Inl err) \<Rightarrow> Some (Inl err)
      | Some (Inr allUpkeeps) \<Rightarrow>
          Some (Inr \<lparr>ul_create = fold (\<lambda>u. append_at (big_String (su_CreateInBlock u)) (UpkeepCreatedTransaction u))
            allUpkeeps Map.empty\<rparr>))"

definition upkeep_Load :: "UpkeepConfigLoader \<Rightarrow> Block \<Rightarrow> Block" where
  "upkeep_Load ucl block =
     (case ul_create ucl (big_String (b_Number block)) of
        None \<Rightarrow> block
      | Some events \<Rightarrow> block\<lparr>b_Transactions := b_Transactions block @ events\<rparr>)"

lemma upkeep_Load_eq:
  "upkeep_Load ucl block = block\<lparr>b_Transactions := b_Transactions block @ listed (ul_create ucl) (big_String (b_Number block))\<rparr>"
  by (simp add: upkeep_Load_def listed_def split: option.split)

text \<open>
  Every upkeep of the plan is created in exactly the block its event names, in the order of the plan.
\<close>

lemma upkeeps_created_in_their_block:
  assumes "GenerateAllUpkeeps parse sha plan = Some (Inr us)"
  shows "\<exists>ucl. NewUpkeepConfigLoader parse sha plan = Some (Inr ucl) \<and>
    (\<forall>block. upkeep_Load ucl block = block\<lparr>b_Transactions := b_Transactions block @
       map UpkeepCreatedTransaction (filter (\<lambda>u. su_CreateInBlock u = b_Number block) us)\<rparr>)"
  using assms
  by (simp add: NewUpkeepConfigLoader_def upkeep_Load_eq listed_fold_append_at big_String_inj)
    (simp add: listed_def)

lemma upkeeps_created_in_their_block_witness:
  "\<exists>ucl us. GenerateAllUpkeeps sample_parse sample_sha always_plan = Some (Inr us) \<and>
    NewUpkeepConfigLoader sample_parse sample_sha always_plan = Some (Inr ucl) \<and>
    upkeep_Load ucl \<lparr>b_Hash = 0, b_Number = 101, b_Transactions = []\<rparr> =
      \<lparr>b_Hash = 0, b_Number = 101, b_Transactions = map UpkeepCreatedTransaction us\<rparr> \<and> length us = 2"
proof -
  from upkeeps_created_in_their_block [OF always_plan_generates] obtain ucl where
    "NewUpkeepConfigLoader sample_parse sample_sha always_plan = Some (Inr ucl)" and
    "\<forall>block. upkeep_Load ucl block = block\<lparr>b_Transactions := b_Transactions block @
       map UpkeepCreatedTransaction (filter (\<lambda>u. su_CreateInBlock u = b_Number block)
         (map (simulated_upkeep sample_sha (hd (sp_GenerateUpkeeps always_plan)) LogTriggerType LogTrigger True) [1, 2]))\<rparr>"
    by blast
  moreover have "ev_TriggerBlock (hd (sp_GenerateUpkeeps always_plan)) = 101"
    by (simp add: always_plan_def sample_plan_def)
  ultimately show ?thesis using always_plan_generates by force
qed

section \<open>Logs\<close>

record LogTriggerLoader =
  ll_triggers :: "string \<Rightarrow> string list option"

text \<open>The map holds logs of which only the trigger value is set; it keeps that value.\<close>

definition NewLogTriggerLoader :: "SimulationPlan \<Rightarrow> LogTriggerLoader" where
  "NewLogTriggerLoader plan =
     \<lparr>ll_triggers = fold (\<lambda>l. append_at (big_String (sl_TriggerAt l)) (sl_TriggerValue l))
        (GenerateLogTriggers plan) Map.empty\<rparr>"

text \<open>\<open>clock\<close> is the hash of the time at which the \<open>i\<close>-th transaction of the block is made.\<close>

definition load_log :: "(nat \<Rightarrow> 256 word) \<Rightarrow> string \<Rightarrow> Block \<Rightarrow> Block" where
  "load_log clock v block =
     block\<lparr>b_Transactions := b_Transactions block @
       [LogTransaction
         \<lparr>cl_TxHash = clock (length (b_Transactions block)), cl_BlockNumber = b_Number block,
          cl_BlockHash = b_Hash block, cl_Idx = word_of_nat (length (b_Transactions block)),
          cl_TriggerValue = v\<rparr>]\<rparr>"

definition log_Load :: "(nat \<Rightarrow> 256 word) \<Rightarrow> LogTriggerLoader \<Rightarrow> Block \<Rightarrow> Block" where
  "log_Load clock ltl block =
     (case ll_triggers ltl (big_String (b_Number block)) of
        None \<Rightarrow> block
      | Some events \<Rightarrow> fold (load_log clock) events block)"

definition tx_log :: "transaction \<Rightarrow> ChainLog option" where
  "tx_log t = (case t of LogTransaction l \<Rightarrow> Some l | _ \<Rightarrow> None)"

definition block_logs :: "Block \<Rightarrow> ChainLog list" where
  "block_logs block = List.map_filter tx_log (b_Transactions block)"

lemma block_logs_load_log:
  "block_logs (load_log clock v block) = block_logs block @
     [\<lparr>cl_TxHash = clock (length (b_Transactions block)), cl_BlockNumber = b_Number block,
       cl_BlockHash = b_Hash block, cl_Idx = word_of_nat (length (b_Transactions block)), cl_TriggerValue = v\<rparr>]"
  by (simp add: block_logs_def load_log_def List.map_filter_def tx_log_def)

lemma load_log_simps [simp]:
  "b_Number (load_log clock v block) = b_Number block"
  "b_Hash (load_log clock v block) = b_Hash block"
  "length (b_Transactions (load_log clock v block)) = Suc (length (b_Transactions block))"
  by (simp_all add: load_log_def)

lemma load_logs:
  "map cl_TriggerValue (block_logs (fold (load_log clock) vs block)) =
     map cl_TriggerValue (block_logs block) @ vs \<and>
   b_Number (fold (load_log clock) vs block) = b_Number block \<and>
   b_Hash (fold (load_log clock) vs block) = b_Hash block \<and>
   map cl_Idx (block_logs (fold (load_log clock) vs block)) =
     map cl_Idx (block_logs block) @
     map word_of_nat [length (b_Transactions block)..<length (b_Transactions block) + length vs]"
proof (induction vs arbitrary: block)
  case (Cons v vs)
  have "[n..<n + length (v # vs)] = n # [Suc n..<Suc n + length vs]" for n :: nat
    by (subst upt_conv_Cons) simp_all
  with Cons [of "load_log clock v block"] show ?case
    by (simp add: block_logs_load_log del: upt_Suc)
qed simp

lemma log_Load_values:
  assumes "b_Transactions block = []"
  shows "map cl_TriggerValue (block_logs (log_Load clock (NewLogTriggerLoader plan) block)) =
    map le_TriggerValue (filter (\<lambda>e. ev_TriggerBlock e = b_Number block) (sp_LogEvents plan))"
proof -
  let ?m = "ll_triggers (NewLogTriggerLoader plan)"
  have "log_Load clock (NewLogTriggerLoader plan) block =
      fold (load_log clock) (listed ?m (big_String (b_Number block))) block"
    by (simp add: log_Load_def listed_def split: option.split)
  moreover have "listed ?m (big_String (b_Number block)) =
      map le_TriggerValue (filter (\<lambda>e. ev_TriggerBlock e = b_Number block) (sp_LogEvents plan))"
    by (simp add: NewLogTriggerLoader_def listed_fold_append_at big_String_inj GenerateLogTriggers_def
        filter_map o_def) (simp add: listed_def)
  ultimately show ?thesis
    using load_logs [of clock _ block] assms by (simp add: block_logs_def List.map_filter_def)
qed

end
