(* ===== verification/Sim_Transmit.thy ===== *)
theory Sim_Transmit
  imports Sim_Loader
begin

text \<open>
  \<open>tools/simulator/simulate/loader\<close>, continued: the loader of OCR configurations
  (\<open>ocr3config.go\<close>) and the loader of transmitted reports (\<open>ocr3transmit.go\<close>), whose \<open>Transmit\<close> is
  called concurrently by the nodes while \<open>Load\<close> is called for every block.
\<close>

section \<open>OCR configurations\<close>

record OracleIdentityExtra =
  oi_OffchainPublicKey :: bytes
  oi_OnchainPublicKey :: bytes
  oi_PeerID :: string
  oi_TransmitAccount :: string
  oi_ConfigEncryptionPublicKey :: bytes

text \<open>
  What the code reads of libocr: \<open>ContractSetConfigArgsForTests\<close> (the remaining arguments come from
  the event) and the digester, whose error is dropped.
\<close>

record config_args =
  ca_signers :: "bytes list"
  ca_transmitters :: "string list"
  ca_f :: "8 word"
  ca_onchainConfig :: bytes
  ca_offchainConfigVersion :: "64 word"
  ca_offchainConfig :: bytes

type_synonym set_config_args = "OCR3ConfigEvent \<Rightarrow> int list \<Rightarrow> OracleIdentityExtra list \<Rightarrow> config_args result"

definition buildConfig ::
    "set_config_args \<Rightarrow> (ContractConfig \<Rightarrow> 256 word) \<Rightarrow> OCR3ConfigEvent \<Rightarrow> OracleIdentityExtra list \<Rightarrow> 64 word \<Rightarrow>
     ContractConfig result" where
  "buildConfig setArgs digester conf oracles cnt =
     (let S = replicate (length oracles) 1
      in case setArgs conf S oracles of
           Inl err \<Rightarrow> Inl err
         | Inr a \<Rightarrow>
             (let contractConf = \<lparr>cc_ConfigDigest = 0, cc_ConfigCount = cnt, cc_Signers = ca_signers a,
                cc_Transmitters = ca_transmitters a, cc_F = ca_f a, cc_OnchainConfig = ca_onchainConfig a,
                cc_OffchainConfigVersion = ca_offchainConfigVersion a, cc_OffchainConfig = ca_offchainConfig a\<rparr>
              in Inr (contractConf\<lparr>cc_ConfigDigest := digester contractConf\<rparr>)))"

record OCR3ConfigLoader =
  ol_count :: "64 word"
  ol_oracles :: "OracleIdentityExtra list"
  ol_events :: "string \<Rightarrow> OCR3ConfigEvent option"

definition NewOCR3ConfigLoader :: "SimulationPlan \<Rightarrow> OCR3ConfigLoader" where
  "NewOCR3ConfigLoader plan =
     \<lparr>ol_count = 0, ol_oracles = [],
      ol_events = fold (\<lambda>event m. m(big_String (ev_TriggerBlock event) \<mapsto> event)) (sp_ConfigEvents plan) Map.empty\<rparr>"

definition config_Load ::
    "set_config_args \<Rightarrow> (ContractConfig \<Rightarrow> 256 word) \<Rightarrow> Block \<Rightarrow> OCR3ConfigLoader \<Rightarrow> Block \<times> OCR3ConfigLoader" where
  "config_Load setArgs digester block l =
     (case ol_events l (big_String (b_Number block)) of
        None \<Rightarrow> (block, l)
      | Some evt \<Rightarrow>
          (case buildConfig setArgs digester evt (ol_oracles l) (ol_count l + 1) of
             Inl err \<Rightarrow> (block, l)
           | Inr conf \<Rightarrow>
               (block\<lparr>b_Transactions := b_Transactions block @ [OCR3ConfigTransaction conf]\<rparr>,
                l\<lparr>ol_count := ol_count l + 1\<rparr>)))"

definition AddSigner ::
    "string \<Rightarrow> bytes \<Rightarrow> string \<Rightarrow> bytes \<Rightarrow> bytes \<Rightarrow> OCR3ConfigLoader \<Rightarrow> OCR3ConfigLoader" where
  "AddSigner peer publicKey pkString offchainKey encryptionKey l =
     l\<lparr>ol_oracles := ol_oracles l @
       [\<lparr>oi_OffchainPublicKey = offchainKey, oi_OnchainPublicKey = publicKey, oi_PeerID = peer,
         oi_TransmitAccount = pkString, oi_ConfigEncryptionPublicKey = encryptionKey\<rparr>]\<rparr>"

text \<open>Two events in one block: the later one of the plan replaces the earlier.\<close>

lemma config_events_last:
  "ol_events (NewOCR3ConfigLoader plan) (big_String n) =
     (case filter (\<lambda>e. ev_TriggerBlock e = n) (sp_ConfigEvents plan) of [] \<Rightarrow> None | es \<Rightarrow> Some (last es))"
proof -
  have "fold (\<lambda>event m. m(big_String (ev_TriggerBlock event) \<mapsto> event)) es m (big_String n) =
      (case filter (\<lambda>e. ev_TriggerBlock e = n) es of [] \<Rightarrow> m (big_String n) | es \<Rightarrow> Some (last es))"
    for es :: "OCR3ConfigEvent list" and m
    by (induction es arbitrary: m) (auto simp: big_String_inj split: list.splits)
  then show ?thesis by (simp add: NewOCR3ConfigLoader_def)
qed

section \<open>Transmitted reports\<close>

record OCR3TransmitLoader =
  tl_store :: "ChainTransmit list"
  tl_queue :: "nat list"
  tl_transmitted :: "string \<Rightarrow> nat option"

definition empty_loader :: OCR3TransmitLoader where
  "empty_loader = \<lparr>tl_store = [], tl_queue = [], tl_transmitted = Map.empty\<rparr>"

definition mark_loaded :: "Block \<Rightarrow> ChainTransmit \<Rightarrow> ChainTransmit" where
  "mark_loaded block e = e\<lparr>ct_BlockNumber := Some (b_Number block), ct_BlockHash := b_Hash block\<rparr>"

definition tl_Load :: "Block \<Rightarrow> OCR3TransmitLoader \<Rightarrow> Block \<times> OCR3TransmitLoader" where
  "tl_Load block ldr =
     (if tl_queue ldr = [] then (block, ldr)
      else
        (let store = fold (\<lambda>i st. st[i := mark_loaded block (st ! i)])
               (tl_queue ldr) (tl_store ldr);
             transmits = map (\<lambda>i. store ! i) (tl_queue ldr)
         in (block\<lparr>b_Transactions := b_Transactions block @ [PerformUpkeepTransaction transmits]\<rparr>,
             ldr\<lparr>tl_store := store, tl_queue := []\<rparr>)))"

text \<open>\<open>gob\<close> encodes an event; \<open>hash\<close> and \<open>rawHash\<close> are SHA-256, the former in base 64.\<close>

definition new_transmit :: "bytes \<Rightarrow> 64 word \<Rightarrow> ChainTransmit" where
  "new_transmit reportBytes rnd =
     \<lparr>ct_SendingAddress = [], ct_Report = reportBytes, ct_Hash = 0, ct_Round = rnd,
      ct_BlockNumber = None, ct_BlockHash = 0\<rparr>"

definition tl_Transmit ::
    "(ChainTransmit \<Rightarrow> bytes result) \<Rightarrow> (bytes \<Rightarrow> string) \<Rightarrow> (bytes \<Rightarrow> 256 word) \<Rightarrow> string \<Rightarrow> bytes \<Rightarrow> 64 word \<Rightarrow>
     OCR3TransmitLoader \<Rightarrow> go_error option \<times> OCR3TransmitLoader" where
  "tl_Transmit gob hash rawHash from reportBytes rnd ldr =
     (let report = new_transmit reportBytes rnd
      in case gob report of
           Inl err \<Rightarrow> (Some err, ldr)
         | Inr idHashBts \<Rightarrow>
             (let transmitKey = hash idHashBts; report = report\<lparr>ct_SendingAddress := from\<rparr>
              in case gob report of
                   Inl err \<Rightarrow> (Some err, ldr)
                 | Inr bts \<Rightarrow>
                     (let report = report\<lparr>ct_Hash := rawHash bts\<rparr>
                      in if tl_transmitted ldr transmitKey \<noteq> None then (Some ReportAlreadyTransmitted, ldr)
                         else (None, ldr\<lparr>tl_store := tl_store ldr @ [report],
                                tl_queue := tl_queue ldr @ [length (tl_store ldr)],
                                tl_transmitted := (tl_transmitted ldr)(transmitKey \<mapsto> length (tl_store ldr))\<rparr>))))"

definition tl_Results :: "string list \<Rightarrow> OCR3TransmitLoader \<Rightarrow> ChainTransmit list" where
  "tl_Results order ldr = map (\<lambda>k. tl_store ldr ! the (tl_transmitted ldr k)) order"

text \<open>\<open>OCR3Transmitter\<close> of \<open>simulate/ocr/transmit.go\<close> passes a node's identifier on.\<close>

record OCR3Transmitter =
  tr_transmitterID :: string

definition transmitter_Transmit where
  "transmitter_Transmit gob hash rawHash tr v report ldr =
     tl_Transmit gob hash rawHash (tr_transmitterID tr) report v ldr"

definition FromAccount :: "OCR3Transmitter \<Rightarrow> string" where
  "FromAccount tr = tr_transmitterID tr"

section \<open>Every report in one block\<close>

text \<open>
  The calls on the loader, in any order; the second component collects the transmits the blocks
  received.
\<close>

definition transmit_key :: "(ChainTransmit \<Rightarrow> bytes result) \<Rightarrow> (bytes \<Rightarrow> string) \<Rightarrow> bytes \<Rightarrow> 64 word \<Rightarrow> string" where
  "transmit_key gob hash report rnd = hash (projr (gob (new_transmit report rnd)))"

definition block_transmits :: "Block \<Rightarrow> ChainTransmit list" where
  "block_transmits block =
     concat (map (\<lambda>t. case t of PerformUpkeepTransaction ts \<Rightarrow> ts | _ \<Rightarrow> []) (b_Transactions block))"

inductive transmit_run ::
    "(ChainTransmit \<Rightarrow> bytes result) \<Rightarrow> (bytes \<Rightarrow> string) \<Rightarrow> (bytes \<Rightarrow> 256 word) \<Rightarrow>
     OCR3TransmitLoader \<Rightarrow> ChainTransmit list \<Rightarrow> bool"
  for gob hash rawHash where
  fresh: "transmit_run gob hash rawHash empty_loader []"
| transmit: "transmit_run gob hash rawHash ldr loaded \<Longrightarrow>
    tl_Transmit gob hash rawHash from report rnd ldr = (err, ldr') \<Longrightarrow> transmit_run gob hash rawHash ldr' loaded"
| load: "transmit_run gob hash rawHash ldr loaded \<Longrightarrow> block_transmits block = [] \<Longrightarrow>
    tl_Load block ldr = (block', ldr') \<Longrightarrow> transmit_run gob hash rawHash ldr' (loaded @ block_transmits block')"

definition entry_key where
  "entry_key gob hash e = transmit_key gob hash (ct_Report e) (ct_Round e)"

definition tl_inv :: "(ChainTransmit \<Rightarrow> bytes result) \<Rightarrow> (bytes \<Rightarrow> string) \<Rightarrow> OCR3TransmitLoader \<Rightarrow> ChainTransmit list \<Rightarrow> bool" where
  "tl_inv gob hash ldr loaded \<longleftrightarrow>
     loaded = take (length loaded) (tl_store ldr) \<and> length loaded \<le> length (tl_store ldr) \<and>
     tl_queue ldr = [length loaded..<length (tl_store ldr)] \<and>
     (\<forall>e\<in>set loaded. ct_BlockNumber e \<noteq> None) \<and>
     (\<forall>e\<in>set (drop (length loaded) (tl_store ldr)). ct_BlockNumber e = None) \<and>
     (\<forall>i < length (tl_store ldr). tl_transmitted ldr (entry_key gob hash (tl_store ldr ! i)) = Some i) \<and>
     (\<forall>k i. tl_transmitted ldr k = Some i \<longrightarrow>
        i < length (tl_store ldr) \<and> entry_key gob hash (tl_store ldr ! i) = k)"

lemma fold_update_length [simp]: "length (fold (\<lambda>i st. st[i := f (st ! i)]) is xs) = length xs"
  by (induction "is" arbitrary: xs) auto

lemma fold_update_upt:
  "m \<le> n \<Longrightarrow> n \<le> length xs \<Longrightarrow> fold (\<lambda>i st. st[i := f (st ! i)]) [m..<n] xs ! j =
     (if m \<le> j \<and> j < n then f (xs ! j) else xs ! j)"
proof (induction n)
  case (Suc n)
  then show ?case by (cases "m \<le> n") (auto simp: nth_list_update le_Suc_eq)
qed simp

lemma map_nth_upt_drop: "map (\<lambda>i. xs ! i) [k..<length xs] = drop k xs"
  by (rule nth_equalityI) auto

lemma block_transmits_append:
  "block_transmits (block\<lparr>b_Transactions := b_Transactions block @ [PerformUpkeepTransaction ts]\<rparr>) =
     block_transmits block @ ts"
  by (simp add: block_transmits_def)

lemma tl_inv_New: "tl_inv gob hash empty_loader []"
  by (simp add: tl_inv_def empty_loader_def)

lemma tl_inv_Transmit:
  assumes "tl_inv gob hash ldr loaded" "tl_Transmit gob hash rawHash from report rnd ldr = (err, ldr')"
  shows "tl_inv gob hash ldr' loaded"
proof (cases "err = None")
  case True
  define e where "e = (new_transmit report rnd)\<lparr>ct_SendingAddress := from,
    ct_Hash := rawHash (projr (gob ((new_transmit report rnd)\<lparr>ct_SendingAddress := from\<rparr>)))\<rparr>"
  have key: "entry_key gob hash e = transmit_key gob hash report rnd" "ct_BlockNumber e = None"
    by (simp_all add: entry_key_def e_def new_transmit_def)
  obtain b1 b2 where gob: "gob (new_transmit report rnd) = Inr b1"
      "gob ((new_transmit report rnd)\<lparr>ct_SendingAddress := from\<rparr>) = Inr b2"
    using assms(2) True
    by (cases "gob (new_transmit report rnd)"; cases "gob ((new_transmit report rnd)\<lparr>ct_SendingAddress := from\<rparr>)")
      (auto simp: tl_Transmit_def Let_def)
  have new: "tl_transmitted ldr (transmit_key gob hash report rnd) = None"
    using assms(2) True gob by (auto simp: tl_Transmit_def transmit_key_def Let_def split: if_splits)
  then have ldr': "ldr' = ldr\<lparr>tl_store := tl_store ldr @ [e], tl_queue := tl_queue ldr @ [length (tl_store ldr)],
      tl_transmitted := (tl_transmitted ldr)(transmit_key gob hash report rnd \<mapsto> length (tl_store ldr))\<rparr>"
    using assms(2) gob by (simp add: tl_Transmit_def transmit_key_def e_def Let_def)
  let ?K = "transmit_key gob hash report rnd" and ?n = "length (tl_store ldr)"
  have byI: "\<forall>i < ?n. tl_transmitted ldr (entry_key gob hash (tl_store ldr ! i)) = Some i"
    and byK: "\<forall>k i. tl_transmitted ldr k = Some i \<longrightarrow> i < ?n \<and> entry_key gob hash (tl_store ldr ! i) = k"
    using assms(1) unfolding tl_inv_def by blast+
  have "((tl_transmitted ldr)(?K \<mapsto> ?n)) (entry_key gob hash ((tl_store ldr @ [e]) ! i)) = Some i"
    if "i < Suc ?n" for i
  proof (cases "i = ?n")
    case False
    with that byI have "tl_transmitted ldr (entry_key gob hash (tl_store ldr ! i)) = Some i" by simp
    moreover from this new have "entry_key gob hash (tl_store ldr ! i) \<noteq> ?K" by auto
    ultimately show ?thesis using False that by (simp add: nth_append)
  qed (simp add: key)
  moreover have "i < Suc ?n \<and> entry_key gob hash ((tl_store ldr @ [e]) ! i) = k"
    if "((tl_transmitted ldr)(?K \<mapsto> ?n)) k = Some i" for k i
    using that byK key by (cases "k = ?K") (auto simp: nth_append less_Suc_eq)
  ultimately show ?thesis
    using assms(1) key(2) unfolding ldr' tl_inv_def by simp
next
  case False
  with assms(2) have "ldr' = ldr"
    by (auto simp: tl_Transmit_def Let_def split: sum.splits if_splits)
  with assms(1) show ?thesis by simp
qed

lemma tl_inv_Load:
  assumes inv: "tl_inv gob hash ldr loaded" and "block_transmits block = []"
    and load: "tl_Load block ldr = (block', ldr')"
  shows "tl_inv gob hash ldr' (loaded @ block_transmits block')"
proof (cases "tl_queue ldr = []")
  case True
  with assms show ?thesis by (simp add: tl_Load_def)
next
  case False
  let ?f = "mark_loaded block"
  let ?k = "length loaded" and ?n = "length (tl_store ldr)"
  define st where "st = fold (\<lambda>i st. st[i := ?f (st ! i)]) [?k..<?n] (tl_store ldr)"
  have q: "tl_queue ldr = [?k..<?n]" and k: "?k \<le> ?n" and loaded: "loaded = take ?k (tl_store ldr)"
    using inv by (auto simp: tl_inv_def)
  have st: "length st = ?n" "\<And>j. j < ?n \<Longrightarrow> st ! j = (if ?k \<le> j then ?f (tl_store ldr ! j) else tl_store ldr ! j)"
    using k by (simp_all add: st_def fold_update_upt)
  have ldr': "ldr' = ldr\<lparr>tl_store := st, tl_queue := []\<rparr>" and out: "block_transmits block' = drop ?k st"
    using load False assms(2) map_nth_upt_drop [of st ?k]
    unfolding q tl_Load_def st_def [symmetric] st(1)
    by (auto simp: Let_def block_transmits_append simp flip: st_def)
  have all: "loaded @ drop ?k st = st"
  proof (rule nth_equalityI)
    show "length (loaded @ drop ?k st) = length st" using k st(1) by simp
    fix j
    assume "j < length (loaded @ drop ?k st)"
    then have j: "j < ?n" using k st(1) by simp
    have "loaded ! j = tl_store ldr ! j" if "j < ?k" using that loaded by (metis nth_take)
    with j k st show "(loaded @ drop ?k st) ! j = st ! j" by (auto simp: nth_append)
  qed
  have keys: "entry_key gob hash (st ! j) = entry_key gob hash (tl_store ldr ! j)" if "j < ?n" for j
    using st(2) [OF that] by (simp add: entry_key_def mark_loaded_def)
  have numbers: "\<forall>e\<in>set st. ct_BlockNumber e \<noteq> None"
  proof
    fix e
    assume "e \<in> set st"
    then obtain j where j: "j < ?n" "e = st ! j" using st(1) by (metis in_set_conv_nth)
    show "ct_BlockNumber e \<noteq> None"
    proof (cases "?k \<le> j")
      case True
      with j st(2) show ?thesis by (simp add: mark_loaded_def)
    next
      case False
      then have "e \<in> set loaded" using j st(2) loaded k by (metis in_set_conv_nth length_take min.absorb2 not_le nth_take)
      with inv show ?thesis by (simp add: tl_inv_def)
    qed
  qed
  show ?thesis
    using inv keys numbers st(1) unfolding ldr' out all tl_inv_def by auto
qed

lemma transmit_run_inv: "transmit_run gob hash rawHash ldr loaded \<Longrightarrow> tl_inv gob hash ldr loaded"
  by (induction rule: transmit_run.induct) (auto intro: tl_inv_New tl_inv_Transmit tl_inv_Load)

text \<open>
  Whatever the order of transmissions and blocks, the accepted reports are the ones loaded into
  blocks so far, in the order in which they were accepted, followed by the ones waiting for the next
  block. None is loaded twice, none is lost, no report is accepted twice for one round, and a report
  has a block number exactly when it was loaded.
\<close>

lemma transmits_loaded_once:
  assumes "transmit_run gob hash rawHash ldr loaded"
  shows "tl_store ldr = loaded @ map (\<lambda>i. tl_store ldr ! i) (tl_queue ldr) \<and>
    distinct (map (\<lambda>e. (ct_Report e, ct_Round e)) (tl_store ldr)) \<and>
    (\<forall>e\<in>set loaded. ct_BlockNumber e \<noteq> None) \<and>
    (\<forall>i\<in>set (tl_queue ldr). ct_BlockNumber (tl_store ldr ! i) = None)"
proof -
  from transmit_run_inv [OF assms] have inv: "tl_inv gob hash ldr loaded" .
  let ?k = "length loaded" and ?n = "length (tl_store ldr)"
  have q: "tl_queue ldr = [?k..<?n]" and k: "?k \<le> ?n" and loaded: "loaded = take ?k (tl_store ldr)"
    using inv by (auto simp: tl_inv_def)
  have rest: "map (\<lambda>i. tl_store ldr ! i) [?k..<?n] = drop ?k (tl_store ldr)"
    by (simp add: map_nth_upt_drop)
  have "i = j" if "i < ?n" "j < ?n" "ct_Report (tl_store ldr ! i) = ct_Report (tl_store ldr ! j)"
      "ct_Round (tl_store ldr ! i) = ct_Round (tl_store ldr ! j)" for i j
    using inv that unfolding tl_inv_def entry_key_def by (metis option.inject)
  then have "distinct (map (\<lambda>e. (ct_Report e, ct_Round e)) (tl_store ldr))"
    by (auto simp: distinct_conv_nth)
  moreover have "tl_store ldr = loaded @ drop ?k (tl_store ldr)"
    using loaded by (metis append_take_drop_id)
  moreover have "\<forall>i\<in>set (tl_queue ldr). ct_BlockNumber (tl_store ldr ! i) = None"
  proof
    fix i
    assume "i \<in> set (tl_queue ldr)"
    then have "tl_store ldr ! i \<in> set (drop ?k (tl_store ldr))"
      using q rest by (metis imageI list.set_map)
    with inv show "ct_BlockNumber (tl_store ldr ! i) = None" by (simp add: tl_inv_def)
  qed
  moreover have "\<forall>e\<in>set loaded. ct_BlockNumber e \<noteq> None" using inv by (simp add: tl_inv_def)
  ultimately show ?thesis unfolding q rest by blast
qed

definition sample_loader :: OCR3TransmitLoader where
  "sample_loader = snd (tl_Transmit (\<lambda>e. Inr (ct_Report e)) (\<lambda>b. b) (\<lambda>b. 5) ''node'' ''report'' 3 empty_loader)"

definition sample_block :: Block where
  "sample_block = \<lparr>b_Hash = 0, b_Number = 101, b_Transactions = []\<rparr>"

definition sample_transmit :: "int option \<Rightarrow> ChainTransmit" where
  "sample_transmit n = \<lparr>ct_SendingAddress = ''node'', ct_Report = ''report'', ct_Hash = 5, ct_Round = 3,
     ct_BlockNumber = n, ct_BlockHash = 0\<rparr>"

lemma sample_loader_eval:
  "tl_Transmit (\<lambda>e. Inr (ct_Report e)) (\<lambda>b. b) (\<lambda>b. 5) ''node'' ''report'' 3 empty_loader = (None, sample_loader)"
  "tl_Load sample_block sample_loader =
     (sample_block\<lparr>b_Transactions := [PerformUpkeepTransaction [sample_transmit (Some 101)]]\<rparr>,
      sample_loader\<lparr>tl_store := [sample_transmit (Some 101)], tl_queue := []\<rparr>)"
  by (simp_all add: sample_loader_def tl_Transmit_def empty_loader_def new_transmit_def tl_Load_def
      mark_loaded_def sample_block_def sample_transmit_def Let_def)

lemma transmits_loaded_once_witness:
  "transmit_run (\<lambda>e. Inr (ct_Report e)) (\<lambda>b. b) (\<lambda>b. 5)
     (sample_loader\<lparr>tl_store := [sample_transmit (Some 101)], tl_queue := []\<rparr>) [sample_transmit (Some 101)] \<and>
   ct_BlockNumber (sample_transmit (Some 101)) \<noteq> None"
proof -
  let ?run = "transmit_run (\<lambda>e. Inr (ct_Report e)) (\<lambda>b. b) (\<lambda>b. 5 :: 256 word)"
  have "?run sample_loader []"
    using transmit_run.transmit [OF transmit_run.fresh sample_loader_eval(1)] .
  from transmit_run.load [OF this _ sample_loader_eval(2)]
  have run: "?run (sample_loader\<lparr>tl_store := [sample_transmit (Some 101)], tl_queue := []\<rparr>) [sample_transmit (Some 101)]"
    by (simp add: block_transmits_def sample_block_def)
  from transmits_loaded_once [OF this] run show ?thesis by simp
qed

text \<open>The final results list every accepted report once, whatever the order of the map.\<close>

lemma results_complete:
  assumes "transmit_run gob hash rawHash ldr loaded" "range_order (tl_transmitted ldr) ks"
  shows "mset (tl_Results ks ldr) = mset (tl_store ldr)"
proof -
  have inv: "tl_inv gob hash ldr loaded" using transmit_run_inv [OF assms(1)] .
  let ?n = "length (tl_store ldr)" and ?ix = "\<lambda>k. the (tl_transmitted ldr k)"
  have ent: "entry_key gob hash (tl_store ldr ! ?ix k) = k" "?ix k < ?n" if "k \<in> set ks" for k
    using that inv range_order_the [OF assms(2) that] unfolding tl_inv_def by auto
  have "inj_on ?ix (set ks)" by (rule inj_onI) (metis ent(1))
  moreover have "?ix ` set ks = {0..<?n}"
  proof
    show "{0..<?n} \<subseteq> ?ix ` set ks"
    proof
      fix i
      assume "i \<in> {0..<?n}"
      then have "tl_transmitted ldr (entry_key gob hash (tl_store ldr ! i)) = Some i"
        using inv by (simp add: tl_inv_def)
      moreover from this have "entry_key gob hash (tl_store ldr ! i) \<in> set ks"
        using assms(2) by (auto simp: range_order_def)
      ultimately show "i \<in> ?ix ` set ks" by (metis imageI option.sel)
    qed
  qed (use ent(2) in auto)
  moreover have "distinct ks" using assms(2) by auto
  ultimately have "mset (map ?ix ks) = mset [0..<?n]"
    by (intro set_eq_iff_mset_eq_distinct [THEN iffD1]) (simp_all add: distinct_map)
  then have "mset (map (\<lambda>i. tl_store ldr ! i) (map ?ix ks)) = mset (map (\<lambda>i. tl_store ldr ! i) [0..<?n])"
    by (metis mset_map)
  then show ?thesis by (simp add: tl_Results_def o_def map_nth)
qed

section \<open>Expected performs\<close>

definition logTriggersUpkeep :: "SimulatedLog \<Rightarrow> SimulatedUpkeep \<Rightarrow> bool" where
  "logTriggersUpkeep lg upkeep =
     (if sl_TriggerAt lg \<ge> su_CreateInBlock upkeep \<and> sl_TriggerValue lg = su_TriggeredBy upkeep then
        (if su_AlwaysEligible upkeep then True
         else list_ex (\<lambda>block. block \<ge> sl_TriggerAt lg) (su_EligibleAt upkeep))
      else False)"

definition expected_of :: "SimulatedLog list \<Rightarrow> SimulatedUpkeep \<Rightarrow> int" where
  "expected_of logs upkeep =
     (if \<not> su_Expected upkeep then 0
      else case su_Type upkeep of
        ConditionalType \<Rightarrow> int (length (su_EligibleAt upkeep))
      | LogTriggerType \<Rightarrow> int (length (filter (\<lambda>lg. logTriggersUpkeep lg upkeep) logs)))"

definition calculateExpectedPerformEvents ::
    "mathparse \<Rightarrow> (bytes \<Rightarrow> 256 word) \<Rightarrow> SimulationPlan \<Rightarrow> int result option" where
  "calculateExpectedPerformEvents parse sha plan =
     (case GenerateAllUpkeeps parse sha plan of
        None \<Rightarrow> None
      | Some (Inl err) \<Rightarrow> Some (Inl err)
      | Some (Inr upkeeps) \<Rightarrow>
          Some (Inr (fold (\<lambda>upkeep cnt. cnt + expected_of (GenerateLogTriggers plan) upkeep) upkeeps 0)))"

text \<open>
  The loader of a plan, with the progress tracker it registers: \<open>Register\<close> of the progress telemetry
  does not fail.
\<close>

definition transmitProgressNamespace :: string where
  "transmitProgressNamespace = ''Collecting upkeep perform events''"
definition transmitNegativeProgressNamespace :: string where
  "transmitNegativeProgressNamespace = ''No upkeep perform events expected''"

definition NewOCR3TransmitLoader ::
    "mathparse \<Rightarrow> (bytes \<Rightarrow> 256 word) \<Rightarrow> SimulationPlan \<Rightarrow> (OCR3TransmitLoader \<times> string \<times> int) result option" where
  "NewOCR3TransmitLoader parse sha plan =
     (case calculateExpectedPerformEvents parse sha plan of
        None \<Rightarrow> None
      | Some (Inl err) \<Rightarrow> Some (Inl err)
      | Some (Inr expected) \<Rightarrow>
          Some (Inr (empty_loader,
            if expected = 0 then transmitNegativeProgressNamespace else transmitProgressNamespace, expected)))"

definition countPerformEvents :: "(bytes \<Rightarrow> CheckResult list result) \<Rightarrow> bytes \<Rightarrow> int" where
  "countPerformEvents unmarshal report =
     (case DecodeCheckResultsFromReportBytes unmarshal report of
        Inl err \<Rightarrow> 0
      | Inr results \<Rightarrow> int (length results))"

lemma expected_sum:
  "fold (\<lambda>u cnt. cnt + expected_of logs u) us c = c + (\<Sum>u\<leftarrow>us. expected_of logs u)"
  by (induction us arbitrary: c) simp_all

end
