(* ===== verification/Sim_Net.thy ===== *)
theory Sim_Net
  imports Sim_Generate
begin

text \<open>
  \<open>tools/simulator/simulate/net\<close>: the message network between simulated nodes (\<open>network.go\<close>) and the RPC
  service that delays and fails the calls of the check pipeline (\<open>service.go\<close>). A channel is the list of
  the messages not yet received and is named by its position in the list of channels made so far,
  since an endpoint keeps the channel it was given when the name is registered again. Random draws
  are arguments.
\<close>

section \<open>Network\<close>

record BinaryMessage =
  bm_Msg :: bytes
  bm_Sender :: "8 word"

record SimulatedNetwork =
  sn_latency :: int
  sn_endpoints :: "string \<Rightarrow> nat option"
  sn_channels :: "BinaryMessage list list"

definition NewSimulatedNetwork :: "duration \<Rightarrow> SimulatedNetwork" where
  "NewSimulatedNetwork avgLatency =
     \<lparr>sn_latency = go_div avgLatency millisecond, sn_endpoints = Map.empty, sn_channels = []\<rparr>"

definition RegisterEndpoint :: "string \<Rightarrow> SimulatedNetwork \<Rightarrow> nat \<times> SimulatedNetwork" where
  "RegisterEndpoint peer sn =
     (let ch = length (sn_channels sn)
      in (ch, sn\<lparr>sn_endpoints := (sn_endpoints sn)(peer \<mapsto> ch), sn_channels := sn_channels sn @ [[]]\<rparr>))"

text \<open>
  A channel holds a thousand messages; a send to a full one does not return until the receiver has
  taken a message.
\<close>

definition send_message :: "nat \<Rightarrow> BinaryMessage \<Rightarrow> SimulatedNetwork \<Rightarrow> SimulatedNetwork result" where
  "send_message ch msg sn =
     (if length (sn_channels sn ! ch) \<ge> 1000 then Inl Blocked
      else Inr (sn\<lparr>sn_channels := (sn_channels sn)[ch := sn_channels sn ! ch @ [msg]]\<rparr>))"

text \<open>\<open>rand.Intn\<close> panics unless its argument is positive.\<close>

definition net_SendTo :: "8 word \<Rightarrow> bytes \<Rightarrow> string \<Rightarrow> SimulatedNetwork \<Rightarrow> SimulatedNetwork result" where
  "net_SendTo sender payload dst sn =
     (case sn_endpoints sn dst of
        None \<Rightarrow> Inr sn
      | Some ch \<Rightarrow>
          if sn_latency sn \<le> 0 then Inl (Panic ''invalid argument to Intn'')
          else send_message ch \<lparr>bm_Msg = payload, bm_Sender = sender\<rparr> sn)"

text \<open>
  \<open>Broadcast\<close> ranges over the map of endpoints: \<open>peers\<close> is the order of that iteration. The result is
  the network together with the endpoints still to be served when a send blocks.
\<close>

fun net_Broadcast ::
    "8 word \<Rightarrow> bytes \<Rightarrow> string list \<Rightarrow> SimulatedNetwork \<Rightarrow> string list \<times> SimulatedNetwork" where
  "net_Broadcast sender payload [] sn = ([], sn)"
| "net_Broadcast sender payload (peer # peers) sn =
     (case sn_endpoints sn peer of
        None \<Rightarrow> net_Broadcast sender payload peers sn
      | Some ch \<Rightarrow>
          (case send_message ch \<lparr>bm_Msg = payload, bm_Sender = sender\<rparr> sn of
             Inl _ \<Rightarrow> (peer # peers, sn)
           | Inr sn' \<Rightarrow> net_Broadcast sender payload peers sn'))"

text \<open>The peer table of a factory is the one its endpoints look up, the map being shared.\<close>

record EndpointFactory =
  ef_PeerLookup :: "8 word \<Rightarrow> string option"
  ef_pID :: string

definition NewFactory :: "string \<Rightarrow> EndpointFactory" where
  "NewFactory uuid = \<lparr>ef_PeerLookup = Map.empty, ef_pID = uuid\<rparr>"

fun number_peers ::
    "string \<Rightarrow> nat \<Rightarrow> string list \<Rightarrow> 8 word \<Rightarrow> (8 word \<Rightarrow> string option) \<Rightarrow>
     8 word \<times> (8 word \<Rightarrow> string option)" where
  "number_peers pID i [] thisID lookup = (thisID, lookup)"
| "number_peers pID i (peer # peers) thisID lookup =
     number_peers pID (Suc i) peers
       (if peer = pID then word_of_nat i else thisID) (lookup(word_of_nat i \<mapsto> peer))"

record NetworkEndpoint =
  ne_ID :: "8 word"
  ne_chReceive :: nat

definition NewEndpoint ::
    "string list \<Rightarrow> EndpointFactory \<Rightarrow> SimulatedNetwork \<Rightarrow> NetworkEndpoint \<times> EndpointFactory \<times> SimulatedNetwork" where
  "NewEndpoint peerIDs ef sn =
     (let (thisID, lookup) = number_peers (ef_pID ef) 0 peerIDs 0 (ef_PeerLookup ef);
          (ch, sn') = RegisterEndpoint (ef_pID ef) sn
      in (\<lparr>ne_ID = thisID, ne_chReceive = ch\<rparr>, ef\<lparr>ef_PeerLookup := lookup\<rparr>, sn'))"

definition PeerID :: "EndpointFactory \<Rightarrow> string" where
  "PeerID ef = ef_pID ef"

definition ep_SendTo ::
    "bytes \<Rightarrow> 8 word \<Rightarrow> EndpointFactory \<Rightarrow> NetworkEndpoint \<Rightarrow> SimulatedNetwork \<Rightarrow> SimulatedNetwork result" where
  "ep_SendTo payload dst ef ne sn =
     (case ef_PeerLookup ef dst of
        None \<Rightarrow> Inr sn
      | Some peer \<Rightarrow> net_SendTo (ne_ID ne) payload peer sn)"

definition ep_Broadcast ::
    "bytes \<Rightarrow> string list \<Rightarrow> NetworkEndpoint \<Rightarrow> SimulatedNetwork \<Rightarrow> string list \<times> SimulatedNetwork" where
  "ep_Broadcast payload peers ne sn = net_Broadcast (ne_ID ne) payload peers sn"

text \<open>A receive from the channel \<open>Receive\<close> returns, which waits when it is empty\<close>

definition ep_Receive :: "NetworkEndpoint \<Rightarrow> SimulatedNetwork \<Rightarrow> (BinaryMessage \<times> SimulatedNetwork) option" where
  "ep_Receive ne sn =
     (case sn_channels sn ! ne_chReceive ne of
        msg # msgs \<Rightarrow> Some (msg, sn\<lparr>sn_channels := (sn_channels sn)[ne_chReceive ne := msgs]\<rparr>)
      | [] \<Rightarrow> None)"

subsection \<open>Who sends to whom\<close>

definition net_inv :: "SimulatedNetwork \<Rightarrow> bool" where
  "net_inv sn \<longleftrightarrow> (\<forall>peer ch. sn_endpoints sn peer = Some ch \<longrightarrow> ch < length (sn_channels sn)) \<and>
     inj_on (sn_endpoints sn) (dom (sn_endpoints sn))"

lemma number_peers_lookup:
  assumes "i + length peers \<le> 256"
  shows "snd (number_peers pID i peers t m) w =
    (if i \<le> unat w \<and> unat w < i + length peers then Some (peers ! (unat w - i)) else m w)"
  using assms
proof (induction peers arbitrary: i t m)
  case (Cons p peers)
  have "unat (word_of_nat i :: 8 word) = i" using Cons.prems by (simp add: unat_of_nat)
  then have "w = word_of_nat i \<longleftrightarrow> unat w = i" by (auto simp flip: word_unat_eq_iff)
  with Cons show ?case by (auto simp: Suc_le_eq nth_Cons')
qed auto

lemma number_peers_fst:
  "fst (number_peers pID i peers t m) = t" if "pID \<notin> set peers"
  using that by (induction peers arbitrary: i t m) auto

lemma number_peers_own:
  assumes "distinct peers" "j < length peers" "peers ! j = pID"
  shows "fst (number_peers pID i peers t m) = word_of_nat (i + j)"
  using assms
proof (induction peers arbitrary: i j t m)
  case (Cons p peers)
  show ?case
  proof (cases j)
    case 0
    with Cons.prems show ?thesis by (auto simp: number_peers_fst)
  next
    case (Suc k)
    with Cons.prems Cons.IH [of k "Suc i" "if p = pID then word_of_nat i else t"] show ?thesis by simp
  qed
qed simp

lemma new_network_inv: "net_inv (NewSimulatedNetwork l)"
  by (simp add: net_inv_def NewSimulatedNetwork_def)

lemma register_inv: "net_inv sn \<Longrightarrow> net_inv (snd (RegisterEndpoint peer sn))"
  apply (simp add: net_inv_def RegisterEndpoint_def Let_def inj_on_def less_Suc_eq)
  apply (metis domI less_irrefl)
  done

lemma NewEndpoint_inv: "net_inv sn \<Longrightarrow> net_inv (snd (snd (NewEndpoint peers ef sn)))"
  using register_inv [of sn "ef_pID ef"] by (simp add: NewEndpoint_def Let_def split_beta)

lemma send_inv: "net_inv sn \<Longrightarrow> send_message ch msg sn = Inr sn' \<Longrightarrow> net_inv sn'"
  by (auto simp: net_inv_def send_message_def split: if_splits)

lemma broadcast_inv: "net_inv sn \<Longrightarrow> net_inv (snd (net_Broadcast s payload peers sn))"
  by (induction peers arbitrary: sn) (auto split: option.splits sum.splits intro: send_inv)

text \<open>What the endpoint at a position of the peer list is.\<close>

lemma NewEndpoint_id:
  assumes "distinct peers" "j < length peers" "peers ! j = ef_pID ef" "NewEndpoint peers ef sn = (ne, ef', sn')"
  shows "ne_ID ne = word_of_nat j"
  using number_peers_own [OF assms(1-3), of 0] assms(4)
  by (auto simp: NewEndpoint_def Let_def split_beta)

lemma NewEndpoint_lookup:
  assumes "length peers \<le> 256" "k < length peers" "NewEndpoint peers ef sn = (ne, ef', sn')"
  shows "ef_PeerLookup ef' (word_of_nat k) = Some (peers ! k)"
  using number_peers_lookup [of 0 peers "ef_pID ef" 0 "ef_PeerLookup ef" "word_of_nat k"] assms
  by (auto simp: NewEndpoint_def Let_def split_beta unat_of_nat)

text \<open>
  The endpoint of the node at position \<open>j\<close> of at most 256 distinct peers sends to the oracle
  numbered \<open>k\<close>: the message goes to the back of the channel registered for the peer at position \<open>k\<close> and
  to no other, and it carries \<open>j\<close> as its sender; the latency has to be at least a millisecond and
  the channel must not be full.
\<close>

lemma message_reaches_peer:
  assumes "distinct peers" "length peers \<le> 256" "j < length peers" "k < length peers"
    and "peers ! j = ef_pID ef" "NewEndpoint peers ef sn0 = (ne, ef', sn1)"
    and "net_inv sn" "sn_endpoints sn (peers ! k) = Some ch" "sn_latency sn > 0" "length (sn_channels sn ! ch) < 1000"
  shows "ep_SendTo payload (word_of_nat k) ef' ne sn =
      Inr (sn\<lparr>sn_channels := (sn_channels sn)[ch := sn_channels sn ! ch @ [\<lparr>bm_Msg = payload, bm_Sender = word_of_nat j\<rparr>]]\<rparr>)
    \<and> ch < length (sn_channels sn) \<and> (\<forall>peer. peer \<noteq> peers ! k \<longrightarrow> sn_endpoints sn peer \<noteq> Some ch)"
proof (intro conjI)
  show "ep_SendTo payload (word_of_nat k) ef' ne sn =
      Inr (sn\<lparr>sn_channels := (sn_channels sn)[ch := sn_channels sn ! ch @ [\<lparr>bm_Msg = payload, bm_Sender = word_of_nat j\<rparr>]]\<rparr>)"
    using NewEndpoint_id [OF assms(1,3,5,6)] NewEndpoint_lookup [OF assms(2,4,6)] assms(8-10)
    by (simp add: ep_SendTo_def net_SendTo_def send_message_def)
  show "ch < length (sn_channels sn)" using assms(7,8) by (simp add: net_inv_def)
  show "\<forall>peer. peer \<noteq> peers ! k \<longrightarrow> sn_endpoints sn peer \<noteq> Some ch"
    using assms(7,8) unfolding net_inv_def inj_on_def by (metis domI)
qed

definition sample_network :: "NetworkEndpoint \<times> EndpointFactory \<times> SimulatedNetwork" where
  "sample_network =
     (let sn = snd (RegisterEndpoint ''b'' (NewSimulatedNetwork 50000000)) in NewEndpoint [''b'', ''a''] (NewFactory ''a'') sn)"

lemma message_reaches_peer_witness:
  "ep_SendTo ''m'' 0 (fst (snd sample_network)) (fst sample_network) (snd (snd sample_network)) =
     Inr ((snd (snd sample_network))\<lparr>sn_channels := [[\<lparr>bm_Msg = ''m'', bm_Sender = 1\<rparr>], []]\<rparr>)"
proof -
  let ?sn = "snd (RegisterEndpoint ''b'' (NewSimulatedNetwork 50000000))"
  have "net_inv (snd (snd sample_network))"
    by (simp add: sample_network_def Let_def new_network_inv register_inv NewEndpoint_inv)
  moreover have "NewEndpoint [''b'', ''a''] (NewFactory ''a'') ?sn =
      (fst sample_network, fst (snd sample_network), snd (snd sample_network))"
    by (simp add: sample_network_def Let_def)
  moreover have "snd (snd sample_network) = \<lparr>sn_latency = 50, sn_endpoints = [''b'' \<mapsto> 0, ''a'' \<mapsto> 1], sn_channels = [[], []]\<rparr>"
    by (simp add: sample_network_def Let_def NewEndpoint_def RegisterEndpoint_def NewSimulatedNetwork_def
        NewFactory_def split_beta go_div_def millisecond_def)
  ultimately show ?thesis
    using message_reaches_peer [of "[''b'', ''a'']" 1 0 "NewFactory ''a''" ?sn "fst sample_network"
        "fst (snd sample_network)" "snd (snd sample_network)" "snd (snd sample_network)" 0 "''m''"]
    by (simp add: NewFactory_def)
qed

text \<open>A latency below a millisecond makes every message to a registered peer a panic.\<close>

lemma small_latency_panics:
  assumes "0 \<le> l" "l < millisecond" "sn_latency sn = sn_latency (NewSimulatedNetwork l)" "sn_endpoints sn dst = Some ch"
  shows "net_SendTo s payload dst sn = Inl (Panic ''invalid argument to Intn'')"
  using assms by (simp add: net_SendTo_def NewSimulatedNetwork_def go_div_def millisecond_def)

text \<open>A broadcast that does not block adds the message to the channel of every endpoint.\<close>

lemma net_broadcast_reaches_all:
  assumes "net_inv sn" "distinct peers" "set peers = dom (sn_endpoints sn)"
    and "\<forall>peer ch. sn_endpoints sn peer = Some ch \<longrightarrow> length (sn_channels sn ! ch) < 1000"
    and "net_Broadcast s payload peers sn = (left, sn')" "sn_endpoints sn peer = Some ch"
  shows "left = [] \<and> sn_channels sn' ! ch = sn_channels sn ! ch @ [\<lparr>bm_Msg = payload, bm_Sender = s\<rparr>]"
proof -
  let ?msg = "\<lparr>bm_Msg = payload, bm_Sender = s\<rparr>"
  have *: "fst (net_Broadcast s payload ps sn) = [] \<and>
      (\<forall>peer ch. sn_endpoints sn peer = Some ch \<longrightarrow>
         sn_channels (snd (net_Broadcast s payload ps sn)) ! ch =
           sn_channels sn ! ch @ (if peer \<in> set ps then [?msg] else []))"
    if "net_inv sn" "distinct ps"
      "\<forall>peer\<in>set ps. \<forall>ch. sn_endpoints sn peer = Some ch \<longrightarrow> length (sn_channels sn ! ch) < 1000" for ps sn
    using that
  proof (induction ps arbitrary: sn)
    case (Cons p ps)
    show ?case
    proof (cases "sn_endpoints sn p")
      case None
      with Cons show ?thesis by auto
    next
      case (Some c)
      let ?sn = "sn\<lparr>sn_channels := (sn_channels sn)[c := sn_channels sn ! c @ [?msg]]\<rparr>"
      have send: "send_message c ?msg sn = Inr ?sn" using Cons.prems Some by (simp add: send_message_def)
      have c: "c < length (sn_channels sn)" using Cons.prems(1) Some by (simp add: net_inv_def)
      have other: "d \<noteq> c" if "sn_endpoints sn q = Some d" "q \<noteq> p" for q d
        using Cons.prems(1) Some that unfolding net_inv_def inj_on_def by (metis domI)
      have "\<forall>q\<in>set ps. \<forall>d. sn_endpoints ?sn q = Some d \<longrightarrow> length (sn_channels ?sn ! d) < 1000"
      proof (intro ballI allI impI)
        fix q d assume "q \<in> set ps" and d: "sn_endpoints ?sn q = Some d"
        then have "d \<noteq> c" using other [of q d] Cons.prems(2) by auto
        with \<open>q \<in> set ps\<close> d Cons.prems(3) show "length (sn_channels ?sn ! d) < 1000" by simp
      qed
      from Cons.IH [OF send_inv [OF Cons.prems(1) send] _ this] Cons.prems(2) Some send c other show ?thesis
        by (auto simp: nth_list_update)
    qed
  qed simp
  from * [OF assms(1,2)] assms(3,4) have "fst (net_Broadcast s payload peers sn) = []"
    and "\<forall>p c. sn_endpoints sn p = Some c \<longrightarrow> sn_channels (snd (net_Broadcast s payload peers sn)) ! c =
           sn_channels sn ! c @ (if p \<in> set peers then [?msg] else [])" by blast+
  moreover have "peer \<in> set peers" using assms(3,6) by auto
  ultimately show ?thesis using assms(5,6) by simp
qed

section \<open>Network service\<close>

definition RateLimitTimeout :: duration where "RateLimitTimeout = 50 * millisecond"
definition ProbabilityAccuracy :: nat where "ProbabilityAccuracy = 10000"

text \<open>
  The telemetry collector receives the name, the waiting time and the error of a call, and the
  number of calls of a tenth of a second: the two logs are the last fields.
\<close>

record SimulatedNetworkService =
  ns_LoadLimitProbability :: rat
  ns_RateLimit :: int
  ns_AvgLatency :: int
  ns_totalCalls :: nat
  ns_callCountIncrement :: nat
  ns_dataPoints :: "nat list"
  ns_registered :: "(string \<times> duration \<times> go_error option) list"
  ns_ratePoints :: "nat list"

definition NewSimulatedNetworkService :: "rat \<Rightarrow> int \<Rightarrow> int \<Rightarrow> bool \<Rightarrow> SimulatedNetworkService result" where
  "NewSimulatedNetworkService load rate latency tel =
     (if load > 1 \<or> load < 0 then Inl (Panic ''load limit probability must be between 0 and 1'')
      else if \<not> tel then Inl (Panic ''unexpected nil telemetry collector'')
      else Inr \<lparr>ns_LoadLimitProbability = load, ns_RateLimit = rate, ns_AvgLatency = latency, ns_totalCalls = 0,
                ns_callCountIncrement = 0, ns_dataPoints = [], ns_registered = [], ns_ratePoints = []\<rparr>)"

definition addCall :: "SimulatedNetworkService \<Rightarrow> SimulatedNetworkService" where
  "addCall ns = ns\<lparr>ns_totalCalls := ns_totalCalls ns + 1, ns_callCountIncrement := ns_callCountIncrement ns + 1\<rparr>"

definition ns_rate :: "SimulatedNetworkService \<Rightarrow> nat" where
  "ns_rate ns =
     (let dataPointLimit = (if length (ns_dataPoints ns) > 10 then 10 else length (ns_dataPoints ns))
      in sum_list (drop (length (ns_dataPoints ns) - dataPointLimit) (ns_dataPoints ns)))"

definition shouldRateLimit :: "SimulatedNetworkService \<Rightarrow> bool" where
  "shouldRateLimit ns \<longleftrightarrow> int (ns_rate ns) > ns_RateLimit ns"

text \<open>\<open>randValue\<close> is the draw of \<open>rand.Intn(accuracy)\<close>.\<close>

definition atLoadLimit :: "nat \<Rightarrow> SimulatedNetworkService \<Rightarrow> bool" where
  "atLoadLimit randValue ns \<longleftrightarrow>
     int randValue < decimal_Round (ns_LoadLimitProbability ns * of_nat ProbabilityAccuracy)"

text \<open>The goroutine a call starts: it fails after the time-out or waits the drawn time.\<close>

datatype CallTask =
    ErroredLimit string go_error
  | ForcedWait string duration

definition register_call ::
    "string \<Rightarrow> duration \<Rightarrow> go_error option \<Rightarrow> SimulatedNetworkService \<Rightarrow> SimulatedNetworkService" where
  "register_call name wait err ns = ns\<lparr>ns_registered := ns_registered ns @ [(name, wait, err)]\<rparr>"

text \<open>\<open>randVal\<close> is the draw of the binomial distribution.\<close>

definition ns_Call :: "string \<Rightarrow> nat \<Rightarrow> nat \<Rightarrow> SimulatedNetworkService \<Rightarrow> CallTask \<times> SimulatedNetworkService" where
  "ns_Call name randValue randVal ns0 =
     (let ns = addCall ns0 in
      if shouldRateLimit ns then (ErroredLimit name NetRateLimitExceeded, ns)
      else if atLoadLimit randValue ns then (ErroredLimit name NetLoadLimitExceeded, ns)
      else (ForcedWait name (int randVal * millisecond + RateLimitTimeout), ns))"

text \<open>
  The two goroutines with the branch their \<open>select\<close> takes (\<open>Some e\<close> the context is done with error \<open>e\<close>):
  the value sent to the caller and the service after. The errored call registers before it waits,
  the waiting one after.
\<close>

definition doErroredLimit ::
    "string \<Rightarrow> go_error \<Rightarrow> go_error option \<Rightarrow> SimulatedNetworkService \<Rightarrow> go_error option \<times> SimulatedNetworkService" where
  "doErroredLimit name err ctx ns =
     (let ns' = register_call name RateLimitTimeout (Some err) ns
      in case ctx of Some e \<Rightarrow> (Some e, ns') | None \<Rightarrow> (Some err, ns'))"

definition doForcedWait ::
    "string \<Rightarrow> duration \<Rightarrow> go_error option \<Rightarrow> SimulatedNetworkService \<Rightarrow> go_error option \<times> SimulatedNetworkService" where
  "doForcedWait name waitTime ctx ns =
     (case ctx of
        Some e \<Rightarrow> (Some e, register_call name waitTime (Some e) ns)
      | None \<Rightarrow> (None, register_call name waitTime None ns))"

fun run_task :: "CallTask \<Rightarrow> go_error option \<Rightarrow> SimulatedNetworkService \<Rightarrow> go_error option \<times> SimulatedNetworkService" where
  "run_task (ErroredLimit name err) ctx ns = doErroredLimit name err ctx ns"
| "run_task (ForcedWait name waitTime) ctx ns = doForcedWait name waitTime ctx ns"

definition collectIncrement :: "SimulatedNetworkService \<Rightarrow> nat \<times> SimulatedNetworkService" where
  "collectIncrement ns =
     (let calls = ns_callCountIncrement ns
      in (calls, ns\<lparr>ns_callCountIncrement := 0, ns_dataPoints := ns_dataPoints ns @ [calls],
                    ns_ratePoints := ns_ratePoints ns @ [calls]\<rparr>))"

text \<open>
  A run of the service is the sequence of what happens to it, in any order: a call is made, the
  goroutine of a call finishes, or the ticker of \<open>run\<close> fires.
\<close>

datatype service_event =
    CallMade string nat nat
  | TaskDone CallTask "go_error option"
  | TickerFired

fun service_step :: "service_event \<Rightarrow> SimulatedNetworkService \<Rightarrow> SimulatedNetworkService" where
  "service_step (CallMade name randValue randVal) ns = snd (ns_Call name randValue randVal ns)"
| "service_step (TaskDone t ctx) ns = snd (run_task t ctx ns)"
| "service_step TickerFired ns = snd (collectIncrement ns)"

lemmas service_defs = ns_Call_def addCall_def Let_def collectIncrement_def doErroredLimit_def doForcedWait_def
  register_call_def

lemma ns_Call_snd: "snd (ns_Call name r v ns) = addCall ns"
  by (simp add: ns_Call_def Let_def)

lemma run_task_snd: "\<exists>log. snd (run_task t ctx ns) = ns\<lparr>ns_registered := log\<rparr>"
  by (cases t) (auto simp: service_defs split: option.splits)

text \<open>
  What the counters should be, read off the events alone: the calls, and the numbers of calls
  between one firing of the ticker and the next, \<open>n\<close> calls having been made since the last one.
\<close>

definition calls_made :: "service_event list \<Rightarrow> nat" where
  "calls_made evs = length (filter (\<lambda>e. case e of CallMade _ _ _ \<Rightarrow> True | _ \<Rightarrow> False) evs)"

fun tenths :: "nat \<Rightarrow> service_event list \<Rightarrow> nat list" where
  "tenths n [] = []"
| "tenths n (CallMade _ _ _ # evs) = tenths (Suc n) evs"
| "tenths n (TaskDone _ _ # evs) = tenths n evs"
| "tenths n (TickerFired # evs) = n # tenths 0 evs"

lemma sum_tenths: "sum_list (tenths n evs) \<le> n + calls_made evs"
proof (induction n evs rule: tenths.induct)
  case (2 n name r v evs)
  then show ?case by (simp add: calls_made_def)
qed (auto simp: calls_made_def)

lemma service_steps:
  "ns_LoadLimitProbability (fold service_step evs ns) = ns_LoadLimitProbability ns \<and>
   ns_RateLimit (fold service_step evs ns) = ns_RateLimit ns \<and>
   ns_totalCalls (fold service_step evs ns) = ns_totalCalls ns + calls_made evs \<and>
   ns_dataPoints (fold service_step evs ns) = ns_dataPoints ns @ tenths (ns_callCountIncrement ns) evs \<and>
   ns_ratePoints (fold service_step evs ns) = ns_ratePoints ns @ tenths (ns_callCountIncrement ns) evs"
proof (induction evs arbitrary: ns)
  case (Cons e evs)
  show ?case
  proof (cases e)
    case (CallMade name r v)
    then show ?thesis using Cons.IH [of "addCall ns"] by (simp add: ns_Call_snd addCall_def calls_made_def)
  next
    case (TaskDone t ctx)
    obtain log where "snd (run_task t ctx ns) = ns\<lparr>ns_registered := log\<rparr>" using run_task_snd by blast
    then show ?thesis using TaskDone Cons.IH [of "ns\<lparr>ns_registered := log\<rparr>"] by (simp add: calls_made_def)
  next
    case TickerFired
    then show ?thesis
      using Cons.IH [of "snd (collectIncrement ns)"] by (simp add: collectIncrement_def Let_def calls_made_def)
  qed
qed (simp add: calls_made_def)

lemma ns_rate_newest: "ns_rate ns = sum_list (take 10 (rev (ns_dataPoints ns)))"
  by (simp add: ns_rate_def Let_def take_rev sum_list_rev)

lemma decimal_Round_near:
  assumes "0 \<le> q"
  shows "\<bar>of_nat (nat (decimal_Round q)) - q\<bar> \<le> 1 / 2" "0 \<le> decimal_Round q"
proof -
  show pos: "0 \<le> decimal_Round q" using assms by (simp add: decimal_Round_def)
  have "of_int (decimal_Round q) \<le> q + 1 / 2" "q + 1 / 2 < of_int (decimal_Round q) + 1"
    using assms floor_correct [of "q + 1 / 2"] by (simp_all add: decimal_Round_def)
  moreover have "(of_nat (nat (decimal_Round q)) :: rat) = of_int (decimal_Round q)" using pos by simp
  ultimately show "\<bar>of_nat (nat (decimal_Round q)) - q\<bar> \<le> 1 / 2" by linarith
qed

text \<open>
  C31: the limiter in any run of a service with a limit of \<open>limit\<close> calls. Its total is the number of
  calls made; its data points, and those reported to the telemetry, are the numbers of calls
  between the firings of the ticker; the next call is refused for its rate exactly when more than
  \<open>limit\<close> calls fall into the ten newest of these intervals, which takes more than \<open>limit\<close> calls
  altogether. Otherwise it is refused for the load for \<open>n\<close> of the ten thousand draws, where \<open>n\<close> is
  the load probability times ten thousand up to rounding, and succeeds after the drawn delay and
  fifty milliseconds for the other draws.
\<close>

theorem network_limits_calls:
  assumes "NewSimulatedNetworkService load limit latency tel = Inr ns0" "ns = fold service_step evs ns0"
  shows "ns_totalCalls ns = calls_made evs \<and> ns_dataPoints ns = tenths 0 evs \<and> ns_ratePoints ns = tenths 0 evs
    \<and> (fst (ns_Call name r v ns) = ErroredLimit name NetRateLimitExceeded \<longleftrightarrow>
         int (sum_list (take 10 (rev (tenths 0 evs)))) > limit)
    \<and> (fst (ns_Call name r v ns) = ErroredLimit name NetRateLimitExceeded \<longrightarrow> int (calls_made evs) > limit)
    \<and> (\<exists>n. \<bar>of_nat n - load * 10000\<bar> \<le> 1 / 2 \<and>
         (\<forall>r. int (sum_list (take 10 (rev (tenths 0 evs)))) \<le> limit \<longrightarrow>
            fst (ns_Call name r v ns) =
              (if r < n then ErroredLimit name NetLoadLimitExceeded
               else ForcedWait name ((int v + 50) * millisecond))))
    \<and> fst (run_task (ForcedWait name wait) None ns) = None \<and> fst (run_task (ErroredLimit name err) None ns) = Some err"
proof -
  have load: "0 \<le> load" and ns0: "ns_totalCalls ns0 = 0" "ns_callCountIncrement ns0 = 0" "ns_dataPoints ns0 = []"
      "ns_ratePoints ns0 = []" "ns_RateLimit ns0 = limit" "ns_LoadLimitProbability ns0 = load"
    using assms(1) by (auto simp: NewSimulatedNetworkService_def split: if_splits)
  note st = service_steps [of evs ns0, folded assms(2), unfolded ns0, simplified]
  let ?rate = "sum_list (take 10 (rev (tenths 0 evs)))"
  have rate: "shouldRateLimit (addCall ns) \<longleftrightarrow> int ?rate > limit"
    using st by (simp add: shouldRateLimit_def ns_rate_newest addCall_def)
  have "sum_list (take k xs) \<le> sum_list xs" for k and xs :: "nat list"
    by (metis append_take_drop_id le_add1 sum_list_append)
  from this [of 10 "rev (tenths 0 evs)"] have few: "?rate \<le> calls_made evs"
    using sum_tenths [of 0 evs] by simp
  define n where "n = nat (decimal_Round (load * 10000))"
  have n: "\<bar>of_nat n - load * 10000\<bar> \<le> 1 / 2" "int n = decimal_Round (load * 10000)"
    using decimal_Round_near [of "load * 10000"] load by (simp_all add: n_def)
  then have "atLoadLimit r (addCall ns) \<longleftrightarrow> r < n" for r
    using st by (simp add: atLoadLimit_def addCall_def ProbabilityAccuracy_def flip: n(2))
  then have call: "fst (ns_Call name r v ns) =
      (if int ?rate > limit then ErroredLimit name NetRateLimitExceeded
       else if r < n then ErroredLimit name NetLoadLimitExceeded
       else ForcedWait name ((int v + 50) * millisecond))" for r
    by (simp add: ns_Call_def Let_def rate RateLimitTimeout_def algebra_simps)
  have "fst (ns_Call name r v ns) = ErroredLimit name NetRateLimitExceeded \<longleftrightarrow> int ?rate > limit"
    by (simp add: call)
  moreover have "\<forall>r. int ?rate \<le> limit \<longrightarrow> fst (ns_Call name r v ns) =
      (if r < n then ErroredLimit name NetLoadLimitExceeded else ForcedWait name ((int v + 50) * millisecond))"
    by (simp add: call)
  moreover have "fst (run_task (ForcedWait name wait) None ns) = None"
      "fst (run_task (ErroredLimit name err) None ns) = Some err"
    by (simp_all add: doForcedWait_def doErroredLimit_def Let_def)
  ultimately show ?thesis using st few n(1) by auto
qed

definition sample_service :: SimulatedNetworkService where
  "sample_service = \<lparr>ns_LoadLimitProbability = 0, ns_RateLimit = 1, ns_AvgLatency = 100, ns_totalCalls = 0,
     ns_callCountIncrement = 0, ns_dataPoints = [], ns_registered = [], ns_ratePoints = []\<rparr>"

text \<open>Two calls in one interval are over a limit of one, so the third is refused.\<close>

theorem network_limits_calls_witness:
  "fst (ns_Call ''call'' 5 40 (fold service_step
       [CallMade ''call'' 5 40, CallMade ''call'' 7 10, TickerFired] sample_service)) =
     ErroredLimit ''call'' NetRateLimitExceeded
   \<and> (\<exists>w. fst (ns_Call ''call'' 5 40 sample_service) = ForcedWait ''call'' w)"
proof -
  have new: "NewSimulatedNetworkService 0 1 100 True = Inr sample_service"
    by (simp add: NewSimulatedNetworkService_def sample_service_def)
  have "sample_service = fold service_step [] sample_service" by simp
  from network_limits_calls [OF new this, of "''call''" 5 40] obtain n where
    n: "\<bar>of_nat n - 0 * 10000\<bar> \<le> (1 / 2 :: rat)"
    "\<forall>r. int (sum_list (take 10 (rev (tenths 0 [])))) \<le> 1 \<longrightarrow> fst (ns_Call ''call'' r 40 sample_service) =
       (if r < n then ErroredLimit ''call'' NetLoadLimitExceeded else ForcedWait ''call'' ((int 40 + 50) * millisecond))"
    by blast
  from n(1) have "n = 0" by (cases n) auto
  with n(2) have "\<exists>w. fst (ns_Call ''call'' 5 40 sample_service) = ForcedWait ''call'' w" by simp
  then show ?thesis
    using network_limits_calls [OF new refl, of
        "[CallMade ''call'' 5 40, CallMade ''call'' 7 10, TickerFired]" "''call''" 5 40]
    by auto
qed

text \<open>
  The rate is taken over closed tenths of a second: within one of them any number of calls passes.
\<close>

lemma open_interval_unlimited:
  assumes "NewSimulatedNetworkService load limit latency tel = Inr ns0" "limit \<ge> 0"
  shows "fst (ns_Call name r v ((addCall ^^ n) ns0)) \<noteq> ErroredLimit name NetRateLimitExceeded"
proof -
  have "ns_dataPoints ((addCall ^^ n) ns0) = [] \<and> ns_RateLimit ((addCall ^^ n) ns0) = limit"
    using assms(1) by (induction n) (auto simp: NewSimulatedNetworkService_def addCall_def split: if_splits)
  then show ?thesis using assms(2)
    by (simp add: ns_Call_def Let_def shouldRateLimit_def addCall_def ns_rate_def)
qed

end
