(* ===== verification/Sim_Group.thy ===== *)
theory Sim_Group
  imports Sim_Broadcaster Sim_Loader Sim_Transmit Sim_Net
begin

text \<open>
  \<open>tools/simulator/node/group.go\<close>: a simulation puts the four loaders behind the block broadcaster and
  lets the nodes transmit into them. The steps of the broadcaster, the transmissions of the nodes and
  the registration of their keys interleave freely; what the chain then holds follows from the
  lemmas on each loader. The locale \<open>block_loader\<close> is the contract of a \<open>BlockLoaderFunc\<close>.
\<close>

section \<open>The contract of a loader\<close>

locale block_loader =
  fixes load :: "Block \<Rightarrow> 's \<Rightarrow> Block \<times> 's"
    and owned :: "transaction \<Rightarrow> bool"
    and ok :: "'s \<Rightarrow> bool"
  assumes appends: "\<exists>ts. fst (load b s) = b\<lparr>b_Transactions := b_Transactions b @ ts\<rparr> \<and> (ok s \<longrightarrow> (\<forall>t\<in>set ts. owned t))"
    and keeps_ok: "ok s \<Longrightarrow> ok (snd (load b s))"
begin

lemma load_number: "b_Number (fst (load b s)) = b_Number b"
  using appends [of b s] by auto

text \<open>A loader leaves alone what a reader of other transactions sees.\<close>

lemma load_others:
  assumes "ok s" "\<And>t. owned t \<Longrightarrow> f t = []"
  shows "concat (map f (b_Transactions (fst (load b s)))) = concat (map f (b_Transactions b))"
proof -
  obtain ts where "fst (load b s) = b\<lparr>b_Transactions := b_Transactions b @ ts\<rparr>" "\<forall>t\<in>set ts. owned t"
    using appends [of b s] assms(1) by blast
  moreover from this(2) have "concat (map f ts) = []" using assms(2) by simp
  ultimately show ?thesis by simp
qed

end

section \<open>The group\<close>

record GroupLoaders =
  gl_transmit :: OCR3TransmitLoader
  gl_config :: OCR3ConfigLoader
  gl_upkeep :: UpkeepConfigLoader
  gl_log :: LogTriggerLoader

text \<open>The \<open>Load\<close> methods on the loaders of the group; the log loader reads the clock in every block.\<close>

definition load_transmit :: "Block \<Rightarrow> GroupLoaders \<Rightarrow> Block \<times> GroupLoaders" where
  "load_transmit b s = (let (b', l) = tl_Load b (gl_transmit s) in (b', s\<lparr>gl_transmit := l\<rparr>))"

definition load_config ::
    "set_config_args \<Rightarrow> (ContractConfig \<Rightarrow> 256 word) \<Rightarrow> Block \<Rightarrow> GroupLoaders \<Rightarrow> Block \<times> GroupLoaders" where
  "load_config setArgs digester b s =
     (let (b', l) = config_Load setArgs digester b (gl_config s) in (b', s\<lparr>gl_config := l\<rparr>))"

definition load_upkeep :: "Block \<Rightarrow> GroupLoaders \<Rightarrow> Block \<times> GroupLoaders" where
  "load_upkeep b s = (upkeep_Load (gl_upkeep s) b, s)"

definition load_logs_at :: "(int \<Rightarrow> nat \<Rightarrow> 256 word) \<Rightarrow> Block \<Rightarrow> GroupLoaders \<Rightarrow> Block \<times> GroupLoaders" where
  "load_logs_at clock b s = (log_Load (clock (b_Number b)) (gl_log s) b, s)"

text \<open>What a group takes from outside: libocr's configuration builder, the digester and the clock\<close>

record group_env =
  ge_setArgs :: set_config_args
  ge_digester :: "ContractConfig \<Rightarrow> 256 word"
  ge_clock :: "int \<Rightarrow> nat \<Rightarrow> 256 word"

definition loaders :: "group_env \<Rightarrow> (Block \<Rightarrow> GroupLoaders \<Rightarrow> Block \<times> GroupLoaders) list" where
  "loaders e = [load_transmit, load_config (ge_setArgs e) (ge_digester e), load_upkeep, load_logs_at (ge_clock e)]"

record Group =
  g_conf :: SimulationPlan
  g_network :: SimulatedNetwork
  g_blockSrc :: "GroupLoaders BlockBroadcaster"
  g_upkeeps :: "SimulatedUpkeep list"

definition NewGroup ::
    "mathparse \<Rightarrow> (bytes \<Rightarrow> 256 word) \<Rightarrow> group_env \<Rightarrow> SimulationPlan \<Rightarrow> SimulatedUpkeep list \<Rightarrow> Group result option" where
  "NewGroup parse sha e plan upkeeps =
     (case NewOCR3TransmitLoader parse sha plan of
        None \<Rightarrow> None
      | Some (Inl err) \<Rightarrow> Some (Inl err)
      | Some (Inr (lTransmit, _)) \<Rightarrow>
          (case NewUpkeepConfigLoader parse sha plan of
             None \<Rightarrow> None
           | Some (Inl err) \<Rightarrow> Some (Inl err)
           | Some (Inr lUpkeep) \<Rightarrow>
               (let s = \<lparr>gl_transmit = lTransmit, gl_config = NewOCR3ConfigLoader plan, gl_upkeep = lUpkeep,
                         gl_log = NewLogTriggerLoader plan\<rparr>
                in Some (Inr \<lparr>g_conf = plan, g_network = NewSimulatedNetwork (sp_MaxLatency plan),
                     g_blockSrc = NewBlockBroadcaster (sp_Blocks plan) (rpc_MaxBlockDelay (sp_RPC plan)) (loaders e) s,
                     g_upkeeps = upkeeps\<rparr>))))"

text \<open>The chain side of a running group\<close>

inductive chain_step ::
    "(Block \<Rightarrow> 256 word) \<Rightarrow> (ChainTransmit \<Rightarrow> bytes result) \<Rightarrow> (bytes \<Rightarrow> string) \<Rightarrow> (bytes \<Rightarrow> 256 word) \<Rightarrow>
     GroupLoaders BlockBroadcaster \<Rightarrow> GroupLoaders BlockBroadcaster \<Rightarrow> bool"
  for sum256 gob hash rawHash where
  broadcasts: "bb_step sum256 bb bb' \<Longrightarrow> chain_step sum256 gob hash rawHash bb bb'"
| node_transmits: "tl_Transmit gob hash rawHash from report rnd (gl_transmit (bb_loaderState bb)) = (err, ldr) \<Longrightarrow>
    chain_step sum256 gob hash rawHash bb (bb\<lparr>bb_loaderState := (bb_loaderState bb)\<lparr>gl_transmit := ldr\<rparr>\<rparr>)"
| node_added: "chain_step sum256 gob hash rawHash bb
    (bb\<lparr>bb_loaderState := (bb_loaderState bb)\<lparr>gl_config := AddSigner peer pk pks off enc (gl_config (bb_loaderState bb))\<rparr>\<rparr>)"

section \<open>The loaders keep the contract\<close>

definition is_perform :: "transaction \<Rightarrow> bool" where
  "is_perform t = (case t of PerformUpkeepTransaction _ \<Rightarrow> True | _ \<Rightarrow> False)"

definition is_config :: "transaction \<Rightarrow> bool" where
  "is_config t = (case t of OCR3ConfigTransaction _ \<Rightarrow> True | _ \<Rightarrow> False)"

definition is_created :: "transaction \<Rightarrow> bool" where
  "is_created t = (case t of UpkeepCreatedTransaction _ \<Rightarrow> True | _ \<Rightarrow> False)"

definition is_log :: "transaction \<Rightarrow> bool" where
  "is_log t = (case t of LogTransaction _ \<Rightarrow> True | _ \<Rightarrow> False)"

lemmas kind_defs = is_perform_def is_config_def is_created_def is_log_def

lemma fold_load_log_appends:
  "\<exists>ts. fold (load_log clock) vs b = b\<lparr>b_Transactions := b_Transactions b @ ts\<rparr> \<and> (\<forall>t\<in>set ts. is_log t)"
proof (induction vs arbitrary: b)
  case Nil
  show ?case by (rule exI [of _ "[]"]) simp
next
  case (Cons v vs)
  obtain ts where "fold (load_log clock) vs (load_log clock v b) =
      (load_log clock v b)\<lparr>b_Transactions := b_Transactions (load_log clock v b) @ ts\<rparr>" "\<forall>t\<in>set ts. is_log t"
    using Cons by blast
  moreover obtain t where "load_log clock v b = b\<lparr>b_Transactions := b_Transactions b @ [t]\<rparr>" "is_log t"
    by (simp add: load_log_def is_log_def)
  ultimately show ?case by (intro exI [of _ "t # ts"]) simp
qed

text \<open>The lists of the upkeep loader hold creations only.\<close>

definition creates_only :: "GroupLoaders \<Rightarrow> bool" where
  "creates_only s \<longleftrightarrow> (\<forall>k. \<forall>t\<in>set (listed (ul_create (gl_upkeep s)) k). is_created t)"

interpretation transmit_loader: block_loader load_transmit is_perform "\<lambda>_. True"
proof
  show "\<exists>ts. fst (load_transmit b s) = b\<lparr>b_Transactions := b_Transactions b @ ts\<rparr> \<and> (True \<longrightarrow> (\<forall>t\<in>set ts. is_perform t))" for b s
    by (cases "tl_queue (gl_transmit s) = []")
      (auto simp: load_transmit_def tl_Load_def Let_def is_perform_def intro: exI [of _ "[]"])
qed simp

interpretation config_loader: block_loader "load_config setArgs digester" is_config "\<lambda>_. True"
  for setArgs digester
proof
  show "\<exists>ts. fst (load_config setArgs digester b s) = b\<lparr>b_Transactions := b_Transactions b @ ts\<rparr> \<and>
      (True \<longrightarrow> (\<forall>t\<in>set ts. is_config t))" for b s
    by (auto simp: load_config_def config_Load_def is_config_def intro: exI [of _ "[]"] split: option.splits sum.splits)
qed simp

interpretation upkeep_loader: block_loader load_upkeep is_created creates_only
proof
  show "\<exists>ts. fst (load_upkeep b s) = b\<lparr>b_Transactions := b_Transactions b @ ts\<rparr> \<and> (creates_only s \<longrightarrow> (\<forall>t\<in>set ts. is_created t))" for b s
    unfolding load_upkeep_def upkeep_Load_eq fst_conv creates_only_def by blast
qed (simp add: load_upkeep_def)

interpretation log_loader: block_loader "load_logs_at clock" is_log "\<lambda>_. True"
  for clock
proof
  show "\<exists>ts. fst (load_logs_at clock b s) = b\<lparr>b_Transactions := b_Transactions b @ ts\<rparr> \<and> (True \<longrightarrow> (\<forall>t\<in>set ts. is_log t))" for b s
    using fold_load_log_appends [of "clock (b_Number b)" "listed (ll_triggers (gl_log s)) (big_String (b_Number b))" b]
    by (auto simp: load_logs_at_def log_Load_def listed_def split: option.splits)
qed simp

lemma loaders_keep: "loaders_keep_number (loaders e)"
  by (auto simp: loaders_def loaders_keep_number_def transmit_loader.load_number config_loader.load_number
      upkeep_loader.load_number log_loader.load_number)

section \<open>A block of the chain\<close>

definition block_created :: "Block \<Rightarrow> SimulatedUpkeep list" where
  "block_created b = concat (map (\<lambda>t. case t of UpkeepCreatedTransaction u \<Rightarrow> [u] | _ \<Rightarrow> []) (b_Transactions b))"

definition block_logged :: "Block \<Rightarrow> string list" where
  "block_logged b = concat (map (\<lambda>t. case t of LogTransaction l \<Rightarrow> [cl_TriggerValue l] | _ \<Rightarrow> []) (b_Transactions b))"

lemma logged_fold: "block_logged (fold (load_log clock) vs b) = block_logged b @ vs"
  by (induction vs arbitrary: b) (simp_all add: block_logged_def load_log_def)

lemma transmits_of_others:
  "block_transmits (fst (load_config setArgs digester b s)) = block_transmits b"
  "creates_only s \<Longrightarrow> block_transmits (fst (load_upkeep b s)) = block_transmits b"
  "block_transmits (fst (load_logs_at clock b s)) = block_transmits b"
  unfolding block_transmits_def
  by (rule config_loader.load_others upkeep_loader.load_others log_loader.load_others;
      simp add: kind_defs split: transaction.splits)+

lemma created_of_others:
  "block_created (fst (load_transmit b s)) = block_created b"
  "block_created (fst (load_config setArgs digester b s)) = block_created b"
  "block_created (fst (load_logs_at clock b s)) = block_created b"
  unfolding block_created_def
  by (rule transmit_loader.load_others config_loader.load_others log_loader.load_others;
      simp add: kind_defs split: transaction.splits)+

lemma logged_of_others:
  "block_logged (fst (load_transmit b s)) = block_logged b"
  "block_logged (fst (load_config setArgs digester b s)) = block_logged b"
  "creates_only s \<Longrightarrow> block_logged (fst (load_upkeep b s)) = block_logged b"
  unfolding block_logged_def
  by (rule transmit_loader.load_others config_loader.load_others upkeep_loader.load_others;
      simp add: kind_defs split: transaction.splits)+

lemma created_of_upkeep:
  assumes "listed (ul_create (gl_upkeep s)) (big_String (b_Number b)) = map UpkeepCreatedTransaction us"
  shows "block_created (fst (load_upkeep b s)) = block_created b @ us"
proof -
  have "concat (map (\<lambda>t. case t of UpkeepCreatedTransaction u \<Rightarrow> [u] | _ \<Rightarrow> []) (map UpkeepCreatedTransaction us)) = us"
    by (induction us) simp_all
  with assms show ?thesis by (simp add: block_created_def load_upkeep_def upkeep_Load_eq)
qed

lemma logged_of_logs:
  "block_logged (fst (load_logs_at clock b s)) =
     block_logged b @ listed (ll_triggers (gl_log s)) (big_String (b_Number b))"
  by (simp add: load_logs_at_def log_Load_def listed_def logged_fold split: option.splits)

text \<open>The loaders of a plan with the generated upkeeps \<open>us\<close>\<close>

definition plan_loaders :: "SimulationPlan \<Rightarrow> SimulatedUpkeep list \<Rightarrow> GroupLoaders \<Rightarrow> bool" where
  "plan_loaders plan us s \<longleftrightarrow>
     (\<forall>n. listed (ul_create (gl_upkeep s)) (big_String n) = map UpkeepCreatedTransaction (filter (\<lambda>u. su_CreateInBlock u = n) us)) \<and>
     (\<forall>n. listed (ll_triggers (gl_log s)) (big_String n) = map le_TriggerValue (filter (\<lambda>e. ev_TriggerBlock e = n) (sp_LogEvents plan))) \<and>
     creates_only s"

text \<open>The block with number \<open>n\<close> before any loader ran\<close>

abbreviation bare_block :: "int \<Rightarrow> Block" where
  "bare_block n \<equiv> \<lparr>b_Hash = 0, b_Number = n, b_Transactions = []\<rparr>"

lemma loaded_block:
  assumes "plan_loaders plan us (bb_loaderState bb)" "bb_loaders bb = loaders e" "load_block bb = (msg, s')"
    and "n = bb_nextBlock bb"
  shows "b_Number msg = n \<and> block_created msg = filter (\<lambda>u. su_CreateInBlock u = n) us
    \<and> block_logged msg = map le_TriggerValue (filter (\<lambda>e. ev_TriggerBlock e = n) (sp_LogEvents plan))
    \<and> block_transmits msg = block_transmits (fst (tl_Load (bare_block n) (gl_transmit (bb_loaderState bb))))
    \<and> gl_transmit s' = snd (tl_Load (bare_block n) (gl_transmit (bb_loaderState bb)))
    \<and> plan_loaders plan us s'"
proof -
  let ?s = "bb_loaderState bb"
  obtain b1 s1 where 1: "load_transmit (bare_block n) ?s = (b1, s1)" by fastforce
  obtain b2 s2 where 2: "load_config (ge_setArgs e) (ge_digester e) b1 s1 = (b2, s2)" by fastforce
  obtain b3 where 3: "load_upkeep b2 s2 = (b3, s2)" by (simp add: load_upkeep_def)
  have 4: "load_logs_at (ge_clock e) b3 s2 = (msg, s')"
    using assms(2-4) 1 2 3 by (simp add: load_block_def loaders_def)
  then have s': "s' = s2" by (simp add: load_logs_at_def)
  have num: "b_Number b1 = n" "b_Number b2 = n" "b_Number b3 = n" "b_Number msg = n"
    using transmit_loader.load_number [of "bare_block n" ?s] config_loader.load_number [of "ge_setArgs e" "ge_digester e" b1 s1]
      upkeep_loader.load_number [of b2 s2] log_loader.load_number [of "ge_clock e" b3 s2] 1 2 3 4 by simp_all
  have st: "gl_transmit s2 = snd (tl_Load (bare_block n) (gl_transmit ?s))" "gl_upkeep s2 = gl_upkeep ?s" "gl_log s2 = gl_log ?s"
    and b1: "b1 = fst (tl_Load (bare_block n) (gl_transmit ?s))"
    using 1 2 by (auto simp: load_transmit_def load_config_def split: prod.splits)
  have plan: "plan_loaders plan us s2" and ok: "creates_only s2"
    using assms(1) st by (simp_all add: plan_loaders_def creates_only_def)
  have "block_transmits msg = block_transmits b1"
    using transmits_of_others(1) [of "ge_setArgs e" "ge_digester e" b1 s1] transmits_of_others(2) [OF ok, of b2]
      transmits_of_others(3) [of "ge_clock e" b3 s2] 2 3 4 by simp
  moreover have "block_created msg = filter (\<lambda>u. su_CreateInBlock u = n) us"
    using created_of_others(1) [of "bare_block n" ?s] created_of_others(2) [of "ge_setArgs e" "ge_digester e" b1 s1]
      created_of_others(3) [of "ge_clock e" b3 s2] created_of_upkeep [of s2 b2] plan num 1 2 3 4
    by (simp add: plan_loaders_def block_created_def)
  moreover have "block_logged msg = map le_TriggerValue (filter (\<lambda>e. ev_TriggerBlock e = n) (sp_LogEvents plan))"
    using logged_of_others(1) [of "bare_block n" ?s] logged_of_others(2) [of "ge_setArgs e" "ge_digester e" b1 s1]
      logged_of_others(3) [OF ok, of b2] logged_of_logs [of "ge_clock e" b3 s2] plan num 1 2 3 4
    by (simp add: plan_loaders_def block_logged_def)
  ultimately show ?thesis using num st b1 s' plan by simp
qed

section \<open>The chain of a simulation\<close>

lemma bb_step_blocks:
  assumes "bb_step sum256 bb bb'"
  shows "bb_loaders bb' = bb_loaders bb \<and>
    (bb_blocks bb' = bb_blocks bb \<and> bb_loaderState bb' = bb_loaderState bb \<or>
     (\<exists>n msg s. load_block (bb\<lparr>bb_nextBlock := n\<rparr>) = (msg, s) \<and> bb_loaderState bb' = s \<and>
        bb_blocks bb' = bb_blocks bb @ [msg\<lparr>b_Hash := sum256 msg\<rparr>]))"
  using assms
proof (induction rule: bb_step.induct)
  case (begins bb subs)
  obtain msg s where "load_block bb = (msg, s)" by fastforce
  then show ?case
    by (auto simp: run_begins_def bb_broadcast_def Let_def intro!: exI [of _ "bb_nextBlock bb"])
next
  case (ticks bb subs bb')
  obtain msg s where "load_block (bb\<lparr>bb_nextBlock := bb_nextBlock bb + 1\<rparr>) = (msg, s)" by fastforce
  with ticks show ?case
    by (auto simp: timer_fires_def bb_broadcast_def Let_def split: if_splits intro!: exI [of _ "bb_nextBlock bb + 1"])
qed (auto simp: bb_Subscribe_def bb_unsubscribe_def bb_Start_def bb_Stop_def Let_def split: if_splits)

definition planned_block :: "SimulationPlan \<Rightarrow> SimulatedUpkeep list \<Rightarrow> Block \<Rightarrow> bool" where
  "planned_block plan us b \<longleftrightarrow>
     block_created b = filter (\<lambda>u. su_CreateInBlock u = b_Number b) us \<and>
     block_logged b = map le_TriggerValue (filter (\<lambda>e. ev_TriggerBlock e = b_Number b) (sp_LogEvents plan))"

definition chain_inv where
  "chain_inv gob hash rawHash e plan us bb \<longleftrightarrow>
     bb_inv (bl_Genesis (sp_Blocks plan))
       (bl_Genesis (sp_Blocks plan) + bl_Duration (sp_Blocks plan) + bl_EndPadding (sp_Blocks plan)) bb \<and>
     bb_loaders bb = loaders e \<and> plan_loaders plan us (bb_loaderState bb) \<and>
     transmit_run gob hash rawHash (gl_transmit (bb_loaderState bb)) (concat (map block_transmits (bb_blocks bb))) \<and>
     (\<forall>b\<in>set (bb_blocks bb). planned_block plan us b)"

lemma hashed_block [simp]:
  "block_transmits (b\<lparr>b_Hash := h\<rparr>) = block_transmits b" "planned_block plan us (b\<lparr>b_Hash := h\<rparr>) = planned_block plan us b"
  by (simp_all add: block_transmits_def planned_block_def block_created_def block_logged_def)

lemma chain_inv_broadcast:
  assumes inv: "chain_inv gob hash rawHash e plan us bb" and step: "bb_step sum256 bb bb'"
  shows "chain_inv gob hash rawHash e plan us bb'"
proof -
  have bb: "bb_inv (bl_Genesis (sp_Blocks plan))
       (bl_Genesis (sp_Blocks plan) + bl_Duration (sp_Blocks plan) + bl_EndPadding (sp_Blocks plan)) bb'"
    using inv bb_inv_step [OF step] by (auto simp: chain_inv_def)
  from bb_step_blocks [OF step] have ls: "bb_loaders bb' = bb_loaders bb" by blast
  consider "bb_blocks bb' = bb_blocks bb" "bb_loaderState bb' = bb_loaderState bb"
    | n msg s where "load_block (bb\<lparr>bb_nextBlock := n\<rparr>) = (msg, s)" "bb_loaderState bb' = s"
      "bb_blocks bb' = bb_blocks bb @ [msg\<lparr>b_Hash := sum256 msg\<rparr>]"
    using bb_step_blocks [OF step] by blast
  then show ?thesis
  proof cases
    case 1
    with inv bb ls show ?thesis by (simp add: chain_inv_def)
  next
    case 2
    let ?ldr = "gl_transmit (bb_loaderState bb)"
    note new = loaded_block [of plan us "bb\<lparr>bb_nextBlock := n\<rparr>" e msg s n]
    have new: "b_Number msg = n" "planned_block plan us msg" "plan_loaders plan us s"
      "block_transmits msg = block_transmits (fst (tl_Load (bare_block n) ?ldr))"
      "gl_transmit s = snd (tl_Load (bare_block n) ?ldr)"
      using new inv 2(1) by (auto simp: chain_inv_def planned_block_def)
    have "transmit_run gob hash rawHash (gl_transmit s) (concat (map block_transmits (bb_blocks bb)) @ block_transmits msg)"
      unfolding new(4,5)
      by (rule transmit_run.load [of _ _ _ ?ldr _ "bare_block n"])
        (use inv in \<open>simp_all add: chain_inv_def block_transmits_def\<close>)
    with inv bb ls 2 new show ?thesis by (simp add: chain_inv_def)
  qed
qed

lemma chain_inv_step:
  assumes "chain_step sum256 gob hash rawHash bb bb'" "chain_inv gob hash rawHash e plan us bb"
  shows "chain_inv gob hash rawHash e plan us bb'"
  using assms
proof (induction rule: chain_step.induct)
  case (broadcasts bb bb')
  then show ?case by (blast intro: chain_inv_broadcast)
next
  case (node_transmits sender report rnd bb err ldr)
  then have "transmit_run gob hash rawHash ldr (concat (map block_transmits (bb_blocks bb)))"
    by (auto simp: chain_inv_def intro: transmit_run.transmit)
  with node_transmits show ?case by (auto simp: chain_inv_def bb_inv_def produced_def plan_loaders_def creates_only_def)
next
  case (node_added bb peer pk pks off enc)
  then show ?case by (auto simp: chain_inv_def bb_inv_def produced_def plan_loaders_def creates_only_def)
qed

lemma NewGroup_start:
  assumes "NewGroup parse sha e plan upkeeps = Some (Inr g)"
  obtains us where "GenerateAllUpkeeps parse sha plan = Some (Inr us)" "chain_inv gob hash rawHash e plan us (g_blockSrc g)"
proof -
  obtain us where us: "GenerateAllUpkeeps parse sha plan = Some (Inr us)"
    using assms by (auto simp: NewGroup_def NewUpkeepConfigLoader_def split: option.splits sum.splits)
  let ?ucl = "\<lparr>ul_create = fold (\<lambda>u. append_at (big_String (su_CreateInBlock u)) (UpkeepCreatedTransaction u)) us Map.empty\<rparr>"
  let ?s = "\<lparr>gl_transmit = empty_loader, gl_config = NewOCR3ConfigLoader plan, gl_upkeep = ?ucl, gl_log = NewLogTriggerLoader plan\<rparr>"
  have g: "g_blockSrc g = NewBlockBroadcaster (sp_Blocks plan) (rpc_MaxBlockDelay (sp_RPC plan)) (loaders e) ?s"
    using assms us by (auto simp: NewGroup_def NewUpkeepConfigLoader_def NewOCR3TransmitLoader_def
        calculateExpectedPerformEvents_def Let_def)
  have "plan_loaders plan us ?s"
    by (auto simp: plan_loaders_def creates_only_def is_created_def listed_fold_append_at big_String_inj
        NewLogTriggerLoader_def GenerateLogTriggers_def filter_map o_def listed_def [of "Map.empty"])
  then have "chain_inv gob hash rawHash e plan us (g_blockSrc g)"
    unfolding g by (simp add: chain_inv_def bb_inv_def NewBlockBroadcaster_def produced_def Let_def loaders_keep transmit_run.fresh)
  with us show ?thesis by (rule that)
qed

text \<open>
  C14: in every interleaving of block production, transmissions and added nodes, the chain of a
  simulation consists of consecutive blocks from the genesis block on; every block creates exactly
  the upkeeps and emits exactly the logs the plan has for its number; and the reports on the chain
  are, in order and each once, the reports accepted so far that do not wait for the next block.
\<close>

theorem simulated_chain:
  assumes "NewGroup parse sha e plan upkeeps = Some (Inr g)"
    and "(chain_step sum256 gob hash rawHash)\<^sup>*\<^sup>* (g_blockSrc g) bb"
  shows "\<exists>us. GenerateAllUpkeeps parse sha plan = Some (Inr us)
    \<and> (\<exists>last. map b_Number (bb_blocks bb) = [bl_Genesis (sp_Blocks plan)..last])
    \<and> (\<forall>b\<in>set (bb_blocks bb). block_created b = filter (\<lambda>u. su_CreateInBlock u = b_Number b) us
         \<and> block_logged b = map le_TriggerValue (filter (\<lambda>e. ev_TriggerBlock e = b_Number b) (sp_LogEvents plan)))
    \<and> (let ldr = gl_transmit (bb_loaderState bb); loaded = concat (map block_transmits (bb_blocks bb))
       in tl_store ldr = loaded @ map (\<lambda>i. tl_store ldr ! i) (tl_queue ldr)
          \<and> distinct (map (\<lambda>t. (ct_Report t, ct_Round t)) (tl_store ldr))
          \<and> (\<forall>t\<in>set loaded. ct_BlockNumber t \<noteq> None))"
proof -
  obtain us where us: "GenerateAllUpkeeps parse sha plan = Some (Inr us)"
    and start: "chain_inv gob hash rawHash e plan us (g_blockSrc g)"
    using NewGroup_start [OF assms(1)] by blast
  from assms(2) have inv: "chain_inv gob hash rawHash e plan us bb"
    by (induction rule: rtranclp_induct) (auto intro: start chain_inv_step)
  have "\<exists>last. map b_Number (bb_blocks bb) = [bl_Genesis (sp_Blocks plan)..last]"
    using inv by (cases "bb_phase bb = NotStarted \<or> bb_phase bb = Starting") (auto simp: chain_inv_def bb_inv_def produced_def intro: lt_ex)
  moreover have "\<forall>b\<in>set (bb_blocks bb). block_created b = filter (\<lambda>u. su_CreateInBlock u = b_Number b) us
      \<and> block_logged b = map le_TriggerValue (filter (\<lambda>e. ev_TriggerBlock e = b_Number b) (sp_LogEvents plan))"
    using inv by (simp add: chain_inv_def planned_block_def)
  moreover have run: "transmit_run gob hash rawHash (gl_transmit (bb_loaderState bb)) (concat (map block_transmits (bb_blocks bb)))"
    using inv by (simp add: chain_inv_def)
  note stored = transmits_loaded_once [OF run]
  from stored have "tl_store (gl_transmit (bb_loaderState bb)) = concat (map block_transmits (bb_blocks bb)) @
      map (\<lambda>i. tl_store (gl_transmit (bb_loaderState bb)) ! i) (tl_queue (gl_transmit (bb_loaderState bb)))" by (rule conjunct1)
  moreover from stored have "distinct (map (\<lambda>t. (ct_Report t, ct_Round t)) (tl_store (gl_transmit (bb_loaderState bb))))"
    by (elim conjE)
  moreover from stored have "\<forall>t\<in>set (concat (map block_transmits (bb_blocks bb))). ct_BlockNumber t \<noteq> None"
    by (elim conjE)
  ultimately show ?thesis using us unfolding Let_def by (intro exI [of _ us] conjI)
qed

definition demo_env :: group_env where
  "demo_env = \<lparr>ge_setArgs = (\<lambda>_ _ _. Inl NotFound), ge_digester = (\<lambda>_. 0), ge_clock = (\<lambda>_ _. 0)\<rparr>"

theorem simulated_chain_witness:
  "\<exists>g bb. NewGroup sample_parse sample_sha demo_env always_plan [] = Some (Inr g)
    \<and> (chain_step (\<lambda>b. 7) (\<lambda>e. Inr (ct_Report e)) (\<lambda>b. b) (\<lambda>b. 5))\<^sup>*\<^sup>* (g_blockSrc g) bb
    \<and> map b_Number (bb_blocks bb) = [100, 101]
    \<and> length (block_created (bb_blocks bb ! 1)) = 2"
proof -
  let ?step = "chain_step (\<lambda>b. 7) (\<lambda>e. Inr (ct_Report e)) (\<lambda>b. b) (\<lambda>b. 5)"
  obtain g where g: "NewGroup sample_parse sample_sha demo_env always_plan [] = Some (Inr g)"
    by (simp add: NewGroup_def NewOCR3TransmitLoader_def NewUpkeepConfigLoader_def calculateExpectedPerformEvents_def
        always_plan_generates Let_def)
  let ?bb0 = "g_blockSrc g"
  let ?bb1 = "bb_Start ?bb0"
  let ?bb2 = "run_begins (\<lambda>b. 7) [] ?bb1"
  have new: "bb_phase ?bb0 = NotStarted" "bb_delays ?bb0 = Map.empty" "bb_limit ?bb0 = 115" "bb_nextBlock ?bb0 = 100"
    "bb_blocks ?bb0 = []" "bb_loaders ?bb0 = loaders demo_env"
    using g by (auto simp: NewGroup_def NewBlockBroadcaster_def Let_def always_plan_def sample_plan_def
        split: option.splits sum.splits)
  have none: "range_order Map.empty []" by (simp add: range_order_def)
  have 1: "?step ?bb0 ?bb1" by (intro chain_step.broadcasts bb_step.starts)
  have 2: "?step ?bb1 ?bb2"
    using none new by (intro chain_step.broadcasts bb_step.begins) (simp_all add: bb_Start_def)
  obtain bb3 where tick: "timer_fires (\<lambda>b. 7) [] ?bb2 = Inr bb3"
    using new by (auto simp: timer_fires_def run_begins_def Let_def bb_Start_def)
  have 3: "?step ?bb2 bb3"
    by (intro chain_step.broadcasts, rule bb_step.ticks [OF _ _ tick])
      (use none new in \<open>simp_all add: run_begins_def bb_Start_def bb_broadcast_def split_beta Let_def\<close>)
  have run: "?step\<^sup>*\<^sup>* ?bb0 bb3" using 1 2 3 by (blast intro: rtranclp.rtrancl_into_rtrancl)
  have bb2: "map b_Number (bb_blocks ?bb2) = [100]" "bb_loaders ?bb2 = loaders demo_env" "bb_nextBlock ?bb2 = 100"
    using new loaders_keep [of demo_env] by (simp_all add: run_begins_def bb_Start_def broadcast_number)
  moreover have "bb3 = bb_broadcast (\<lambda>b. 7) [] (?bb2\<lparr>bb_nextBlock := 101\<rparr>)"
    using tick new bb2(3) by (simp add: timer_fires_def Let_def run_begins_def bb_Start_def)
  ultimately have nums: "map b_Number (bb_blocks bb3) = [100, 101]"
    using loaders_keep [of demo_env] by (simp add: broadcast_number)
  have "bb_blocks bb3 ! 1 \<in> set (bb_blocks bb3)" "b_Number (bb_blocks bb3 ! 1) = 101"
    using arg_cong [OF nums, of length] arg_cong [OF nums, of "\<lambda>xs. xs ! 1"] by (auto simp: nth_map)
  with simulated_chain [OF g run] obtain us where "GenerateAllUpkeeps sample_parse sample_sha always_plan = Some (Inr us)"
    and "block_created (bb_blocks bb3 ! 1) = filter (\<lambda>u. su_CreateInBlock u = 101) us" by metis
  moreover have "ev_TriggerBlock (hd (sp_GenerateUpkeeps always_plan)) = 101" by (simp add: always_plan_def sample_plan_def)
  ultimately have "length (block_created (bb_blocks bb3 ! 1)) = 2"
    by (auto simp: always_plan_generates simulated_upkeep_def Let_def)
  with g run nums show ?thesis by (intro exI conjI)
qed

end
