(* ===== verification/Sim_Ocr.thy ===== *)
theory Sim_Ocr
  imports Sim_Chain Samples
begin

text \<open>
  What the OCR protocol of a simulated node talks to: the tracker of contract configurations and of
  transmitted reports (\<open>tools/simulator/simulate/ocr\<close>), the in-memory databases (\<open>simulate/db\<close>), the
  network between the nodes and the RPC service in front of the check pipeline (\<open>simulate/net\<close>).
\<close>

section \<open>Configurations\<close>

text \<open>Each \<open>setConfig\<close> starts a goroutine that waits to send on \<open>chNotify\<close>.\<close>

record OCR3ConfigTracker =
  oct_block :: "64 word"
  oct_config :: "ContractConfig option"
  oct_notify :: nat

definition NewOCR3ConfigTracker :: OCR3ConfigTracker where
  "NewOCR3ConfigTracker = \<lparr>oct_block = 0, oct_config = None, oct_notify = 0\<rparr>"

definition setConfig :: "64 word \<Rightarrow> ContractConfig \<Rightarrow> OCR3ConfigTracker \<Rightarrow> OCR3ConfigTracker" where
  "setConfig block config ct = ct\<lparr>oct_block := block, oct_config := Some config, oct_notify := oct_notify ct + 1\<rparr>"

definition config_receive :: "ChainEvent \<Rightarrow> OCR3ConfigTracker \<Rightarrow> OCR3ConfigTracker" where
  "config_receive event ct =
     (case ce_Event event of
        TransactionEvent (OCR3ConfigTransaction config) \<Rightarrow> setConfig (bigInt_Uint64 (ce_BlockNumber event)) config ct
      | _ \<Rightarrow> ct)"

text \<open>A receive from the channel \<open>Notify\<close> returns\<close>

definition take_notification :: "OCR3ConfigTracker \<Rightarrow> OCR3ConfigTracker option" where
  "take_notification ct = (if oct_notify ct = 0 then None else Some (ct\<lparr>oct_notify := oct_notify ct - 1\<rparr>))"

definition LatestConfigDetails :: "OCR3ConfigTracker \<Rightarrow> (64 word \<times> 256 word) result" where
  "LatestConfigDetails ct =
     (case oct_config ct of None \<Rightarrow> Inl NoConfigFound | Some c \<Rightarrow> Inr (oct_block ct, cc_ConfigDigest c))"

definition LatestConfig :: "OCR3ConfigTracker \<Rightarrow> ContractConfig result" where
  "LatestConfig ct = (case oct_config ct of None \<Rightarrow> Inl NoConfigFound | Some c \<Rightarrow> Inr c)"

definition LatestBlockHeight :: "OCR3ConfigTracker \<Rightarrow> 64 word result" where
  "LatestBlockHeight ct = (case oct_config ct of None \<Rightarrow> Inl NoConfigFound | Some c \<Rightarrow> Inr (oct_block ct))"

text \<open>
  The height is that of the last configuration, not of the chain: it stays where it is while blocks
  without a configuration arrive.
\<close>

lemma height_ignores_blocks:
  "ce_Event e = BlockEvent b \<Longrightarrow> LatestBlockHeight (config_receive e ct) = LatestBlockHeight ct"
  by (simp add: config_receive_def)

lemma config_details_agree:
  "LatestConfigDetails ct = Inr (n, d) \<longleftrightarrow> LatestBlockHeight ct = Inr n \<and> (\<exists>c. LatestConfig ct = Inr c \<and> cc_ConfigDigest c = d)"
  by (auto simp: LatestConfigDetails_def LatestBlockHeight_def LatestConfig_def split: option.splits)

section \<open>Transmitted reports\<close>

definition ReportTrackerBlockRange :: int where "ReportTrackerBlockRange = 100"

record ReportTracker =
  rt_blockEvents :: "ChainTransmit list SortedKeyMap"
  rt_latest :: "Block option"

definition NewReportTracker :: ReportTracker where
  "NewReportTracker = \<lparr>rt_blockEvents = NewSortedKeyMap, rt_latest = None\<rparr>"

definition updateBlock :: "Block \<Rightarrow> ReportTracker \<Rightarrow> ReportTracker" where
  "updateBlock block rt = rt\<lparr>rt_latest := Some block\<rparr>"

definition report_receive :: "ChainEvent \<Rightarrow> ReportTracker \<Rightarrow> ReportTracker" where
  "report_receive event rt =
     (case ce_Event event of
        TransactionEvent (PerformUpkeepTransaction transmits) \<Rightarrow>
          rt\<lparr>rt_blockEvents := skm_Set (big_String (ce_BlockNumber event)) transmits (rt_blockEvents rt)\<rparr>
      | BlockEvent block \<Rightarrow> updateBlock block rt
      | _ \<Rightarrow> rt)"

definition transmit_event :: "ChainTransmit \<Rightarrow> Block \<Rightarrow> CheckResult \<Rightarrow> TransmitEvent" where
  "transmit_event chainEvent latest result =
     \<lparr>te_Type = PerformEvent, te_TransmitBlock = bigInt_Uint64 (the (ct_BlockNumber chainEvent)),
      te_Confirmations = bigInt_Int64 (b_Number latest - the (ct_BlockNumber chainEvent)),
      te_TransactionHash = ct_Hash chainEvent, te_UpkeepID = cr_UpkeepID result, te_WorkID = cr_WorkID result,
      te_CheckBlock = tr_BlockNumber (cr_Trigger result)\<rparr>"

definition createPluginTransmitEvents ::
    "(bytes \<Rightarrow> CheckResult list result) \<Rightarrow> ChainTransmit \<Rightarrow> Block \<Rightarrow> TransmitEvent list result" where
  "createPluginTransmitEvents unmarshal chainEvent latest =
     (case DecodeCheckResultsFromReportBytes unmarshal (ct_Report chainEvent) of
        Inl err \<Rightarrow> Inl (Wrapped ''failed to unmarshal transmitted report'' err)
      | Inr results \<Rightarrow> Inr (map (transmit_event chainEvent latest) results))"

definition GetLatestEvents :: "(bytes \<Rightarrow> CheckResult list result) \<Rightarrow> ReportTracker \<Rightarrow> TransmitEvent list" where
  "GetLatestEvents unmarshal rt =
     (case rt_latest rt of
        None \<Rightarrow> []
      | Some latest \<Rightarrow>
          (let blockKeys = projr (skm_Keys ReportTrackerBlockRange (rt_blockEvents rt))
           in concat (map (\<lambda>blockKey.
                let evts = (case skm_Get blockKey (rt_blockEvents rt) of None \<Rightarrow> [] | Some es \<Rightarrow> es)
                in concat (map (\<lambda>event.
                     case createPluginTransmitEvents unmarshal event latest of Inl err \<Rightarrow> [] | Inr transmits \<Rightarrow> transmits)
                     evts)) blockKeys)))"

lemma report_keys_inv:
  "skm_inv (rt_blockEvents rt) \<Longrightarrow> skm_inv (rt_blockEvents (report_receive e rt))"
  by (simp add: report_receive_def updateBlock_def skm_inv_Set split: chain_event.split transaction.split)

lemma report_keys_inv_fold: "skm_inv (rt_blockEvents (fold report_receive es NewReportTracker))"
proof -
  have "skm_inv (rt_blockEvents (fold report_receive es rt))" if "skm_inv (rt_blockEvents rt)" for rt
    using that by (induction es arbitrary: rt) (simp_all add: report_keys_inv)
  then show ?thesis by (simp add: NewReportTracker_def skm_inv_New)
qed

lemma report_values_keep:
  assumes "ce_Event e = TransactionEvent (PerformUpkeepTransaction ts)"
    and "\<forall>e'\<in>set es. \<forall>ts'. ce_Event e' = TransactionEvent (PerformUpkeepTransaction ts') \<longrightarrow>
      ce_BlockNumber e' \<noteq> ce_BlockNumber e"
  shows "skm_values (rt_blockEvents (fold report_receive es (report_receive e rt))) (big_String (ce_BlockNumber e)) = Some ts"
proof -
  have "skm_values (rt_blockEvents (fold report_receive es rt)) k = skm_values (rt_blockEvents rt) k"
    if "\<forall>e'\<in>set es. \<forall>ts'. ce_Event e' = TransactionEvent (PerformUpkeepTransaction ts') \<longrightarrow> big_String (ce_BlockNumber e') \<noteq> k"
    for rt k
    using that
    by (induction es arbitrary: rt)
      (auto simp: report_receive_def updateBlock_def skm_Set_def Let_def split: chain_event.splits transaction.splits)
  from this [of "big_String (ce_BlockNumber e)" "report_receive e rt"] assms show ?thesis
    by (simp add: big_String_inj report_receive_def skm_Set_def Let_def)
qed

text \<open>
  C24: While at most a hundred blocks carry transmits, every result of every transmitted report that
  decodes is among the events a node is given, with the number of blocks since its transmission as
  its confirmations, however the events of the chain were ordered.
\<close>

theorem transmit_events_delivered:
  assumes "rt = fold report_receive es2 (report_receive e (fold report_receive es1 NewReportTracker))"
    and "ce_Event e = TransactionEvent (PerformUpkeepTransaction transmits)"
    and "\<forall>e'\<in>set es2. \<forall>ts. ce_Event e' = TransactionEvent (PerformUpkeepTransaction ts) \<longrightarrow>
      ce_BlockNumber e' \<noteq> ce_BlockNumber e"
    and "rt_latest rt = Some latest" "card (dom (skm_values (rt_blockEvents rt))) \<le> 100"
    and "tr \<in> set transmits" "DecodeCheckResultsFromReportBytes unmarshal (ct_Report tr) = Inr results" "r \<in> set results"
  shows "transmit_event tr latest r \<in> set (GetLatestEvents unmarshal rt)"
proof -
  have inv: "skm_inv (rt_blockEvents rt)"
    using report_keys_inv_fold [of "es1 @ e # es2"] by (simp add: assms(1))
  let ?k = "big_String (ce_BlockNumber e)"
  have look: "skm_values (rt_blockEvents rt) ?k = Some transmits"
    unfolding assms(1) by (rule report_values_keep [OF assms(2,3)])
  have fin: "finite (dom (skm_values (rt_blockEvents rt)))" by (rule skm.look_finite [OF inv])
  have "length (rev (sorted_list_of_set (dom (skm_values (rt_blockEvents rt))))) \<le> 100"
    using assms(5) by simp
  then have "skm_top 100 (rt_blockEvents rt) = rev (sorted_list_of_set (dom (skm_values (rt_blockEvents rt))))"
    by (simp add: skm.top_look [OF inv])
  then have key: "?k \<in> set (projr (skm_Keys ReportTrackerBlockRange (rt_blockEvents rt)))"
    using look fin by (auto simp: skm_top_def ReportTrackerBlockRange_def)
  have ev: "transmit_event tr latest r \<in>
      set (case createPluginTransmitEvents unmarshal tr latest of Inl err \<Rightarrow> [] | Inr ts \<Rightarrow> ts)"
    using assms(7,8) by (simp add: createPluginTransmitEvents_def)
  show ?thesis
    unfolding GetLatestEvents_def assms(4) option.case Let_def set_concat set_map
    using key ev assms(6) look by (auto simp: skm_Get_def intro!: bexI [of _ ?k] bexI [of _ tr])
qed

definition demo_transmit :: ChainTransmit where
  "demo_transmit = \<lparr>ct_SendingAddress = ''node'', ct_Report = ''r'', ct_Hash = 5, ct_Round = 3,
     ct_BlockNumber = Some 101, ct_BlockHash = 0\<rparr>"

definition demo_perform :: ChainEvent where
  "demo_perform = \<lparr>ce_BlockNumber = 101, ce_BlockHash = 0,
     ce_Event = TransactionEvent (PerformUpkeepTransaction [demo_transmit])\<rparr>"

definition demo_head :: ChainEvent where
  "demo_head = \<lparr>ce_BlockNumber = 104, ce_BlockHash = 0, ce_Event = BlockEvent (numbered 104)\<rparr>"

theorem transmit_events_delivered_witness:
  "\<exists>ev\<in>set (GetLatestEvents (\<lambda>b. Inr [sample_result 5 ''w'' 99])
       (fold report_receive [demo_perform, demo_head] NewReportTracker)).
     te_WorkID ev = ''w'' \<and> te_Confirmations ev = 3"
proof -
  let ?rt = "fold report_receive [demo_perform, demo_head] NewReportTracker"
  have rt: "?rt = fold report_receive [demo_head] (report_receive demo_perform (fold report_receive [] NewReportTracker))"
    by simp
  have "dom (skm_values (rt_blockEvents ?rt)) = {big_String 101}"
    by (auto simp: report_receive_def demo_perform_def demo_head_def updateBlock_def skm_Set_def NewReportTracker_def
        NewSortedKeyMap_def Let_def split: if_splits)
  then have "card (dom (skm_values (rt_blockEvents ?rt))) \<le> 100" by simp
  moreover have "rt_latest ?rt = Some (numbered 104)"
    by (simp add: report_receive_def demo_perform_def demo_head_def updateBlock_def)
  ultimately have "transmit_event demo_transmit (numbered 104) (sample_result 5 ''w'' 99) \<in>
      set (GetLatestEvents (\<lambda>b. Inr [sample_result 5 ''w'' 99]) ?rt)"
    by (intro transmit_events_delivered [OF rt, where transmits = "[demo_transmit]" and results = "[sample_result 5 ''w'' 99]"])
      (simp_all add: demo_perform_def demo_head_def demo_transmit_def DecodeCheckResultsFromReportBytes_def)
  then show ?thesis
    by (rule bexI [rotated]) (simp add: transmit_event_def sample_defs demo_transmit_def numbered_def bigInt_Int64_def)
qed

section \<open>Databases\<close>

record SimulatedOCR3Database =
  db_protoState :: "string \<Rightarrow> bytes option option"
  db_config :: "ContractConfig option"

definition NewSimulatedOCR3Database :: SimulatedOCR3Database where
  "NewSimulatedOCR3Database = \<lparr>db_protoState = Map.empty, db_config = None\<rparr>"

definition ReadConfig :: "SimulatedOCR3Database \<Rightarrow> ContractConfig result" where
  "ReadConfig d = (case db_config d of None \<Rightarrow> Inl NotFound | Some c \<Rightarrow> Inr c)"

definition WriteConfig :: "ContractConfig \<Rightarrow> SimulatedOCR3Database \<Rightarrow> SimulatedOCR3Database" where
  "WriteConfig config d = d\<lparr>db_config := Some config\<rparr>"

text \<open>A byte slice that may be nil is an option; the digest is not looked at.\<close>

definition ReadProtocolState :: "256 word \<Rightarrow> string \<Rightarrow> SimulatedOCR3Database \<Rightarrow> bytes option" where
  "ReadProtocolState configDigest key d = (case db_protoState d key of None \<Rightarrow> None | Some val \<Rightarrow> val)"

definition WriteProtocolState ::
    "256 word \<Rightarrow> string \<Rightarrow> bytes option \<Rightarrow> SimulatedOCR3Database \<Rightarrow> SimulatedOCR3Database" where
  "WriteProtocolState configDigest key val d = d\<lparr>db_protoState := (db_protoState d)(key \<mapsto> val)\<rparr>"

lemma read_after_write:
  "ReadProtocolState digest k (WriteProtocolState digest' k' v d) = (if k = k' then v else ReadProtocolState digest k d)"
  "ReadConfig (WriteConfig c d) = Inr c"
  by (simp_all add: ReadProtocolState_def WriteProtocolState_def ReadConfig_def WriteConfig_def)

text \<open>Writing nil deletes: reading cannot tell a key that was never written.\<close>

lemma write_nil_deletes:
  "ReadProtocolState digest k (WriteProtocolState digest' k' None (WriteProtocolState digest'' k' v d)) =
     (if k = k' then None else ReadProtocolState digest k d)"
  by (simp add: read_after_write)

record UpkeepStateDatabase =
  usd_state :: "string \<Rightarrow> nat option"

definition SetUpkeepState :: "CheckResult \<Rightarrow> nat \<Rightarrow> UpkeepStateDatabase \<Rightarrow> UpkeepStateDatabase" where
  "SetUpkeepState result state usd = usd\<lparr>usd_state := (usd_state usd)(cr_WorkID result \<mapsto> state)\<rparr>"

end
