(* ===== verification/Sim_Keyring.thy ===== *)
theory Sim_Keyring
  imports Sim_Util
begin

text \<open>
  \<open>tools/simulator/config/keyring.go\<close>: the on-chain keyring of a simulated node, which signs reports
  together with the configuration digest and the round. Keccak and the elliptic-curve functions of
  go-ethereum are parameters.
\<close>

record ('k, 'p) evm_crypto =
  ec_Keccak256 :: "bytes \<Rightarrow> 256 word"
  ec_GenerateKey :: "bytes \<Rightarrow> 'k result"
  ec_Public :: "'k \<Rightarrow> 'p"
  ec_PubkeyToAddress :: "'p \<Rightarrow> bytes"
  ec_Sign :: "256 word \<Rightarrow> 'k \<Rightarrow> bytes result"
  ec_SigToPub :: "256 word \<Rightarrow> bytes \<Rightarrow> 'p result"
  ec_FromECDSA :: "'k \<Rightarrow> bytes"
  ec_ToECDSA :: "bytes \<Rightarrow> 'k result"

record 'k EvmKeyring =
  ek_privateKey :: 'k

definition NewEVMKeyring :: "('k, 'p) evm_crypto \<Rightarrow> bytes \<Rightarrow> 'k EvmKeyring result" where
  "NewEVMKeyring c material =
     (case ec_GenerateKey c material of Inl err \<Rightarrow> Inl err | Inr ecdsaKey \<Rightarrow> Inr \<lparr>ek_privateKey = ecdsaKey\<rparr>)"

definition signingAddress :: "('k, 'p) evm_crypto \<Rightarrow> 'k EvmKeyring \<Rightarrow> bytes" where
  "signingAddress c k = ec_PubkeyToAddress c (ec_Public c (ek_privateKey k))"

definition evm_PublicKey :: "('k, 'p) evm_crypto \<Rightarrow> 'k EvmKeyring \<Rightarrow> bytes" where
  "evm_PublicKey c k = signingAddress c k"

text \<open>Three words follow the hash of the report: the digest, the round in its last eight bytes, and zero.\<close>

definition sigData :: "('k, 'p) evm_crypto \<Rightarrow> 256 word \<Rightarrow> 64 word \<Rightarrow> bytes \<Rightarrow> bytes" where
  "sigData c digest v report =
     array_bytes (ec_Keccak256 c report) @ array_bytes digest @ array_bytes (ucast v) @ array_bytes 0"

definition reportToSigData :: "('k, 'p) evm_crypto \<Rightarrow> 256 word \<Rightarrow> 64 word \<Rightarrow> bytes \<Rightarrow> 256 word" where
  "reportToSigData c digest v report = ec_Keccak256 c (sigData c digest v report)"

definition evm_Sign :: "('k, 'p) evm_crypto \<Rightarrow> 256 word \<Rightarrow> 64 word \<Rightarrow> bytes \<Rightarrow> 'k EvmKeyring \<Rightarrow> bytes result" where
  "evm_Sign c digest v report k = ec_Sign c (reportToSigData c digest v report) (ek_privateKey k)"

definition evm_Verify :: "('k, 'p) evm_crypto \<Rightarrow> bytes \<Rightarrow> 256 word \<Rightarrow> 64 word \<Rightarrow> bytes \<Rightarrow> bytes \<Rightarrow> bool" where
  "evm_Verify c publicKey digest v report signature =
     (let hash = reportToSigData c digest v report
      in case ec_SigToPub c hash signature of
           Inl err \<Rightarrow> False
         | Inr authorPubkey \<Rightarrow> publicKey = ec_PubkeyToAddress c authorPubkey)"

definition MaxSignatureLength :: nat where "MaxSignatureLength = 65"

definition evm_Marshal :: "('k, 'p) evm_crypto \<Rightarrow> 'k EvmKeyring \<Rightarrow> bytes" where
  "evm_Marshal c k = ec_FromECDSA c (ek_privateKey k)"

definition evm_Unmarshal :: "('k, 'p) evm_crypto \<Rightarrow> bytes \<Rightarrow> 'k EvmKeyring \<Rightarrow> go_error option \<times> 'k EvmKeyring" where
  "evm_Unmarshal c b k =
     (case ec_ToECDSA c b of Inl err \<Rightarrow> (Some err, k) | Inr privateKey \<Rightarrow> (None, k\<lparr>ek_privateKey := privateKey\<rparr>))"

section \<open>Signatures\<close>

text \<open>
  Documented of go-ethereum: the public key recovered from a hash and its signature is the signer's,
  and encoding a key is inverted by decoding it.
\<close>

definition recovers_signer :: "('k, 'p) evm_crypto \<Rightarrow> bool" where
  "recovers_signer c \<longleftrightarrow> (\<forall>h k s. ec_Sign c h k = Inr s \<longrightarrow> ec_SigToPub c h s = Inr (ec_Public c k))"

definition key_codec :: "('k, 'p) evm_crypto \<Rightarrow> bool" where
  "key_codec c \<longleftrightarrow> (\<forall>k. ec_ToECDSA c (ec_FromECDSA c k) = Inr k)"

lemma own_signature_verifies:
  assumes "recovers_signer c" "evm_Sign c digest v report k = Inr s"
  shows "evm_Verify c (evm_PublicKey c k) digest v report s"
  using assms by (simp add: recovers_signer_def evm_Sign_def evm_Verify_def evm_PublicKey_def signingAddress_def)

text \<open>
  What is signed determines the report, the round and the digest, unless Keccak collides on the two
  reports or on the two messages.
\<close>

lemma round_word_inj: "inj (ucast :: 64 word \<Rightarrow> 256 word)"
  by (rule down_ucast_inj) (simp add: is_down)

lemma sigData_inj:
  assumes "sigData c digest v report = sigData c digest' v' report'"
  shows "ec_Keccak256 c report = ec_Keccak256 c report' \<and> digest = digest' \<and> v = v'"
proof -
  have "(ucast v :: 256 word) = ucast v' \<longleftrightarrow> v = v'" by (rule inj_eq [OF round_word_inj])
  then show ?thesis using assms by (simp add: sigData_def array_bytes_inj)
qed

lemma signature_binds_report:
  assumes "inj_on (ec_Keccak256 c) {report, report'}"
    and "inj_on (ec_Keccak256 c) {sigData c digest v report, sigData c digest' v' report'}"
    and "reportToSigData c digest v report = reportToSigData c digest' v' report'"
  shows "digest = digest' \<and> v = v' \<and> report = report'"
proof -
  have "sigData c digest v report = sigData c digest' v' report'"
    by (rule inj_onD [OF assms(2) assms(3) [unfolded reportToSigData_def]]) simp_all
  note same = sigData_inj [OF this]
  moreover have "report = report'" by (rule inj_onD [OF assms(1) same [THEN conjunct1]]) simp_all
  ultimately show ?thesis by blast
qed

lemma unmarshal_marshal:
  assumes "key_codec c"
  shows "evm_Unmarshal c (evm_Marshal c k) k' = (None, k)"
  using assms by (simp add: key_codec_def evm_Unmarshal_def evm_Marshal_def)

end
