(* ===== verification/Sim_Stats.thy ===== *)
theory Sim_Stats
  imports Sim_Sort Sim_Transmit Sim_Loader
begin

text \<open>
  The end-of-run statistics of \<open>tools/simulator/node\<close>: the per-upkeep figures (\<open>stats.go\<close>), the quartiles
  (\<open>statistics.go\<close>) and the figures \<open>Group.ReportResults\<close> computes from them (\<open>report.go\<close>). The averages
  are rationals, which the code keeps as \<open>float64\<close>. \<open>UpkeepIdentifier.String\<close> is an argument (\<open>idStr\<close>),
  as is the encoder; a map that is ranged over comes with the order of the iteration.
\<close>

section \<open>Decimal strings\<close>

lemma format_d_hd_digit: "\<exists>d<10. hd (format_d n) = dec_digit d"
proof (induction n rule: format_d.induct)
  case (1 n)
  then show ?case by (subst format_d.simps) auto
qed

text \<open>\<open>String\<close> of a possibly nil pointer\<close>

definition bigPtr_String :: "int option \<Rightarrow> string" where
  "bigPtr_String p = (case p of None \<Rightarrow> ''<nil>'' | Some z \<Rightarrow> big_String z)"

section \<open>Statistics builder\<close>

record upkeepStatsBuilder =
  sb_src :: "SimulatedUpkeep list"
  sb_performsByID :: "string \<Rightarrow> string list option"
  sb_eligiblesByID :: "string \<Rightarrow> string list option"
  sb_checksByID :: "string \<Rightarrow> string list option"
  sb_trsByID :: "string \<Rightarrow> ChainTransmit list option"
  sb_accountTransmits :: "string \<Rightarrow> nat option"

definition count_account :: "string \<Rightarrow> (string \<Rightarrow> nat option) \<Rightarrow> (string \<Rightarrow> nat option)" where
  "count_account a m = m(a \<mapsto> (case m a of None \<Rightarrow> 0 | Some n \<Rightarrow> n) + 1)"

type_synonym transmit_maps =
  "(string \<Rightarrow> nat option) \<times> (string \<Rightarrow> string list option) \<times> (string \<Rightarrow> ChainTransmit list option)"

fun collect_transmits ::
    "(256 word \<Rightarrow> string) \<Rightarrow> (bytes \<Rightarrow> ReportedUpkeep list result) \<Rightarrow> ChainTransmit list \<Rightarrow> transmit_maps \<Rightarrow>
     transmit_maps result" where
  "collect_transmits idStr extract [] maps = Inr maps"
| "collect_transmits idStr extract (tr # trs) (accTr, performs, byID) =
     (case extract (ct_Report tr) of
        Inl err \<Rightarrow> Inl err
      | Inr reported \<Rightarrow>
          collect_transmits idStr extract trs
            (count_account (ct_SendingAddress tr) accTr,
             fold (\<lambda>r. append_at (idStr (ru_UpkeepID r)) (bigPtr_String (ct_BlockNumber tr))) reported performs,
             fold (\<lambda>r. append_at (idStr (ru_UpkeepID r)) tr) reported byID))"

definition newUpkeepStatsBuilder ::
    "(256 word \<Rightarrow> string) \<Rightarrow> (bytes \<Rightarrow> ReportedUpkeep list result) \<Rightarrow> SimulatedUpkeep list \<Rightarrow> ChainTransmit list \<Rightarrow>
     (string \<Rightarrow> string list option) \<Rightarrow> upkeepStatsBuilder result" where
  "newUpkeepStatsBuilder idStr extract upkeeps transmits checks =
     (case collect_transmits idStr extract transmits (Map.empty, Map.empty, Map.empty) of
        Inl err \<Rightarrow> Inl err
      | Inr (accTr, performs, byID) \<Rightarrow>
          Inr \<lparr>sb_src = upkeeps, sb_performsByID = performs,
               sb_eligiblesByID =
                 fold (\<lambda>u m. m(idStr (su_UpkeepID u) \<mapsto> map big_String (su_EligibleAt u))) upkeeps Map.empty,
               sb_checksByID = checks, sb_trsByID = byID, sb_accountTransmits = accTr\<rparr>)"

definition UpkeepIDs :: "(256 word \<Rightarrow> string) \<Rightarrow> upkeepStatsBuilder \<Rightarrow> string list" where
  "UpkeepIDs idStr b =
     fold (\<lambda>u allIDs. if idStr (su_UpkeepID u) \<in> set allIDs then allIDs else allIDs @ [idStr (su_UpkeepID u)])
       (sb_src b) []"

definition Eligibles :: "string \<Rightarrow> upkeepStatsBuilder \<Rightarrow> string list" where
  "Eligibles uid b = listed (sb_eligiblesByID b) uid"

definition Performs :: "string \<Rightarrow> upkeepStatsBuilder \<Rightarrow> string list" where
  "Performs uid b = listed (sb_performsByID b) uid"

definition TransmitEvents :: "string \<Rightarrow> upkeepStatsBuilder \<Rightarrow> ChainTransmit list" where
  "TransmitEvents uid b = listed (sb_trsByID b) uid"

definition Checks :: "string \<Rightarrow> upkeepStatsBuilder \<Rightarrow> string list" where
  "Checks uid b = listed (sb_checksByID b) uid"

record upkeepStats =
  us_Eligible :: int
  us_Missed :: int
  us_AvgPerformDelay :: rat
  us_AvgCheckDelay :: rat

text \<open>
  One turn of the inner loops: the first later entry from \<open>startAt\<close> on, compared as strings, gives
  the difference that is averaged in, and the scan goes on after it. \<open>Sub\<close> of a nil operand panics.
\<close>

definition delay_step :: "string list \<Rightarrow> string \<Rightarrow> rat \<times> nat \<Rightarrow> (rat \<times> nat) result" where
  "delay_step events e = (\<lambda>(delay, startAt).
     case find (\<lambda>j. events ! j > e) [startAt..<length events] of
       None \<Rightarrow> Inr (delay, startAt)
     | Some j \<Rightarrow>
         (case (big_SetString (events ! j), big_SetString e) of
            (Some a, Some b) \<Rightarrow>
              (let diff = bigInt_Int64 (a - b)
               in Inr (if diff \<ge> 0 then (if delay < 0 then of_int diff else (of_int diff + delay) / 2) else delay, j + 1))
          | _ \<Rightarrow> Inl (Panic ''nil pointer dereference'')))"

fun delay_loop :: "string list \<Rightarrow> string list \<Rightarrow> string list \<Rightarrow> rat \<times> nat \<Rightarrow> rat \<times> nat \<Rightarrow> (rat \<times> rat) result" where
  "delay_loop performed checked [] p c = Inr (fst p, fst c)"
| "delay_loop performed checked (e # eligible) p c =
     (case delay_step performed e p of
        Inl err \<Rightarrow> Inl err
      | Inr p' \<Rightarrow>
          (case delay_step checked e c of
             Inl err \<Rightarrow> Inl err
           | Inr c' \<Rightarrow> delay_loop performed checked eligible p' c'))"

text \<open>\<open>sort.Strings\<close> sorts the slices the maps hold, so the builder changes as well.\<close>

definition sort_at :: "string \<Rightarrow> (string \<Rightarrow> string list option) \<Rightarrow> (string \<Rightarrow> string list option)" where
  "sort_at k m = (case m k of None \<Rightarrow> m | Some xs \<Rightarrow> m(k \<mapsto> sort xs))"

definition UpkeepStats :: "string \<Rightarrow> upkeepStatsBuilder \<Rightarrow> (upkeepStats \<times> upkeepStatsBuilder) result" where
  "UpkeepStats uid b0 =
     (let b = b0\<lparr>sb_eligiblesByID := sort_at uid (sb_eligiblesByID b0),
                 sb_performsByID := sort_at uid (sb_performsByID b0),
                 sb_checksByID := sort_at uid (sb_checksByID b0)\<rparr>;
          eligible = Eligibles uid b; performed = Performs uid b
      in case delay_loop performed (Checks uid b) eligible (-1, 0) (-1, 0) of
           Inl err \<Rightarrow> Inl err
         | Inr (pDelay, cDelay) \<Rightarrow>
             Inr (\<lparr>us_Eligible = int (length eligible), us_Missed = int (length eligible) - int (length performed),
                   us_AvgPerformDelay = pDelay, us_AvgCheckDelay = cDelay\<rparr>, b))"

record transmitStats =
  ts_Account :: string
  ts_Count :: nat
  ts_Pct :: rat

definition Transmits :: "string list \<Rightarrow> upkeepStatsBuilder \<Rightarrow> transmitStats list" where
  "Transmits order b =
     (let cnt = (\<lambda>a. case sb_accountTransmits b a of None \<Rightarrow> 0 | Some n \<Rightarrow> n);
          s = sum_list (map cnt order)
      in map (\<lambda>a. \<lparr>ts_Account = a, ts_Count = cnt a, ts_Pct = of_nat (cnt a) / of_nat s * 100\<rparr>) order)"

section \<open>Quartiles and outliers\<close>

definition nth_go :: "'a list \<Rightarrow> nat \<Rightarrow> 'a result" where
  "nth_go xs i = (if i < length xs then Inr (xs ! i) else Inl (Panic ''index out of range''))"

definition findMedianAndSplitData :: "int list \<Rightarrow> (rat \<times> int list \<times> int list) result" where
  "findMedianAndSplitData values =
     (if even (length values) then
        (let idx = length values div 2
         in case nth_go values idx of
              Inl err \<Rightarrow> Inl err
            | Inr v \<Rightarrow>
                (case nth_go values (idx + 1) of
                   Inl err \<Rightarrow> Inl err
                 | Inr w \<Rightarrow> Inr (of_int (v + w) / 2, take idx values, drop idx values)))
      else
        (let idx = length values div 2 + 1
         in case nth_go values idx of
              Inl err \<Rightarrow> Inl err
            | Inr v \<Rightarrow> Inr (of_int v, take idx values, drop (idx + 1) values)))"

text \<open>The conversion of a \<open>float64\<close> to \<open>int\<close> drops the fraction.\<close>

definition go_int :: "rat \<Rightarrow> int" where
  "go_int q = (if q < 0 then - \<lfloor>- q\<rfloor> else \<lfloor>q\<rfloor>)"

definition MaxInt :: int where "MaxInt = 2 ^ 63 - 1"

definition findLowestAndOutliers :: "rat \<Rightarrow> int list \<Rightarrow> int \<times> nat" where
  "findLowestAndOutliers lowerFence xs =
     (let (lowest, outliers) =
            fold (\<lambda>x (lowest, outliers).
                if x < go_int lowerFence then (if x < lowest then x else lowest, outliers + 1) else (lowest, outliers))
              xs (MaxInt, 0)
      in (if lowest = MaxInt then -1 else lowest, outliers))"

definition findHighestAndOutliers :: "rat \<Rightarrow> int list \<Rightarrow> int \<times> nat" where
  "findHighestAndOutliers upperFence xs =
     fold (\<lambda>x (highest, outliers).
         if x > go_int upperFence then (if x > highest then x else highest, outliers + 1) else (highest, outliers))
       xs (-1, 0)"

section \<open>The figures of \<open>ReportResults\<close>\<close>

record ReportTotals =
  rt_totalIDs :: int
  rt_totalIDChecks :: int
  rt_totalEligibles :: int
  rt_totalPerforms :: int
  rt_totalMisses :: int
  rt_avgPerformDelay :: rat
  rt_avgCheckDelay :: rat
  rt_idCheckData :: "int list"

definition no_totals :: ReportTotals where
  "no_totals = \<lparr>rt_totalIDs = 0, rt_totalIDChecks = 0, rt_totalEligibles = 0, rt_totalPerforms = 0, rt_totalMisses = 0,
     rt_avgPerformDelay = -1, rt_avgCheckDelay = -1, rt_idCheckData = []\<rparr>"

definition average_in :: "rat \<Rightarrow> rat \<Rightarrow> rat" where
  "average_in new avg = (if new \<ge> 0 then (if avg < 0 then new else (avg + new) / 2) else avg)"

definition add_stats :: "upkeepStats \<Rightarrow> string list option \<Rightarrow> ReportTotals \<Rightarrow> ReportTotals" where
  "add_stats stats checks t =
     t\<lparr>rt_totalIDs := rt_totalIDs t + 1,
       rt_totalEligibles := rt_totalEligibles t + us_Eligible stats,
       rt_totalMisses := rt_totalMisses t + us_Missed stats,
       rt_totalPerforms := rt_totalPerforms t + (us_Eligible stats - us_Missed stats),
       rt_avgPerformDelay := average_in (us_AvgPerformDelay stats) (rt_avgPerformDelay t),
       rt_avgCheckDelay := average_in (us_AvgCheckDelay stats) (rt_avgCheckDelay t),
       rt_totalIDChecks := rt_totalIDChecks t + (case checks of None \<Rightarrow> 0 | Some cs \<Rightarrow> int (length cs)),
       rt_idCheckData := rt_idCheckData t @ [case checks of None \<Rightarrow> 0 | Some cs \<Rightarrow> int (length cs)]\<rparr>"

fun totals_loop :: "string list \<Rightarrow> upkeepStatsBuilder \<Rightarrow> ReportTotals \<Rightarrow> ReportTotals result" where
  "totals_loop [] b t = Inr t"
| "totals_loop (uid # uids) b t =
     (case UpkeepStats uid b of
        Inl err \<Rightarrow> Inl err
      | Inr (stats, b') \<Rightarrow> totals_loop uids b' (add_stats stats (sb_checksByID b' uid) t))"

record Quartiles =
  q_median :: rat
  q_q1 :: rat
  q_q3 :: rat
  q_inIQR :: nat
  q_lower :: "int \<times> nat"
  q_upper :: "int \<times> nat"

definition quartiles :: "int list \<Rightarrow> Quartiles result" where
  "quartiles idCheckData =
     (case findMedianAndSplitData idCheckData of
        Inl err \<Rightarrow> Inl err
      | Inr (median, q1Data, q3Data) \<Rightarrow>
          (case findMedianAndSplitData q1Data of
             Inl err \<Rightarrow> Inl err
           | Inr (q1, lowerOutliers, _) \<Rightarrow>
               (case findMedianAndSplitData q3Data of
                  Inl err \<Rightarrow> Inl err
                | Inr (q3, _, upperOutliers) \<Rightarrow>
                    (let iqr = q3 - q1
                     in Inr \<lparr>q_median = median, q_q1 = q1, q_q3 = q3,
                          q_inIQR = length (filter (\<lambda>x. of_int x \<ge> q1 \<and> of_int x \<le> q3) idCheckData),
                          q_lower = findLowestAndOutliers (q1 - 3 / 2 * iqr) lowerOutliers,
                          q_upper = findHighestAndOutliers (q3 + 3 / 2 * iqr) upperOutliers\<rparr>))))"

text \<open>
  A failed builder is only logged: the nil builder is then used. \<open>checks\<close> are the checks of the
  contract event collector, the builder's own.
\<close>

definition ReportResults ::
    "(256 word \<Rightarrow> string) \<Rightarrow> (bytes \<Rightarrow> ReportedUpkeep list result) \<Rightarrow> SimulatedUpkeep list \<Rightarrow> ChainTransmit list \<Rightarrow>
     (string \<Rightarrow> string list option) \<Rightarrow> (ReportTotals \<times> Quartiles) result" where
  "ReportResults idStr extract upkeeps transmits checks =
     (case newUpkeepStatsBuilder idStr extract upkeeps transmits checks of
        Inl err \<Rightarrow> Inl (Panic ''nil pointer dereference'')
      | Inr b \<Rightarrow>
          (case totals_loop (UpkeepIDs idStr b) b no_totals of
             Inl err \<Rightarrow> Inl err
           | Inr t \<Rightarrow>
               (case quartiles (sort (rt_idCheckData t)) of
                  Inl err \<Rightarrow> Inl err
                | Inr q \<Rightarrow> Inr (t, q))))"

section \<open>When the report can be computed\<close>

lemma median_fails: "isl (findMedianAndSplitData xs) \<longleftrightarrow> length xs < 3"
proof (cases "even (length xs)")
  case True
  then obtain k where "length xs = 2 * k" by (elim evenE)
  then show ?thesis by (auto simp: findMedianAndSplitData_def nth_go_def Let_def)
next
  case False
  then obtain k where "length xs = 2 * k + 1" by (elim oddE)
  then show ?thesis by (auto simp: findMedianAndSplitData_def nth_go_def Let_def)
qed

lemma median_ok: "(\<exists>r. findMedianAndSplitData xs = Inr r) \<longleftrightarrow> length xs \<ge> 3"
  using median_fails [of xs] by (cases "findMedianAndSplitData xs") auto

lemma median_split_lengths:
  assumes "findMedianAndSplitData xs = Inr (m, a, b)"
  shows "length a = (if even (length xs) then length xs div 2 else length xs div 2 + 1)"
    and "length b = (if even (length xs) then length xs div 2 else length xs div 2 - 1)"
  using assms by (auto simp: findMedianAndSplitData_def nth_go_def Let_def split: if_splits) (auto elim!: evenE oddE)

lemma median_error: "findMedianAndSplitData xs = Inl err \<Longrightarrow> err = Panic ''index out of range''"
  by (auto simp: findMedianAndSplitData_def nth_go_def Let_def split: if_splits)

lemma quartiles_ok: "(\<exists>q. quartiles xs = Inr q) \<longleftrightarrow> length xs = 6 \<or> length xs \<ge> 8"
proof (cases "findMedianAndSplitData xs")
  case (Inl err)
  then have "\<not> length xs \<ge> 3" using median_ok [of xs] by auto
  with Inl show ?thesis by (simp add: quartiles_def)
next
  case (Inr r)
  obtain m a b where r: "r = (m, a, b)" by (cases r)
  have n: "length xs \<ge> 3" using Inr median_ok by blast
  note len = median_split_lengths [OF Inr [unfolded r]]
  have "(\<exists>q. quartiles xs = Inr q) \<longleftrightarrow>
      (\<exists>q. findMedianAndSplitData a = Inr q) \<and> (\<exists>q. findMedianAndSplitData b = Inr q)"
    using Inr r by (auto simp: quartiles_def Let_def split: sum.splits prod.splits)
  also have "\<dots> \<longleftrightarrow> length xs = 6 \<or> length xs \<ge> 8"
    unfolding median_ok len using n by presburger
  finally show ?thesis .
qed

lemma quartiles_error: "quartiles xs = Inl err \<Longrightarrow> err = Panic ''index out of range''"
  by (auto simp: quartiles_def Let_def split: sum.splits prod.splits dest: median_error)

lemma totals_loop_data:
  assumes "totals_loop uids b t = Inr t'"
  shows "length (rt_idCheckData t') = length (rt_idCheckData t) + length uids"
  using assms by (induction uids b t rule: totals_loop.induct)
    (auto simp: add_stats_def split: sum.splits prod.splits)

lemma collect_distinct:
  "set (fold (\<lambda>u ids. if f u \<in> set ids then ids else ids @ [f u]) us acc) = set acc \<union> f ` set us"
  "distinct acc \<Longrightarrow> distinct (fold (\<lambda>u ids. if f u \<in> set ids then ids else ids @ [f u]) us acc)"
  by (induction us arbitrary: acc) auto

lemma UpkeepIDs_set: "set (UpkeepIDs idStr b) = (\<lambda>u. idStr (su_UpkeepID u)) ` set (sb_src b)"
  by (simp add: UpkeepIDs_def collect_distinct)

lemma UpkeepIDs_distinct: "distinct (UpkeepIDs idStr b)"
  by (simp add: UpkeepIDs_def collect_distinct)

lemma builder_src:
  "newUpkeepStatsBuilder idStr extract upkeeps transmits checks = Inr b \<Longrightarrow> sb_src b = upkeeps"
  by (auto simp: newUpkeepStatsBuilder_def split: sum.splits)

lemma delay_step_error: "delay_step events e p = Inl err \<Longrightarrow> err = Panic ''nil pointer dereference''"
  by (auto simp: delay_step_def Let_def split: prod.splits option.splits)

lemma delay_loop_error: "delay_loop ps cs es p c = Inl err \<Longrightarrow> err = Panic ''nil pointer dereference''"
  by (induction ps cs es p c rule: delay_loop.induct) (auto split: sum.splits dest: delay_step_error)

lemma totals_loop_error: "totals_loop uids b t = Inl err \<Longrightarrow> err = Panic ''nil pointer dereference''"
  by (induction uids b t rule: totals_loop.induct)
    (auto simp: UpkeepStats_def Let_def split: sum.splits dest: delay_loop_error)

text \<open>
  C39: the report is computed only for six or at least eight distinct upkeeps: with fewer, or with
  seven, \<open>ReportResults\<close> panics whatever was transmitted and checked.
\<close>

theorem report_needs_upkeeps:
  assumes "n = card ((\<lambda>u. idStr (su_UpkeepID u)) ` set upkeeps)" "n < 6 \<or> n = 7"
  shows "\<exists>msg. ReportResults idStr extract upkeeps transmits checks = Inl (Panic msg)"
proof (cases "newUpkeepStatsBuilder idStr extract upkeeps transmits checks")
  case (Inr b)
  show ?thesis
  proof (cases "totals_loop (UpkeepIDs idStr b) b no_totals")
    case (Inl err)
    with Inr totals_loop_error [OF Inl] show ?thesis by (simp add: ReportResults_def)
  next
    case t: (Inr t)
    have "length (UpkeepIDs idStr b) = n"
      using UpkeepIDs_set [of idStr b] UpkeepIDs_distinct [of idStr b] builder_src [OF Inr] assms(1)
      by (metis distinct_card)
    then have "length (sort (rt_idCheckData t)) = n"
      using totals_loop_data [OF t] by (simp add: no_totals_def)
    then have "\<not> (\<exists>q. quartiles (sort (rt_idCheckData t)) = Inr q)"
      unfolding quartiles_ok using assms(2) by auto
    then obtain err where "quartiles (sort (rt_idCheckData t)) = Inl err"
      by (cases "quartiles (sort (rt_idCheckData t))") auto
    then show ?thesis using Inr t quartiles_error by (auto simp: ReportResults_def)
  qed
qed (simp add: ReportResults_def)

theorem report_needs_upkeeps_witness:
  "\<exists>msg. ReportResults hex_EncodeToString (\<lambda>_. Inr []) [] [] Map.empty = Inl (Panic msg)"
  using report_needs_upkeeps [of 0 hex_EncodeToString "[]" "\<lambda>_. Inr []" "[]" "Map.empty"] by simp

text \<open>The middle elements are taken one position too far.\<close>

lemma median_is_shifted:
  "findMedianAndSplitData [1, 2, 3, 4, 5] = Inr (4, [1, 2, 3], [5])"
  "findMedianAndSplitData [1, 2, 3, 4] = Inr (7 / 2, [1, 2], [3, 4])"
  by (simp_all add: findMedianAndSplitData_def nth_go_def Let_def)

section \<open>What the figures count\<close>

definition reported_for :: "(256 word \<Rightarrow> string) \<Rightarrow> (bytes \<Rightarrow> ReportedUpkeep list result) \<Rightarrow> string \<Rightarrow> ChainTransmit \<Rightarrow> ReportedUpkeep list" where
  "reported_for idStr extract uid tr =
     (case extract (ct_Report tr) of Inl _ \<Rightarrow> [] | Inr rs \<Rightarrow> filter (\<lambda>r. idStr (ru_UpkeepID r) = uid) rs)"

lemma collect_transmits_performs:
  assumes "collect_transmits idStr extract trs (acc, performs, byID) = Inr (acc', performs', byID')"
  shows "listed performs' k = listed performs k @
      concat (map (\<lambda>tr. map (\<lambda>_. bigPtr_String (ct_BlockNumber tr)) (reported_for idStr extract k tr)) trs)"
    and "listed byID' k = listed byID k @
      concat (map (\<lambda>tr. map (\<lambda>_. tr) (reported_for idStr extract k tr)) trs)"
  using assms
  by (induction trs arbitrary: acc performs byID)
    (auto simp: listed_fold_append_at reported_for_def split: sum.splits)

lemma builder_performs:
  assumes "newUpkeepStatsBuilder idStr extract upkeeps transmits checks = Inr b"
  shows "Performs k b =
    concat (map (\<lambda>tr. map (\<lambda>_. bigPtr_String (ct_BlockNumber tr)) (reported_for idStr extract k tr)) transmits)"
  using assms collect_transmits_performs(1) [of idStr "extract" transmits "Map.empty" "Map.empty" "Map.empty"]
  by (auto simp: newUpkeepStatsBuilder_def Performs_def listed_def [of "Map.empty"] split: sum.splits)

lemma length_sort_at [simp]: "length (listed (sort_at k m) k') = length (listed m k')"
  by (simp add: listed_def sort_at_def split: option.splits)

lemma UpkeepStats_lengths:
  assumes "UpkeepStats uid b = Inr (stats, b')"
  shows "length (Performs k b') = length (Performs k b)" "length (Eligibles k b') = length (Eligibles k b)"
    "us_Eligible stats = int (length (Eligibles uid b))"
    "us_Missed stats = int (length (Eligibles uid b)) - int (length (Performs uid b))"
  using assms by (auto simp: UpkeepStats_def Let_def Performs_def Eligibles_def split: sum.splits)

lemma totals_loop_totals:
  assumes "totals_loop uids b t = Inr t'"
  shows "rt_totalPerforms t' = rt_totalPerforms t + int (\<Sum>uid\<leftarrow>uids. length (Performs uid b))"
    and "rt_totalEligibles t' = rt_totalEligibles t + int (\<Sum>uid\<leftarrow>uids. length (Eligibles uid b))"
    and "rt_totalMisses t' = rt_totalMisses t + int (\<Sum>uid\<leftarrow>uids. length (Eligibles uid b))
      - int (\<Sum>uid\<leftarrow>uids. length (Performs uid b))"
  using assms
proof (induction uids arbitrary: b t)
  case (Cons uid uids)
  {
    case 1
    then show ?case using Cons.IH(1) by (auto simp: add_stats_def UpkeepStats_lengths split: sum.splits prod.splits)
  next
    case 2
    then show ?case using Cons.IH(2) by (auto simp: add_stats_def UpkeepStats_lengths split: sum.splits prod.splits)
  next
    case 3
    then show ?case using Cons.IH(3) by (auto simp: add_stats_def UpkeepStats_lengths split: sum.splits prod.splits)
  }
qed auto

lemma sum_list_distinct_filters:
  "distinct ks \<Longrightarrow> (\<Sum>k\<leftarrow>ks. length (filter (\<lambda>r. f r = k) rs)) = length (filter (\<lambda>r. f r \<in> set ks) rs)"
proof (induction rs)
  case (Cons r rs)
  have "(\<Sum>k\<leftarrow>ks. if f r = k then Suc 0 else 0) = (if f r \<in> set ks then 1 else 0)"
    using Cons.prems by (induction ks) auto
  moreover have "(\<Sum>k\<leftarrow>ks. length (filter (\<lambda>r. f r = k) (r # rs))) =
      (\<Sum>k\<leftarrow>ks. if f r = k then Suc 0 else 0) + (\<Sum>k\<leftarrow>ks. length (filter (\<lambda>r. f r = k) rs))"
    unfolding sum_list_addf [symmetric] by (rule arg_cong [of _ _ sum_list]) auto
  ultimately show ?case using Cons by simp
qed simp

text \<open>The results a run of transmits reports\<close>

definition reported_results :: "(bytes \<Rightarrow> ReportedUpkeep list result) \<Rightarrow> ChainTransmit list \<Rightarrow> ReportedUpkeep list" where
  "reported_results extract trs = concat (map (\<lambda>tr. case extract (ct_Report tr) of Inl _ \<Rightarrow> [] | Inr rs \<Rightarrow> rs) trs)"

lemma reported_for_results:
  "length (concat (map (\<lambda>tr. map (g tr) (reported_for idStr extract k tr)) trs)) =
     length (filter (\<lambda>r. idStr (ru_UpkeepID r) = k) (reported_results extract trs))"
  by (induction trs) (auto simp: reported_for_def reported_results_def split: sum.splits)

text \<open>
  When the report is computed, its total of performs is the number of results, over all the
  transmits of the run, whose upkeep is one of the plan's, and the eligible blocks it counts are
  the performs plus the misses; so a transmit that repeats a perform lowers the misses, which the
  total does not keep from being negative.
\<close>

lemma report_counts_performs:
  assumes "ReportResults idStr extract upkeeps transmits checks = Inr (t, q)"
  shows "rt_totalPerforms t = int (length (filter (\<lambda>r. idStr (ru_UpkeepID r) \<in> (\<lambda>u. idStr (su_UpkeepID u)) ` set upkeeps)
           (reported_results extract transmits)))
    \<and> rt_totalEligibles t = rt_totalPerforms t + rt_totalMisses t
    \<and> rt_totalIDs t = int (card ((\<lambda>u. idStr (su_UpkeepID u)) ` set upkeeps))"
proof -
  obtain b where b: "newUpkeepStatsBuilder idStr extract upkeeps transmits checks = Inr b"
    and t: "totals_loop (UpkeepIDs idStr b) b no_totals = Inr t"
    using assms by (auto simp: ReportResults_def split: sum.splits)
  let ?ids = "UpkeepIDs idStr b"
  have ids: "set ?ids = (\<lambda>u. idStr (su_UpkeepID u)) ` set upkeeps" "distinct ?ids"
    using UpkeepIDs_set builder_src [OF b] UpkeepIDs_distinct by simp_all
  have "(\<Sum>uid\<leftarrow>?ids. length (Performs uid b)) =
      (\<Sum>uid\<leftarrow>?ids. length (filter (\<lambda>r. idStr (ru_UpkeepID r) = uid) (reported_results extract transmits)))"
    unfolding builder_performs [OF b] reported_for_results ..
  also have "\<dots> = length (filter (\<lambda>r. idStr (ru_UpkeepID r) \<in> set ?ids) (reported_results extract transmits))"
    by (rule sum_list_distinct_filters [OF ids(2)])
  finally have "rt_totalPerforms t = int (length (filter (\<lambda>r. idStr (ru_UpkeepID r) \<in> set ?ids) (reported_results extract transmits)))"
    using totals_loop_totals(1) [OF t] by (simp add: no_totals_def)
  moreover have "rt_totalEligibles t = rt_totalPerforms t + rt_totalMisses t"
    using totals_loop_totals [OF t] by (simp add: no_totals_def)
  moreover have "rt_totalIDs t = int (length ?ids)"
  proof -
    have "rt_totalIDs t' = rt_totalIDs s + int (length uids)" if "totals_loop uids b s = Inr t'" for uids b s t'
      using that by (induction uids b s rule: totals_loop.induct) (auto simp: add_stats_def split: sum.splits prod.splits)
    from this [OF t] show ?thesis by (simp add: no_totals_def)
  qed
  ultimately show ?thesis using ids by (metis distinct_card)
qed

definition sample_stat_upkeep :: "nat \<Rightarrow> SimulatedUpkeep" where
  "sample_stat_upkeep k = \<lparr>su_ID = int k, su_CreateInBlock = 1, su_UpkeepID = of_nat k, su_Type = ConditionalType,
     su_AlwaysEligible = False, su_EligibleAt = [], su_TriggeredBy = [], su_CheckData = [], su_Expected = True\<rparr>"

definition sample_ids :: "256 word \<Rightarrow> string" where
  "sample_ids u = big_String (uint u)"

lemma sample_stats_report:
  "\<exists>q. ReportResults sample_ids (\<lambda>_. Inr []) (map sample_stat_upkeep [0..<6]) [] Map.empty =
     Inr (no_totals\<lparr>rt_totalIDs := 6, rt_idCheckData := replicate 6 0\<rparr>, q)"
proof -
  let ?b = "\<lambda>m. \<lparr>sb_src = map sample_stat_upkeep [0..<6], sb_performsByID = Map.empty, sb_eligiblesByID = m,
      sb_checksByID = Map.empty, sb_trsByID = Map.empty, sb_accountTransmits = Map.empty\<rparr>"
  have stats: "\<exists>m'. UpkeepStats uid (?b m) = Inr (\<lparr>us_Eligible = 0, us_Missed = 0, us_AvgPerformDelay = -1, us_AvgCheckDelay = -1\<rparr>, ?b m')
      \<and> (\<forall>k. listed m' k = [])" if "\<forall>k. listed m k = []" for uid m
  proof -
    have "listed (sort_at uid m) k = []" for k using that length_sort_at [of uid m k] by (metis length_0_conv)
    then show ?thesis
      by (auto simp: UpkeepStats_def Let_def Eligibles_def Performs_def sort_at_def [of _ "Map.empty"] listed_def [of "Map.empty"])
  qed
  have loop: "totals_loop uids (?b m) t =
      Inr (t\<lparr>rt_totalIDs := rt_totalIDs t + int (length uids), rt_idCheckData := rt_idCheckData t @ replicate (length uids) 0\<rparr>)"
    if "\<forall>k. listed m k = []" "rt_avgPerformDelay t = -1" "rt_avgCheckDelay t = -1" for uids m t
    using that
  proof (induction uids arbitrary: m t)
    case (Cons uid uids)
    obtain m' where "UpkeepStats uid (?b m) = Inr (\<lparr>us_Eligible = 0, us_Missed = 0, us_AvgPerformDelay = -1, us_AvgCheckDelay = -1\<rparr>, ?b m')"
      "\<forall>k. listed m' k = []" using stats [OF Cons.prems(1)] by blast
    with Cons.IH [of m'] Cons.prems show ?case by (simp add: add_stats_def average_in_def)
  qed simp
  have el: "\<forall>k. listed (fold (\<lambda>u m. m(sample_ids (su_UpkeepID u) \<mapsto> map big_String (su_EligibleAt u)))
      (map sample_stat_upkeep ns) m0) k = []" if "\<forall>k. listed m0 k = []" for ns m0
    using that by (induction ns arbitrary: m0) (auto simp: sample_stat_upkeep_def listed_def)
  have "card ((\<lambda>u. sample_ids (su_UpkeepID u)) ` set (map sample_stat_upkeep [0..<6])) = 6"
    by (simp add: upt_rec sample_stat_upkeep_def sample_ids_def big_String_inj card_insert_if)
  then have len: "length (UpkeepIDs sample_ids (?b m)) = 6" for m
    using UpkeepIDs_set [of sample_ids "?b m"] UpkeepIDs_distinct [of sample_ids "?b m"] by (metis distinct_card upkeepStatsBuilder.select_convs(1))
  have "\<exists>q. quartiles (sort (replicate 6 0)) = Inr q" by (simp add: quartiles_ok)
  with loop [OF el, of "Map.empty" no_totals] len show ?thesis
    by (auto simp: ReportResults_def newUpkeepStatsBuilder_def listed_def [of "Map.empty"] no_totals_def)
qed

lemma report_counts_performs_witness:
  "\<exists>q. ReportResults sample_ids (\<lambda>_. Inr []) (map sample_stat_upkeep [0..<6]) [] Map.empty =
     Inr (no_totals\<lparr>rt_totalIDs := 6, rt_idCheckData := replicate 6 0\<rparr>, q)
   \<and> rt_totalPerforms (no_totals\<lparr>rt_totalIDs := 6, rt_idCheckData := replicate 6 0\<rparr>) =
       int (length (reported_results (\<lambda>_. Inr []) []))"
proof -
  obtain q where q: "ReportResults sample_ids (\<lambda>_. Inr []) (map sample_stat_upkeep [0..<6]) [] Map.empty =
     Inr (no_totals\<lparr>rt_totalIDs := 6, rt_idCheckData := replicate 6 0\<rparr>, q)" using sample_stats_report by blast
  from report_counts_performs [OF q] q show ?thesis by (auto simp: reported_results_def)
qed

section \<open>Delays\<close>

definition delay_fine :: "rat \<Rightarrow> bool" where
  "delay_fine d \<longleftrightarrow> d = -1 \<or> d \<ge> 1"

lemma delay_step_fine:
  assumes S: "same_width S" "\<forall>z\<in>S. z < 2 ^ 63" "set events \<subseteq> big_String ` S" "e \<in> big_String ` S"
    and d: "delay_fine d"
  shows "\<exists>d' j. delay_step events e (d, i) = Inr (d', j) \<and> delay_fine d'"
proof (cases "find (\<lambda>j. events ! j > e) [i..<length events]")
  case (Some j)
  then have j: "events ! j > e" "j < length events" by (auto simp: find_Some_iff)
  obtain x y where x: "events ! j = big_String x" "x \<in> S" and y: "e = big_String y" "y \<in> S"
    using S(3,4) j(2) by (meson imageE nth_mem subsetD)
  have "y < x"
    using j(1) x y big_String_mono [OF S(1)] by (metis less_asym linorder_less_linear strict_mono_onD)
  moreover have "0 \<le> y" "x < 2 ^ 63" using x y S(1,2) unfolding same_width_def by auto
  ultimately have "bigInt_Int64 (x - y) = x - y" by (simp add: bigInt_Int64_def int64_def)
  moreover have "(1 :: rat) \<le> of_int (x - y)" using \<open>y < x\<close> by (metis of_int_1_le_iff zle_diff1_eq zless_imp_add1_zle le_diff_eq add.commute)
  ultimately show ?thesis
    using Some x y d \<open>y < x\<close> by (auto simp: delay_step_def Let_def delay_fine_def)
qed (use d in \<open>simp add: delay_step_def\<close>)

text \<open>
  With block numbers of one width every delay is at least one block, and none is recorded as \<open>-1\<close>.
\<close>

lemma delays_positive:
  assumes "same_width S" "\<forall>z\<in>S. z < 2 ^ 63"
    and "set performed \<subseteq> big_String ` S" "set checked \<subseteq> big_String ` S" "set eligible \<subseteq> big_String ` S"
    and "delay_fine (fst p)" "delay_fine (fst c)"
  shows "\<exists>pd cd. delay_loop performed checked eligible p c = Inr (pd, cd) \<and> delay_fine pd \<and> delay_fine cd"
  using assms(5-7)
proof (induction eligible arbitrary: p c)
  case (Cons e es)
  obtain pd pj cd cj where "delay_step performed e p = Inr (pd, pj)" "delay_fine pd"
      "delay_step checked e c = Inr (cd, cj)" "delay_fine cd"
    using delay_step_fine [OF assms(1-3), of e "fst p" "snd p"]
      delay_step_fine [OF assms(1,2,4), of e "fst c" "snd c"] Cons.prems by auto
  with Cons.IH [of "(pd, pj)" "(cd, cj)"] Cons.prems(1) show ?case by simp
qed simp

text \<open>Across a change of width a later perform is skipped: block 100 does not follow block 99.\<close>

lemma delay_across_digits:
  "delay_step [big_String 100] (big_String 99) (-1, 0) = Inr (-1, 0)"
  by (simp add: delay_step_def big_String_def format_d.simps dec_digit_def less_char_def)

lemma nil_above_number: "big_String z < ''<nil>''"
proof -
  obtain d where "d < 10" "hd (format_d (nat z)) = dec_digit d" using format_d_hd_digit by blast
  then have "format_d (nat z) < ''<nil>''"
    by (cases "format_d (nat z)") (auto simp: dec_digit_def less_char_def)
  then show ?thesis by (auto simp: big_String_def less_char_def)
qed

text \<open>
  A report that was transmitted and never loaded into a block has no block number: when it holds
  the only performs of an upkeep with an eligible block, the statistics panic.
\<close>

lemma unloaded_transmit_panics:
  assumes "Performs uid b = replicate (Suc n) (bigPtr_String None)"
    and "Eligibles uid b = map big_String zs" "zs \<noteq> []"
  shows "UpkeepStats uid b = Inl (Panic ''nil pointer dereference'')"
proof -
  have "sort (replicate m x) = replicate m x" for m and x :: string
    by (simp add: sorted_sort_id)
  then have p: "listed (sort_at uid (sb_performsByID b)) uid = replicate (Suc n) ''<nil>''"
    using assms(1) by (auto simp: Performs_def listed_def sort_at_def bigPtr_String_def simp del: replicate_Suc split: option.splits)
  obtain y ys where "sort (map big_String zs) = y # ys"
    using assms(3) by (cases "sort (map big_String zs)") (auto dest: arg_cong [of _ _ length])
  then have e: "listed (sort_at uid (sb_eligiblesByID b)) uid = y # ys" and "y \<in> big_String ` set zs"
    using assms(2,3) by (auto simp: Eligibles_def listed_def sort_at_def split: option.splits dest: arg_cong [of _ _ set])
  then have "y < ''<nil>''" using nil_above_number by auto
  then have "find (\<lambda>j. replicate (Suc n) ''<nil>'' ! j > y) [0..<Suc n] = Some 0" by (simp add: upt_rec [of 0])
  moreover have "big_SetString ''<nil>'' = None" by (simp add: big_SetString_def digit_val_def)
  ultimately have "delay_step (replicate (Suc n) ''<nil>'') y (-1, 0) = Inl (Panic ''nil pointer dereference'')"
    by (simp add: delay_step_def del: upt_Suc replicate_Suc)
  then show ?thesis by (simp add: UpkeepStats_def Let_def Performs_def Eligibles_def p e del: replicate_Suc)
qed

section \<open>Transmits per account\<close>

lemma Transmits_percent:
  assumes "distinct order" "set order = dom (sb_accountTransmits b)" "\<exists>a n. sb_accountTransmits b a = Some n \<and> n > 0"
  shows "(\<Sum>ts\<leftarrow>Transmits order b. ts_Pct ts) = 100"
proof -
  let ?cnt = "\<lambda>a. case sb_accountTransmits b a of None \<Rightarrow> 0 | Some n \<Rightarrow> n"
  obtain a n where "sb_accountTransmits b a = Some n" "n > 0" using assms(3) by blast
  then have "a \<in> set order" "?cnt a \<noteq> 0" using assms(2) by auto
  then have "sum_list (map ?cnt order) \<noteq> 0" unfolding sum_list_eq_0_iff by fastforce
  then have pos: "(of_nat (sum_list (map ?cnt order)) :: rat) \<noteq> 0" by (metis of_nat_eq_0_iff)
  have frac: "(\<Sum>a\<leftarrow>xs. (of_nat (?cnt a) :: rat) / c * 100) = of_nat (sum_list (map ?cnt xs)) / c * 100" for c xs
    by (induction xs) (simp_all add: add_divide_distrib distrib_right)
  have "(\<Sum>ts\<leftarrow>Transmits order b. ts_Pct ts) = (\<Sum>a\<leftarrow>order. of_nat (?cnt a) / of_nat (sum_list (map ?cnt order)) * 100)"
    unfolding Transmits_def Let_def map_map by (simp add: o_def)
  also have "\<dots> = of_nat (sum_list (map ?cnt order)) / of_nat (sum_list (map ?cnt order)) * 100" by (rule frac)
  also have "\<dots> = 100" using pos by (metis divide_self mult_1)
  finally show ?thesis .
qed

end
