(* ===== verification/Sim_Telemetry.thy ===== *)
theory Sim_Telemetry
  imports Sim_Net Sim_Stats "HOL-Library.Sublist"
begin

text \<open>
  The collectors of \<open>tools/simulator/telemetry\<close>: the checks of every upkeep per node (\<open>contract.go\<close>) and
  the RPC calls per node with the chart data built from them (\<open>rpc.go\<close>). A node's collector is found
  by its name; \<open>Data\<close> ranges over the nodes, whose order is an argument. The charts themselves, the
  files and the progress bar belong to third-party libraries.
\<close>

section \<open>Contract events\<close>

record WrappedContractCollector =
  wc_name :: string
  wc_keyChecks :: "string \<Rightarrow> nat option"
  wc_keyIDLookup :: "string \<Rightarrow> string list option"

type_synonym ContractEventCollector = "string \<Rightarrow> WrappedContractCollector option"

definition NewContractEventCollector :: ContractEventCollector where
  "NewContractEventCollector = Map.empty"

definition contract_AddNode :: "string \<Rightarrow> ContractEventCollector \<Rightarrow> ContractEventCollector" where
  "contract_AddNode node c =
     c(node \<mapsto> \<lparr>wc_name = node, wc_keyChecks = Map.empty, wc_keyIDLookup = Map.empty\<rparr>)"

definition ContractEventCollectorNode :: "string \<Rightarrow> ContractEventCollector \<Rightarrow> WrappedContractCollector result" where
  "ContractEventCollectorNode node c =
     (case c node of Some wc \<Rightarrow> Inr wc | None \<Rightarrow> Inl (Panic ''node not available''))"

definition CheckID :: "string \<Rightarrow> 64 word \<Rightarrow> WrappedContractCollector \<Rightarrow> WrappedContractCollector" where
  "CheckID upkeepID number wc =
     (let wc' = wc\<lparr>wc_keyChecks := count_account upkeepID (wc_keyChecks wc)\<rparr>; strBlock = format_d (unat number)
      in case wc_keyIDLookup wc upkeepID of
           Some blocks \<Rightarrow>
             if strBlock \<in> set blocks then wc'
             else wc'\<lparr>wc_keyIDLookup := (wc_keyIDLookup wc)(upkeepID \<mapsto> blocks @ [strBlock])\<rparr>
         | None \<Rightarrow> wc'\<lparr>wc_keyIDLookup := (wc_keyIDLookup wc)(upkeepID \<mapsto> [strBlock])\<rparr>)"

text \<open>
  One node of \<open>Data\<close>: the two inner loops treat every key of the node once, so their order is of no
  account. A second node's count is not added: what is there is added to itself.
\<close>

definition merge_checks :: "WrappedContractCollector \<Rightarrow> (string \<Rightarrow> nat option) \<Rightarrow> (string \<Rightarrow> nat option)" where
  "merge_checks node allKeyChecks = (\<lambda>key.
     case wc_keyChecks node key of
       None \<Rightarrow> allKeyChecks key
     | Some n \<Rightarrow> (case allKeyChecks key of None \<Rightarrow> Some n | Some v \<Rightarrow> Some (v + v)))"

definition merge_lookup ::
    "WrappedContractCollector \<Rightarrow> (string \<Rightarrow> string list option) \<Rightarrow> (string \<Rightarrow> string list option)" where
  "merge_lookup node allKeyIDLookup = (\<lambda>key.
     case wc_keyIDLookup node key of
       None \<Rightarrow> allKeyIDLookup key
     | Some ls \<Rightarrow>
         (case allKeyIDLookup key of
            None \<Rightarrow> Some ls
          | Some v \<Rightarrow> Some (fold (\<lambda>x v. if x \<in> set v then v else v @ [x]) ls v)))"

definition collector_Data ::
    "WrappedContractCollector list \<Rightarrow> (string \<Rightarrow> nat option) \<times> (string \<Rightarrow> string list option)" where
  "collector_Data nodes = (fold merge_checks nodes Map.empty, fold merge_lookup nodes Map.empty)"

subsection \<open>The blocks an upkeep was checked in\<close>

definition checked_run :: "(string \<times> 64 word) list \<Rightarrow> WrappedContractCollector \<Rightarrow> WrappedContractCollector" where
  "checked_run cs wc = fold (\<lambda>(uid, n). CheckID uid n) cs wc"

lemma listed_upd: "listed (m(k \<mapsto> xs)) k' = (if k' = k then xs else listed m k')"
  by (simp add: listed_def)

lemma CheckID_lookup:
  "set (listed (wc_keyIDLookup (CheckID uid n wc)) k) =
     set (listed (wc_keyIDLookup wc) k) \<union> (if k = uid then {format_d (unat n)} else {})"
  by (auto simp: CheckID_def Let_def listed_upd split: option.splits) (auto simp: listed_def)

lemma CheckID_distinct:
  "distinct (listed (wc_keyIDLookup wc) k) \<Longrightarrow> distinct (listed (wc_keyIDLookup (CheckID uid n wc)) k)"
  by (auto simp: CheckID_def Let_def listed_upd listed_def split: option.splits)

lemma checked_run_lookup:
  "set (listed (wc_keyIDLookup (checked_run cs wc)) k) =
     set (listed (wc_keyIDLookup wc) k) \<union> {format_d (unat n) | n. (k, n) \<in> set cs}"
  unfolding checked_run_def by (induction cs arbitrary: wc) (auto simp: CheckID_lookup split: if_splits)

lemma checked_run_distinct:
  "distinct (listed (wc_keyIDLookup wc) k) \<Longrightarrow> distinct (listed (wc_keyIDLookup (checked_run cs wc)) k)"
  unfolding checked_run_def by (induction cs arbitrary: wc) (auto simp: CheckID_distinct)

lemma merge_lookup_at:
  "set (listed (merge_lookup node m) k) = set (listed m k) \<union> set (listed (wc_keyIDLookup node) k)"
  "distinct (listed m k) \<Longrightarrow> distinct (listed (wc_keyIDLookup node) k) \<Longrightarrow> distinct (listed (merge_lookup node m) k)"
  by (auto simp: merge_lookup_def listed_def collect_distinct [where f = "\<lambda>x. x", simplified] split: option.splits)

lemma Data_lookup_at:
  "set (listed (fold merge_lookup nodes m) k) =
     set (listed m k) \<union> (\<Union>node\<in>set nodes. set (listed (wc_keyIDLookup node) k))"
  "distinct (listed m k) \<Longrightarrow> \<forall>node\<in>set nodes. distinct (listed (wc_keyIDLookup node) k) \<Longrightarrow>
     distinct (listed (fold merge_lookup nodes m) k)"
  by (induction nodes arbitrary: m) (auto simp: merge_lookup_at)

text \<open>
  The blocks the statistics read for an upkeep are, each once, the blocks in which some node
  checked it, for any sequence of checks on every node and whatever the order of the nodes.
\<close>

lemma checks_of_all_nodes:
  assumes "nodes = map (\<lambda>(name, cs). checked_run cs \<lparr>wc_name = name, wc_keyChecks = Map.empty, wc_keyIDLookup = Map.empty\<rparr>) runs"
  shows "set (listed (snd (collector_Data nodes)) k) = {format_d (unat n) | n name cs. (name, cs) \<in> set runs \<and> (k, n) \<in> set cs}
    \<and> distinct (listed (snd (collector_Data nodes)) k)"
proof
  let ?new = "\<lambda>name. \<lparr>wc_name = name, wc_keyChecks = Map.empty, wc_keyIDLookup = Map.empty\<rparr>"
  have run: "set (listed (wc_keyIDLookup (checked_run cs (?new name))) k) = {format_d (unat n) | n. (k, n) \<in> set cs}"
    and dist: "distinct (listed (wc_keyIDLookup (checked_run cs (?new name))) k)" for name cs
    using checked_run_lookup [of cs "?new name"] checked_run_distinct [of "?new name" k cs] by (simp_all add: listed_def)
  show "set (listed (snd (collector_Data nodes)) k) = {format_d (unat n) | n name cs. (name, cs) \<in> set runs \<and> (k, n) \<in> set cs}"
  proof -
    have "(\<Union>node\<in>set nodes. set (listed (wc_keyIDLookup node) k)) =
        (\<Union>r\<in>set runs. {format_d (unat n) | n. (k, n) \<in> set (snd r)})"
      unfolding assms by (simp add: split_beta run)
    also have "\<dots> = {format_d (unat n) | n name cs. (name, cs) \<in> set runs \<and> (k, n) \<in> set cs}" by fastforce
    finally show ?thesis by (simp add: collector_Data_def Data_lookup_at listed_def [of "Map.empty"])
  qed
  show "distinct (listed (snd (collector_Data nodes)) k)"
    unfolding collector_Data_def snd_conv assms using dist
    by (intro Data_lookup_at(2)) (auto simp: listed_def [of "Map.empty"])
qed

definition sample_runs :: "(string \<times> (string \<times> 64 word) list) list" where
  "sample_runs = [(''n1'', [(''u'', 3), (''u'', 3)]), (''n2'', [(''u'', 4)])]"

lemma checks_of_all_nodes_witness:
  "set (listed (snd (collector_Data (map (\<lambda>(name, cs). checked_run cs \<lparr>wc_name = name, wc_keyChecks = Map.empty,
     wc_keyIDLookup = Map.empty\<rparr>) sample_runs))) ''u'') = {format_d 3, format_d 4}"
proof -
  have "{format_d (unat n) | n name cs. (name, cs) \<in> set sample_runs \<and> (''u'', n) \<in> set cs} =
      {format_d (unat (3 :: 64 word)), format_d (unat (4 :: 64 word))}"
    unfolding sample_runs_def by (simp add: conj_disj_distribL conj_disj_distribR ex_disj_distrib) blast
  also have "\<dots> = {format_d 3, format_d 4}" by simp
  finally show ?thesis using checks_of_all_nodes [OF refl, of sample_runs "''u''"] by simp
qed

text \<open>The counts, however, double with every node after the first that checked the upkeep.\<close>

lemma checks_double:
  assumes "\<forall>node\<in>set nodes. wc_keyChecks node k \<noteq> None" "m k = Some n"
  shows "fold merge_checks nodes m k = Some (2 ^ length nodes * n)"
  using assms by (induction nodes arbitrary: m n) (auto simp: merge_checks_def)

section \<open>RPC calls\<close>

record rpcDataPoint =
  dp_Timestamp :: int
  dp_Name :: string
  dp_Latency :: duration
  dp_Err :: string

record WrappedRPCCollector =
  wr_rate :: "int list"
  wr_calls :: "rpcDataPoint list"

record RPCCollector =
  rc_filePath :: string
  rc_verbose :: bool
  rc_nodes :: "string \<Rightarrow> WrappedRPCCollector option"

definition NewNodeRPCCollector :: "string \<Rightarrow> bool \<Rightarrow> RPCCollector" where
  "NewNodeRPCCollector path verbose = \<lparr>rc_filePath = path, rc_verbose = verbose, rc_nodes = Map.empty\<rparr>"

definition rpc_AddNode :: "string \<Rightarrow> RPCCollector \<Rightarrow> RPCCollector" where
  "rpc_AddNode node c = c\<lparr>rc_nodes := (rc_nodes c)(node \<mapsto> \<lparr>wr_rate = [], wr_calls = []\<rparr>)\<rparr>"

definition RPCCollectorNode :: "string \<Rightarrow> RPCCollector \<Rightarrow> WrappedRPCCollector result" where
  "RPCCollectorNode node c =
     (case rc_nodes c node of None \<Rightarrow> Inl (Panic ''node not available'') | Some wc \<Rightarrow> Inr wc)"

text \<open>\<open>err\<close> is the text of the error, empty for nil.\<close>

definition rpc_Register :: "int \<Rightarrow> string \<Rightarrow> duration \<Rightarrow> string \<Rightarrow> WrappedRPCCollector \<Rightarrow> WrappedRPCCollector" where
  "rpc_Register now name latency err wc =
     wc\<lparr>wr_calls := wr_calls wc @ [\<lparr>dp_Timestamp = now, dp_Name = name, dp_Latency = latency, dp_Err = err\<rparr>]\<rparr>"

definition AddRateDataPoint :: "int \<Rightarrow> WrappedRPCCollector \<Rightarrow> WrappedRPCCollector" where
  "AddRateDataPoint calls wc = wc\<lparr>wr_rate := wr_rate wc @ [calls]\<rparr>"

subsection \<open>Chart data\<close>

record nodeStats =
  st_CallRateLabels :: "string list"
  st_CallRate :: "nat list"
  st_ErrorRate :: "nat list"
  st_ContextCancels :: "nat list"
  st_RateLimits :: "nat list"
  st_Latency :: "int list list"

definition strings_Contains :: "string \<Rightarrow> string \<Rightarrow> bool" where
  "strings_Contains s sub = sublist sub s"

text \<open>\<open>Sub\<close> of two times saturates at the ends of \<open>Duration\<close>.\<close>

definition time_Sub :: "int \<Rightarrow> int \<Rightarrow> duration" where
  "time_Sub t u = max (- (2 ^ 63)) (min (2 ^ 63 - 1) (t - u))"

definition bump :: "bool \<Rightarrow> nat \<Rightarrow> nat list \<Rightarrow> nat list" where
  "bump c i xs = (if c then xs[i := xs ! i + 1] else xs)"

text \<open>
  One point: a new column when ten seconds have passed since the first point of the current one, then
  the counts of the column with index \<open>idx\<close>, which panics while there is none.
\<close>

definition chart_column :: "int \<Rightarrow> nodeStats \<Rightarrow> nodeStats" where
  "chart_column idx stats =
     stats\<lparr>st_CallRateLabels := st_CallRateLabels stats @ [big_String (idx + 1)],
           st_CallRate := st_CallRate stats @ [0], st_ErrorRate := st_ErrorRate stats @ [0],
           st_ContextCancels := st_ContextCancels stats @ [0], st_RateLimits := st_RateLimits stats @ [0],
           st_Latency := st_Latency stats @ [[]]\<rparr>"

definition chart_count :: "rpcDataPoint \<Rightarrow> nat \<Rightarrow> nodeStats \<Rightarrow> nodeStats" where
  "chart_count point i stats =
     (let failed = dp_Err point \<noteq> []
      in stats\<lparr>st_CallRate := bump True i (st_CallRate stats), st_ErrorRate := bump failed i (st_ErrorRate stats),
           st_ContextCancels := bump (failed \<and> strings_Contains (dp_Err point) ''context'') i (st_ContextCancels stats),
           st_RateLimits := bump (failed \<and> strings_Contains (dp_Err point) ''rate'') i (st_RateLimits stats),
           st_Latency := (st_Latency stats)[i := st_Latency stats ! i @ [go_div (dp_Latency point) millisecond]]\<rparr>)"

fun chart_loop :: "rpcDataPoint list \<Rightarrow> nodeStats \<Rightarrow> int \<Rightarrow> int \<Rightarrow> nodeStats result" where
  "chart_loop [] stats idx timeReference = Inr stats"
| "chart_loop (point # points) stats idx timeReference =
     (let (stats, idx, timeReference) =
            (if time_Sub (dp_Timestamp point) timeReference \<ge> 10 * second
             then (chart_column idx stats, idx + 1, dp_Timestamp point) else (stats, idx, timeReference))
      in if idx < 0 then Inl (Panic ''index out of range'')
         else chart_loop points (chart_count point (nat idx) stats) idx timeReference)"

definition empty_stats :: nodeStats where
  "empty_stats = \<lparr>st_CallRateLabels = [], st_CallRate = [], st_ErrorRate = [], st_ContextCancels = [],
     st_RateLimits = [], st_Latency = []\<rparr>"

definition buildChartData :: "int \<Rightarrow> rpcDataPoint list \<Rightarrow> nodeStats result" where
  "buildChartData now points =
     (if points = [] then Inr empty_stats
      else chart_loop (sort_key dp_Timestamp points) empty_stats (-1) (now - 1000000 * (3600 * second)))"

definition generateLineItems :: "int list \<Rightarrow> (int \<times> nat) list" where
  "generateLineItems values = map (\<lambda>(i, v). (go_div v 10, i)) (enumerate 0 values)"

text \<open>The columns of a chart agree with each other.\<close>

definition chart_inv :: "rpcDataPoint list \<Rightarrow> int \<Rightarrow> nodeStats \<Rightarrow> bool" where
  "chart_inv ps idx st \<longleftrightarrow>
     int (length (st_CallRate st)) = idx + 1 \<and>
     st_CallRateLabels st = map (\<lambda>i. big_String (int i)) [0..<length (st_CallRate st)] \<and>
     length (st_ErrorRate st) = length (st_CallRate st) \<and> length (st_Latency st) = length (st_CallRate st) \<and>
     map length (st_Latency st) = st_CallRate st \<and>
     concat (st_Latency st) = map (\<lambda>p. go_div (dp_Latency p) millisecond) ps \<and>
     sum_list (st_CallRate st) = length ps \<and>
     sum_list (st_ErrorRate st) = length (filter (\<lambda>p. dp_Err p \<noteq> []) ps)"

lemma chart_inv_column: "chart_inv ps idx st \<Longrightarrow> chart_inv ps (idx + 1) (chart_column idx st)"
  by (auto simp: chart_inv_def chart_column_def)

lemma sum_list_bump: "i < length xs \<Longrightarrow> sum_list (bump c i xs) = sum_list xs + (if c then 1 else 0)"
  by (auto simp: bump_def sum_list_update elem_le_sum_list)

lemma length_bump [simp]: "length (bump c i xs) = length xs"
  by (simp add: bump_def)

lemma last_column: "xs \<noteq> [] \<Longrightarrow> concat (xs[length xs - 1 := xs ! (length xs - 1) @ ys]) = concat xs @ ys"
proof -
  assume "xs \<noteq> []"
  then obtain zs z where "xs = zs @ [z]" by (metis rev_exhaust)
  then show ?thesis by simp
qed

lemma chart_inv_count:
  assumes inv: "chart_inv ps idx st" and "0 \<le> idx"
  shows "chart_inv (ps @ [p]) idx (chart_count p (nat idx) st)"
proof -
  have i: "nat idx < length (st_CallRate st)" "nat idx = length (st_Latency st) - 1" "st_Latency st \<noteq> []"
    using assms by (auto simp: chart_inv_def)
  have "concat ((st_Latency st)[nat idx := st_Latency st ! nat idx @ [l]]) = concat (st_Latency st) @ [l]" for l
    unfolding i(2) by (rule last_column [OF i(3)])
  moreover have "map length ((st_Latency st)[nat idx := st_Latency st ! nat idx @ [l]]) = bump True (nat idx) (st_CallRate st)" for l
  proof -
    have m: "map length (st_Latency st) = st_CallRate st" and len: "length (st_Latency st) = length (st_CallRate st)"
      using inv by (auto simp: chart_inv_def)
    from i(1) len have "length (st_Latency st ! nat idx) = st_CallRate st ! nat idx" by (metis m nth_map)
    then show ?thesis by (simp add: bump_def map_update m)
  qed
  ultimately show ?thesis using inv i(1) unfolding chart_inv_def by (simp add: chart_count_def Let_def sum_list_bump)
qed

lemma chart_loop_counts:
  assumes "chart_inv done_ps idx st" "0 \<le> idx \<or> (\<forall>p\<in>set ps. time_Sub (dp_Timestamp p) ref \<ge> 10 * second)"
  shows "\<exists>st' idx'. chart_loop ps st idx ref = Inr st' \<and> chart_inv (done_ps @ ps) idx' st'"
  using assms
proof (induction ps arbitrary: done_ps idx st ref)
  case (Cons p ps)
  show ?case
  proof (cases "time_Sub (dp_Timestamp p) ref \<ge> 10 * second")
    case True
    have nonneg: "0 \<le> idx + 1" using Cons.prems(1) by (simp add: chart_inv_def)
    have "chart_inv (done_ps @ [p]) (idx + 1) (chart_count p (nat (idx + 1)) (chart_column idx st))"
      using Cons.prems(1) nonneg by (intro chart_inv_count chart_inv_column)
    from Cons.IH [OF this] nonneg True show ?thesis by simp
  next
    case False
    then have "0 \<le> idx" using Cons.prems(2) by auto
    from Cons.IH [OF chart_inv_count [OF Cons.prems(1) this]] this False show ?thesis by simp
  qed
qed auto

text \<open>
  For any calls made less than a million hours ago, the chart counts every call in exactly one
  column: the numbers of calls add up to the number of points, the errors to the failed ones, and the
  latencies listed column by column are those of the calls in the order of their times.
\<close>

lemma chart_counts_calls:
  assumes "\<forall>p\<in>set points. now - 1000000 * (3600 * second) + 10 * second \<le> dp_Timestamp p"
  shows "\<exists>st. buildChartData now points = Inr st
    \<and> sum_list (st_CallRate st) = length points
    \<and> sum_list (st_ErrorRate st) = length (filter (\<lambda>p. dp_Err p \<noteq> []) points)
    \<and> map length (st_Latency st) = st_CallRate st
    \<and> concat (st_Latency st) = map (\<lambda>p. go_div (dp_Latency p) millisecond) (sort_key dp_Timestamp points)"
proof (cases "points = []")
  case False
  have "chart_inv [] (-1) empty_stats" by (simp add: chart_inv_def empty_stats_def)
  moreover have "\<forall>p\<in>set (sort_key dp_Timestamp points).
      time_Sub (dp_Timestamp p) (now - 1000000 * (3600 * second)) \<ge> 10 * second"
    using assms by (fastforce simp: time_Sub_def second_def millisecond_def)
  ultimately obtain st idx where "buildChartData now points = Inr st" "chart_inv (sort_key dp_Timestamp points) idx st"
    using chart_loop_counts [of "[]" "-1" empty_stats "sort_key dp_Timestamp points" "now - 1000000 * (3600 * second)"] False
    unfolding buildChartData_def append_Nil by (metis if_False)
  moreover have "length (filter P (sort_key dp_Timestamp points)) = length (filter P points)" for P
    by (metis mset_filter mset_sort size_mset)
  ultimately show ?thesis by (auto simp: chart_inv_def)
qed (simp add: buildChartData_def empty_stats_def)

lemma chart_counts_calls_witness:
  "\<exists>st. buildChartData 0 [\<lparr>dp_Timestamp = 5, dp_Name = ''call'', dp_Latency = 50 * millisecond, dp_Err = []\<rparr>] = Inr st
    \<and> sum_list (st_CallRate st) = 1"
  using chart_counts_calls [of "[\<lparr>dp_Timestamp = 5, dp_Name = ''call'', dp_Latency = 50 * millisecond, dp_Err = []\<rparr>]" 0]
  by (auto simp: second_def millisecond_def)

end
