(* ===== verification/Spec2Isabelle.thy ===== *)
theory Spec2Isabelle
  imports Recoverer Delegate Protocol_Modify V2_Plugin V2_Service Sim_Node Sim_Group Sim_Ocr Sim_Keyring Sim_Telemetry
begin

text \<open>
  A verification development of chainlink-automation, the off-chain nodes that check upkeeps and
  agree, through OCR, on reports that perform them.

  \<^bold>\<open>The program.\<close> A node of version 3 (\<open>pkg/v3\<close>) runs six flows. Each flow ticks
  (\<open>tickers\<close>, \<open>flows\<close>), takes payloads from a provider or a queue (\<open>stores\<close>), drops the ones whose
  report is in flight (\<open>coordinator\<close>, \<open>preprocessors\<close>), checks the rest in parallel batches with a
  cache (\<open>runner\<close>, \<open>pkg/util\<close>), and files the results (\<open>postprocessors\<close>): performable ones in the
  result store, ineligible ones as states, retryable ones in the retry queue, proposals in the
  metadata store. The OCR3 protocol calls the plugin (\<open>plugin/ocr3.go\<close>) on the same stores: the
  hooks (\<open>plugin/hooks\<close>) bring the stores in line with the previous outcome and fill an
  observation; the outcome is computed from everybody's observations by a vote on results
  (\<open>plugin/performable.go\<close>) and on blocks (\<open>plugin/coordinated_block_proposals.go\<close>); the agreed
  results are cut into reports, which are accepted and transmitted under the coordinator's
  control. Version 2 (\<open>pkg/v2\<close>) is the older plugin on OCR2: a polling observer samples upkeeps at
  every head, the leader builds keys at the median block, checks them and reports them, and a
  coordinator tracks what is in flight. The simulator (\<open>tools/simulator\<close>) runs version 3 nodes on a
  simulated chain: a broadcaster produces blocks, loaders put the events of a plan and the nodes'
  reports into them, trackers listening to the blocks stand for the contract behind the node's
  interfaces, and statistics are computed at the end.

  \<^bold>\<open>Theories and sources.\<close>
  \<^item> Shared: \<open>Go_Prelude\<close> (time, ranging over maps, 64-bit wrap-around, generic lemmas), \<open>Go_Format\<close>
    (\<open>fmt\<close> verbs), \<open>Automation_Types\<close> (the structs nodes exchange, the errors), \<open>Interfaces\<close> (the
    locales \<open>newest_wins\<close>, \<open>tally\<close> and \<open>lifecycle\<close>), \<open>Samples\<close> (concrete values for the
    applications of theorems), \<open>Go_Random\<close> (\<open>random\<close>: round keys and shuffles).
  \<^item> Building blocks: \<open>Util_Cache\<close> (\<open>pkg/util/cache.go\<close>, \<open>cleaner.go\<close>; locale \<open>ttl_cache\<close>),
    \<open>Util_Closer\<close> (\<open>internal/util/closer.go\<close>), \<open>Worker_Group\<close> (\<open>pkg/util/worker.go\<close>, an interleaving
    of atomic steps), \<open>Runner\<close> (\<open>runner\<close>, \<open>internal/util/array.go\<close>), \<open>Recoverer\<close>
    (\<open>service/recoverable.go\<close>).
  \<^item> Stores: \<open>Result_Store\<close>, \<open>Proposal_Queue\<close>, \<open>Retry_Queue\<close>, \<open>Metadata_Store\<close> (\<open>stores\<close>),
    \<open>Coordinator\<close> (\<open>coordinator\<close>).
  \<^item> Protocol: \<open>Observation\<close> and \<open>Outcome\<close> (the messages and their validation), \<open>Performables\<close>,
    \<open>Coordinated_Proposals\<close>, \<open>Hooks\<close>, \<open>Ocr3_Plugin\<close> (the functions of \<open>ocr3.go\<close>), \<open>Ocr3_Reports\<close> and
    \<open>Ocr3_Observation\<close> (what they guarantee).
  \<^item> Assembly: \<open>Pipeline\<close> (observer, pre- and postprocessors, ticks, flows), \<open>Config\<close>, \<open>Node\<close>
    (\<open>plugin.go\<close>, \<open>factory.go\<close> and the step relation of a whole node), \<open>Delegate\<close> (\<open>delegate.go\<close> of both
    versions).
  \<^item> Version 2: \<open>V2_Encoding\<close> (\<open>encoding/basic.go\<close>), \<open>V2_Coordinator\<close>, \<open>V2_Observation\<close>
    (\<open>observation.go\<close>, \<open>shuffle.go\<close>, \<open>encode.go\<close>), \<open>V2_Runner\<close>, \<open>V2_Observer\<close> (\<open>observer/polling\<close>),
    \<open>V2_Config\<close>, \<open>V2_Plugin\<close> (\<open>ocr.go\<close>, \<open>crypto.go\<close>, \<open>factory.go\<close>), \<open>V2_Service\<close>
    (\<open>internal/util/recoverable.go\<close>).
  \<^item> Simulator, data: \<open>Sim_Util\<close> (\<open>util/encode.go\<close>), \<open>Sim_Sort\<close> (\<open>util/sort.go\<close>; locale \<open>sorted_map\<close>),
    \<open>Sim_Plan\<close> (\<open>config\<close>), \<open>Sim_Generate\<close> (\<open>simulate/chain/block.go\<close>, \<open>generate.go\<close>).
  \<^item> Simulator, chain: \<open>Sim_Broadcaster\<close>, \<open>Sim_Chain\<close> (listeners and block history), \<open>Sim_Loader\<close> and
    \<open>Sim_Transmit\<close> (\<open>simulate/loader\<close>), \<open>Sim_Group\<close> (\<open>node/group.go\<close>, the running chain; locale
    \<open>block_loader\<close>).
  \<^item> Simulator, nodes: \<open>Sim_Upkeep\<close> and \<open>Sim_Pipeline\<close> (\<open>simulate/upkeep\<close>), \<open>Sim_Ocr\<close> (\<open>simulate/ocr\<close>,
    \<open>db\<close>), \<open>Sim_Net\<close> (\<open>simulate/net\<close>), \<open>Node_Payloads\<close> and \<open>Sim_Node\<close> (\<open>simulate/hydrator.go\<close>: the node
    of \<open>Node\<close> on these providers), \<open>Sim_Stats\<close> (\<open>node/stats.go\<close>, \<open>statistics.go\<close>, \<open>report.go\<close>),
    \<open>Sim_Keyring\<close> (\<open>config/keyring.go\<close>), \<open>Sim_Telemetry\<close> (\<open>telemetry\<close>).
  \<^item> Protocol tests: \<open>Protocol_Modify\<close> (\<open>tools/testprotocol/modify\<close>).

  Every definition has the name of the Go function, method or type it translates, with a prefix or
  suffix where a name would clash; a struct is a record with the struct's fields, a method takes
  the receiver last and returns it updated, an error is the left injection of a sum, a nil pointer
  or a missing map entry is \<^const>\<open>None\<close>, a run-time panic is the error \<open>Panic\<close>.

  \<^bold>\<open>What is shown.\<close>
  \<^item> Protocol safety: every outcome is valid and can be decoded, whatever faulty nodes send, so the
    protocol never gets stuck; a performable of an outcome, and a coordinated block, stem from a
    correct node; the outcome does not depend on the order of observations or of map ranging; no
    proposal is lost or surfaced while it is performed; reports partition the performables within
    all limits when each of them fits a report.
  \<^item> Node: in every interleaving of its goroutines the stores keep their invariant and the
    observation the node builds passes everybody's validation.
  \<^item> In flight: a report is accepted at most once per window, transmitted until confirmed, and its
    upkeep is not checked or proposed meanwhile, nor after it was performed while no other event of
    its work id is read. For version 2 the whole coordinator refines a clock-free state, from which the life of an accepted key and the convergence of nodes follow.
  \<^item> Stores and services: newest results win and are viewed until they expire, a proposal is
    dequeued once per block while its record lives; a check answers every payload once; the worker group and the recoverer come to rest only when
    their work is done and never run more than they may.
  \<^item> Version 2: keys round-trip, the block of a report is bounded by correct nodes, observed
    identifiers are eligible and not pending, reports keep their limits.
  \<^item> Simulator: the chain has consecutive blocks with exactly the planned events and every accepted
    report once, in every interleaving; the generated upkeeps carry their types; the providers
    deliver logs once and transmits with their confirmations; a node on these providers keeps valid
    stores, with nothing assumed of the hashes, so that the hypotheses of the node's theorems hold
    there; eligibility means not performed since; the RPC service keeps its limits; which plans can
    be generated at all and which runs can be reported.
  \<^item> Errors: theorems and lemmas that exhibit where the code does not do what it means to; they are
    listed as findings in the manifest.

  \<^bold>\<open>Modelling decisions.\<close>
  Code outside the repository is an argument: JSON codecs, Keccak, AES, the draws of \<open>math/rand\<close>,
  the providers, the report encoder, the check pipeline behind the runner, the OCR oracle, the
  elliptic-curve signatures. What a theorem relies on is a named hypothesis: \<open>json_outcome\<close> (decoding
  gives back the outcome at hand, up to the retry intervals, which JSON does not carry),
  \<open>workID_ignores_block\<close> and \<open>workID_tells_upkeep\<close> (work ids do not depend on the check block and
  differ between upkeeps), \<open>encoder_ok\<close> (encoding observations succeeds and grows with them),
  injectivity of \<open>UniqueID\<close>, \<open>runnable_fine\<close> (eligible check results are filled in).
  The clock is read once per operation. A map is ranged over in any order that lists its keys once
  (\<open>range_order\<close>). \<open>sort.Slice\<close> is \<open>sort_key\<close>; where keys may be equal the keys are shown distinct or
  the result is shown not to depend on it. Batches complete in any order, an argument of
  \<open>RunJobs\<close>. A call under a lock is one step; \<open>Node\<close>, \<open>Worker_Group\<close> and \<open>Recoverer\<close> interleave
  such steps freely. The calls of the two coordinators and \<open>ClearExpired\<close> are one step too, although
  the source locks the cache for each access of theirs only: the theorems about them are about
  calls that do not overlap (\<open>ClearExpired_race\<close> shows what an overlapping collection can do).
  Machine integers are words or carry an explicit wrap-around; the sampling
  ratio is a rational, since the products the code forms are exact in \<open>float64\<close>. All recursive
  functions are total: loops are structural, or have a measure (the staging loop of \<open>Hooks\<close>,
  \<open>Unflatten\<close>, the encoding loop of version 2); no fuel is used. The one loop that may run forever,
  which lists the eligible blocks of a simulated upkeep, is a partial function into options, with a
  theorem that says when it returns. The service loops take the finite list of signals they
  receive. The decimals and averages of the simulator are rationals.

  \<^bold>\<open>Not modelled.\<close> Loggers, metrics, progress bars, charts and files (no decision reads them);
  context deadlines; the libocr oracle behind \<open>delegate.go\<close> and its wiring in \<open>node/add.go\<close>; the
  off-chain keyring of the simulator, whose methods forward to ed25519 and curve25519; the random
  sources of \<open>internal/util\<close>, which repeat those of \<open>pkg/v3\<close>; mocks; the command line under \<open>cmd\<close> and
  \<open>run\<close>; \<open>modify/byte.go\<close>, which adds entries to a map while it ranges over it and so has no result that
  is a function of its argument.
\<close>

end
